(* ===== verification/Prelude.thy ===== *)
theory Prelude
  imports "HOL-Library.Word" "HOL-Library.Monad_Syntax"
begin

text \<open>
  What every component of the development shares: the integer types of the C++ sources, the
  reading of undefined behaviour as \<open>None\<close>, bounds-checked arrays, the counting loop
  \<open>for_range\<close> with its invariant rules, the byte macros of \<open>src/core/modbus.cpp\<close> and the
  word lemmas the components need.
\<close>

unbundle bit_operations_syntax

section \<open>Types and collections\<close>

type_synonym u8 = "8 word"
type_synonym u16 = "16 word"
type_synonym c_int = "32 word"
type_synonym c_long = "64 word"

named_theorems c_simps \<open>unfolding of the array, pointer and byte accessors\<close>
named_theorems frame_simps \<open>what an operation leaves unchanged\<close>
named_theorems mb_wf \<open>well-formedness kept by the operations\<close>

section \<open>Arrays with C++ bounds\<close>

text \<open>
  A C++ array access outside the array is undefined behaviour. The accessors return
  \<open>None\<close> there, and \<open>None\<close> is propagated by \<open>Option.bind\<close> (the \<open>do\<close> notation).
\<close>

definition arr_get :: "'a list \<Rightarrow> nat \<Rightarrow> 'a option" where
  "arr_get xs i = (if i < length xs then Some (xs ! i) else None)"

definition arr_put :: "'a list \<Rightarrow> nat \<Rightarrow> 'a \<Rightarrow> 'a list option" where
  "arr_put xs i v = (if i < length xs then Some (xs[i := v]) else None)"

text \<open>A static array of \<open>n\<close> elements kept as a function of its index.\<close>

definition tab_get :: "nat \<Rightarrow> (nat \<Rightarrow> 'a) \<Rightarrow> nat \<Rightarrow> 'a option" where
  "tab_get n f i = (if i < n then Some (f i) else None)"

definition tab_put :: "nat \<Rightarrow> (nat \<Rightarrow> 'a) \<Rightarrow> nat \<Rightarrow> 'a \<Rightarrow> (nat \<Rightarrow> 'a) option" where
  "tab_put n f i v = (if i < n then Some (f(i := v)) else None)"

lemma arr_get_in [simp]: "i < length xs \<Longrightarrow> arr_get xs i = Some (xs ! i)"
  by (simp add: arr_get_def)

lemma arr_put_in [simp]: "i < length xs \<Longrightarrow> arr_put xs i v = Some (xs[i := v])"
  by (simp add: arr_put_def)

lemma tab_get_in [simp]: "i < n \<Longrightarrow> tab_get n f i = Some (f i)"
  by (simp add: tab_get_def)

lemma tab_get_out [simp]: "n \<le> i \<Longrightarrow> tab_get n f i = None"
  by (simp add: tab_get_def)

lemma tab_put_in [simp]: "i < n \<Longrightarrow> tab_put n f i v = Some (f(i := v))"
  by (simp add: tab_put_def)

lemma tab_put_out [simp]: "n \<le> i \<Longrightarrow> tab_put n f i v = None"
  by (simp add: tab_put_def)

lemma arr_get_eq_Some [simp]: "arr_get xs i = Some v \<longleftrightarrow> i < length xs \<and> v = xs ! i"
  by (auto simp: arr_get_def)

lemma arr_put_eq_Some [simp]: "arr_put xs i v = Some ys \<longleftrightarrow> i < length xs \<and> ys = xs[i := v]"
  by (auto simp: arr_put_def)

section \<open>Counting loops\<close>

text \<open>
  \<open>for_range lo n body\<close> is \<open>for (int i = lo; i < lo + n; i++) body\<close> over an explicit state.
\<close>

fun for_range :: "nat \<Rightarrow> nat \<Rightarrow> (nat \<Rightarrow> 's \<Rightarrow> 's option) \<Rightarrow> 's \<Rightarrow> 's option" where
  "for_range lo 0 body s = Some s"
| "for_range lo (Suc n) body s = do { s' \<leftarrow> body lo s; for_range (Suc lo) n body s' }"

lemma for_range_total:
  assumes step: "\<And>k s. lo \<le> k \<Longrightarrow> k < lo + n \<Longrightarrow> I k s \<Longrightarrow> \<exists>s'. body k s = Some s' \<and> I (Suc k) s'"
    and start: "I lo s"
  shows "\<exists>s'. for_range lo n body s = Some s' \<and> I (lo + n) s'"
  using assms
proof (induction n arbitrary: lo s)
  case 0
  then show ?case by simp
next
  case (Suc n)
  from Suc.prems(1)[of lo s] Suc.prems(2) obtain s1 where
    s1: "body lo s = Some s1" "I (Suc lo) s1" by auto
  have "\<exists>s'. for_range (Suc lo) n body s1 = Some s' \<and> I (Suc lo + n) s'"
    using Suc.prems(1) s1(2) by (intro Suc.IH) auto
  with s1(1) show ?case by simp
qed

lemma for_range_inv:
  assumes step: "\<And>k s s'. lo \<le> k \<Longrightarrow> k < lo + n \<Longrightarrow> I k s \<Longrightarrow> body k s = Some s' \<Longrightarrow> I (Suc k) s'"
    and start: "I lo s"
    and run: "for_range lo n body s = Some s'"
  shows "I (lo + n) s'"
  using assms
proof (induction n arbitrary: lo s)
  case 0
  then show ?case by simp
next
  case (Suc n)
  from Suc.prems(3) obtain s1 where
    s1: "body lo s = Some s1" "for_range (Suc lo) n body s1 = Some s'"
    by (auto simp: bind_eq_Some_conv)
  have "I (Suc lo) s1" using Suc.prems(1)[of lo s s1] Suc.prems(2) s1(1) by simp
  then have "I (Suc lo + n) s'" using Suc.prems(1) s1(2) by (intro Suc.IH) auto
  then show ?case by simp
qed

lemma for_range_add:
  "for_range lo (m + n) body s = do { s' \<leftarrow> for_range lo m body s; for_range (lo + m) n body s' }"
proof (induction m arbitrary: lo s)
  case 0
  then show ?case by simp
next
  case (Suc m)
  then show ?case by (cases "body lo s") simp_all
qed

lemma for_range_None:
  assumes "lo \<le> k" "k < lo + n" "\<And>s. body k s = None"
  shows "for_range lo n body s = None"
  using assms
proof (induction n arbitrary: lo s)
  case (Suc n)
  then show ?case by (cases "lo = k"; cases "body lo s") auto
qed simp

lemma for_range_0: "for_range lo 0 body = Some"
  by (rule ext) simp

lemma for_range_Suc_right:
  "for_range lo (Suc n) body s = do { s' \<leftarrow> for_range lo n body s; body (lo + n) s' }"
  using for_range_add [of lo n 1 body s] by (simp add: for_range_0 del: for_range.simps(1))

lemma for_range_cong:
  assumes "\<And>k s. lo \<le> k \<Longrightarrow> k < lo + n \<Longrightarrow> body k s = body' k s"
  shows "for_range lo n body s = for_range lo n body' s"
  using assms
proof (induction n arbitrary: lo s)
  case (Suc n)
  have "body lo s = body' lo s" using Suc.prems by simp
  moreover have "for_range (Suc lo) n body s' = for_range (Suc lo) n body' s'" for s'
    using Suc.prems by (intro Suc.IH) auto
  ultimately show ?case by (cases "body' lo s") simp_all
qed simp

lemma for_range_fix:
  assumes "\<And>k. lo \<le> k \<Longrightarrow> k < lo + n \<Longrightarrow> body k s = Some s"
  shows "for_range lo n body s = Some s"
  using assms by (induction n arbitrary: lo) auto

section \<open>Bytes and bits\<close>

text \<open>
  The macros of \<open>src/core/modbus.cpp\<close>, lines 63 to 69. \<open>c_word\<close> is its function
  \<open>word\<close>: two bytes shifted and or-ed into an \<open>int\<close>, here read as a natural number
  (it is never negative).
\<close>

definition lowByte :: "'a::len word \<Rightarrow> u8" where
  "lowByte w = ucast (w AND 0xff)"

definition highByte :: "'a::len word \<Rightarrow> u8" where
  "highByte w = ucast (drop_bit 8 w)"

definition bitRead :: "u8 \<Rightarrow> nat \<Rightarrow> u8" where
  "bitRead value n = drop_bit n value AND 1"

definition bitWrite :: "u8 \<Rightarrow> nat \<Rightarrow> u8 \<Rightarrow> u8" where
  "bitWrite value n bitvalue =
     (if bitvalue \<noteq> 0 then value OR push_bit n 1 else value AND NOT (push_bit n 1))"

definition c_word :: "u8 \<Rightarrow> u8 \<Rightarrow> nat" where
  "c_word byte1 byte2 = unat (push_bit 8 (ucast byte1 :: c_int) OR ucast byte2)"

lemma bit_u8_less: "bit (b :: u8) n \<Longrightarrow> n < 8"
  using bit_imp_le_length [of b n] by simp

lemma bit_u16_less: "bit (b :: u16) n \<Longrightarrow> n < 16"
  using bit_imp_le_length [of b n] by simp

lemma unat_u8_less [simp]: "unat (b :: u8) < 256"
  using unsigned_less [of b] by simp

lemma unat_u16_less [simp]: "unat (b :: u16) < 65536"
  using unsigned_less [of b] by simp

lemma take_bit_unat_u8 [simp]: "8 \<le> n \<Longrightarrow> take_bit n (unat (b :: u8)) = unat b"
  by (simp flip: unsigned_take_bit_eq add: take_bit_word_eq_self)

lemma take_bit_unat_u16 [simp]: "16 \<le> n \<Longrightarrow> take_bit n (unat (b :: u16)) = unat b"
  by (simp flip: unsigned_take_bit_eq add: take_bit_word_eq_self)

lemma c_word_eq: "c_word a b = 256 * unat a + unat b"
proof -
  have "push_bit 8 (ucast a :: c_int) AND ucast b = 0"
    by (rule bit_eqI) (auto simp: bit_simps dest: bit_u8_less)
  then have d: "push_bit 8 (ucast a :: c_int) OR ucast b = push_bit 8 (ucast a) + ucast b"
    by (rule disjunctive_add_eq_or [symmetric])
  have "unat a * 256 < 4294967296" using unat_u8_less [of a] by linarith
  moreover have "unat a * 256 + unat b < 4294967296"
    using unat_u8_less [of a] unat_u8_less [of b] by linarith
  moreover have "c_word a b = unat (push_bit 8 (ucast a :: c_int) + ucast b)"
    by (simp only: c_word_def d)
  ultimately show ?thesis
    by (simp add: unat_word_ariths push_bit_eq_mult unsigned_ucast_eq)
qed

lemma c_word_less: "c_word a b < 65536"
  using unat_u8_less [of a] unat_u8_less [of b] unfolding c_word_eq by linarith

lemma lowByte_ucast: "lowByte (w :: 'a::len word) = ucast w"
proof -
  have "(0xff :: 'a word) = mask 8"
    by (simp add: mask_eq_exp_minus_1)
  then have "w AND 0xff = take_bit 8 w"
    by (simp only: take_bit_eq_mask)
  then show ?thesis
    by (intro bit_eqI) (simp add: lowByte_def bit_simps)
qed

lemma lowByte_u16: "unat (lowByte (w :: u16)) = unat w mod 256"
  by (simp add: lowByte_ucast unsigned_ucast_eq take_bit_eq_mod)

lemma highByte_u16: "unat (highByte (w :: u16)) = unat w div 256"
proof -
  have "unat w div 256 < 256" using unat_u16_less [of w] by linarith
  then show ?thesis
    by (simp add: highByte_def unsigned_ucast_eq unat_drop_bit_eq take_bit_eq_mod unat_div
      drop_bit_eq_div del: unat_u16_less)
qed

lemma c_word_bytes [simp]: "c_word (highByte w) (lowByte w) = unat (w :: u16)"
  by (simp add: c_word_eq highByte_u16 lowByte_u16)

lemma unat_of_nat_c_word: "unat (of_nat (c_word a b) :: u16) = c_word a b"
  using c_word_less [of a b] by (simp add: unat_of_nat)

lemma word_eqI_unat: "unat x = unat y \<Longrightarrow> x = (y :: 'a::len word)"
  by (rule unsigned_word_eqI)

lemma highByte_c_word [simp]: "highByte (of_nat (c_word a b) :: u16) = a"
  by (rule word_eqI_unat, simp only: highByte_u16 unat_of_nat_c_word) (simp add: c_word_eq)

lemma lowByte_c_word [simp]: "lowByte (of_nat (c_word a b) :: u16) = b"
  by (rule word_eqI_unat, simp only: lowByte_u16 unat_of_nat_c_word) (simp add: c_word_eq)

lemma bitRead_bitWrite: "n < 8 \<Longrightarrow> m < 8 \<Longrightarrow>
   bitRead (bitWrite v n b) m = (if m = n then (if b \<noteq> 0 then 1 else 0) else bitRead v m)"
  by (rule bit_eqI) (auto simp: bitRead_def bitWrite_def bit_simps)

text \<open>Two bytes in little-endian order, \<open>(uint16_t)(high<<8)|(low)\<close>.\<close>

definition le_word :: "u8 \<Rightarrow> u8 \<Rightarrow> u16" where
  "le_word low high = push_bit 8 (ucast high) OR ucast low"

lemma le_word_bytes [simp]: "le_word (lowByte w) (highByte w) = (w :: u16)"
  unfolding le_word_def lowByte_ucast highByte_def
  by (rule bit_eqI) (auto simp: bit_simps)

end
