(* ===== verification/IOBuffers.thy ===== *)
theory IOBuffers
  imports Prelude
begin

text \<open>
  The shared memory of the PLC runtime (\<open>src/core/ladder.h\<close>): the tables of pointers
  \<open>bool_input\<close>, \<open>bool_output\<close>, \<open>int_input\<close> and so on, which the
  glue code points at the located variables of the PLC program and \<open>mapUnusedIO\<close> points
  at the Modbus buffers, the objects behind those pointers, and the mutex \<open>bufferLock\<close>.
  Every server and every hardware layer reads and writes the process image through it.
\<close>

unbundle bit_operations_syntax

definition BUFFER_SIZE :: nat where "BUFFER_SIZE = 1024"

text \<open>
  An object a pointer can point at: a cell of one of the four Modbus arrays of
  \<open>modbus.cpp\<close>, or a located variable of the PLC program, by its name. Objects of the four
  C++ types live in four heaps; \<open>IEC_BOOL\<close> and \<open>IEC_BYTE\<close> are both \<open>uint8_t\<close>. The tables
  are functions of the index, always read through \<open>ptr1\<close> and \<open>ptr2\<close>, which check the
  bounds \<open>[BUFFER_SIZE]\<close> and \<open>[BUFFER_SIZE][8]\<close>; a NULL entry is \<open>None\<close>.
\<close>

datatype cell =
    Mb_discrete_input nat
  | Mb_coils nat
  | Mb_input_regs nat
  | Mb_holding_regs nat
  | Located string

record plc_io =
  bool_input :: "nat \<Rightarrow> nat \<Rightarrow> cell option"
  bool_output :: "nat \<Rightarrow> nat \<Rightarrow> cell option"
  byte_input :: "nat \<Rightarrow> cell option"
  byte_output :: "nat \<Rightarrow> cell option"
  int_input :: "nat \<Rightarrow> cell option"
  int_output :: "nat \<Rightarrow> cell option"
  int_memory :: "nat \<Rightarrow> cell option"
  dint_memory :: "nat \<Rightarrow> cell option"
  lint_memory :: "nat \<Rightarrow> cell option"
  u8_heap :: "cell \<Rightarrow> u8"
  u16_heap :: "cell \<Rightarrow> u16"
  s32_heap :: "cell \<Rightarrow> c_int"
  s64_heap :: "cell \<Rightarrow> c_long"
  bufferLock :: bool

definition ptr1 :: "(nat \<Rightarrow> cell option) \<Rightarrow> nat \<Rightarrow> cell option option" where
  "ptr1 tab i = tab_get BUFFER_SIZE tab i"

definition ptr2 :: "(nat \<Rightarrow> nat \<Rightarrow> cell option) \<Rightarrow> nat \<Rightarrow> nat \<Rightarrow> cell option option" where
  "ptr2 tab i j = (if i < BUFFER_SIZE \<and> j < 8 then Some (tab i j) else None)"

definition set_u8 :: "cell \<Rightarrow> u8 \<Rightarrow> plc_io \<Rightarrow> plc_io" where
  "set_u8 c v m = m\<lparr>u8_heap := (u8_heap m)(c := v)\<rparr>"

definition set_u16 :: "cell \<Rightarrow> u16 \<Rightarrow> plc_io \<Rightarrow> plc_io" where
  "set_u16 c v m = m\<lparr>u16_heap := (u16_heap m)(c := v)\<rparr>"

definition set_s32 :: "cell \<Rightarrow> c_int \<Rightarrow> plc_io \<Rightarrow> plc_io" where
  "set_s32 c v m = m\<lparr>s32_heap := (s32_heap m)(c := v)\<rparr>"

definition set_s64 :: "cell \<Rightarrow> c_long \<Rightarrow> plc_io \<Rightarrow> plc_io" where
  "set_s64 c v m = m\<lparr>s64_heap := (s64_heap m)(c := v)\<rparr>"

text \<open>
  \<open>pthread_mutex_lock(&bufferLock)\<close> on a mutex that is held and that nobody will release
  does not return: \<open>None\<close>. Each critical section of the sources is one uninterrupted piece of
  a step, so a step that finds the mutex held finds it leaked.
\<close>

definition lock_buffer :: "plc_io \<Rightarrow> plc_io option" where
  "lock_buffer m = (if bufferLock m then None else Some (m\<lparr>bufferLock := True\<rparr>))"

definition unlock_buffer :: "plc_io \<Rightarrow> plc_io" where
  "unlock_buffer m = m\<lparr>bufferLock := False\<rparr>"

section \<open>Laws of the heap and of the pointer tables\<close>

lemma ptr1_in [simp]: "i < 1024 \<Longrightarrow> ptr1 tab i = Some (tab i)"
  by (simp add: ptr1_def BUFFER_SIZE_def)

lemma ptr1_out [simp]: "1024 \<le> i \<Longrightarrow> ptr1 tab i = None"
  by (simp add: ptr1_def BUFFER_SIZE_def)

lemma ptr2_in [simp]: "i < 1024 \<Longrightarrow> j < 8 \<Longrightarrow> ptr2 tab i j = Some (tab i j)"
  by (simp add: ptr2_def BUFFER_SIZE_def)

lemma ptr2_position [simp]: "p < 8192 \<Longrightarrow> ptr2 tab (p div 8) (p mod 8) = Some (tab (p div 8) (p mod 8))"
  by (simp add: ptr2_def BUFFER_SIZE_def less_mult_imp_div_less)

lemma ptr1_eq_Some [simp]: "ptr1 tab i = Some p \<longleftrightarrow> i < 1024 \<and> p = tab i"
  by (auto simp: ptr1_def BUFFER_SIZE_def tab_get_def)

lemma heap_set [simp]:
  "u8_heap (set_u8 c v m) = (u8_heap m)(c := v)"
  "u16_heap (set_u16 c w m) = (u16_heap m)(c := w)"
  "s32_heap (set_s32 c x m) = (s32_heap m)(c := x)"
  "s64_heap (set_s64 c y m) = (s64_heap m)(c := y)"
  by (simp_all add: set_u8_def set_u16_def set_s32_def set_s64_def)

lemma heap_set_other [simp]:
  "u16_heap (set_u8 c v m) = u16_heap m" "s32_heap (set_u8 c v m) = s32_heap m"
  "s64_heap (set_u8 c v m) = s64_heap m" "u8_heap (set_u16 c w m) = u8_heap m"
  "s32_heap (set_u16 c w m) = s32_heap m" "s64_heap (set_u16 c w m) = s64_heap m"
  "u8_heap (set_s32 c x m) = u8_heap m" "u16_heap (set_s32 c x m) = u16_heap m"
  "s64_heap (set_s32 c x m) = s64_heap m" "u8_heap (set_s64 c y m) = u8_heap m"
  "u16_heap (set_s64 c y m) = u16_heap m" "s32_heap (set_s64 c y m) = s32_heap m"
  by (simp_all add: set_u8_def set_u16_def set_s32_def set_s64_def)

text \<open>The pointer tables and the mutex are the frame of every store to an object.\<close>

definition tables :: "plc_io \<Rightarrow> _" where
  "tables m = ((bool_input m, bool_output m, byte_input m, byte_output m),
     (int_input m, int_output m, int_memory m, dint_memory m, lint_memory m))"

lemma tables_eqD:
  assumes "tables m = tables m'"
  shows "bool_input m = bool_input m'" "bool_output m = bool_output m'"
    "byte_input m = byte_input m'" "byte_output m = byte_output m'"
    "int_input m = int_input m'" "int_output m = int_output m'" "int_memory m = int_memory m'"
    "dint_memory m = dint_memory m'" "lint_memory m = lint_memory m'"
  using assms by (simp_all add: tables_def)

lemma tables_set [simp, frame_simps]:
  "tables (set_u8 c v m) = tables m" "tables (set_u16 c w m) = tables m"
  "tables (set_s32 c x m) = tables m" "tables (set_s64 c y m) = tables m"
  "tables (unlock_buffer m) = tables m" "tables (m\<lparr>bufferLock := b\<rparr>) = tables m"
  by (simp_all add: tables_def set_u8_def set_u16_def set_s32_def set_s64_def unlock_buffer_def)

lemmas tables_set_fields [simp, frame_simps] =
  tables_set(1) [THEN tables_eqD(1)] tables_set(1) [THEN tables_eqD(2)]
  tables_set(1) [THEN tables_eqD(5)] tables_set(1) [THEN tables_eqD(6)]
  tables_set(1) [THEN tables_eqD(7)] tables_set(1) [THEN tables_eqD(8)]
  tables_set(1) [THEN tables_eqD(9)]
  tables_set(2) [THEN tables_eqD(1)] tables_set(2) [THEN tables_eqD(2)]
  tables_set(2) [THEN tables_eqD(5)] tables_set(2) [THEN tables_eqD(6)]
  tables_set(2) [THEN tables_eqD(7)] tables_set(2) [THEN tables_eqD(8)]
  tables_set(2) [THEN tables_eqD(9)]
  tables_set(3) [THEN tables_eqD(1)] tables_set(3) [THEN tables_eqD(2)]
  tables_set(3) [THEN tables_eqD(5)] tables_set(3) [THEN tables_eqD(6)]
  tables_set(3) [THEN tables_eqD(7)] tables_set(3) [THEN tables_eqD(8)]
  tables_set(3) [THEN tables_eqD(9)]
  tables_set(4) [THEN tables_eqD(1)] tables_set(4) [THEN tables_eqD(2)]
  tables_set(4) [THEN tables_eqD(5)] tables_set(4) [THEN tables_eqD(6)]
  tables_set(4) [THEN tables_eqD(7)] tables_set(4) [THEN tables_eqD(8)]
  tables_set(4) [THEN tables_eqD(9)]

lemma bufferLock_set [simp, frame_simps]:
  "bufferLock (set_u8 c v m) = bufferLock m" "bufferLock (set_u16 c w m) = bufferLock m"
  "bufferLock (set_s32 c x m) = bufferLock m" "bufferLock (set_s64 c y m) = bufferLock m"
  by (simp_all add: set_u8_def set_u16_def set_s32_def set_s64_def)

lemma lock_buffer_free [simp]: "\<not> bufferLock m \<Longrightarrow> lock_buffer m = Some (m\<lparr>bufferLock := True\<rparr>)"
  by (simp add: lock_buffer_def)

lemma lock_buffer_held [simp]: "bufferLock m \<Longrightarrow> lock_buffer m = None"
  by (simp add: lock_buffer_def)

lemma unlock_lock [simp]: "\<not> bufferLock m \<Longrightarrow> unlock_buffer (m\<lparr>bufferLock := True\<rparr>) = m"
  by (simp add: unlock_buffer_def)

lemma unlock_buffer_sel [simp, frame_simps]:
  "bufferLock (unlock_buffer m) = False" "u8_heap (unlock_buffer m) = u8_heap m"
  "u16_heap (unlock_buffer m) = u16_heap m" "s32_heap (unlock_buffer m) = s32_heap m"
  "s64_heap (unlock_buffer m) = s64_heap m"
  "bool_input (unlock_buffer m) = bool_input m" "bool_output (unlock_buffer m) = bool_output m"
  "int_input (unlock_buffer m) = int_input m" "int_output (unlock_buffer m) = int_output m"
  "int_memory (unlock_buffer m) = int_memory m" "dint_memory (unlock_buffer m) = dint_memory m"
  "lint_memory (unlock_buffer m) = lint_memory m"
  by (simp_all add: unlock_buffer_def)

end
