(* ===== verification/Modbus.thy ===== *)
theory Modbus
  imports IOBuffers "HOL-Library.Signed_Division"
begin

text \<open>
  The Modbus/TCP slave of \<open>src/core/modbus.cpp\<close>: \<open>mapUnusedIO\<close>, the eight function codes, the
  exception reply and the dispatcher \<open>processModbusMessage\<close>, one definition each, in the
  order of the file. The request arrives in the byte buffer and the reply is written over it.
  \<open>None\<close> is undefined behaviour (an index outside an array, a NULL pointer) or a step that never
  returns (\<open>bufferLock\<close> leaked).
\<close>

unbundle bit_operations_syntax

section \<open>Constants and state\<close>

definition MAX_DISCRETE_INPUT :: nat where "MAX_DISCRETE_INPUT = 800"
definition MAX_COILS :: nat where "MAX_COILS = 800"
definition MAX_HOLD_REGS :: nat where "MAX_HOLD_REGS = 8192"
definition MAX_INP_REGS :: nat where "MAX_INP_REGS = 1024"

definition MIN_16B_RANGE :: nat where "MIN_16B_RANGE = 1024"
definition MAX_16B_RANGE :: nat where "MAX_16B_RANGE = 2047"
definition MIN_32B_RANGE :: nat where "MIN_32B_RANGE = 2048"
definition MAX_32B_RANGE :: nat where "MAX_32B_RANGE = 4095"
definition MIN_64B_RANGE :: nat where "MIN_64B_RANGE = 4096"
definition MAX_64B_RANGE :: nat where "MAX_64B_RANGE = 8191"

definition ERR_NONE :: nat where "ERR_NONE = 0"
definition ERR_ILLEGAL_FUNCTION :: nat where "ERR_ILLEGAL_FUNCTION = 1"
definition ERR_ILLEGAL_DATA_ADDRESS :: nat where "ERR_ILLEGAL_DATA_ADDRESS = 2"
definition ERR_ILLEGAL_DATA_VALUE :: nat where "ERR_ILLEGAL_DATA_VALUE = 3"

lemmas mb_consts =
  MAX_DISCRETE_INPUT_def MAX_COILS_def MAX_HOLD_REGS_def MAX_INP_REGS_def
  MIN_16B_RANGE_def MAX_16B_RANGE_def MIN_32B_RANGE_def MAX_32B_RANGE_def
  MIN_64B_RANGE_def MAX_64B_RANGE_def ERR_NONE_def ERR_ILLEGAL_FUNCTION_def
  ERR_ILLEGAL_DATA_ADDRESS_def ERR_ILLEGAL_DATA_VALUE_def

text \<open>The shared memory, the message buffer of one connection, and the global \<open>MessageLength\<close>.\<close>

record mb_state =
  io :: plc_io
  buffer :: "u8 list"
  MessageLength :: nat

definition get_b :: "nat \<Rightarrow> mb_state \<Rightarrow> u8 option" where
  "get_b i s = arr_get (buffer s) i"

definition put_b :: "nat \<Rightarrow> u8 \<Rightarrow> mb_state \<Rightarrow> mb_state option" where
  "put_b i v s = map_option (\<lambda>b. s\<lparr>buffer := b\<rparr>) (arr_put (buffer s) i v)"

definition mb_lock :: "mb_state \<Rightarrow> mb_state option" where
  "mb_lock s = map_option (\<lambda>m. s\<lparr>io := m\<rparr>) (lock_buffer (io s))"

definition mb_unlock :: "mb_state \<Rightarrow> mb_state" where
  "mb_unlock s = s\<lparr>io := unlock_buffer (io s)\<rparr>"

text \<open>\<open>word(buffer[i], buffer[i + 1])\<close>.\<close>

definition word_at :: "nat \<Rightarrow> mb_state \<Rightarrow> nat option" where
  "word_at i s = do { b1 \<leftarrow> get_b i s; b2 \<leftarrow> get_b (Suc i) s; Some (c_word b1 b2) }"

text \<open>The number of bytes \<open>n\<close> bits take: divide, then round up as the code does.\<close>

definition byte_count :: "nat \<Rightarrow> nat" where
  "byte_count n = (let b = n div 8 in if b * 8 < n then b + 1 else b)"

section \<open>mapUnusedIO\<close>

text \<open>
  The loop over the holding registers tests \<open>int_memory[i - MIN_16B_RANGE]\<close> and then assigns
  \<open>int_memory[i]\<close>.
\<close>

definition map_discrete_input :: "nat \<Rightarrow> plc_io \<Rightarrow> plc_io option" where
  "map_discrete_input i m = do {
     p \<leftarrow> ptr2 (bool_input m) (i div 8) (i mod 8);
     Some (case p of
       None \<Rightarrow> m\<lparr>bool_input := (bool_input m)(i div 8 :=
                ((bool_input m) (i div 8))(i mod 8 := Some (Mb_discrete_input i)))\<rparr>
     | Some _ \<Rightarrow> m) }"

definition map_coil :: "nat \<Rightarrow> plc_io \<Rightarrow> plc_io option" where
  "map_coil i m = do {
     p \<leftarrow> ptr2 (bool_output m) (i div 8) (i mod 8);
     Some (case p of
       None \<Rightarrow> m\<lparr>bool_output := (bool_output m)(i div 8 :=
                ((bool_output m) (i div 8))(i mod 8 := Some (Mb_coils i)))\<rparr>
     | Some _ \<Rightarrow> m) }"

definition map_input_reg :: "nat \<Rightarrow> plc_io \<Rightarrow> plc_io option" where
  "map_input_reg i m = do {
     p \<leftarrow> ptr1 (int_input m) i;
     Some (case p of
       None \<Rightarrow> m\<lparr>int_input := (int_input m)(i := Some (Mb_input_regs i))\<rparr>
     | Some _ \<Rightarrow> m) }"

definition map_holding_reg :: "nat \<Rightarrow> plc_io \<Rightarrow> plc_io option" where
  "map_holding_reg i m = do {
     m \<leftarrow> (if i < MIN_16B_RANGE then do {
              p \<leftarrow> ptr1 (int_output m) i;
              Some (case p of
                None \<Rightarrow> m\<lparr>int_output := (int_output m)(i := Some (Mb_holding_regs i))\<rparr>
              | Some _ \<Rightarrow> m) }
            else Some m);
     (if i \<ge> MIN_16B_RANGE \<and> i \<le> MAX_16B_RANGE then do {
        p \<leftarrow> ptr1 (int_memory m) (i - MIN_16B_RANGE);
        (case p of
          None \<Rightarrow> do {
            t \<leftarrow> tab_put BUFFER_SIZE (int_memory m) i (Some (Mb_holding_regs i));
            Some (m\<lparr>int_memory := t\<rparr>) }
        | Some _ \<Rightarrow> Some m) }
      else Some m) }"

definition mapUnusedIO :: "plc_io \<Rightarrow> plc_io option" where
  "mapUnusedIO m = do {
     m \<leftarrow> lock_buffer m;
     m \<leftarrow> for_range 0 MAX_DISCRETE_INPUT map_discrete_input m;
     m \<leftarrow> for_range 0 MAX_COILS map_coil m;
     m \<leftarrow> for_range 0 MAX_INP_REGS map_input_reg m;
     m \<leftarrow> for_range 0 (MAX_16B_RANGE + 1) map_holding_reg m;
     Some (unlock_buffer m) }"

section \<open>The exception reply\<close>

definition ModbusError :: "mb_state \<Rightarrow> nat \<Rightarrow> mb_state option" where
  "ModbusError s mb_error = do {
     s \<leftarrow> put_b 4 0 s;
     s \<leftarrow> put_b 5 3 s;
     b \<leftarrow> get_b 7 s;
     s \<leftarrow> put_b 7 (b OR 0x80) s;
     s \<leftarrow> put_b 8 (of_nat mb_error) s;
     Some (s\<lparr>MessageLength := 9\<rparr>) }"

section \<open>Reading bits\<close>

text \<open>
  One step of the double loop of \<open>ReadCoils\<close> and \<open>ReadDiscreteInputs\<close>, which differ in
  the pointer table and its limit. The second component of the state is \<open>mb_error\<close>.
\<close>

definition read_bit ::
  "nat \<Rightarrow> (plc_io \<Rightarrow> nat \<Rightarrow> nat \<Rightarrow> cell option) \<Rightarrow> nat \<Rightarrow> nat \<Rightarrow> nat \<Rightarrow> mb_state \<times> nat \<Rightarrow> (mb_state \<times> nat) option" where
  "read_bit limit tab Start i j st =
     (let (s, mb_error) = st; position = Start + i * 8 + j in
      if position < limit then do {
        p \<leftarrow> ptr2 (tab (io s)) (position div 8) (position mod 8);
        b \<leftarrow> get_b (9 + i) s;
        s \<leftarrow> put_b (9 + i) (bitWrite b j (case p of Some c \<Rightarrow> u8_heap (io s) c | None \<Rightarrow> 0)) s;
        Some (s, mb_error) }
      else Some (s, ERR_ILLEGAL_DATA_ADDRESS))"

text \<open>The two bytes of the reply that hold the length, and the byte count.\<close>

definition put_header :: "nat \<Rightarrow> mb_state \<Rightarrow> mb_state option" where
  "put_header ByteDataLength s = do {
     s \<leftarrow> put_b 4 (highByte (of_nat (ByteDataLength + 3) :: c_int)) s;
     s \<leftarrow> put_b 5 (lowByte (of_nat (ByteDataLength + 3) :: c_int)) s;
     put_b 8 (of_nat ByteDataLength) s }"

definition read_reply :: "nat \<Rightarrow> mb_state \<times> nat \<Rightarrow> mb_state option" where
  "read_reply ByteDataLength st =
     (let (s, mb_error) = st; s = mb_unlock s in
      if mb_error \<noteq> ERR_NONE then ModbusError s mb_error
      else Some (s\<lparr>MessageLength := ByteDataLength + 9\<rparr>))"

definition ReadCoils :: "mb_state \<Rightarrow> nat \<Rightarrow> mb_state option" where
  "ReadCoils s bufferSize =
     (if bufferSize < 12 then ModbusError s ERR_ILLEGAL_DATA_VALUE
      else do {
        Start \<leftarrow> word_at 8 s;
        CoilDataLength \<leftarrow> word_at 10 s;
        let ByteDataLength = byte_count CoilDataLength;
        (if ByteDataLength > 255 then ModbusError s ERR_ILLEGAL_DATA_ADDRESS
         else do {
           s \<leftarrow> put_header ByteDataLength s;
           s \<leftarrow> mb_lock s;
           st \<leftarrow> for_range 0 ByteDataLength
                  (\<lambda>i. for_range 0 8 (read_bit MAX_COILS bool_output Start i)) (s, ERR_NONE);
           read_reply ByteDataLength st }) })"

definition ReadDiscreteInputs :: "mb_state \<Rightarrow> nat \<Rightarrow> mb_state option" where
  "ReadDiscreteInputs s bufferSize =
     (if bufferSize < 12 then ModbusError s ERR_ILLEGAL_DATA_VALUE
      else do {
        Start \<leftarrow> word_at 8 s;
        InputDataLength \<leftarrow> word_at 10 s;
        let ByteDataLength = byte_count InputDataLength;
        (if ByteDataLength > 255 then ModbusError s ERR_ILLEGAL_DATA_ADDRESS
         else do {
           s \<leftarrow> put_header ByteDataLength s;
           s \<leftarrow> mb_lock s;
           st \<leftarrow> for_range 0 ByteDataLength
                  (\<lambda>i. for_range 0 8 (read_bit MAX_DISCRETE_INPUT bool_input Start i)) (s, ERR_NONE);
           read_reply ByteDataLength st }) })"

section \<open>Reading registers\<close>

text \<open>
  The two bytes the loop of \<open>ReadHoldingRegisters\<close> stores for register \<open>position\<close>: 16-bit
  outputs and memory, then the words of the 32-bit and of the 64-bit memory, most significant word
  first. \<open>Some None\<close> is the illegal address. Where a 32- or 64-bit pointer is NULL both bytes
  receive the same truncated register.
\<close>

definition reg_bytes :: "u16 \<Rightarrow> u8 \<times> u8" where
  "reg_bytes w = (highByte w, lowByte w)"

definition dint_word :: "c_int \<Rightarrow> nat \<Rightarrow> u16" where
  "dint_word v lane =
     (if lane = 0 then ucast (signed_drop_bit 16 v) else ucast (v AND 0xffff))"

definition lint_word :: "c_long \<Rightarrow> nat \<Rightarrow> u16" where
  "lint_word v lane =
     (if lane = 0 then ucast (signed_drop_bit 48 v)
      else if lane = 1 then ucast (signed_drop_bit 32 v AND 0xffff)
      else if lane = 2 then ucast (signed_drop_bit 16 v AND 0xffff)
      else ucast (v AND 0xffff))"

definition holding_bytes :: "plc_io \<Rightarrow> nat \<Rightarrow> (u8 \<times> u8) option option" where
  "holding_bytes m position =
     (if position \<le> MIN_16B_RANGE then do {
        p \<leftarrow> ptr1 (int_output m) position;
        Some (Some (case p of Some c \<Rightarrow> reg_bytes (u16_heap m c) | None \<Rightarrow> (0, 0))) }
      else if position \<ge> MIN_16B_RANGE \<and> position \<le> MAX_16B_RANGE then do {
        p \<leftarrow> ptr1 (int_memory m) (position - MIN_16B_RANGE);
        Some (Some (case p of Some c \<Rightarrow> reg_bytes (u16_heap m c) | None \<Rightarrow> (0, 0))) }
      else if position \<ge> MIN_32B_RANGE \<and> position \<le> MAX_32B_RANGE then do {
        p \<leftarrow> ptr1 (dint_memory m) ((position - MIN_32B_RANGE) div 2);
        (case p of
          Some c \<Rightarrow> Some (Some (reg_bytes (dint_word (s32_heap m c) ((position - MIN_32B_RANGE) mod 2))))
        | None \<Rightarrow> do {
            w \<leftarrow> tab_get MAX_HOLD_REGS (\<lambda>i. u16_heap m (Mb_holding_regs i)) position;
            Some (Some (ucast w, ucast w)) }) }
      else if position \<ge> MIN_64B_RANGE \<and> position \<le> MAX_64B_RANGE then do {
        p \<leftarrow> ptr1 (lint_memory m) ((position - MIN_64B_RANGE) div 4);
        (case p of
          Some c \<Rightarrow> Some (Some (reg_bytes (lint_word (s64_heap m c) ((position - MIN_64B_RANGE) mod 4))))
        | None \<Rightarrow> do {
            w \<leftarrow> tab_get MAX_HOLD_REGS (\<lambda>i. u16_heap m (Mb_holding_regs i)) position;
            Some (Some (ucast w, ucast w)) }) }
      else Some None)"

text \<open>\<open>ReadInputRegisters\<close>: the table \<open>int_input\<close> only.\<close>

definition input_bytes :: "plc_io \<Rightarrow> nat \<Rightarrow> (u8 \<times> u8) option option" where
  "input_bytes m position =
     (if position < MAX_INP_REGS then do {
        p \<leftarrow> ptr1 (int_input m) position;
        Some (Some (case p of Some c \<Rightarrow> reg_bytes (u16_heap m c) | None \<Rightarrow> (0, 0))) }
      else Some None)"

definition read_reg ::
  "(plc_io \<Rightarrow> nat \<Rightarrow> (u8 \<times> u8) option option) \<Rightarrow> nat \<Rightarrow> nat \<Rightarrow> mb_state \<times> nat \<Rightarrow> (mb_state \<times> nat) option" where
  "read_reg rd Start i st =
     (let (s, mb_error) = st in do {
        r \<leftarrow> rd (io s) (Start + i);
        (case r of
          Some (hi, lo) \<Rightarrow> do {
            s \<leftarrow> put_b (9 + i * 2) hi s;
            s \<leftarrow> put_b (10 + i * 2) lo s;
            Some (s, mb_error) }
        | None \<Rightarrow> Some (s, ERR_ILLEGAL_DATA_ADDRESS)) })"

definition ReadHoldingRegisters :: "mb_state \<Rightarrow> nat \<Rightarrow> mb_state option" where
  "ReadHoldingRegisters s bufferSize =
     (if bufferSize < 12 then ModbusError s ERR_ILLEGAL_DATA_VALUE
      else do {
        Start \<leftarrow> word_at 8 s;
        WordDataLength \<leftarrow> word_at 10 s;
        let ByteDataLength = WordDataLength * 2;
        (if ByteDataLength > 255 then ModbusError s ERR_ILLEGAL_DATA_ADDRESS
         else do {
           s \<leftarrow> put_header ByteDataLength s;
           s \<leftarrow> mb_lock s;
           st \<leftarrow> for_range 0 WordDataLength (read_reg holding_bytes Start) (s, ERR_NONE);
           read_reply ByteDataLength st }) })"

definition ReadInputRegisters :: "mb_state \<Rightarrow> nat \<Rightarrow> mb_state option" where
  "ReadInputRegisters s bufferSize =
     (if bufferSize < 12 then ModbusError s ERR_ILLEGAL_DATA_VALUE
      else do {
        Start \<leftarrow> word_at 8 s;
        WordDataLength \<leftarrow> word_at 10 s;
        let ByteDataLength = WordDataLength * 2;
        (if ByteDataLength > 255 then ModbusError s ERR_ILLEGAL_DATA_ADDRESS
         else do {
           s \<leftarrow> put_header ByteDataLength s;
           s \<leftarrow> mb_lock s;
           st \<leftarrow> for_range 0 WordDataLength (read_reg input_bytes Start) (s, ERR_NONE);
           read_reply ByteDataLength st }) })"

section \<open>Writing\<close>

text \<open>The common end of the writing functions: the acknowledgement of 12 bytes, or an exception.\<close>

definition put_write_header :: "mb_state \<Rightarrow> mb_state option" where
  "put_write_header s = do { s \<leftarrow> put_b 4 0 s; put_b 5 6 s }"

definition WriteCoil :: "mb_state \<Rightarrow> nat \<Rightarrow> mb_state option" where
  "WriteCoil s bufferSize =
     (if bufferSize < 12 then ModbusError s ERR_ILLEGAL_DATA_VALUE
      else do {
        Start \<leftarrow> word_at 8 s;
        (if Start < MAX_COILS then do {
           v \<leftarrow> word_at 10 s;
           let value = (if v > 0 then 1 else 0);
           s \<leftarrow> mb_lock s;
           p \<leftarrow> ptr2 (bool_output (io s)) (Start div 8) (Start mod 8);
           let s = (case p of Some c \<Rightarrow> s\<lparr>io := set_u8 c value (io s)\<rparr> | None \<Rightarrow> s);
           s \<leftarrow> put_write_header (mb_unlock s);
           Some (s\<lparr>MessageLength := 12\<rparr>) }
         else ModbusError s ERR_ILLEGAL_DATA_ADDRESS) })"

text \<open>
  The read-modify-write of one 16-bit word of a 32-bit and of a 64-bit variable, as the code writes
  it: clear the word, then or the shifted value in.
\<close>

definition set_dint_word :: "c_int \<Rightarrow> nat \<Rightarrow> nat \<Rightarrow> c_int" where
  "set_dint_word v lane value =
     (let tempValue = of_nat value :: c_int in
      if lane = 0 then (v AND 0x0000ffff) OR push_bit 16 tempValue
      else (v AND 0xffff0000) OR tempValue)"

definition set_lint_word :: "c_long \<Rightarrow> nat \<Rightarrow> nat \<Rightarrow> c_long" where
  "set_lint_word v lane value =
     (let tempValue = of_nat value :: c_long in
      if lane = 0 then (v AND 0x0000ffffffffffff) OR push_bit 48 tempValue
      else if lane = 1 then (v AND 0xffff0000ffffffff) OR push_bit 32 tempValue
      else if lane = 2 then (v AND 0xffffffff0000ffff) OR push_bit 16 tempValue
      else (v AND 0xffffffffffff0000) OR tempValue)"

text \<open>
  The assignment of \<open>WriteRegister\<close> to register \<open>Start\<close>: the four ranges in the order of the
  code. \<open>Some None\<close> is the illegal address.
\<close>

definition write_holding :: "nat \<Rightarrow> nat \<Rightarrow> plc_io \<Rightarrow> plc_io option option" where
  "write_holding Start value m =
     (if Start \<le> MIN_16B_RANGE then do {
        p \<leftarrow> ptr1 (int_output m) Start;
        Some (Some (case p of Some c \<Rightarrow> set_u16 c (of_nat value) m | None \<Rightarrow> m)) }
      else if Start \<ge> MIN_16B_RANGE \<and> Start \<le> MAX_16B_RANGE then do {
        p \<leftarrow> ptr1 (int_memory m) (Start - MIN_16B_RANGE);
        Some (Some (case p of Some c \<Rightarrow> set_u16 c (of_nat value) m | None \<Rightarrow> m)) }
      else if Start \<ge> MIN_32B_RANGE \<and> Start \<le> MAX_32B_RANGE then do {
        p \<leftarrow> ptr1 (dint_memory m) ((Start - MIN_32B_RANGE) div 2);
        Some (Some (case p of
          Some c \<Rightarrow> set_s32 c (set_dint_word (s32_heap m c) ((Start - MIN_32B_RANGE) mod 2) value) m
        | None \<Rightarrow> set_u16 (Mb_holding_regs Start) (of_nat value) m)) }
      else if Start \<ge> MIN_64B_RANGE \<and> Start \<le> MAX_64B_RANGE then do {
        p \<leftarrow> ptr1 (lint_memory m) ((Start - MIN_64B_RANGE) div 4);
        Some (Some (case p of
          Some c \<Rightarrow> set_s64 c (set_lint_word (s64_heap m c) ((Start - MIN_64B_RANGE) mod 4) value) m
        | None \<Rightarrow> set_u16 (Mb_holding_regs Start) (of_nat value) m)) }
      else Some None)"

definition WriteRegister :: "mb_state \<Rightarrow> nat \<Rightarrow> mb_state option" where
  "WriteRegister s bufferSize =
     (if bufferSize < 12 then ModbusError s ERR_ILLEGAL_DATA_VALUE
      else do {
        Start \<leftarrow> word_at 8 s;
        value \<leftarrow> word_at 10 s;
        s \<leftarrow> mb_lock s;
        r \<leftarrow> write_holding Start value (io s);
        (case r of
          None \<Rightarrow> ModbusError (mb_unlock s) ERR_ILLEGAL_DATA_ADDRESS
        | Some m \<Rightarrow> do {
            s \<leftarrow> put_write_header (mb_unlock (s\<lparr>io := m\<rparr>));
            Some (s\<lparr>MessageLength := 12\<rparr>) }) })"

section \<open>Writing several\<close>

definition write_bit :: "nat \<Rightarrow> nat \<Rightarrow> nat \<Rightarrow> mb_state \<times> nat \<Rightarrow> (mb_state \<times> nat) option" where
  "write_bit Start i j st =
     (let (s, mb_error) = st; position = Start + i * 8 + j in
      if position < MAX_COILS then do {
        p \<leftarrow> ptr2 (bool_output (io s)) (position div 8) (position mod 8);
        (case p of
          Some c \<Rightarrow> do {
            b \<leftarrow> get_b (13 + i) s;
            Some (s\<lparr>io := set_u8 c (bitRead b j) (io s)\<rparr>, mb_error) }
        | None \<Rightarrow> Some (s, mb_error)) }
      else Some (s, ERR_ILLEGAL_DATA_ADDRESS))"

definition write_multiple_reply :: "mb_state \<times> nat \<Rightarrow> mb_state option" where
  "write_multiple_reply st =
     (let (s, mb_error) = st; s = mb_unlock s in
      if mb_error \<noteq> ERR_NONE then ModbusError s mb_error
      else Some (s\<lparr>MessageLength := 12\<rparr>))"

definition WriteMultipleCoils :: "mb_state \<Rightarrow> nat \<Rightarrow> mb_state option" where
  "WriteMultipleCoils s bufferSize =
     (if bufferSize < 12 then ModbusError s ERR_ILLEGAL_DATA_VALUE
      else do {
        Start \<leftarrow> word_at 8 s;
        CoilDataLength \<leftarrow> word_at 10 s;
        let ByteDataLength = byte_count CoilDataLength;
        b12 \<leftarrow> get_b 12 s;
        (if bufferSize < 13 + ByteDataLength \<or> unat b12 \<noteq> ByteDataLength
         then ModbusError s ERR_ILLEGAL_DATA_VALUE
         else do {
           s \<leftarrow> put_write_header s;
           s \<leftarrow> mb_lock s;
           st \<leftarrow> for_range 0 ByteDataLength (\<lambda>i. for_range 0 8 (write_bit Start i)) (s, ERR_NONE);
           write_multiple_reply st }) })"

text \<open>
  A pointer table indexed with a C++ \<open>int\<close>, which may be negative, and the assignment of
  \<open>WriteMultipleRegisters\<close> for the register at \<open>position\<close>. The code tests
  \<open>dint_memory[(Start - MIN_32B_RANGE)/2]\<close> where it writes through
  \<open>dint_memory[(position - MIN_32B_RANGE)/2]\<close>, chooses the second, third and fourth word of a 64-bit
  variable by \<open>(Start - MIN_64B_RANGE) % 4\<close>, and writes \<open>word(buffer[10], buffer[11])\<close>, the
  number of registers, to \<open>mb_holding_regs[Start]\<close> where the 64-bit pointer is NULL.
\<close>

definition ptr1_int :: "(nat \<Rightarrow> cell option) \<Rightarrow> int \<Rightarrow> cell option option" where
  "ptr1_int tab k = (if k < 0 then None else ptr1 tab (nat k))"

definition write_multiple_holding ::
  "nat \<Rightarrow> nat \<Rightarrow> nat \<Rightarrow> nat \<Rightarrow> plc_io \<Rightarrow> plc_io option option" where
  "write_multiple_holding Start count position value m =
     (if position \<le> MIN_16B_RANGE then do {
        p \<leftarrow> ptr1 (int_output m) position;
        Some (Some (case p of Some c \<Rightarrow> set_u16 c (of_nat value) m | None \<Rightarrow> m)) }
      else if position \<ge> MIN_16B_RANGE \<and> position \<le> MAX_16B_RANGE then do {
        p \<leftarrow> ptr1 (int_memory m) (position - MIN_16B_RANGE);
        Some (Some (case p of Some c \<Rightarrow> set_u16 c (of_nat value) m | None \<Rightarrow> m)) }
      else if position \<ge> MIN_32B_RANGE \<and> position \<le> MAX_32B_RANGE then do {
        p \<leftarrow> ptr1_int (dint_memory m) ((int Start - int MIN_32B_RANGE) sdiv 2);
        (case p of
          Some _ \<Rightarrow> do {
            q \<leftarrow> ptr1 (dint_memory m) ((position - MIN_32B_RANGE) div 2);
            (case q of
              Some c \<Rightarrow> Some (Some (set_s32 c
                (set_dint_word (s32_heap m c) ((position - MIN_32B_RANGE) mod 2) value) m))
            | None \<Rightarrow> None) }
        | None \<Rightarrow> do {
            _ \<leftarrow> tab_get MAX_HOLD_REGS (\<lambda>i. u16_heap m (Mb_holding_regs i)) position;
            Some (Some (set_u16 (Mb_holding_regs position) (of_nat value) m)) }) }
      else if position \<ge> MIN_64B_RANGE \<and> position \<le> MAX_64B_RANGE then do {
        p \<leftarrow> ptr1 (lint_memory m) ((position - MIN_64B_RANGE) div 4);
        (case p of
          Some c \<Rightarrow>
            (let lane = (int Start - int MIN_64B_RANGE) smod 4; v = s64_heap m c in
             Some (Some (
               if (position - MIN_64B_RANGE) mod 4 = 0 then set_s64 c (set_lint_word v 0 value) m
               else if lane = 1 then set_s64 c (set_lint_word v 1 value) m
               else if lane = 2 then set_s64 c (set_lint_word v 2 value) m
               else if lane = 3 then set_s64 c (set_lint_word v 3 value) m
               else m)))
        | None \<Rightarrow> do {
            _ \<leftarrow> tab_get MAX_HOLD_REGS (\<lambda>i. u16_heap m (Mb_holding_regs i)) Start;
            Some (Some (set_u16 (Mb_holding_regs Start) (of_nat count) m)) }) }
      else Some None)"

definition write_reg :: "nat \<Rightarrow> nat \<Rightarrow> nat \<Rightarrow> mb_state \<times> nat \<Rightarrow> (mb_state \<times> nat) option" where
  "write_reg Start count i st =
     (let (s, mb_error) = st in do {
        value \<leftarrow> word_at (13 + i * 2) s;
        r \<leftarrow> write_multiple_holding Start count (Start + i) value (io s);
        (case r of
          Some m \<Rightarrow> Some (s\<lparr>io := m\<rparr>, mb_error)
        | None \<Rightarrow> Some (s, ERR_ILLEGAL_DATA_ADDRESS)) })"

definition WriteMultipleRegisters :: "mb_state \<Rightarrow> nat \<Rightarrow> mb_state option" where
  "WriteMultipleRegisters s bufferSize =
     (if bufferSize < 12 then ModbusError s ERR_ILLEGAL_DATA_VALUE
      else do {
        Start \<leftarrow> word_at 8 s;
        WordDataLength \<leftarrow> word_at 10 s;
        let ByteDataLength = WordDataLength * 2;
        b12 \<leftarrow> get_b 12 s;
        (if bufferSize < 13 + ByteDataLength \<or> unat b12 \<noteq> ByteDataLength
         then ModbusError s ERR_ILLEGAL_DATA_VALUE
         else do {
           s \<leftarrow> put_write_header s;
           s \<leftarrow> mb_lock s;
           st \<leftarrow> for_range 0 WordDataLength (write_reg Start WordDataLength) (s, ERR_NONE);
           write_multiple_reply st }) })"

section \<open>The dispatcher\<close>

definition processModbusMessage :: "mb_state \<Rightarrow> nat \<Rightarrow> mb_state option" where
  "processModbusMessage s bufferSize = do {
     let s = s\<lparr>MessageLength := 0\<rparr>;
     (if bufferSize < 8 then ModbusError s ERR_ILLEGAL_FUNCTION
      else do {
        fc \<leftarrow> get_b 7 s;
        (if fc = 1 then ReadCoils s bufferSize
         else if fc = 2 then ReadDiscreteInputs s bufferSize
         else if fc = 3 then ReadHoldingRegisters s bufferSize
         else if fc = 4 then ReadInputRegisters s bufferSize
         else if fc = 5 then WriteCoil s bufferSize
         else if fc = 6 then WriteRegister s bufferSize
         else if fc = 15 then WriteMultipleCoils s bufferSize
         else if fc = 16 then WriteMultipleRegisters s bufferSize
         else ModbusError s ERR_ILLEGAL_FUNCTION) }) }"

end
