(* ===== verification/ModbusRead.thy ===== *)
theory ModbusRead
  imports Modbus
begin

text \<open>
  Lemmas on the exception reply and on the four reading functions of \<open>Modbus\<close>. The locale
  \<open>bit_reader\<close> is the contract that \<open>ReadCoils\<close> and \<open>ReadDiscreteInputs\<close> share, and
  \<open>reg_reader\<close> the one that the two register functions share; both are interpreted on them.
\<close>

unbundle bit_operations_syntax

section \<open>The state of one connection\<close>

text \<open>\<open>handleConnections\<close> passes its array of 1024 bytes, with the mutex free.\<close>

definition conn_ok :: "mb_state \<Rightarrow> bool" where
  "conn_ok s \<longleftrightarrow> length (buffer s) = 1024 \<and> \<not> bufferLock (io s)"

lemma get_b_in [simp]: "i < length (buffer s) \<Longrightarrow> get_b i s = Some (buffer s ! i)"
  by (simp add: get_b_def)

lemma put_b_in [simp]: "i < length (buffer s) \<Longrightarrow> put_b i v s = Some (s\<lparr>buffer := (buffer s)[i := v]\<rparr>)"
  by (simp add: put_b_def)

lemma word_at_in [simp]:
  "Suc i < length (buffer s) \<Longrightarrow> word_at i s = Some (c_word (buffer s ! i) (buffer s ! Suc i))"
  by (simp add: word_at_def)

lemma mb_lock_free [simp]:
  "\<not> bufferLock (io s) \<Longrightarrow> mb_lock s = Some (s\<lparr>io := (io s)\<lparr>bufferLock := True\<rparr>\<rparr>)"
  by (simp add: mb_lock_def)

text \<open>The fields of a request: the address, the count, and the count in bytes.\<close>

abbreviation req_start :: "mb_state \<Rightarrow> nat" where
  "req_start s \<equiv> c_word (buffer s ! 8) (buffer s ! 9)"

abbreviation req_count :: "mb_state \<Rightarrow> nat" where
  "req_count s \<equiv> c_word (buffer s ! 10) (buffer s ! 11)"

text \<open>The buffer after \<open>put_header\<close>: the length field and the byte count of a read reply.\<close>

definition reply_header :: "nat \<Rightarrow> mb_state \<Rightarrow> mb_state" where
  "reply_header B s = s\<lparr>buffer := (buffer s)
     [4 := highByte (of_nat (B + 3) :: c_int), 5 := lowByte (of_nat (B + 3) :: c_int), 8 := of_nat B]\<rparr>"

lemma c_word_c_int:
  assumes "n < 65536" shows "c_word (highByte (of_nat n :: c_int)) (lowByte (of_nat n :: c_int)) = n"
proof -
  have n: "unat (of_nat n :: c_int) = n" using assms by (simp add: unat_of_nat)
  have "unat (highByte (of_nat n :: c_int)) = n div 256"
    using assms by (simp add: highByte_def unsigned_ucast_eq take_bit_eq_mod drop_bit_eq_div n unat_div)
  moreover have "unat (lowByte (of_nat n :: c_int)) = n mod 256"
    by (simp add: lowByte_ucast unsigned_ucast_eq take_bit_eq_mod n)
  ultimately show ?thesis by (simp add: c_word_eq)
qed

lemma reply_header_sel:
  assumes "length (buffer s) = 1024" "B \<le> 255"
  shows "buffer (reply_header B s) ! 7 = buffer s ! 7" "unat (buffer (reply_header B s) ! 8) = B"
    "c_word (buffer (reply_header B s) ! 4) (buffer (reply_header B s) ! 5) = B + 3"
  using assms c_word_c_int [of "B + 3"] by (simp_all add: reply_header_def unat_of_nat)

text \<open>What an exception reply is: the buffer after \<open>ModbusError\<close>.\<close>

definition error_reply :: "nat \<Rightarrow> mb_state \<Rightarrow> mb_state" where
  "error_reply e s = s\<lparr>buffer := (buffer s)[4 := 0, 5 := 3, 7 := buffer s ! 7 OR 0x80, 8 := of_nat e],
     MessageLength := 9\<rparr>"

lemma ModbusError_eq [simp]: "9 \<le> length (buffer s) \<Longrightarrow> ModbusError s e = Some (error_reply e s)"
  by (simp add: ModbusError_def error_reply_def)

lemma error_reply_sel [simp]:
  "io (error_reply e s) = io s" "MessageLength (error_reply e s) = 9"
  "length (buffer (error_reply e s)) = length (buffer s)"
  by (simp_all add: error_reply_def)

lemma byte_count_eq: "byte_count n = (n + 7) div 8"
  by (simp add: byte_count_def Let_def) presburger

lemma put_header_eq [simp]:
  "9 \<le> length (buffer s) \<Longrightarrow> put_header n s = Some (s\<lparr>buffer := (buffer s)
     [4 := highByte (of_nat (n + 3) :: c_int), 5 := lowByte (of_nat (n + 3) :: c_int), 8 := of_nat n]\<rparr>)"
  by (simp add: put_header_def)

section \<open>Reading bits\<close>

text \<open>The value of bit \<open>p\<close> of a pointer table: an unmapped bit reads 0.\<close>

definition bit_value :: "(plc_io \<Rightarrow> nat \<Rightarrow> nat \<Rightarrow> cell option) \<Rightarrow> plc_io \<Rightarrow> nat \<Rightarrow> u8" where
  "bit_value tab m p =
     (case tab m (p div 8) (p mod 8) of None \<Rightarrow> 0 | Some c \<Rightarrow> if u8_heap m c \<noteq> 0 then 1 else 0)"

locale bit_reader =
  fixes limit :: nat
    and tab :: "plc_io \<Rightarrow> nat \<Rightarrow> nat \<Rightarrow> cell option"
    and handler :: "mb_state \<Rightarrow> nat \<Rightarrow> mb_state option"
  assumes limit_le: "limit \<le> 8192"
    and tab_lock: "tab (m\<lparr>bufferLock := b\<rparr>) = tab m"
    and handler_eq: "handler s n =
     (if n < 12 then ModbusError s ERR_ILLEGAL_DATA_VALUE
      else do {
        Start \<leftarrow> word_at 8 s;
        Count \<leftarrow> word_at 10 s;
        let B = byte_count Count;
        (if B > 255 then ModbusError s ERR_ILLEGAL_DATA_ADDRESS
         else do {
           s \<leftarrow> put_header B s;
           s \<leftarrow> mb_lock s;
           st \<leftarrow> for_range 0 B (\<lambda>i. for_range 0 8 (read_bit limit tab Start i)) (s, ERR_NONE);
           read_reply B st }) })"
begin

definition row_inv :: "nat \<Rightarrow> mb_state \<Rightarrow> nat \<Rightarrow> nat \<Rightarrow> nat \<Rightarrow> mb_state \<times> nat \<Rightarrow> bool" where
  "row_inv Start s e i n st \<longleftrightarrow>
     (\<exists>v. fst st = s\<lparr>buffer := (buffer s)[9 + i := v]\<rparr> \<and>
       (\<forall>j < 8. bitRead v j = (if j < n \<and> Start + i * 8 + j < limit
          then bit_value tab (io s) (Start + i * 8 + j) else bitRead (buffer s ! (9 + i)) j))) \<and>
     snd st = (if 0 < n \<and> limit < Start + i * 8 + n then ERR_ILLEGAL_DATA_ADDRESS else e)"

lemma read_bit_row_inv:
  assumes len: "length (buffer s) = 1024" and i: "i < 255" and n: "n < 8"
    and inv: "row_inv Start s e i n st"
  shows "\<exists>st'. read_bit limit tab Start i n st = Some st' \<and> row_inv Start s e i (Suc n) st'"
proof -
  let ?p = "Start + i * 8 + n"
  from inv obtain v where
    v: "fst st = s\<lparr>buffer := (buffer s)[9 + i := v]\<rparr>"
       "\<And>j. j < 8 \<Longrightarrow> bitRead v j = (if j < n \<and> Start + i * 8 + j < limit
          then bit_value tab (io s) (Start + i * 8 + j) else bitRead (buffer s ! (9 + i)) j)"
    and e: "snd st = (if 0 < n \<and> limit < ?p then ERR_ILLEGAL_DATA_ADDRESS else e)"
    unfolding row_inv_def by blast
  show ?thesis
  proof (cases "?p < limit")
    case True
    let ?c = "case tab (io s) (?p div 8) (?p mod 8) of Some c \<Rightarrow> u8_heap (io s) c | None \<Rightarrow> 0"
    have p: "?p < 8192" using True limit_le by simp
    have b: "(if ?c \<noteq> 0 then 1 else 0) = bit_value tab (io s) ?p"
      by (simp add: bit_value_def split: option.splits)
    have step: "read_bit limit tab Start i n st =
        Some (s\<lparr>buffer := (buffer s)[9 + i := bitWrite v n ?c]\<rparr>, e)"
      using True p len i v(1) e by (cases st) (simp add: read_bit_def Let_def cong: option.case_cong)
    have "bitRead (bitWrite v n ?c) j = (if j < Suc n \<and> Start + i * 8 + j < limit
          then bit_value tab (io s) (Start + i * 8 + j) else bitRead (buffer s ! (9 + i)) j)"
      if "j < 8" for j
      using that n v(2)[OF that] True b by (auto simp: bitRead_bitWrite less_Suc_eq simp del: One_nat_def)
    with step True show ?thesis by (auto simp: row_inv_def)
  next
    case False
    then have "read_bit limit tab Start i n st = Some (fst st, ERR_ILLEGAL_DATA_ADDRESS)"
      by (cases st) (simp add: read_bit_def Let_def)
    moreover have "row_inv Start s e i (Suc n) (fst st, ERR_ILLEGAL_DATA_ADDRESS)"
      using v False by (auto simp: row_inv_def less_Suc_eq)
    ultimately show ?thesis by blast
  qed
qed

lemma read_row:
  assumes len: "length (buffer s) = 1024" and i: "i < 255"
  shows "\<exists>st'. for_range 0 8 (read_bit limit tab Start i) (s, e) = Some st' \<and> row_inv Start s e i 8 st'"
proof -
  have "row_inv Start s e i 0 (s, e)"
    using len i by (auto simp: row_inv_def intro!: exI [of _ "buffer s ! (9 + i)"])
  then show ?thesis
    using for_range_total [of 0 8 "row_inv Start s e i" "read_bit limit tab Start i" "(s, e)"]
      read_bit_row_inv [OF len i] by auto
qed

definition rows_inv :: "nat \<Rightarrow> mb_state \<Rightarrow> nat \<Rightarrow> mb_state \<times> nat \<Rightarrow> bool" where
  "rows_inv Start s k st \<longleftrightarrow>
     (\<exists>b. fst st = s\<lparr>buffer := b\<rparr> \<and> length b = 1024 \<and>
       (\<forall>x. x < 9 \<or> 9 + k \<le> x \<longrightarrow> b ! x = buffer s ! x) \<and>
       (\<forall>i < k. \<forall>j < 8. Start + i * 8 + j < limit \<longrightarrow>
          bitRead (b ! (9 + i)) j = bit_value tab (io s) (Start + i * 8 + j))) \<and>
     snd st = (if 0 < k \<and> limit < Start + k * 8 then ERR_ILLEGAL_DATA_ADDRESS else ERR_NONE)"

lemma read_rows_step:
  assumes len: "length (buffer s) = 1024" and k: "k < 255" and inv: "rows_inv Start s k st"
  shows "\<exists>st'. for_range 0 8 (read_bit limit tab Start k) st = Some st' \<and> rows_inv Start s (Suc k) st'"
proof -
  from inv obtain b where b: "fst st = s\<lparr>buffer := b\<rparr>" "length b = 1024"
      "\<And>x. x < 9 \<or> 9 + k \<le> x \<Longrightarrow> b ! x = buffer s ! x"
      "\<And>i j. i < k \<Longrightarrow> j < 8 \<Longrightarrow> Start + i * 8 + j < limit \<Longrightarrow>
          bitRead (b ! (9 + i)) j = bit_value tab (io s) (Start + i * 8 + j)"
    and e: "snd st = (if 0 < k \<and> limit < Start + k * 8 then ERR_ILLEGAL_DATA_ADDRESS else ERR_NONE)"
    unfolding rows_inv_def by blast
  have len_upd: "length (buffer (fst st)) = 1024" using b(1,2) by simp
  obtain st' where st': "for_range 0 8 (read_bit limit tab Start k) st = Some st'"
      and row: "row_inv Start (fst st) (snd st) k 8 st'"
    using read_row [of "fst st" k Start "snd st"] b(1,2) k by (metis (no_types) len_upd prod.collapse)
  from row obtain v where v: "fst st' = s\<lparr>buffer := b[9 + k := v]\<rparr>"
      "\<And>j. j < 8 \<Longrightarrow> Start + k * 8 + j < limit \<Longrightarrow> bitRead v j = bit_value tab (io s) (Start + k * 8 + j)"
    and e': "snd st' = (if limit < Start + k * 8 + 8 then ERR_ILLEGAL_DATA_ADDRESS else snd st)"
    unfolding row_inv_def b(1) by auto
  have "rows_inv Start s (Suc k) st'"
    unfolding rows_inv_def
  proof (intro conjI exI [of _ "b[9 + k := v]"] allI impI)
    show "bitRead (b[9 + k := v] ! (9 + i)) j = bit_value tab (io s) (Start + i * 8 + j)"
      if "i < Suc k" "j < 8" "Start + i * 8 + j < limit" for i j
      using that b k v(2) by (cases "i = k") (auto simp: less_Suc_eq)
  qed (use v b e e' k in auto)
  with st' show ?thesis by blast
qed

lemma read_rows:
  assumes len: "length (buffer s) = 1024" and B: "B \<le> 255"
  shows "\<exists>st'. for_range 0 B (\<lambda>i. for_range 0 8 (read_bit limit tab Start i)) (s, ERR_NONE) = Some st'
     \<and> rows_inv Start s B st'"
proof -
  have "rows_inv Start s 0 (s, ERR_NONE)"
    using len by (auto simp: rows_inv_def intro!: exI [of _ "buffer s"])
  then show ?thesis
    using for_range_total [of 0 B "rows_inv Start s" _ "(s, ERR_NONE)"] read_rows_step [OF len] B
    by fastforce
qed

text \<open>The outcome of a request whose bytes all lie in the table, and of every other one.\<close>

lemma short:
  "conn_ok s \<Longrightarrow> n < 12 \<Longrightarrow> handler s n = Some (error_reply ERR_ILLEGAL_DATA_VALUE s)"
  by (simp add: handler_eq conn_ok_def)

lemma too_many:
  "conn_ok s \<Longrightarrow> 12 \<le> n \<Longrightarrow> 2040 < req_count s \<Longrightarrow>
     handler s n = Some (error_reply ERR_ILLEGAL_DATA_ADDRESS s)"
proof -
  assume *: "conn_ok s" "12 \<le> n" and c: "2040 < req_count s"
  from c have "255 < (req_count s + 7) div 8" by linarith
  with * show ?thesis by (simp add: handler_eq conn_ok_def byte_count_eq Let_def)
qed

lemma in_range:
  assumes ok: "conn_ok s" and n: "12 \<le> n" and cnt: "req_count s \<le> 2040"
    and B: "B = byte_count (req_count s)"
  obtains b e where
    "length b = 1024" "\<And>x. x < 9 \<or> 9 + B \<le> x \<Longrightarrow> b ! x = buffer (reply_header B s) ! x"
    "\<And>i j. i < B \<Longrightarrow> j < 8 \<Longrightarrow> req_start s + i * 8 + j < limit \<Longrightarrow>
       bitRead (b ! (9 + i)) j = bit_value tab (io s) (req_start s + i * 8 + j)"
    "handler s n = (if 0 < B \<and> limit < req_start s + B * 8
       then Some (error_reply ERR_ILLEGAL_DATA_ADDRESS (s\<lparr>buffer := b\<rparr>))
       else Some (s\<lparr>buffer := b, MessageLength := B + 9\<rparr>))"
proof -
  have B255: "B \<le> 255" using cnt by (simp add: B byte_count_eq)
  let ?s = "reply_header B s \<lparr>io := (io s)\<lparr>bufferLock := True\<rparr>\<rparr>"
  have len: "length (buffer ?s) = 1024" using ok by (simp add: conn_ok_def reply_header_def)
  have io1: "bit_value tab (io ?s) p = bit_value tab (io s) p" for p
    by (simp add: bit_value_def tab_lock cong: option.case_cong)
  obtain st' where st': "for_range 0 B (\<lambda>i. for_range 0 8 (read_bit limit tab (req_start s) i)) (?s, ERR_NONE)
      = Some st'" and inv: "rows_inv (req_start s) ?s B st'"
    using read_rows [OF len B255] by blast
  from inv obtain b where b: "fst st' = ?s\<lparr>buffer := b\<rparr>" "length b = 1024"
      "\<And>x. x < 9 \<or> 9 + B \<le> x \<Longrightarrow> b ! x = buffer (reply_header B s) ! x"
      "\<And>i j. i < B \<Longrightarrow> j < 8 \<Longrightarrow> req_start s + i * 8 + j < limit \<Longrightarrow>
          bitRead (b ! (9 + i)) j = bit_value tab (io s) (req_start s + i * 8 + j)"
    and e: "snd st' = (if 0 < B \<and> limit < req_start s + B * 8 then ERR_ILLEGAL_DATA_ADDRESS else ERR_NONE)"
    unfolding rows_inv_def io1 by auto
  have un: "mb_unlock (?s\<lparr>buffer := b\<rparr>) = s\<lparr>buffer := b\<rparr>"
    using ok by (simp add: mb_unlock_def conn_ok_def reply_header_def)
  have "handler s n = read_reply B st'"
    using ok n B B255 st' by (simp add: handler_eq conn_ok_def Let_def reply_header_def)
  also have "\<dots> = (if 0 < B \<and> limit < req_start s + B * 8
       then Some (error_reply ERR_ILLEGAL_DATA_ADDRESS (s\<lparr>buffer := b\<rparr>))
       else Some (s\<lparr>buffer := b, MessageLength := B + 9\<rparr>))"
    using b(1,2) e un by (cases st') (auto simp: read_reply_def Let_def mb_consts)
  finally show ?thesis using that b by blast
qed

end

interpretation coils: bit_reader MAX_COILS bool_output ReadCoils
  by unfold_locales (simp_all add: MAX_COILS_def ReadCoils_def)

interpretation inputs: bit_reader MAX_DISCRETE_INPUT bool_input ReadDiscreteInputs
  by unfold_locales (simp_all add: MAX_DISCRETE_INPUT_def ReadDiscreteInputs_def)

section \<open>Reading registers\<close>

locale reg_reader =
  fixes rd :: "plc_io \<Rightarrow> nat \<Rightarrow> (u8 \<times> u8) option option"
    and handler :: "mb_state \<Rightarrow> nat \<Rightarrow> mb_state option"
  assumes rd_lock: "rd (m\<lparr>bufferLock := b\<rparr>) p = rd m p"
    and handler_eq: "handler s n =
     (if n < 12 then ModbusError s ERR_ILLEGAL_DATA_VALUE
      else do {
        Start \<leftarrow> word_at 8 s;
        W \<leftarrow> word_at 10 s;
        let B = W * 2;
        (if B > 255 then ModbusError s ERR_ILLEGAL_DATA_ADDRESS
         else do {
           s \<leftarrow> put_header B s;
           s \<leftarrow> mb_lock s;
           st \<leftarrow> for_range 0 W (read_reg rd Start) (s, ERR_NONE);
           read_reply B st }) })"
begin

definition regs_inv :: "nat \<Rightarrow> mb_state \<Rightarrow> nat \<Rightarrow> mb_state \<times> nat \<Rightarrow> bool" where
  "regs_inv Start s k st \<longleftrightarrow>
     (\<exists>b. fst st = s\<lparr>buffer := b\<rparr> \<and> length b = 1024 \<and>
       (\<forall>x. x < 9 \<or> 9 + k * 2 \<le> x \<longrightarrow> b ! x = buffer s ! x) \<and>
       (\<forall>i < k. \<forall>hi lo. rd (io s) (Start + i) = Some (Some (hi, lo)) \<longrightarrow>
          b ! (9 + i * 2) = hi \<and> b ! (10 + i * 2) = lo)) \<and>
     snd st = (if \<exists>i < k. rd (io s) (Start + i) = Some None then ERR_ILLEGAL_DATA_ADDRESS else ERR_NONE)"

lemma read_regs_step:
  assumes k: "k < 128" and inv: "regs_inv Start s k st" and def: "rd (io s) (Start + k) \<noteq> None"
  shows "\<exists>st'. read_reg rd Start k st = Some st' \<and> regs_inv Start s (Suc k) st'"
proof -
  from inv obtain b where b: "fst st = s\<lparr>buffer := b\<rparr>" "length b = 1024"
      "\<And>x. x < 9 \<or> 9 + k * 2 \<le> x \<Longrightarrow> b ! x = buffer s ! x"
      "\<And>i hi lo. i < k \<Longrightarrow> rd (io s) (Start + i) = Some (Some (hi, lo)) \<Longrightarrow>
          b ! (9 + i * 2) = hi \<and> b ! (10 + i * 2) = lo"
    and e: "snd st = (if \<exists>i < k. rd (io s) (Start + i) = Some None then ERR_ILLEGAL_DATA_ADDRESS else ERR_NONE)"
    unfolding regs_inv_def by blast
  from def consider "rd (io s) (Start + k) = Some None"
    | hi lo where "rd (io s) (Start + k) = Some (Some (hi, lo))"
    by (metis option.exhaust surj_pair)
  then show ?thesis
  proof cases
    case 1
    then have "read_reg rd Start k st = Some (s\<lparr>buffer := b\<rparr>, ERR_ILLEGAL_DATA_ADDRESS)"
      using b by (cases st) (simp add: read_reg_def)
    moreover have "regs_inv Start s (Suc k) (s\<lparr>buffer := b\<rparr>, ERR_ILLEGAL_DATA_ADDRESS)"
      unfolding regs_inv_def using b 1 by (auto intro!: exI [of _ b] simp: less_Suc_eq)
    ultimately show ?thesis by blast
  next
    case 2
    let ?b = "b[9 + k * 2 := hi, 10 + k * 2 := lo]"
    have "read_reg rd Start k st = Some (s\<lparr>buffer := ?b\<rparr>, snd st)"
      using 2 b k by (cases st) (simp add: read_reg_def)
    moreover have "regs_inv Start s (Suc k) (s\<lparr>buffer := ?b\<rparr>, snd st)"
      unfolding regs_inv_def
    proof (intro conjI exI [of _ ?b] allI impI)
      show "?b ! (9 + i * 2) = hi'" "?b ! (10 + i * 2) = lo'"
        if "i < Suc k" "rd (io s) (Start + i) = Some (Some (hi', lo'))" for i hi' lo'
        using that 2 b(2) b(4)[of i hi' lo'] k by (auto simp: less_Suc_eq)
    qed (use b e 2 in \<open>auto simp: less_Suc_eq\<close>)
    ultimately show ?thesis by blast
  qed
qed

lemma read_regs:
  assumes len: "length (buffer s) = 1024" and W: "W \<le> 127"
    and def: "\<And>i. i < W \<Longrightarrow> rd (io s) (Start + i) \<noteq> None"
  shows "\<exists>st'. for_range 0 W (read_reg rd Start) (s, ERR_NONE) = Some st' \<and> regs_inv Start s W st'"
proof -
  have "regs_inv Start s 0 (s, ERR_NONE)"
    using len by (auto simp: regs_inv_def intro!: exI [of _ "buffer s"])
  then show ?thesis
    using for_range_total [of 0 W "regs_inv Start s" _ "(s, ERR_NONE)"] read_regs_step W def
    by fastforce
qed

lemma short:
  "conn_ok s \<Longrightarrow> n < 12 \<Longrightarrow> handler s n = Some (error_reply ERR_ILLEGAL_DATA_VALUE s)"
  by (simp add: handler_eq conn_ok_def)

lemma too_many:
  "conn_ok s \<Longrightarrow> 12 \<le> n \<Longrightarrow> 127 < req_count s \<Longrightarrow>
     handler s n = Some (error_reply ERR_ILLEGAL_DATA_ADDRESS s)"
  by (simp add: handler_eq conn_ok_def Let_def)

lemma in_range:
  assumes ok: "conn_ok s" and n: "12 \<le> n" and W: "W = req_count s" and cnt: "W \<le> 127"
    and def: "\<And>i. i < W \<Longrightarrow> rd (io s) (req_start s + i) \<noteq> None"
  obtains b where
    "length b = 1024" "\<And>x. x < 9 \<or> 9 + W * 2 \<le> x \<Longrightarrow> b ! x = buffer (reply_header (W * 2) s) ! x"
    "\<And>i hi lo. i < W \<Longrightarrow> rd (io s) (req_start s + i) = Some (Some (hi, lo)) \<Longrightarrow>
       b ! (9 + i * 2) = hi \<and> b ! (10 + i * 2) = lo"
    "handler s n = (if \<exists>i < W. rd (io s) (req_start s + i) = Some None
       then Some (error_reply ERR_ILLEGAL_DATA_ADDRESS (s\<lparr>buffer := b\<rparr>))
       else Some (s\<lparr>buffer := b, MessageLength := W * 2 + 9\<rparr>))"
proof -
  let ?s = "reply_header (W * 2) s \<lparr>io := (io s)\<lparr>bufferLock := True\<rparr>\<rparr>"
  have len: "length (buffer ?s) = 1024" using ok by (simp add: conn_ok_def reply_header_def)
  have io1: "rd (io ?s) p = rd (io s) p" for p by (simp add: rd_lock)
  obtain st' where st': "for_range 0 W (read_reg rd (req_start s)) (?s, ERR_NONE) = Some st'"
      and inv: "regs_inv (req_start s) ?s W st'"
    using read_regs [OF len cnt, of "req_start s"] def io1 by auto
  have buf: "buffer ?s = buffer (reply_header (W * 2) s)" by simp
  from inv obtain b where b: "fst st' = ?s\<lparr>buffer := b\<rparr>" "length b = 1024"
      "\<And>x. x < 9 \<or> 9 + W * 2 \<le> x \<Longrightarrow> b ! x = buffer (reply_header (W * 2) s) ! x"
      "\<And>i hi lo. i < W \<Longrightarrow> rd (io s) (req_start s + i) = Some (Some (hi, lo)) \<Longrightarrow>
          b ! (9 + i * 2) = hi \<and> b ! (10 + i * 2) = lo"
    and e: "snd st' = (if \<exists>i < W. rd (io s) (req_start s + i) = Some None
       then ERR_ILLEGAL_DATA_ADDRESS else ERR_NONE)"
    unfolding regs_inv_def io1 buf by blast
  have un: "mb_unlock (?s\<lparr>buffer := b\<rparr>) = s\<lparr>buffer := b\<rparr>"
    using ok by (simp add: mb_unlock_def conn_ok_def reply_header_def)
  have "handler s n = read_reply (W * 2) st'"
    using ok n W cnt st' by (simp add: handler_eq conn_ok_def Let_def reply_header_def)
  also have "\<dots> = (if \<exists>i < W. rd (io s) (req_start s + i) = Some None
       then Some (error_reply ERR_ILLEGAL_DATA_ADDRESS (s\<lparr>buffer := b\<rparr>))
       else Some (s\<lparr>buffer := b, MessageLength := W * 2 + 9\<rparr>))"
    using b(1,2) e un by (cases st') (auto simp: read_reply_def Let_def mb_consts)
  finally show ?thesis using that b by blast
qed

end

lemma holding_bytes_lock: "holding_bytes (m\<lparr>bufferLock := b\<rparr>) p = holding_bytes m p"
  by (simp add: holding_bytes_def cong: option.case_cong)

lemma input_bytes_lock: "input_bytes (m\<lparr>bufferLock := b\<rparr>) p = input_bytes m p"
  by (simp add: input_bytes_def cong: option.case_cong)

interpretation holding: reg_reader holding_bytes ReadHoldingRegisters
  by unfold_locales (simp_all add: holding_bytes_lock ReadHoldingRegisters_def)

interpretation inregs: reg_reader input_bytes ReadInputRegisters
  by unfold_locales (simp_all add: input_bytes_lock ReadInputRegisters_def)

text \<open>Where the two register tables are defined: only register 1024 is not.\<close>

lemma holding_bytes_None: "holding_bytes m p = None \<longleftrightarrow> p = 1024"
proof -
  have "holding_bytes m p \<noteq> None" if "p \<noteq> 1024"
    using that by (auto simp: holding_bytes_def mb_consts tab_get_def split: option.splits)
  moreover have "holding_bytes m 1024 = None"
    by (simp add: holding_bytes_def mb_consts)
  ultimately show ?thesis by blast
qed

lemma holding_bytes_1024: "holding_bytes m 1024 = None"
  by (simp add: holding_bytes_None)

lemma holding_bytes_illegal: "holding_bytes m p = Some None \<longleftrightarrow> 8192 \<le> p"
  by (auto simp: holding_bytes_def mb_consts tab_get_def bind_eq_Some_conv split: option.splits if_splits)

lemma input_bytes_eq:
  "input_bytes m p = (if p < 1024 then Some (Some (case int_input m p of
      Some c \<Rightarrow> reg_bytes (u16_heap m c) | None \<Rightarrow> (0, 0))) else Some None)"
  by (simp add: input_bytes_def mb_consts)

end
