(* ===== verification/RegisterFile.thy ===== *)
theory RegisterFile
  imports ModbusRead
begin

text \<open>
  The abstract view of the Modbus tables: a file of 16-bit registers and a file of coils, each an
  updatable function of the address. A \<open>slot\<close> is where a register of the code lives: a 16-bit
  object or one word of a 32- or 64-bit object. The locale \<open>reg_file\<close> is the law of such a file; it
  is interpreted on the holding registers and on the coils of the model.
\<close>

unbundle bit_operations_syntax

section \<open>The words of a 32-bit and of a 64-bit variable\<close>

lemma of_nat_unat_u16 [simp]: "(of_nat (unat (x :: u16)) :: 'a::len word) = ucast x"
  by simp

lemma masks32:
  "(0x0000ffff :: c_int) = mask 16" "(0xffff0000 :: c_int) = push_bit 16 (mask 16)"
  by (simp_all add: mask_eq_exp_minus_1)

lemma masks64:
  "(0x0000ffffffffffff :: c_long) = mask 48"
  "(0xffff0000ffffffff :: c_long) = push_bit 48 (mask 16) OR mask 32"
  "(0xffffffff0000ffff :: c_long) = push_bit 32 (mask 32) OR mask 16"
  "(0xffffffffffff0000 :: c_long) = push_bit 16 (mask 48)"
  "(0xffff :: c_long) = mask 16"
  by (simp_all add: mask_eq_exp_minus_1)

lemma bit_dint_word:
  "l < 2 \<Longrightarrow> bit (dint_word v l) n \<longleftrightarrow> n < 16 \<and> bit v (16 * (1 - l) + n)"
  by (auto simp: dint_word_def masks32 bit_simps)

lemma bit_set_dint_word:
  assumes "k < 2" "n < 32"
  shows "bit (set_dint_word v k (unat (x :: u16))) n \<longleftrightarrow>
    (if 16 * (1 - k) \<le> n \<and> n < 16 * (2 - k) then bit x (n - 16 * (1 - k)) else bit v n)"
proof -
  from \<open>k < 2\<close> have "k = 0 \<or> k = 1" by auto
  then show ?thesis using \<open>n < 32\<close>
    by (elim disjE) (auto dest: bit_u16_less simp: set_dint_word_def Let_def masks32 bit_simps)
qed

lemma dint_word_set:
  assumes "k < 2" "l < 2"
  shows "dint_word (set_dint_word v k (unat (x :: u16))) l = (if l = k then x else dint_word v l)"
proof (rule bit_eqI)
  fix n :: nat
  have kl: "k = 0 \<or> k = 1" "l = 0 \<or> l = 1" using assms by auto
  show "bit (dint_word (set_dint_word v k (unat x)) l) n \<longleftrightarrow> bit (if l = k then x else dint_word v l) n"
  proof (cases "n < 16")
    case True
    with kl show ?thesis by (elim disjE) (simp_all add: bit_dint_word bit_set_dint_word)
  next
    case False
    then show ?thesis using assms by (auto simp: bit_dint_word dest: bit_u16_less)
  qed
qed

lemma lint_words:
  "lint_word v 0 = ucast (signed_drop_bit 48 v)"
  "lint_word v 1 = ucast (signed_drop_bit 32 v AND mask 16)"
  "lint_word v 2 = ucast (signed_drop_bit 16 v AND mask 16)"
  "lint_word v 3 = ucast (v AND mask 16)"
  by (simp_all add: lint_word_def mask_eq_exp_minus_1)

lemma bit_lint_word:
  assumes "l < 4"
  shows "bit (lint_word v l) n \<longleftrightarrow> n < 16 \<and> bit v (16 * (3 - l) + n)"
proof -
  from assms have "l = 0 \<or> l = 1 \<or> l = 2 \<or> l = 3" by auto
  then show ?thesis
    by (elim disjE) (simp_all only: lint_words, auto simp: bit_simps)
qed

lemma set_lint_words:
  "set_lint_word v 0 w = (v AND mask 48) OR push_bit 48 (of_nat w)"
  "set_lint_word v 1 w = (v AND (push_bit 48 (mask 16) OR mask 32)) OR push_bit 32 (of_nat w)"
  "set_lint_word v 2 w = (v AND (push_bit 32 (mask 32) OR mask 16)) OR push_bit 16 (of_nat w)"
  "set_lint_word v 3 w = (v AND push_bit 16 (mask 48)) OR of_nat w"
  by (simp_all add: set_lint_word_def mask_eq_exp_minus_1)

lemma bit_set_lint_word:
  assumes "k < 4" "n < 64"
  shows "bit (set_lint_word v k (unat (x :: u16))) n \<longleftrightarrow>
    (if 16 * (3 - k) \<le> n \<and> n < 16 * (4 - k) then bit x (n - 16 * (3 - k)) else bit v n)"
proof -
  from \<open>k < 4\<close> have "k = 0 \<or> k = 1 \<or> k = 2 \<or> k = 3" by auto
  then show ?thesis using \<open>n < 64\<close>
    by (elim disjE) (simp_all only: set_lint_words of_nat_unat_u16, auto dest: bit_u16_less simp: bit_simps)
qed

lemma lint_word_set:
  assumes "k < 4" "l < 4"
  shows "lint_word (set_lint_word v k (unat (x :: u16))) l = (if l = k then x else lint_word v l)"
proof (rule bit_eqI)
  fix n :: nat
  have n: "16 * (3 - l) + n < 64" if "n < 16" using that assms by auto
  show "bit (lint_word (set_lint_word v k (unat x)) l) n \<longleftrightarrow> bit (if l = k then x else lint_word v l) n"
  proof (cases "n < 16")
    case True
    then have "bit (lint_word (set_lint_word v k (unat x)) l) n \<longleftrightarrow>
        (if 16 * (3 - k) \<le> 16 * (3 - l) + n \<and> 16 * (3 - l) + n < 16 * (4 - k)
         then bit x (16 * (3 - l) + n - 16 * (3 - k)) else bit v (16 * (3 - l) + n))"
      using assms n by (simp add: bit_lint_word bit_set_lint_word)
    moreover have "(16 * (3 - k) \<le> 16 * (3 - l) + n \<and> 16 * (3 - l) + n < 16 * (4 - k)) \<longleftrightarrow> l = k"
      using True assms by auto
    ultimately show ?thesis using True assms by (simp add: bit_lint_word)
  next
    case False
    then show ?thesis using assms by (auto simp: bit_lint_word dest: bit_u16_less)
  qed
qed

section \<open>Slots\<close>

datatype slot = Slot16 cell | Slot32 cell nat | Slot64 cell nat

fun slot_value :: "plc_io \<Rightarrow> slot \<Rightarrow> u16" where
  "slot_value m (Slot16 c) = u16_heap m c"
| "slot_value m (Slot32 c l) = dint_word (s32_heap m c) l"
| "slot_value m (Slot64 c l) = lint_word (s64_heap m c) l"

fun set_slot :: "slot \<Rightarrow> u16 \<Rightarrow> plc_io \<Rightarrow> plc_io" where
  "set_slot (Slot16 c) v m = set_u16 c v m"
| "set_slot (Slot32 c l) v m = set_s32 c (set_dint_word (s32_heap m c) l (unat v)) m"
| "set_slot (Slot64 c l) v m = set_s64 c (set_lint_word (s64_heap m c) l (unat v)) m"

fun slot_ok :: "slot \<Rightarrow> bool" where
  "slot_ok (Slot16 c) = True"
| "slot_ok (Slot32 c l) = (l < 2)"
| "slot_ok (Slot64 c l) = (l < 4)"

lemma slot_value_set:
  "slot_ok a \<Longrightarrow> slot_ok b \<Longrightarrow> slot_value (set_slot a v m) b = (if b = a then v else slot_value m b)"
  by (cases a; cases b) (auto simp: dint_word_set lint_word_set)

lemma tables_set_slot [simp, frame_simps]: "tables (set_slot a v m) = tables m"
  by (cases a) simp_all

lemma bufferLock_set_slot [simp, frame_simps]: "bufferLock (set_slot a v m) = bufferLock m"
  by (cases a) simp_all

lemma u8_heap_set_slot [simp, frame_simps]: "u8_heap (set_slot a v m) = u8_heap m"
  by (cases a) simp_all

text \<open>
  Where holding register \<open>p\<close> of the code lives. A 16-bit register with no pointer has no
  storage; a 32- or 64-bit one without a pointer is kept in \<open>mb_holding_regs\<close>.
\<close>

definition holding_slot :: "plc_io \<Rightarrow> nat \<Rightarrow> slot option" where
  "holding_slot m p =
     (if p < 1024 then map_option Slot16 (int_output m p)
      else if p < 2048 then map_option Slot16 (int_memory m (p - 1024))
      else if p < 4096 then Some (case dint_memory m ((p - 2048) div 2) of
          Some c \<Rightarrow> Slot32 c ((p - 2048) mod 2) | None \<Rightarrow> Slot16 (Mb_holding_regs p))
      else if p < 8192 then Some (case lint_memory m ((p - 4096) div 4) of
          Some c \<Rightarrow> Slot64 c ((p - 4096) mod 4) | None \<Rightarrow> Slot16 (Mb_holding_regs p))
      else None)"

lemma holding_slot_ok: "holding_slot m p = Some a \<Longrightarrow> slot_ok a"
  by (auto simp: holding_slot_def split: if_splits option.splits)

lemma holding_slot_tables: "tables m = tables m' \<Longrightarrow> holding_slot m = holding_slot m'"
  by (rule ext) (simp add: holding_slot_def tables_eqD [of m m'])

lemma holding_slot_set [simp]:
  "holding_slot (set_slot a v m) = holding_slot m" "holding_slot (m\<lparr>bufferLock := b\<rparr>) = holding_slot m"
  "holding_slot (unlock_buffer m) = holding_slot m"
  by (rule holding_slot_tables, simp)+

text \<open>The code's assignment to one register is an assignment to its slot.\<close>

lemma write_holding_slot:
  assumes "p < 8192" "p \<noteq> 1024"
  shows "write_holding p (unat (v :: u16)) m =
    Some (Some (case holding_slot m p of Some a \<Rightarrow> set_slot a v m | None \<Rightarrow> m))"
proof -
  consider "p < 1024" | "1024 < p" "p < 2048" | "2048 \<le> p" "p < 4096" | "4096 \<le> p"
    using assms by linarith
  then show ?thesis
    using assms by cases (auto simp: write_holding_def holding_slot_def mb_consts split: option.splits)
qed

lemma write_holding_1024: "write_holding 1024 v m = None"
  by (simp add: write_holding_def mb_consts)

lemma write_holding_illegal: "8192 \<le> p \<Longrightarrow> write_holding p v m = Some None"
  by (simp add: write_holding_def mb_consts)

text \<open>
  The reply bytes of a register are those of its slot, except where a 32- or 64-bit pointer is
  NULL: there both bytes are the low byte of the register.
\<close>

definition wide_unmapped :: "plc_io \<Rightarrow> nat \<Rightarrow> bool" where
  "wide_unmapped m p \<longleftrightarrow> 2048 \<le> p \<and> p < 8192 \<and> holding_slot m p = Some (Slot16 (Mb_holding_regs p))"

lemma holding_bytes_slot:
  assumes "p < 8192" "p \<noteq> 1024"
  shows "holding_bytes m p = Some (Some (case holding_slot m p of
      None \<Rightarrow> (0, 0)
    | Some a \<Rightarrow> if wide_unmapped m p then (ucast (slot_value m a), ucast (slot_value m a))
                else reg_bytes (slot_value m a)))"
proof -
  consider "p < 1024" | "1024 < p" "p < 2048" | "2048 \<le> p" "p < 4096" | "4096 \<le> p"
    using assms by linarith
  then show ?thesis
    using assms by cases
      (auto simp: holding_bytes_def holding_slot_def wide_unmapped_def mb_consts split: option.splits)
qed

section \<open>The file of registers and the file of coils\<close>

text \<open>
  The abstract files. \<open>regs m p\<close> is \<open>None\<close> where the address has no storage. The pointers of
  the process image must not be shared between addresses: \<open>regs_distinct\<close> and
  \<open>coils_distinct\<close>, which the glue code establishes.
\<close>

definition regs :: "plc_io \<Rightarrow> nat \<Rightarrow> u16 option" where
  "regs m p = map_option (slot_value m) (holding_slot m p)"

definition regs_distinct :: "plc_io \<Rightarrow> bool" where
  "regs_distinct m \<longleftrightarrow>
     (\<forall>p q a. holding_slot m p = Some a \<longrightarrow> holding_slot m q = Some a \<longrightarrow> p = q)"

definition coil_ptr :: "plc_io \<Rightarrow> nat \<Rightarrow> cell option" where
  "coil_ptr m p = (if p < 800 then bool_output m (p div 8) (p mod 8) else None)"

definition coils_file :: "plc_io \<Rightarrow> nat \<Rightarrow> u8 option" where
  "coils_file m p = map_option (u8_heap m) (coil_ptr m p)"

definition coils_distinct :: "plc_io \<Rightarrow> bool" where
  "coils_distinct m \<longleftrightarrow> (\<forall>p q c. coil_ptr m p = Some c \<longrightarrow> coil_ptr m q = Some c \<longrightarrow> p = q)"

definition reg_store :: "nat \<Rightarrow> u16 \<Rightarrow> plc_io \<Rightarrow> plc_io" where
  "reg_store p v m = (case holding_slot m p of Some a \<Rightarrow> set_slot a v m | None \<Rightarrow> m)"

definition coil_store :: "nat \<Rightarrow> u8 \<Rightarrow> plc_io \<Rightarrow> plc_io" where
  "coil_store p v m = (case coil_ptr m p of Some c \<Rightarrow> set_u8 c v m | None \<Rightarrow> m)"

text \<open>Storing the values of a list at consecutive addresses, in order.\<close>

fun store_seq :: "(nat \<Rightarrow> 'v \<Rightarrow> 'm \<Rightarrow> 'm) \<Rightarrow> nat \<Rightarrow> 'v list \<Rightarrow> 'm \<Rightarrow> 'm" where
  "store_seq st p [] m = m"
| "store_seq st p (v # vs) m = store_seq st (Suc p) vs (st p v m)"

text \<open>
  The contract of a file: a store changes exactly its own address, an address without storage
  swallows it, and the invariant is kept.
\<close>

locale reg_file =
  fixes fetch :: "'m \<Rightarrow> nat \<Rightarrow> 'v option"
    and store :: "nat \<Rightarrow> 'v \<Rightarrow> 'm \<Rightarrow> 'm"
    and inv :: "'m \<Rightarrow> bool"
  assumes inv_store: "inv m \<Longrightarrow> inv (store p v m)"
    and fetch_store: "inv m \<Longrightarrow>
      fetch (store p v m) q = (if q = p then map_option (\<lambda>_. v) (fetch m p) else fetch m q)"
begin

lemma inv_seq: "inv m \<Longrightarrow> inv (store_seq store p vs m)"
  by (induction vs arbitrary: p m) (simp_all add: inv_store)

lemma fetch_seq:
  "inv m \<Longrightarrow> fetch (store_seq store p vs m) q =
     (if p \<le> q \<and> q < p + length vs then map_option (\<lambda>_. vs ! (q - p)) (fetch m q) else fetch m q)"
proof (induction vs arbitrary: p m)
  case Nil
  then show ?case by auto
next
  case (Cons v vs)
  have "fetch (store_seq store p (v # vs) m) q =
      (if Suc p \<le> q \<and> q < Suc p + length vs then map_option (\<lambda>_. vs ! (q - Suc p)) (fetch (store p v m) q)
       else fetch (store p v m) q)"
    using Cons.prems by (simp add: Cons.IH inv_store)
  then show ?case
    using Cons.prems by (auto simp: fetch_store nth_Cons' Suc_le_eq)
qed

lemma fetch_dom: "inv m \<Longrightarrow> dom (fetch (store p v m)) = dom (fetch m)"
  by (auto simp: fetch_store dom_def split: if_splits)

lemma store_last:
  assumes "inv m" "fetch m p \<noteq> None"
  shows "fetch (store p v (store p w m)) = fetch (store p v m)" "fetch (store p v m) p = Some v"
  using assms by (auto simp: fetch_store inv_store fun_eq_iff)

end

lemma regs_store:
  assumes "regs_distinct m"
  shows "regs (reg_store p v m) q = (if q = p then map_option (\<lambda>_. v) (regs m p) else regs m q)"
proof (cases "holding_slot m p")
  case None
  then show ?thesis by (simp add: reg_store_def regs_def)
next
  case (Some a)
  show ?thesis
  proof (cases "holding_slot m q")
    case None
    then show ?thesis using Some by (auto simp: reg_store_def regs_def)
  next
    case q: (Some b)
    have "b = a \<longleftrightarrow> q = p" using assms Some q by (auto simp: regs_distinct_def)
    then show ?thesis
      using Some q by (simp add: reg_store_def regs_def slot_value_set holding_slot_ok)
  qed
qed

interpretation registers: reg_file regs reg_store regs_distinct
proof
  show "regs_distinct (reg_store p v m)" if "regs_distinct m" for m p v
    using that by (simp add: reg_store_def regs_distinct_def split: option.splits)
qed (rule regs_store)

lemma coil_ptr_set_u8 [simp]: "coil_ptr (set_u8 c v m) = coil_ptr m"
  by (rule ext) (simp add: coil_ptr_def)

interpretation coil_regs: reg_file coils_file coil_store coils_distinct
proof
  show "coils_distinct (coil_store p v m)" if "coils_distinct m" for m p v
    using that by (simp add: coil_store_def coils_distinct_def split: option.splits)
  show "coils_file (coil_store p v m) q =
      (if q = p then map_option (\<lambda>_. v) (coils_file m p) else coils_file m q)"
    if "coils_distinct m" for m p v q
  proof (cases "coil_ptr m p")
    case None
    then show ?thesis by (auto simp: coil_store_def coils_file_def)
  next
    case (Some c)
    then show ?thesis using that
      by (cases "coil_ptr m q") (auto simp: coil_store_def coils_file_def coils_distinct_def)
  qed
qed

end
