(* ===== verification/ModbusWrite.thy ===== *)
theory ModbusWrite
  imports RegisterFile
begin

text \<open>
  Lemmas on the four writing functions of \<open>Modbus\<close>: each is, on its valid requests, a store (or
  a sequence of stores) to the register file or to the coil file of \<open>RegisterFile\<close>, with the
  acknowledgement in the buffer; and the requests on which the code departs from that.
\<close>

unbundle bit_operations_syntax

section \<open>The locked store\<close>

lemma unlock_set_slot: "unlock_buffer (set_slot a v m) = set_slot a v (unlock_buffer m)"
  by (cases a) (simp_all add: unlock_buffer_def set_u16_def set_s32_def set_s64_def)

lemma unlock_reg_store: "unlock_buffer (reg_store p v m) = reg_store p v (unlock_buffer m)"
  by (simp add: reg_store_def unlock_set_slot split: option.splits)

lemma coil_ptr_lock [simp]:
  "coil_ptr (m\<lparr>bufferLock := b\<rparr>) = coil_ptr m" "coil_ptr (unlock_buffer m) = coil_ptr m"
  by (rule ext, simp add: coil_ptr_def)+

lemma unlock_set_u8: "unlock_buffer (set_u8 c v m) = set_u8 c v (unlock_buffer m)"
  by (simp add: unlock_buffer_def set_u8_def)

lemma unlock_coil_store: "unlock_buffer (coil_store p v m) = coil_store p v (unlock_buffer m)"
  by (simp add: coil_store_def unlock_buffer_def set_u8_def coil_ptr_def split: option.splits)

lemma unlock_store_seq:
  assumes "\<And>p v m. unlock_buffer (st p v m) = st p v (unlock_buffer m)"
  shows "unlock_buffer (store_seq st p vs m) = store_seq st p vs (unlock_buffer m)"
  by (induction vs arbitrary: p m) (simp_all add: assms)

lemma store_seq_append:
  "store_seq st p (vs @ ws) m = store_seq st (p + length vs) ws (store_seq st p vs m)"
  by (induction vs arbitrary: p m) simp_all

text \<open>What a successful write leaves: the stores in \<open>io\<close>, the acknowledgement in the buffer.\<close>

definition write_ack :: "plc_io \<Rightarrow> mb_state \<Rightarrow> mb_state" where
  "write_ack m s = s\<lparr>io := m, buffer := (buffer s)[4 := 0, 5 := 6], MessageLength := 12\<rparr>"

lemma write_ack_sel [simp]:
  "io (write_ack m s) = m" "MessageLength (write_ack m s) = 12"
  "length (buffer (write_ack m s)) = length (buffer s)"
  by (simp_all add: write_ack_def)

lemma put_write_header_eq [simp]:
  "9 \<le> length (buffer s) \<Longrightarrow> put_write_header s = Some (s\<lparr>buffer := (buffer s)[4 := 0, 5 := 6]\<rparr>)"
  by (simp add: put_write_header_def)

section \<open>WriteCoil and WriteRegister\<close>

lemma WriteCoil_short:
  "conn_ok s \<Longrightarrow> n < 12 \<Longrightarrow> WriteCoil s n = Some (error_reply ERR_ILLEGAL_DATA_VALUE s)"
  by (simp add: WriteCoil_def conn_ok_def)

lemma WriteCoil_illegal:
  "conn_ok s \<Longrightarrow> 12 \<le> n \<Longrightarrow> 800 \<le> req_start s \<Longrightarrow>
     WriteCoil s n = Some (error_reply ERR_ILLEGAL_DATA_ADDRESS s)"
  by (simp add: WriteCoil_def conn_ok_def MAX_COILS_def)

lemma WriteCoil_eq:
  assumes ok: "conn_ok s" and n: "12 \<le> n" and S: "req_start s < 800"
  shows "WriteCoil s n =
    Some (write_ack (coil_store (req_start s) (if 0 < req_count s then 1 else 0) (io s)) s)"
proof -
  let ?S = "req_start s" and ?m = "(io s)\<lparr>bufferLock := True\<rparr>"
  let ?v = "if 0 < req_count s then 1 else 0 :: u8"
  have p: "coil_ptr ?m ?S = bool_output ?m (?S div 8) (?S mod 8)"
    using S by (simp add: coil_ptr_def)
  show ?thesis
    using ok n S p by (simp add: WriteCoil_def conn_ok_def MAX_COILS_def Let_def write_ack_def
        mb_unlock_def coil_store_def unlock_set_u8 split: option.splits)
qed

lemma WriteRegister_short:
  "conn_ok s \<Longrightarrow> n < 12 \<Longrightarrow> WriteRegister s n = Some (error_reply ERR_ILLEGAL_DATA_VALUE s)"
  by (simp add: WriteRegister_def conn_ok_def)

lemma WriteRegister_illegal:
  assumes ok: "conn_ok s" and "12 \<le> n" "8192 \<le> req_start s"
  shows "WriteRegister s n = Some (error_reply ERR_ILLEGAL_DATA_ADDRESS s)"
  using assms by (simp add: WriteRegister_def conn_ok_def mb_unlock_def write_holding_illegal)

lemma WriteRegister_1024:
  "conn_ok s \<Longrightarrow> 12 \<le> n \<Longrightarrow> req_start s = 1024 \<Longrightarrow> WriteRegister s n = None"
  by (simp add: WriteRegister_def conn_ok_def write_holding_1024)

lemma write_holding_c_word:
  assumes "p < 8192" "p \<noteq> 1024"
  shows "write_holding p (c_word a b) m = Some (Some (reg_store p (of_nat (c_word a b)) m))"
  using write_holding_slot [OF assms, of "of_nat (c_word a b)" m]
  by (simp add: unat_of_nat_c_word reg_store_def del: of_nat_unat_u16)

lemma WriteRegister_eq:
  assumes ok: "conn_ok s" and n: "12 \<le> n" and S: "req_start s < 8192" "req_start s \<noteq> 1024"
  shows "WriteRegister s n =
    Some (write_ack (reg_store (req_start s) (of_nat (req_count s)) (io s)) s)"
proof -
  have un: "unlock_buffer (reg_store p v ((io s)\<lparr>bufferLock := True\<rparr>)) = reg_store p v (io s)" for p v
    using ok by (simp add: unlock_reg_store conn_ok_def)
  show ?thesis
    using ok n by (simp add: WriteRegister_def conn_ok_def write_holding_c_word [OF S] write_ack_def
        mb_unlock_def un)
qed

section \<open>WriteMultipleCoils\<close>

text \<open>The bits of the request, byte after byte, least significant bit first.\<close>

definition req_bits :: "nat \<Rightarrow> u8 list \<Rightarrow> u8 list" where
  "req_bits B b = concat (map (\<lambda>i. map (bitRead (b ! (13 + i))) [0..<8]) [0..<B])"

lemma req_bits_Suc: "req_bits (Suc B) b = req_bits B b @ map (bitRead (b ! (13 + B))) [0..<8]"
  by (simp add: req_bits_def)

lemma length_req_bits [simp]: "length (req_bits B b) = B * 8"
  by (induction B) (simp_all add: req_bits_Suc, simp add: req_bits_def)

lemma nth_req_bits: "k < B * 8 \<Longrightarrow> req_bits B b ! k = bitRead (b ! (13 + k div 8)) (k mod 8)"
proof (induction B)
  case (Suc B)
  show ?case
  proof (cases "k < B * 8")
    case True
    then show ?thesis using Suc.IH by (simp add: req_bits_Suc nth_append)
  next
    case False
    then obtain r where r: "k = B * 8 + r" "r < 8"
      using Suc.prems by (metis add.commute add_less_cancel_left mult_Suc le_Suc_ex not_less)
    then show ?thesis by (simp add: req_bits_Suc nth_append del: upt_Suc upt.simps)
  qed
qed simp

lemma write_bit_eq:
  assumes len: "length (buffer s) = 1024" and i: "i < 256" and j: "j < 8"
  shows "write_bit Start i j (s, e) =
    Some (s\<lparr>io := coil_store (Start + i * 8 + j) (bitRead (buffer s ! (13 + i)) j) (io s)\<rparr>,
          if Start + i * 8 + j < 800 then e else ERR_ILLEGAL_DATA_ADDRESS)"
  using assms by (auto simp: write_bit_def Let_def MAX_COILS_def coil_store_def coil_ptr_def
      split: option.splits)

lemma write_row:
  assumes len: "length (buffer s) = 1024" and i: "i < 256" and n: "n \<le> 8"
  shows "for_range 0 n (write_bit Start i) (s, e) =
    Some (s\<lparr>io := store_seq coil_store (Start + i * 8) (map (bitRead (buffer s ! (13 + i))) [0..<n]) (io s)\<rparr>,
          if 0 < n \<and> 800 < Start + i * 8 + n then ERR_ILLEGAL_DATA_ADDRESS else e)"
  using n
proof (induction n)
  case (Suc n)
  let ?m = "store_seq coil_store (Start + i * 8) (map (bitRead (buffer s ! (13 + i))) [0..<n]) (io s)"
  have "for_range 0 (Suc n) (write_bit Start i) (s, e) =
      write_bit Start i n (s\<lparr>io := ?m\<rparr>, if 0 < n \<and> 800 < Start + i * 8 + n then ERR_ILLEGAL_DATA_ADDRESS else e)"
    using Suc by (simp add: for_range_Suc_right del: for_range.simps(2))
  then show ?case
    using Suc.prems len i by (auto simp: write_bit_eq store_seq_append)
qed simp

lemma write_rows:
  assumes len: "length (buffer s) = 1024" and B: "B \<le> 256"
  shows "for_range 0 B (\<lambda>i. for_range 0 8 (write_bit Start i)) (s, ERR_NONE) =
    Some (s\<lparr>io := store_seq coil_store Start (req_bits B (buffer s)) (io s)\<rparr>,
          if 0 < B \<and> 800 < Start + B * 8 then ERR_ILLEGAL_DATA_ADDRESS else ERR_NONE)"
  using B
proof (induction B)
  case (Suc B)
  let ?f = "\<lambda>i. for_range 0 8 (write_bit Start i)"
  let ?st = "(s\<lparr>io := store_seq coil_store Start (req_bits B (buffer s)) (io s)\<rparr>,
          if 0 < B \<and> 800 < Start + B * 8 then ERR_ILLEGAL_DATA_ADDRESS else ERR_NONE)"
  have "for_range 0 (Suc B) ?f (s, ERR_NONE) = ?f B ?st"
    using Suc by (simp add: for_range_Suc_right del: for_range.simps(2))
  also have "\<dots> = Some (s\<lparr>io := store_seq coil_store Start (req_bits (Suc B) (buffer s)) (io s)\<rparr>,
          if 0 < Suc B \<and> 800 < Start + Suc B * 8 then ERR_ILLEGAL_DATA_ADDRESS else ERR_NONE)"
    using Suc.prems len
    by (subst write_row) (auto simp: req_bits_Suc store_seq_append simp del: upt_Suc upt.simps)
  finally show ?case by simp
qed (simp add: req_bits_def)

lemma WriteMultipleCoils_eq:
  assumes ok: "conn_ok s" and n: "12 \<le> n" and B: "B = byte_count (req_count s)"
    and len: "13 + B \<le> n" "unat (buffer s ! 12) = B"
  defines "m \<equiv> store_seq coil_store (req_start s) (req_bits B (buffer s)) (io s)"
  shows "WriteMultipleCoils s n = Some (if 0 < B \<and> 800 < req_start s + B * 8
     then error_reply ERR_ILLEGAL_DATA_ADDRESS (s\<lparr>buffer := (buffer s)[4 := 0, 5 := 6], io := m\<rparr>)
     else write_ack m s)"
proof -
  have B256: "B \<le> 256" using len(2) unat_u8_less [of "buffer s ! 12"] by simp
  let ?s = "s\<lparr>buffer := (buffer s)[4 := 0, 5 := 6], io := (io s)\<lparr>bufferLock := True\<rparr>\<rparr>"
  have bits: "req_bits B (buffer ?s) = req_bits B (buffer s)"
    by (simp add: req_bits_def)
  have un: "unlock_buffer (store_seq coil_store p vs ((io s)\<lparr>bufferLock := True\<rparr>)) =
      store_seq coil_store p vs (io s)" for p vs
    using ok by (simp add: unlock_store_seq [where st = coil_store, OF unlock_coil_store] conn_ok_def)
  have "for_range 0 B (\<lambda>i. for_range 0 8 (write_bit (req_start s) i)) (?s, ERR_NONE) =
      Some (?s\<lparr>io := store_seq coil_store (req_start s) (req_bits B (buffer s)) (io ?s)\<rparr>,
          if 0 < B \<and> 800 < req_start s + B * 8 then ERR_ILLEGAL_DATA_ADDRESS else ERR_NONE)"
    using ok B256 by (subst write_rows) (simp_all add: conn_ok_def bits [simplified])
  then show ?thesis
    using ok n len B [symmetric] by (simp add: WriteMultipleCoils_def conn_ok_def Let_def un m_def
      write_multiple_reply_def mb_unlock_def write_ack_def mb_consts)
qed

section \<open>WriteMultipleRegisters\<close>

definition req_words :: "nat \<Rightarrow> u8 list \<Rightarrow> u16 list" where
  "req_words W b = map (\<lambda>i. of_nat (c_word (b ! (13 + i * 2)) (b ! (14 + i * 2)))) [0..<W]"

lemma length_req_words [simp]: "length (req_words W b) = W"
  by (simp add: req_words_def)

lemma nth_req_words [simp]:
  "i < W \<Longrightarrow> req_words W b ! i = of_nat (c_word (b ! (13 + i * 2)) (b ! (14 + i * 2)))"
  by (simp add: req_words_def del: upt_Suc)

text \<open>
  The addresses whose assignment is the one of \<open>WriteRegister\<close>: the 16-bit ones, the 32-bit ones
  when the first register's pointer is NULL exactly where this one's is, and the mapped 64-bit ones
  when this register and the first one are the same word of their variables, or this one is the
  first word.
\<close>

definition multi_ok :: "plc_io \<Rightarrow> nat \<Rightarrow> nat \<Rightarrow> bool" where
  "multi_ok m Start p \<longleftrightarrow>
     p < 2048 \<and> p \<noteq> 1024
     \<or> 2048 \<le> Start \<and> Start \<le> p \<and> p < 4096 \<and>
         (dint_memory m ((Start - 2048) div 2) = None \<longleftrightarrow> dint_memory m ((p - 2048) div 2) = None)
     \<or> 4096 \<le> Start \<and> Start \<le> p \<and> p < 8192 \<and> lint_memory m ((p - 4096) div 4) \<noteq> None \<and>
         ((p - 4096) mod 4 = 0 \<or> (p - 4096) mod 4 = (Start - 4096) mod 4)"

lemma int_sdiv_nat: "b \<le> a \<Longrightarrow> (int a - int b) sdiv 2 = int ((a - b) div 2)"
  by (simp add: signed_divide_int_def zdiv_int of_nat_diff sgn_if)

lemma int_smod_4: "int n smod 4 = int (n mod 4)"
  by (simp add: signed_modulo_int_def signed_divide_int_def sgn_if zmod_int zdiv_int
      minus_mult_div_eq_mod [symmetric] mult.commute)

lemma int_smod_nat: "b \<le> a \<Longrightarrow> (int a - int b) smod 4 = int ((a - b) mod 4)"
  using int_smod_4 [of "a - b"] by (simp add: of_nat_diff)

lemma multi_16:
  assumes "p < 2048" "p \<noteq> 1024"
  shows "write_multiple_holding Start count p v m = write_holding p v m"
  using assms by (auto simp: write_multiple_holding_def write_holding_def mb_consts)

lemma multi_32:
  assumes "2048 \<le> Start" "Start \<le> p" "p < 4096"
    and "dint_memory m ((Start - 2048) div 2) = None \<longleftrightarrow> dint_memory m ((p - 2048) div 2) = None"
  shows "write_multiple_holding Start count p v m = write_holding p v m"
proof -
  have "ptr1_int (dint_memory m) ((int Start - int 2048) sdiv 2) = Some (dint_memory m ((Start - 2048) div 2))"
    using assms(1-3) by (simp only: int_sdiv_nat ptr1_int_def) simp
  then show ?thesis
    using assms by (auto simp: write_multiple_holding_def write_holding_def mb_consts split: option.splits)
qed

lemma multi_64:
  assumes "4096 \<le> Start" "Start \<le> p" "p < 8192" "lint_memory m ((p - 4096) div 4) = Some c"
  shows "write_multiple_holding Start count p v m = Some (Some (
     if (p - 4096) mod 4 = 0 then set_s64 c (set_lint_word (s64_heap m c) 0 v) m
     else if (Start - 4096) mod 4 = 0 then m
     else set_s64 c (set_lint_word (s64_heap m c) ((Start - 4096) mod 4) v) m))"
proof -
  define l where "l = (Start - 4096) mod 4"
  have sm: "(int Start - int 4096) smod 4 = int l"
    unfolding l_def by (rule int_smod_nat [OF assms(1)])
  have "l < 4" by (simp add: l_def)
  then have l: "l = 0 \<or> l = 1 \<or> l = 2 \<or> l = 3" by auto
  show ?thesis
    using assms sm l unfolding l_def [symmetric]
    by (auto simp: write_multiple_holding_def mb_consts Let_def)
qed

lemma multi_ok_write:
  assumes "multi_ok m Start p"
  shows "write_multiple_holding Start count p (c_word a b) m =
    Some (Some (reg_store p (of_nat (c_word a b)) m))"
proof -
  consider "p < 2048" "p \<noteq> 1024"
    | "2048 \<le> Start" "Start \<le> p" "p < 4096"
        "dint_memory m ((Start - 2048) div 2) = None \<longleftrightarrow> dint_memory m ((p - 2048) div 2) = None"
    | c where "4096 \<le> Start" "Start \<le> p" "p < 8192" "lint_memory m ((p - 4096) div 4) = Some c"
        "(p - 4096) mod 4 = 0 \<or> (p - 4096) mod 4 = (Start - 4096) mod 4"
    using assms by (auto simp: multi_ok_def)
  then show ?thesis
  proof cases
    case 1
    then show ?thesis by (simp add: multi_16 write_holding_c_word)
  next
    case 2
    then show ?thesis by (simp add: multi_32 write_holding_c_word)
  next
    case 3
    have "reg_store p (of_nat (c_word a b)) m =
        set_s64 c (set_lint_word (s64_heap m c) ((p - 4096) mod 4) (c_word a b)) m"
      using 3 by (simp add: reg_store_def holding_slot_def unat_of_nat_c_word)
    then show ?thesis using 3 by (auto simp: multi_64)
  qed
qed

lemma multi_ok_tables: "tables m = tables m' \<Longrightarrow> multi_ok m = multi_ok m'"
  by (intro ext) (simp add: multi_ok_def tables_eqD [of m m'])

lemma tables_reg_store [simp, frame_simps]: "tables (reg_store p v m) = tables m"
  by (simp add: reg_store_def split: option.splits)

lemma tables_store_seq [simp, frame_simps]: "tables (store_seq reg_store p vs m) = tables m"
  by (induction vs arbitrary: p m) simp_all

lemma write_regs:
  assumes len: "length (buffer s) = 1024" and W: "W \<le> 127"
    and ok: "\<And>i. i < W \<Longrightarrow> multi_ok (io s) Start (Start + i)"
  shows "for_range 0 W (write_reg Start count) (s, e) =
    Some (s\<lparr>io := store_seq reg_store Start (req_words W (buffer s)) (io s)\<rparr>, e)"
  using W ok
proof (induction W)
  case (Suc W)
  let ?m = "store_seq reg_store Start (req_words W (buffer s)) (io s)"
  have "multi_ok ?m Start (Start + W)"
    using Suc.prems(2)[of W] multi_ok_tables [of ?m "io s"] by simp
  then have step: "write_reg Start count W (s\<lparr>io := ?m\<rparr>, e) =
      Some (s\<lparr>io := store_seq reg_store Start (req_words (Suc W) (buffer s)) (io s)\<rparr>, e)"
    using Suc.prems(1) len
    by (simp add: write_reg_def multi_ok_write store_seq_append req_words_def)
  show ?case
    using Suc step by (simp add: for_range_Suc_right del: for_range.simps(2))
qed (simp add: req_words_def)

lemma WriteMultipleRegisters_eq:
  assumes ok: "conn_ok s" and n: "12 \<le> n" and W: "W = req_count s"
    and len: "13 + W * 2 \<le> n" "unat (buffer s ! 12) = W * 2"
    and multi: "\<And>i. i < W \<Longrightarrow> multi_ok (io s) (req_start s) (req_start s + i)"
  shows "WriteMultipleRegisters s n =
    Some (write_ack (store_seq reg_store (req_start s) (req_words W (buffer s)) (io s)) s)"
proof -
  have W127: "W \<le> 127" using len(2) unat_u8_less [of "buffer s ! 12"] by simp
  let ?s = "s\<lparr>buffer := (buffer s)[4 := 0, 5 := 6], io := (io s)\<lparr>bufferLock := True\<rparr>\<rparr>"
  have words: "req_words W (buffer ?s) = req_words W (buffer s)"
    by (simp add: req_words_def)
  have mok: "multi_ok (io ?s) (req_start s) (req_start s + i)" if "i < W" for i
    using multi [OF that] multi_ok_tables [of "io ?s" "io s"] by simp
  have un: "unlock_buffer (store_seq reg_store p vs ((io s)\<lparr>bufferLock := True\<rparr>)) =
      store_seq reg_store p vs (io s)" for p vs
    using ok by (simp add: unlock_store_seq [where st = reg_store, OF unlock_reg_store] conn_ok_def)
  have "for_range 0 W (write_reg (req_start s) W) (?s, ERR_NONE) =
      Some (?s\<lparr>io := store_seq reg_store (req_start s) (req_words W (buffer s)) (io ?s)\<rparr>, ERR_NONE)"
    using ok W127 mok by (subst write_regs) (simp_all add: conn_ok_def words [simplified])
  then show ?thesis
    using ok n len W [symmetric] by (simp add: WriteMultipleRegisters_def conn_ok_def Let_def un
      write_multiple_reply_def mb_unlock_def write_ack_def mb_consts)
qed

end
