(* ===== verification/ModbusServer.thy ===== *)
theory ModbusServer
  imports ModbusWrite
begin

text \<open>
  What \<open>processModbusMessage\<close> does with a whole request: where it is defined, what it replies
  and what it leaves in the process image. The properties here rest on the interpretations of
  \<open>ModbusRead\<close> and \<open>RegisterFile\<close> and on the equations of \<open>ModbusWrite\<close>.
\<close>

unbundle bit_operations_syntax

section \<open>Requests\<close>

abbreviation function_code :: "mb_state \<Rightarrow> u8" where
  "function_code s \<equiv> buffer s ! 7"

text \<open>
  The requests on which no function leaves its arrays: no register access at 1024, and a
  multi-register write that reaches the 32-bit range starts in it and meets no NULL pointer where
  the first pointer is set.
\<close>

definition request_safe :: "mb_state \<Rightarrow> nat \<Rightarrow> bool" where
  "request_safe s n \<longleftrightarrow> n < 12 \<or>
     (if function_code s = 3 then
        127 < req_count s \<or> \<not> (req_start s \<le> 1024 \<and> 1024 < req_start s + req_count s)
      else if function_code s = 6 then req_start s \<noteq> 1024
      else if function_code s = 16 then
        (\<forall>p \<in> set [req_start s ..< req_start s + req_count s]. p \<noteq> 1024 \<and>
           (2048 \<le> p \<and> p < 4096 \<longrightarrow> 2048 \<le> req_start s \<and>
              (dint_memory (io s) ((req_start s - 2048) div 2) \<noteq> None \<longrightarrow>
               dint_memory (io s) ((p - 2048) div 2) \<noteq> None)))
      else True)"

lemma process_dispatch:
  assumes "conn_ok s" "8 \<le> n"
  shows "processModbusMessage s n =
    (let t = s\<lparr>MessageLength := 0\<rparr>; fc = function_code s in
     if fc = 1 then ReadCoils t n else if fc = 2 then ReadDiscreteInputs t n
     else if fc = 3 then ReadHoldingRegisters t n else if fc = 4 then ReadInputRegisters t n
     else if fc = 5 then WriteCoil t n else if fc = 6 then WriteRegister t n
     else if fc = 15 then WriteMultipleCoils t n else if fc = 16 then WriteMultipleRegisters t n
     else ModbusError t ERR_ILLEGAL_FUNCTION)"
  using assms by (simp add: processModbusMessage_def conn_ok_def Let_def)

lemma process_runt:
  assumes "conn_ok s" "n < 8"
  shows "processModbusMessage s n = Some (error_reply ERR_ILLEGAL_FUNCTION (s\<lparr>MessageLength := 0\<rparr>))"
  using assms by (simp add: processModbusMessage_def conn_ok_def Let_def)

lemma conn_ok_ML [simp]: "conn_ok (s\<lparr>MessageLength := k\<rparr>) = conn_ok s"
  by (simp add: conn_ok_def)

section \<open>Every function returns\<close>

text \<open>What the reply of every function satisfies: the buffer and the mutex kept, a bounded length.\<close>

definition reply_ok :: "mb_state \<Rightarrow> mb_state \<Rightarrow> bool" where
  "reply_ok s s' \<longleftrightarrow> conn_ok s' \<and> 9 \<le> MessageLength s' \<and> MessageLength s' \<le> 264 \<and>
     tables (io s') = tables (io s)"

lemma reply_ok_error [mb_wf]:
  "conn_ok t \<Longrightarrow> tables (io t) = tables (io s) \<Longrightarrow> reply_ok s (error_reply e t)"
  by (simp add: reply_ok_def conn_ok_def)

lemma reply_ok_ack [mb_wf]:
  "conn_ok s \<Longrightarrow> bufferLock m = False \<Longrightarrow> tables m = tables (io s) \<Longrightarrow> reply_ok s (write_ack m s)"
  by (simp add: reply_ok_def conn_ok_def)

lemma tables_coil_store [simp, frame_simps]: "tables (coil_store p v m) = tables m"
  by (simp add: coil_store_def split: option.splits)

lemma bufferLock_store [simp, frame_simps]:
  "bufferLock (coil_store p v m) = bufferLock m" "bufferLock (reg_store p w m) = bufferLock m"
  by (simp_all add: coil_store_def reg_store_def split: option.splits)

lemma store_seq_frame [simp, frame_simps]:
  "tables (store_seq coil_store p vs m) = tables m"
  "bufferLock (store_seq coil_store p vs m) = bufferLock m"
  "bufferLock (store_seq reg_store p ws m) = bufferLock m"
  by (induction vs arbitrary: p m; simp; fail)+ (induction ws arbitrary: p m; simp)

context bit_reader
begin

lemma returns:
  assumes ok: "conn_ok s"
  shows "\<exists>s'. handler s n = Some s' \<and> io s' = io s \<and> reply_ok s s'"
proof -
  consider "n < 12" | "12 \<le> n" "2040 < req_count s" | "12 \<le> n" "req_count s \<le> 2040" by linarith
  then show ?thesis
  proof cases
    case 1
    then show ?thesis using ok by (simp add: short reply_ok_error)
  next
    case 2
    then show ?thesis using ok by (simp add: too_many reply_ok_error)
  next
    case 3
    define B where "B = byte_count (req_count s)"
    have B: "B \<le> 255" using 3(2) by (simp add: B_def byte_count_eq)
    obtain b where b: "length b = 1024"
      "handler s n = (if 0 < B \<and> limit < req_start s + B * 8
         then Some (error_reply ERR_ILLEGAL_DATA_ADDRESS (s\<lparr>buffer := b\<rparr>))
         else Some (s\<lparr>buffer := b, MessageLength := B + 9\<rparr>))"
      by (rule in_range [OF ok 3 B_def]) blast
    then show ?thesis using ok B by (auto simp: reply_ok_def conn_ok_def)
  qed
qed

end

context reg_reader
begin

lemma returns:
  assumes ok: "conn_ok s"
    and def: "12 \<le> n \<Longrightarrow> req_count s \<le> 127 \<Longrightarrow> \<forall>i < req_count s. rd (io s) (req_start s + i) \<noteq> None"
  shows "\<exists>s'. handler s n = Some s' \<and> io s' = io s \<and> reply_ok s s'"
proof -
  consider "n < 12" | "12 \<le> n" "127 < req_count s" | "12 \<le> n" "req_count s \<le> 127" by linarith
  then show ?thesis
  proof cases
    case 1
    then show ?thesis using ok by (simp add: short reply_ok_error)
  next
    case 2
    then show ?thesis using ok by (simp add: too_many reply_ok_error)
  next
    case 3
    obtain b where b: "length b = 1024"
      "handler s n = (if \<exists>i < req_count s. rd (io s) (req_start s + i) = Some None
         then Some (error_reply ERR_ILLEGAL_DATA_ADDRESS (s\<lparr>buffer := b\<rparr>))
         else Some (s\<lparr>buffer := b, MessageLength := req_count s * 2 + 9\<rparr>))"
      by (rule in_range [OF ok 3(1) refl 3(2)]) (use def 3 in auto)
    then show ?thesis using ok 3(2) by (auto simp: reply_ok_def conn_ok_def)
  qed
qed

end

lemma WriteCoil_returns: "conn_ok s \<Longrightarrow> \<exists>s'. WriteCoil s n = Some s' \<and> reply_ok s s'"
  using WriteCoil_short [of s n] WriteCoil_illegal [of s n] WriteCoil_eq [of s n]
  by (cases "n < 12"; cases "req_start s < 800")
     (auto simp: reply_ok_def conn_ok_def not_less)

lemma WriteRegister_returns:
  "conn_ok s \<Longrightarrow> 12 \<le> n \<longrightarrow> req_start s \<noteq> 1024 \<Longrightarrow> \<exists>s'. WriteRegister s n = Some s' \<and> reply_ok s s'"
  using WriteRegister_short [of s n] WriteRegister_illegal [of s n] WriteRegister_eq [of s n]
  by (cases "n < 12"; cases "req_start s < 8192")
     (auto simp: reply_ok_def conn_ok_def not_less)

lemma WriteMultipleCoils_returns:
  assumes ok: "conn_ok s"
  shows "\<exists>s'. WriteMultipleCoils s n = Some s' \<and> reply_ok s s'"
proof (cases "12 \<le> n \<and> 13 + byte_count (req_count s) \<le> n \<and> unat (buffer s ! 12) = byte_count (req_count s)")
  case True
  then show ?thesis
    using WriteMultipleCoils_eq [OF ok, of n "byte_count (req_count s)"] ok
    by (auto simp: reply_ok_def conn_ok_def)
next
  case False
  then have "WriteMultipleCoils s n = Some (error_reply ERR_ILLEGAL_DATA_VALUE s)"
    using ok by (auto simp: WriteMultipleCoils_def conn_ok_def Let_def)
  then show ?thesis using ok by (simp add: reply_ok_error)
qed

text \<open>\<open>WriteMultipleRegisters\<close> on any safe request, legal or not.\<close>

lemma write_multiple_holding_defined:
  assumes "p \<noteq> 1024"
    and "2048 \<le> p \<Longrightarrow> p < 4096 \<Longrightarrow> 2048 \<le> Start \<and> Start \<le> p \<and>
       (dint_memory m ((Start - 2048) div 2) \<noteq> None \<longrightarrow> dint_memory m ((p - 2048) div 2) \<noteq> None)"
    and "Start \<le> p"
  shows "\<exists>r. write_multiple_holding Start count p v m = Some r \<and>
     (\<forall>m'. r = Some m' \<longrightarrow> tables m' = tables m \<and> bufferLock m' = bufferLock m)"
proof -
  consider "p < 2048" | "2048 \<le> p" "p < 4096" | "4096 \<le> p" "p < 8192" | "8192 \<le> p" by linarith
  then show ?thesis
  proof cases
    case 1
    then show ?thesis using assms(1)
      by (auto simp: write_multiple_holding_def mb_consts split: option.splits)
  next
    case 2
    then have S: "2048 \<le> Start" "Start \<le> p" using assms(2) by auto
    have "ptr1_int (dint_memory m) ((int Start - int 2048) sdiv 2) = Some (dint_memory m ((Start - 2048) div 2))"
      using S 2 by (simp only: int_sdiv_nat ptr1_int_def) simp
    then show ?thesis using 2 assms(2)
      by (auto simp: write_multiple_holding_def mb_consts split: option.splits)
  next
    case 3
    then show ?thesis using assms(3)
      by (auto simp: write_multiple_holding_def mb_consts Let_def split: option.splits)
  next
    case 4
    then show ?thesis by (simp add: write_multiple_holding_def mb_consts)
  qed
qed

lemma WriteMultipleRegisters_returns:
  assumes ok: "conn_ok s" and safe: "request_safe s n" and fc: "function_code s = 16"
  shows "\<exists>s'. WriteMultipleRegisters s n = Some s' \<and> reply_ok s s'"
proof (cases "12 \<le> n \<and> 13 + req_count s * 2 \<le> n \<and> unat (buffer s ! 12) = req_count s * 2")
  case False
  then have "WriteMultipleRegisters s n = Some (error_reply ERR_ILLEGAL_DATA_VALUE s)"
    using ok by (auto simp: WriteMultipleRegisters_def conn_ok_def Let_def)
  then show ?thesis using ok by (simp add: reply_ok_error)
next
  case True
  let ?S = "req_start s" and ?W = "req_count s"
  let ?s = "s\<lparr>buffer := (buffer s)[4 := 0, 5 := 6], io := (io s)\<lparr>bufferLock := True\<rparr>\<rparr>"
  define I where "I = (\<lambda>(k::nat) (st :: mb_state \<times> nat). length (buffer (fst st)) = 1024 \<and> tables (io (fst st)) = tables (io s)
      \<and> (snd st = ERR_NONE \<or> snd st = ERR_ILLEGAL_DATA_ADDRESS))"
  have W: "?W \<le> 127" using True unat_u8_less [of "buffer s ! 12"] by simp
  have "\<exists>st'. for_range 0 ?W (write_reg ?S ?W) (?s, ERR_NONE) = Some st' \<and> I (0 + ?W) st'"
  proof (rule for_range_total)
    show "I 0 (?s, ERR_NONE)" using ok by (simp add: I_def conn_ok_def)
    fix k st
    assume k: "k < 0 + ?W" and I: "I k st"
    obtain t e where st: "st = (t, e)" by (cases st)
    have mem: "?S + k \<in> set [?S..<?S + ?W]" using k by simp
    have d: "dint_memory (io t) = dint_memory (io s)"
      using I st tables_eqD [of "io t" "io s"] by (simp add: I_def)
    obtain r where "write_multiple_holding ?S ?W (?S + k)
          (c_word (buffer t ! (13 + k * 2)) (buffer t ! Suc (13 + k * 2))) (io t) = Some r"
        "\<forall>m'. r = Some m' \<longrightarrow> tables m' = tables (io t) \<and> bufferLock m' = bufferLock (io t)"
      using write_multiple_holding_defined [of "?S + k" ?S "io t"] safe True fc mem d
      unfolding request_safe_def by fastforce
    then show "\<exists>s'. write_reg ?S ?W k st = Some s' \<and> I (Suc k) s'"
      using I st k W by (cases r) (auto simp: write_reg_def I_def)
  qed
  then obtain t e where run: "for_range 0 ?W (write_reg ?S ?W) (?s, ERR_NONE) = Some (t, e)"
      and I: "I ?W (t, e)" by auto
  have "WriteMultipleRegisters s n = write_multiple_reply (t, e)"
    using ok True run by (simp add: WriteMultipleRegisters_def conn_ok_def Let_def mb_consts)
  then show ?thesis
    using I by (auto simp: write_multiple_reply_def mb_unlock_def I_def reply_ok_def conn_ok_def
        mb_consts Let_def)
qed

lemma process_returns:
  assumes ok: "conn_ok s" and safe: "request_safe s n"
  shows "\<exists>s'. processModbusMessage s n = Some s' \<and> reply_ok s s'"
proof (cases "n < 8")
  case True
  then show ?thesis using ok by (simp add: process_runt reply_ok_error)
next
  case False
  let ?t = "s\<lparr>MessageLength := 0\<rparr>"
  have t: "conn_ok ?t" "reply_ok ?t s' \<Longrightarrow> reply_ok s s'" for s'
    using ok by (simp_all add: reply_ok_def)
  have hold: "\<exists>s'. ReadHoldingRegisters ?t n = Some s' \<and> reply_ok ?t s'" if "function_code s = 3"
    using holding.returns [OF t(1), of n] safe that
    by (fastforce simp: request_safe_def holding_bytes_None)
  have reg: "\<exists>s'. WriteRegister ?t n = Some s' \<and> reply_ok ?t s'" if "function_code s = 6"
    using WriteRegister_returns [OF t(1), of n] safe that by (auto simp: request_safe_def)
  have multi: "\<exists>s'. WriteMultipleRegisters ?t n = Some s' \<and> reply_ok ?t s'" if "function_code s = 16"
    using WriteMultipleRegisters_returns [OF t(1), of n] safe that by (auto simp: request_safe_def)
  have err: "\<exists>s'. ModbusError ?t ERR_ILLEGAL_FUNCTION = Some s' \<and> reply_ok ?t s'"
    using t(1) by (simp add: conn_ok_def reply_ok_def)
  have inr: "\<exists>s'. ReadInputRegisters ?t n = Some s' \<and> reply_ok ?t s'"
    using inregs.returns [OF t(1), of n] by (force simp: input_bytes_eq)
  have "\<exists>s'. processModbusMessage s n = Some s' \<and> reply_ok ?t s'"
    using False hold reg multi err inr coils.returns [OF t(1), of n] inputs.returns [OF t(1), of n]
      WriteCoil_returns [OF t(1), of n] WriteMultipleCoils_returns [OF t(1), of n]
    by (simp add: process_dispatch [OF ok] Let_def) metis
  then show ?thesis using t(2) by blast
qed

section \<open>The register functions on a legal range\<close>

lemma ReadHoldingRegisters_reply:
  assumes ok: "conn_ok s" and n: "12 \<le> n" and W: "req_count s \<le> 127"
    and range: "req_start s + req_count s \<le> 8192"
    and avoid: "\<not> (req_start s \<le> 1024 \<and> 1024 < req_start s + req_count s)"
  obtains b where "length b = 1024" "b ! 7 = buffer s ! 7" "unat (b ! 8) = req_count s * 2"
    "\<And>i hi lo. i < req_count s \<Longrightarrow> holding_bytes (io s) (req_start s + i) = Some (Some (hi, lo)) \<Longrightarrow>
       b ! (9 + i * 2) = hi \<and> b ! (10 + i * 2) = lo"
    "ReadHoldingRegisters s n = Some (s\<lparr>buffer := b, MessageLength := req_count s * 2 + 9\<rparr>)"
proof -
  let ?W = "req_count s" and ?S = "req_start s"
  have p: "?S + i < 8192 \<and> ?S + i \<noteq> 1024" if "i < ?W" for i
    using that range avoid by auto
  have def: "holding_bytes (io s) (?S + i) \<noteq> None" if "i < ?W" for i
    using p [OF that] by (simp add: holding_bytes_None)
  have legal: "\<not> (\<exists>i < ?W. holding_bytes (io s) (?S + i) = Some None)"
    using p by (auto simp: holding_bytes_illegal not_le)
  obtain b where b: "length b = 1024" "\<And>x. x < 9 \<or> 9 + ?W * 2 \<le> x \<Longrightarrow> b ! x = buffer (reply_header (?W * 2) s) ! x"
    "\<And>i hi lo. i < ?W \<Longrightarrow> holding_bytes (io s) (?S + i) = Some (Some (hi, lo)) \<Longrightarrow>
       b ! (9 + i * 2) = hi \<and> b ! (10 + i * 2) = lo"
    "ReadHoldingRegisters s n = (if \<exists>i < ?W. holding_bytes (io s) (?S + i) = Some None
       then Some (error_reply ERR_ILLEGAL_DATA_ADDRESS (s\<lparr>buffer := b\<rparr>))
       else Some (s\<lparr>buffer := b, MessageLength := ?W * 2 + 9\<rparr>))"
    by (rule holding.in_range [OF ok n refl]) (use W def in auto)
  have h: "b ! 7 = buffer s ! 7" "unat (b ! 8) = ?W * 2"
    using b(2)[of 7] b(2)[of 8] ok reply_header_sel [of s "?W * 2"] W by (simp_all add: conn_ok_def)
  show ?thesis by (rule that [OF b(1) h b(3) b(4) [unfolded if_not_P [OF legal]]])
qed

lemma holding_bytes_regs:
  assumes "p < 8192" "p \<noteq> 1024" "regs m p = Some v"
  shows "holding_bytes m p = Some (Some (if wide_unmapped m p then (lowByte v, lowByte v)
     else (highByte v, lowByte v)))"
  using assms by (auto simp: holding_bytes_slot regs_def reg_bytes_def lowByte_ucast)

lemma holding_bytes_value:
  assumes "p < 8192" "p \<noteq> 1024"
  shows "\<exists>hi lo. holding_bytes m p = Some (Some (hi, lo)) \<and> c_word hi lo = (case regs m p of
      None \<Rightarrow> 0 | Some v \<Rightarrow> if wide_unmapped m p then 257 * (unat v mod 256) else unat v)"
proof (cases "regs m p")
  case None
  then show ?thesis using assms by (simp add: holding_bytes_slot regs_def c_word_eq)
next
  case (Some v)
  have "c_word (lowByte v) (lowByte v) = 257 * (unat v mod 256)" by (simp add: c_word_eq lowByte_u16)
  then show ?thesis using holding_bytes_regs [OF assms Some] Some by simp
qed

text \<open>A range through register 1024 has no answer.\<close>

lemma ReadHoldingRegisters_1024:
  assumes ok: "conn_ok s" and n: "12 \<le> n"
    and r: "req_count s \<le> 127" "req_start s \<le> 1024" "1024 < req_start s + req_count s"
  shows "ReadHoldingRegisters s n = None"
proof -
  have "read_reg holding_bytes (req_start s) (1024 - req_start s) st = None" for st
    using r by (cases st) (simp add: read_reg_def holding_bytes_1024)
  then have "for_range 0 (req_count s) (read_reg holding_bytes (req_start s)) st = None" for st
    using r by (intro for_range_None [where k = "1024 - req_start s"]) auto
  then show ?thesis
    using ok n r by (simp add: ReadHoldingRegisters_def conn_ok_def Let_def)
qed

section \<open>A multi-register write to one 64-bit variable\<close>

text \<open>The assignments after the first word leave the variable alone when \<open>Start\<close> is its first word.\<close>

lemma write_reg_lint:
  assumes len: "length (buffer s) = 1024" and i: "i < 4" and S: "Start = 4096 + 4 * k" "k < 1024"
    and p: "lint_memory (io s) k = Some c"
  shows "write_reg Start count i (s, e) = Some (s\<lparr>io := (if i = 0
     then set_s64 c (set_lint_word (s64_heap (io s) c) 0 (c_word (buffer s ! 13) (buffer s ! 14))) (io s)
     else io s)\<rparr>, e)"
proof -
  have k: "(Start + i - 4096) div 4 = k" "(Start + i - 4096) mod 4 = i" "(Start - 4096) mod 4 = 0"
    using S i by auto
  show ?thesis
    using multi_64 [of Start "Start + i" "io s" c] S i k p len
    by (simp add: write_reg_def)
qed

lemma WriteMultipleRegisters_lint:
  assumes ok: "conn_ok s" and n: "21 \<le> n" and S: "req_start s = 4096 + 4 * k" "k < 1024"
    and cnt: "req_count s = 4" "unat (buffer s ! 12) = 8" and p: "lint_memory (io s) k = Some c"
  shows "WriteMultipleRegisters s n = Some (write_ack
     (set_s64 c (set_lint_word (s64_heap (io s) c) 0 (c_word (buffer s ! 13) (buffer s ! 14))) (io s)) s)"
proof -
  let ?s = "s\<lparr>buffer := (buffer s)[4 := 0, 5 := 6], io := (io s)\<lparr>bufferLock := True\<rparr>\<rparr>"
  let ?v = "set_lint_word (s64_heap (io s) c) 0 (c_word (buffer s ! 13) (buffer s ! 14))"
  let ?s1 = "?s\<lparr>io := set_s64 c ?v ((io s)\<lparr>bufferLock := True\<rparr>)\<rparr>"
  let ?step = "write_reg (4096 + 4 * k) 4"
  have first: "?step 0 (?s, ERR_NONE) = Some (?s1, ERR_NONE)"
    using write_reg_lint [of ?s 0 _ k c 4 ERR_NONE] ok S p by (simp add: conn_ok_def)
  have rest: "?step i (?s1, ERR_NONE) = Some (?s1, ERR_NONE)" if "0 < i" "i < 4" for i
    using write_reg_lint [of ?s1 i _ k c 4 ERR_NONE] that ok S p by (simp add: conn_ok_def)
  have "for_range 0 4 ?step (?s, ERR_NONE) = Some (?s1, ERR_NONE)"
    using for_range_add [of 0 1 3 ?step "(?s, ERR_NONE)"] first for_range_fix [of 1 3 ?step "(?s1, ERR_NONE)"] rest
    by simp
  moreover have "unlock_buffer (set_s64 c ?v ((io s)\<lparr>bufferLock := True\<rparr>)) = set_s64 c ?v (io s)"
    using ok by (simp add: unlock_buffer_def set_s64_def conn_ok_def)
  ultimately show ?thesis
    using ok n S cnt by (simp add: WriteMultipleRegisters_def conn_ok_def Let_def
      write_multiple_reply_def mb_unlock_def write_ack_def mb_consts)
qed

end
