(* ===== verification/ModbusProps.thy ===== *)
theory ModbusProps
  imports ModbusServer
begin

text \<open>
  The properties of the Modbus/TCP slave, each followed by its witness on a concrete process
  image \<open>demo_io\<close> and a concrete request.
\<close>

unbundle bit_operations_syntax

section \<open>A concrete process image\<close>

text \<open>
  Every bit and every 16-bit register mapped, one 32-bit variable at registers 2048 and 2049, one
  64-bit variable at registers 4096 to 4099. \<open>demo_conn\<close> is the state after \<open>listenToClient\<close>
  stored the bytes of a request into the cleared array of 1024 bytes.
\<close>

definition demo_io :: plc_io where
  "demo_io = \<lparr>
     bool_input = (\<lambda>i j. Some (Mb_discrete_input (i * 8 + j))),
     bool_output = (\<lambda>i j. Some (Mb_coils (i * 8 + j))),
     byte_input = (\<lambda>_. None), byte_output = (\<lambda>_. None),
     int_input = (\<lambda>i. Some (Mb_input_regs i)),
     int_output = (\<lambda>i. Some (Mb_holding_regs i)),
     int_memory = (\<lambda>i. Some (Mb_holding_regs (1024 + i))),
     dint_memory = (\<lambda>i. if i = 0 then Some (Located ''__MD0'') else None),
     lint_memory = (\<lambda>i. if i = 0 then Some (Located ''__ML0'') else None),
     u8_heap = (\<lambda>c. if c = Mb_coils 2 then 1 else 0),
     u16_heap = (\<lambda>c. if c = Mb_holding_regs 5 then 0x1234 else 0),
     s32_heap = (\<lambda>_. 0), s64_heap = (\<lambda>_. 0), bufferLock = False\<rparr>"

definition demo_conn :: "plc_io \<Rightarrow> u8 list \<Rightarrow> mb_state" where
  "demo_conn m bs = \<lparr>io = m, buffer = bs @ replicate (1024 - length bs) 0, MessageLength = 0\<rparr>"

lemma conn_ok_demo [simp]: "length bs \<le> 1024 \<Longrightarrow> \<not> bufferLock m \<Longrightarrow> conn_ok (demo_conn m bs)"
  by (simp add: conn_ok_def demo_conn_def)

lemma io_demo [simp]: "io (demo_conn m bs) = m"
  by (simp add: demo_conn_def)

lemma buffer_demo [simp]: "i < length bs \<Longrightarrow> buffer (demo_conn m bs) ! i = bs ! i"
  by (simp add: demo_conn_def nth_append)

lemma bufferLock_demo [simp]: "bufferLock demo_io = False"
  by (simp add: demo_io_def)

lemma demo_coils_distinct [simp]: "coils_distinct demo_io"
  by (auto simp: coils_distinct_def coil_ptr_def demo_io_def split: if_splits)

lemma demo_regs_distinct [simp]: "regs_distinct demo_io"
proof -
  have small: "p < 4096 \<Longrightarrow> (p - 2048) div 2 = 0 \<Longrightarrow> 2048 \<le> p \<Longrightarrow> p = 2048 + (p - 2048) mod 2" for p :: nat
    by presburger
  have large: "p < 8192 \<Longrightarrow> (p - 4096) div 4 = 0 \<Longrightarrow> 4096 \<le> p \<Longrightarrow> p = 4096 + (p - 4096) mod 4" for p :: nat
    by presburger
  have "holding_slot demo_io p = Some a \<Longrightarrow> p = (case a of
      Slot16 (Mb_holding_regs k) \<Rightarrow> k | Slot32 _ l \<Rightarrow> 2048 + l | Slot64 _ l \<Rightarrow> 4096 + l | _ \<Rightarrow> 0)" for p a
    using small [of p] large [of p]
    by (auto simp: holding_slot_def demo_io_def split: if_splits)
  then show ?thesis unfolding regs_distinct_def by metis
qed

lemma coils_file_demo [simp]: "coils_file demo_io p = (if p < 800 then Some (if p = 2 then 1 else 0) else None)"
  by (auto simp: coils_file_def coil_ptr_def demo_io_def mod_eq_0_iff_dvd)

lemma regs_demo [simp]: "regs demo_io 2048 = Some 0" "regs demo_io 2049 = Some 0"
  "regs demo_io 5 = Some 0x1234"
  by (simp_all add: regs_def holding_slot_def demo_io_def dint_word_def)

lemma multi_ok_demo [simp]: "multi_ok demo_io 2048 2048" "multi_ok demo_io 2048 2049"
  by (simp_all add: multi_ok_def demo_io_def)

lemmas demo_simps = request_safe_def c_word_eq demo_io_def

section \<open>Memory safety\<close>

text \<open>C1: A request that reads or writes no register at 1024, and whose multi-register write stays
  inside the 32-bit range it starts in, is processed without leaving any array of the server: the
  dispatcher returns, the mutex is released, the message buffer keeps its 1024 bytes, the pointer
  tables are untouched and the reply has between 9 and 264 bytes.\<close>

theorem process_memory_safe:
  assumes "conn_ok s" and "request_safe s n"
  shows "\<exists>s'. processModbusMessage s n = Some s' \<and> conn_ok s' \<and>
     9 \<le> MessageLength s' \<and> MessageLength s' \<le> 264 \<and> tables (io s') = tables (io s)"
  using process_returns [OF assms] by (auto simp: reply_ok_def)

theorem process_memory_safe_witness:
  "let s = demo_conn demo_io [0, 1, 0, 0, 0, 6, 1, 16, 0, 5, 0, 1, 2, 0xab, 0xcd] in
   conn_ok s \<and> request_safe s 15 \<and>
   (\<exists>s'. processModbusMessage s 15 = Some s' \<and> conn_ok s' \<and>
     9 \<le> MessageLength s' \<and> MessageLength s' \<le> 264 \<and> tables (io s') = tables (io s))"
proof -
  let ?s = "demo_conn demo_io [0, 1, 0, 0, 0, 6, 1, 16, 0, 5, 0, 1, 2, 0xab, 0xcd]"
  have ok: "conn_ok ?s" by simp
  have safe: "request_safe ?s 15" by (simp add: request_safe_def c_word_eq)
  from process_memory_safe [OF ok safe] ok safe show ?thesis by (simp add: Let_def)
qed

text \<open>Reading a range of holding registers that contains register 1024 (the first word of the
  memory area), or writing that register, indexes \<open>int_output\<close> one past its end: the guards test
  \<open>position <= MIN_16B_RANGE\<close> where the table has \<open>MIN_16B_RANGE\<close> entries.\<close>

theorem register_1024_out_of_bounds:
  assumes ok: "conn_ok s" and n: "12 \<le> n"
    and req: "function_code s = 3 \<and> req_count s \<le> 127 \<and>
        req_start s \<le> 1024 \<and> 1024 < req_start s + req_count s
      \<or> function_code s = 6 \<and> req_start s = 1024"
  shows "processModbusMessage s n = None"
proof -
  let ?t = "s\<lparr>MessageLength := 0\<rparr>"
  have ok': "conn_ok ?t" using ok by simp
  show ?thesis
    using req n WriteRegister_1024 [OF ok' n] ReadHoldingRegisters_1024 [OF ok' n] by (auto simp: process_dispatch [OF ok] Let_def)
qed

theorem register_1024_out_of_bounds_witness:
  "processModbusMessage (demo_conn demo_io [0, 1, 0, 0, 0, 6, 1, 3, 4, 0, 0, 1]) 12 = None"
  by (rule register_1024_out_of_bounds) (simp_all add: c_word_eq)

section \<open>Reading\<close>

text \<open>C2: A Read Coils request whose bytes all lie below coil 800 is answered with the byte count
  and, bit by bit, with the values of the coils \<open>Start\<close> to \<open>Start + count - 1\<close> (an unmapped
  coil reads 0); the length fields of the reply agree with its size and no coil changes.\<close>

theorem read_coils_reply:
  assumes ok: "conn_ok s" and n: "12 \<le> n" and fc: "function_code s = 1"
    and cnt: "req_count s \<le> 2040" and B: "B = byte_count (req_count s)"
    and range: "req_start s + B * 8 \<le> 800"
  shows "\<exists>s'. processModbusMessage s n = Some s' \<and> io s' = io s \<and> MessageLength s' = B + 9 \<and>
     function_code s' = 1 \<and> unat (buffer s' ! 8) = B \<and>
     c_word (buffer s' ! 4) (buffer s' ! 5) = B + 3 \<and>
     (\<forall>k < req_count s. bitRead (buffer s' ! (9 + k div 8)) (k mod 8)
        = bit_value bool_output (io s) (req_start s + k))"
proof -
  let ?t = "s\<lparr>MessageLength := 0\<rparr>"
  have ok': "conn_ok ?t" using ok by simp
  have B255: "B \<le> 255" using cnt by (simp add: B byte_count_eq)
  obtain b where b: "length b = 1024" "\<And>x. x < 9 \<or> 9 + B \<le> x \<Longrightarrow> b ! x = buffer (reply_header B ?t) ! x"
    "\<And>i j. i < B \<Longrightarrow> j < 8 \<Longrightarrow> req_start s + i * 8 + j < MAX_COILS \<Longrightarrow>
       bitRead (b ! (9 + i)) j = bit_value bool_output (io s) (req_start s + i * 8 + j)"
    "ReadCoils ?t n = (if 0 < B \<and> MAX_COILS < req_start s + B * 8
       then Some (error_reply ERR_ILLEGAL_DATA_ADDRESS (?t\<lparr>buffer := b\<rparr>))
       else Some (?t\<lparr>buffer := b, MessageLength := B + 9\<rparr>))"
    by (rule coils.in_range [OF ok' n]) (use cnt B in auto)
  have bit: "bitRead (b ! (9 + k div 8)) (k mod 8) = bit_value bool_output (io s) (req_start s + k)"
    if k: "k < req_count s" for k
  proof -
    have "k div 8 < B" using k by (simp add: B byte_count_eq)
    moreover have "req_start s + k div 8 * 8 + k mod 8 = req_start s + k" by presburger
    moreover have "req_start s + k div 8 * 8 + k mod 8 < 800"
      using range \<open>k div 8 < B\<close> by linarith
    ultimately show ?thesis using b(3)[of "k div 8" "k mod 8"] by (simp add: MAX_COILS_def add.commute)
  qed
  show ?thesis
    using ok' n fc range b(2) bit b(4) reply_header_sel [of ?t B] B255
    by (simp add: process_dispatch [OF ok] Let_def MAX_COILS_def conn_ok_def)
qed

theorem read_coils_reply_witness:
  "\<exists>s'. processModbusMessage (demo_conn demo_io [0, 1, 0, 0, 0, 6, 1, 1, 0, 0, 0, 3]) 12 = Some s' \<and>
     MessageLength s' = 10 \<and> bitRead (buffer s' ! 9) 2 = 1 \<and> bitRead (buffer s' ! 9) 1 = 0"
proof -
  let ?s = "demo_conn demo_io [0, 1, 0, 0, 0, 6, 1, 1, 0, 0, 0, 3]"
  have "\<exists>s'. processModbusMessage ?s 12 = Some s' \<and> io s' = io ?s \<and> MessageLength s' = 1 + 9 \<and>
     function_code s' = 1 \<and> unat (buffer s' ! 8) = 1 \<and>
     c_word (buffer s' ! 4) (buffer s' ! 5) = 1 + 3 \<and>
     (\<forall>k < req_count ?s. bitRead (buffer s' ! (9 + k div 8)) (k mod 8)
        = bit_value bool_output (io ?s) (req_start ?s + k))"
    by (rule read_coils_reply) (simp_all add: c_word_eq byte_count_def)
  then obtain s' where s': "processModbusMessage ?s 12 = Some s'" "MessageLength s' = 10"
    "\<And>k. k < 3 \<Longrightarrow> bitRead (buffer s' ! (9 + k div 8)) (k mod 8) = bit_value bool_output demo_io k"
    by (auto simp: c_word_eq)
  have "bit_value bool_output demo_io 2 = 1" "bit_value bool_output demo_io 1 = 0"
    by (simp_all add: bit_value_def demo_io_def)
  with s' s'(3)[of 2] s'(3)[of 1] show ?thesis by auto
qed

text \<open>The bound test of the bit-reading functions counts whole bytes: a request for existing
  bits is refused as an illegal address when its last byte reaches past the table, for instance the
  last coil alone. Discrete inputs, as coils.\<close>

theorem read_last_bits_refused:
  assumes ok: "conn_ok s" and n: "12 \<le> n" and fc: "function_code s = 1 \<or> function_code s = 2"
    and cnt: "0 < req_count s" "req_start s + req_count s \<le> 800"
    and over: "800 < req_start s + byte_count (req_count s) * 8"
  shows "\<exists>s'. processModbusMessage s n = Some s' \<and> io s' = io s \<and> MessageLength s' = 9 \<and>
     unat (buffer s' ! 8) = ERR_ILLEGAL_DATA_ADDRESS \<and> bit (function_code s') 7"
proof -
  let ?t = "s\<lparr>MessageLength := 0\<rparr>" and ?B = "byte_count (req_count s)"
  have ok': "conn_ok ?t" using ok by simp
  have cnt': "req_count ?t \<le> 2040" "0 < ?B" using cnt by (simp_all add: byte_count_eq)
  obtain b where b: "length b = 1024" "ReadCoils ?t n =
      Some (error_reply ERR_ILLEGAL_DATA_ADDRESS (?t\<lparr>buffer := b\<rparr>))"
    by (rule coils.in_range [OF ok' n cnt'(1) refl]) (use over cnt' in \<open>simp add: MAX_COILS_def\<close>)
  obtain b' where b': "length b' = 1024" "ReadDiscreteInputs ?t n =
      Some (error_reply ERR_ILLEGAL_DATA_ADDRESS (?t\<lparr>buffer := b'\<rparr>))"
    by (rule inputs.in_range [OF ok' n cnt'(1) refl])
       (use over cnt' in \<open>simp add: MAX_DISCRETE_INPUT_def\<close>)
  have "bit (x OR 0x80 :: u8) 7" for x
    by (simp add: bit_simps)
  then show ?thesis
    using fc n b b' by (auto simp: process_dispatch [OF ok] Let_def error_reply_def mb_consts)
qed

theorem read_last_bits_refused_witness:
  "\<exists>s'. processModbusMessage (demo_conn demo_io [0, 1, 0, 0, 0, 6, 1, 1, 3, 31, 0, 1]) 12 = Some s' \<and>
     unat (buffer s' ! 8) = 2"
  using read_last_bits_refused [of "demo_conn demo_io [0, 1, 0, 0, 0, 6, 1, 1, 3, 31, 0, 1]" 12]
  by (auto simp: c_word_eq byte_count_def ERR_ILLEGAL_DATA_ADDRESS_def)

text \<open>C3: Read Holding Registers of at most 127 registers below 8192: a range through register 1024 has no
  answer, since the code reads past a table there. Any other range is answered in full and changes
  nothing: a register with storage (an output, a memory word, a word of a 32- or 64-bit variable, most
  significant first) with its value, big-endian; a 16-bit register without a variable with 0; and a 32-
  or 64-bit register without a variable with the low byte of its value in both bytes.\<close>

theorem read_holding_reply:
  assumes ok: "conn_ok s" and n: "12 \<le> n" and fc: "function_code s = 3" and W: "req_count s \<le> 127"
    and range: "req_start s + req_count s \<le> 8192"
  shows "if req_start s \<le> 1024 \<and> 1024 < req_start s + req_count s then processModbusMessage s n = None
    else \<exists>s'. processModbusMessage s n = Some s' \<and> io s' = io s \<and>
     MessageLength s' = req_count s * 2 + 9 \<and> unat (buffer s' ! 8) = req_count s * 2 \<and>
     (\<forall>i < req_count s. c_word (buffer s' ! (9 + i * 2)) (buffer s' ! (10 + i * 2)) =
        (case regs (io s) (req_start s + i) of
           None \<Rightarrow> 0
         | Some v \<Rightarrow> if wide_unmapped (io s) (req_start s + i) then 257 * (unat v mod 256) else unat v))"
proof -
  let ?t = "s\<lparr>MessageLength := 0\<rparr>"
  have ok': "conn_ok ?t" using ok by simp
  show ?thesis
  proof (cases "req_start s \<le> 1024 \<and> 1024 < req_start s + req_count s")
    case True
    then show ?thesis using ReadHoldingRegisters_1024 [OF ok' n] W n fc by (simp add: process_dispatch [OF ok] Let_def)
  next
    case avoid: False
    obtain b where b: "length b = 1024" "b ! 7 = buffer s ! 7" "unat (b ! 8) = req_count s * 2"
      "\<And>i hi lo. i < req_count s \<Longrightarrow> holding_bytes (io s) (req_start s + i) = Some (Some (hi, lo)) \<Longrightarrow>
         b ! (9 + i * 2) = hi \<and> b ! (10 + i * 2) = lo"
      and call: "ReadHoldingRegisters ?t n = Some (?t\<lparr>buffer := b, MessageLength := req_count s * 2 + 9\<rparr>)"
      by (rule ReadHoldingRegisters_reply [OF ok' n]) (use W range avoid in auto)
    have "c_word (b ! (9 + i * 2)) (b ! (10 + i * 2)) = (case regs (io s) (req_start s + i) of
        None \<Rightarrow> 0
      | Some v \<Rightarrow> if wide_unmapped (io s) (req_start s + i) then 257 * (unat v mod 256) else unat v)"
      if i: "i < req_count s" for i
    proof -
      have "req_start s + i < 8192" "req_start s + i \<noteq> 1024" using i range avoid by auto
      with holding_bytes_value [of "req_start s + i" "io s"] b(4)[OF i] show ?thesis by fastforce
    qed
    with ok n fc b call avoid show ?thesis by (simp add: process_dispatch [OF ok] Let_def)
  qed
qed

theorem read_holding_reply_witness:
  "\<exists>s'. processModbusMessage (demo_conn demo_io [0, 1, 0, 0, 0, 6, 1, 3, 0, 5, 0, 1]) 12 = Some s' \<and>
     c_word (buffer s' ! 9) (buffer s' ! 10) = 0x1234"
proof -
  have "regs demo_io 5 = Some 0x1234" "\<not> wide_unmapped demo_io 5"
    by (simp_all add: regs_def holding_slot_def wide_unmapped_def demo_io_def)
  then show ?thesis using read_holding_reply [of "demo_conn demo_io [0, 1, 0, 0, 0, 6, 1, 3, 0, 5, 0, 1]" 12]
    by (auto simp: c_word_eq)
qed

section \<open>Writing\<close>

text \<open>C4: For an address below 8192 other than 1024, and where no two registers share a variable,
  Write Register refines the store of the register file: the reply is the echo of the request with length 6, the register at \<open>Start\<close> takes the value of the request where it has
  storage, every other register, every coil and the pointer tables stay.\<close>

theorem write_register_refines:
  assumes ok: "conn_ok s" and n: "12 \<le> n" and fc: "function_code s = 6"
    and range: "req_start s < 8192" "req_start s \<noteq> 1024" and distinct: "regs_distinct (io s)"
  shows "\<exists>s'. processModbusMessage s n = Some s' \<and> MessageLength s' = 12 \<and>
     buffer s' = (buffer s)[4 := 0, 5 := 6] \<and> regs_distinct (io s') \<and>
     regs (io s') = (\<lambda>p. if p = req_start s then map_option (\<lambda>_. of_nat (req_count s)) (regs (io s) p)
                       else regs (io s) p) \<and>
     u8_heap (io s') = u8_heap (io s) \<and> tables (io s') = tables (io s)"
proof -
  let ?t = "s\<lparr>MessageLength := 0\<rparr>"
  have ok': "conn_ok ?t" using ok by simp
  have "WriteRegister ?t n = Some (write_ack (reg_store (req_start s) (of_nat (req_count s)) (io s)) ?t)"
    using WriteRegister_eq [OF ok' n] range by simp
  then show ?thesis
    using registers.inv_store [OF distinct] registers.fetch_store [OF distinct] fc n
    by (auto simp: process_dispatch [OF ok] Let_def write_ack_def fun_eq_iff reg_store_def
        split: option.splits)
qed

theorem write_register_refines_witness:
  "\<exists>s'. processModbusMessage (demo_conn demo_io [0, 1, 0, 0, 0, 6, 1, 6, 8, 1, 0xbe, 0xef]) 12 = Some s' \<and>
     regs (io s') 2049 = Some 0xbeef \<and> regs (io s') 2048 = Some 0"
proof -
  have "regs demo_io 2049 = Some 0" "regs demo_io 2048 = Some 0"
    by (simp_all add: regs_def holding_slot_def demo_io_def dint_word_def)
  then show ?thesis
    using write_register_refines [of "demo_conn demo_io [0, 1, 0, 0, 0, 6, 1, 6, 8, 1, 0xbe, 0xef]" 12]
    by (auto simp: c_word_eq)
qed

text \<open>C5: What a read of register \<open>Start\<close> answers after a write to it, in the state the write left and whatever
  the connection and the lengths of the two messages: the two bytes written; for a 16-bit register
  without a variable two zeros; for a 32- or 64-bit register without a variable the low byte written,
  twice. A write to register 1024 has no result, since it leaves the table.\<close>

theorem write_then_read_register:
  assumes ok: "conn_ok s" and n: "12 \<le> n" and fc: "function_code s = 6"
    and range: "req_start s < 8192" and distinct: "regs_distinct (io s)"
  shows "if req_start s = 1024 then processModbusMessage s n = None
    else \<exists>s'. processModbusMessage s n = Some s' \<and>
     (\<forall>t k. conn_ok t \<and> io t = io s' \<and> 12 \<le> k \<and> function_code t = 3 \<and>
        req_start t = req_start s \<and> req_count t = 1 \<longrightarrow>
        (\<exists>t'. processModbusMessage t k = Some t' \<and> MessageLength t' = 11 \<and>
           (buffer t' ! 9, buffer t' ! 10) =
             (if regs (io s) (req_start s) = None then (0, 0)
              else if wide_unmapped (io s) (req_start s) then (buffer s ! 11, buffer s ! 11)
              else (buffer s ! 10, buffer s ! 11))))"
proof (cases "req_start s = 1024")
  case True
  then show ?thesis using WriteRegister_1024 [of "s\<lparr>MessageLength := 0\<rparr>" n] ok n fc
    by (simp add: process_dispatch [OF ok] Let_def)
next
  case S: False
  let ?t = "s\<lparr>MessageLength := 0\<rparr>" and ?S = "req_start s" and ?v = "of_nat (req_count s) :: u16"
  let ?m = "reg_store ?S ?v (io s)"
  let ?ans = "if regs (io s) ?S = None then (0, 0)
    else if wide_unmapped (io s) ?S then (buffer s ! 11, buffer s ! 11) else (buffer s ! 10, buffer s ! 11)"
  have ok': "conn_ok ?t" using ok by simp
  have wr: "processModbusMessage s n = Some (write_ack ?m ?t)"
    using WriteRegister_eq [OF ok' n] range S fc n by (simp add: process_dispatch [OF ok] Let_def)
  have val: "regs ?m ?S = map_option (\<lambda>_. ?v) (regs (io s) ?S)"
    using registers.fetch_store [OF distinct] by simp
  have wide: "wide_unmapped ?m ?S = wide_unmapped (io s) ?S"
    using holding_slot_tables [of ?m "io s"] by (simp add: wide_unmapped_def)
  have bytes: "holding_bytes ?m ?S = Some (Some ?ans)"
    using val wide holding_bytes_slot [OF range S, of ?m] holding_bytes_regs [OF range S, of ?m]
    by (cases "regs (io s) ?S") (auto simp: regs_def)
  have "\<exists>t'. processModbusMessage t k = Some t' \<and> MessageLength t' = 11 \<and> (buffer t' ! 9, buffer t' ! 10) = ?ans"
    if t: "conn_ok t" "io t = ?m" "12 \<le> k" "function_code t = 3" "req_start t = ?S" "req_count t = 1" for t k
  proof -
    let ?u = "t\<lparr>MessageLength := 0\<rparr>"
    have "conn_ok ?u" using t(1) by simp
    then obtain b where "(b ! 9, b ! 10) = ?ans"
      and call: "ReadHoldingRegisters ?u k = Some (?u\<lparr>buffer := b, MessageLength := req_count ?u * 2 + 9\<rparr>)"
      by (rule ReadHoldingRegisters_reply [of ?u k]) (use t range S bytes in \<open>auto split: if_splits\<close>)
    then show ?thesis using t by (simp add: process_dispatch [OF t(1)] Let_def)
  qed
  then show ?thesis using wr S by simp
qed

theorem write_then_read_register_witness:
  "\<exists>s'. processModbusMessage (demo_conn demo_io [0, 1, 0, 0, 0, 6, 1, 6, 16, 2, 0xbe, 0xef]) 12 = Some s' \<and>
     (\<exists>t'. processModbusMessage (demo_conn (io s') [0, 2, 0, 0, 0, 6, 1, 3, 16, 2, 0, 1]) 12 = Some t' \<and>
        buffer t' ! 9 = 0xbe \<and> buffer t' ! 10 = 0xef)"
proof -
  let ?s = "demo_conn demo_io [0, 1, 0, 0, 0, 6, 1, 6, 16, 2, 0xbe, 0xef]"
  have m: "regs demo_io 4098 \<noteq> None" "\<not> wide_unmapped demo_io 4098"
    by (simp_all add: regs_def holding_slot_def wide_unmapped_def demo_io_def)
  have "\<exists>s'. processModbusMessage ?s 12 = Some s' \<and>
     (\<forall>t k. conn_ok t \<and> io t = io s' \<and> 12 \<le> k \<and> function_code t = 3 \<and>
        req_start t = req_start ?s \<and> req_count t = 1 \<longrightarrow>
        (\<exists>t'. processModbusMessage t k = Some t' \<and> MessageLength t' = 11 \<and>
           buffer t' ! 9 = buffer ?s ! 10 \<and> buffer t' ! 10 = buffer ?s ! 11))"
    using write_then_read_register [of ?s 12] m by (simp add: c_word_eq)
  then obtain s' where s': "processModbusMessage ?s 12 = Some s'"
    "\<And>t k. conn_ok t \<Longrightarrow> io t = io s' \<Longrightarrow> 12 \<le> k \<Longrightarrow> function_code t = 3 \<Longrightarrow>
       req_start t = req_start ?s \<Longrightarrow> req_count t = 1 \<Longrightarrow>
       \<exists>t'. processModbusMessage t k = Some t' \<and> buffer t' ! 9 = 0xbe \<and> buffer t' ! 10 = 0xef"
    by (simp; blast)
  have "conn_ok ?s" by simp
  then have "\<not> bufferLock (io s')"
    using process_returns [of ?s 12] s'(1)
    by (auto simp add: request_safe_def c_word_eq reply_ok_def conn_ok_def)
  then have "\<exists>t'. processModbusMessage (demo_conn (io s') [0, 2, 0, 0, 0, 6, 1, 3, 16, 2, 0, 1]) 12 = Some t' \<and>
      buffer t' ! 9 = 0xbe \<and> buffer t' ! 10 = 0xef"
    by (intro s'(2)) (simp_all add: c_word_eq)
  with s'(1) show ?thesis by blast
qed

text \<open>A 32- or 64-bit register without a variable is stored in \<open>mb_holding_regs\<close> but read
  back with its low byte in both bytes of the reply: the code assigns the 16-bit register itself
  to each byte.\<close>

theorem unmapped_wide_register_low_byte_twice:
  assumes ok: "conn_ok s" and n: "12 \<le> n" and fc: "function_code s = 3" and cnt: "req_count s = 1"
    and unmapped: "wide_unmapped (io s) (req_start s)"
  shows "\<exists>s'. processModbusMessage s n = Some s' \<and> MessageLength s' = 11 \<and>
     buffer s' ! 9 = lowByte (u16_heap (io s) (Mb_holding_regs (req_start s))) \<and>
     buffer s' ! 10 = lowByte (u16_heap (io s) (Mb_holding_regs (req_start s)))"
proof -
  let ?t = "s\<lparr>MessageLength := 0\<rparr>" and ?S = "req_start s"
  have ok': "conn_ok ?t" using ok by simp
  have S: "2048 \<le> ?S" "?S < 8192" and "regs (io s) ?S = Some (u16_heap (io s) (Mb_holding_regs ?S))"
    using unmapped by (auto simp: wide_unmapped_def regs_def)
  then have bytes: "holding_bytes (io s) ?S = Some (Some (lowByte (u16_heap (io s) (Mb_holding_regs ?S)),
      lowByte (u16_heap (io s) (Mb_holding_regs ?S))))"
    using unmapped by (simp add: holding_bytes_regs)
  obtain b where "b ! 9 = lowByte (u16_heap (io s) (Mb_holding_regs ?S))"
      "b ! 10 = lowByte (u16_heap (io s) (Mb_holding_regs ?S))"
    and call: "ReadHoldingRegisters ?t n = Some (?t\<lparr>buffer := b, MessageLength := req_count ?t * 2 + 9\<rparr>)"
    by (rule ReadHoldingRegisters_reply [OF ok' n]) (use cnt S bytes in auto)
  then show ?thesis using n fc cnt by (simp add: process_dispatch [OF ok] Let_def)
qed

theorem unmapped_wide_register_low_byte_twice_witness:
  "\<exists>s'. processModbusMessage (demo_conn (set_u16 (Mb_holding_regs 3000) 0x1234 demo_io)
       [0, 1, 0, 0, 0, 6, 1, 3, 0x0b, 0xb8, 0, 1]) 12 = Some s' \<and>
     buffer s' ! 9 = 0x34 \<and> buffer s' ! 10 = 0x34"
proof -
  let ?m = "set_u16 (Mb_holding_regs 3000) 0x1234 demo_io"
  let ?s = "demo_conn ?m [0, 1, 0, 0, 0, 6, 1, 3, 0x0b, 0xb8, 0, 1]"
  have u: "wide_unmapped ?m 3000"
    by (simp add: wide_unmapped_def holding_slot_def demo_io_def)
  have "\<exists>s'. processModbusMessage ?s 12 = Some s' \<and> MessageLength s' = 11 \<and>
     buffer s' ! 9 = lowByte (u16_heap (io ?s) (Mb_holding_regs (req_start ?s))) \<and>
     buffer s' ! 10 = lowByte (u16_heap (io ?s) (Mb_holding_regs (req_start ?s)))"
    by (rule unmapped_wide_register_low_byte_twice) (use u in \<open>simp_all add: c_word_eq\<close>)
  then show ?thesis by (auto simp: c_word_eq lowByte_def)
qed

text \<open>Write Multiple Coils stores every bit of the data bytes at consecutive coils, the
  padding bits of the last byte included: a request for three coils writes eight.\<close>

theorem write_multiple_coils_whole_bytes:
  assumes ok: "conn_ok s" and n: "13 + B \<le> n" and fc: "function_code s = 15"
    and B: "B = byte_count (req_count s)" "unat (buffer s ! 12) = B" "0 < B"
    and range: "req_start s + B * 8 \<le> 800" and distinct: "coils_distinct (io s)"
  shows "\<exists>s'. processModbusMessage s n = Some s' \<and> MessageLength s' = 12 \<and>
     (\<forall>p. coils_file (io s') p =
        (if req_start s \<le> p \<and> p < req_start s + B * 8
         then map_option (\<lambda>_. bitRead (buffer s ! (13 + (p - req_start s) div 8)) ((p - req_start s) mod 8))
                (coils_file (io s) p)
         else coils_file (io s) p))"
proof -
  let ?t = "s\<lparr>MessageLength := 0\<rparr>"
  have ok': "conn_ok ?t" using ok by simp
  have "WriteMultipleCoils ?t n =
      Some (write_ack (store_seq coil_store (req_start s) (req_bits B (buffer s)) (io s)) ?t)"
    using WriteMultipleCoils_eq [OF ok', of n B] n B range by simp
  then show ?thesis
    using n B fc coil_regs.fetch_seq [OF distinct]
    by (auto simp: process_dispatch [OF ok] Let_def nth_req_bits)
qed

theorem write_multiple_coils_whole_bytes_witness:
  "\<exists>s'. processModbusMessage (demo_conn demo_io [0, 1, 0, 0, 0, 8, 1, 15, 0, 0, 0, 3, 1, 0xf2]) 14 = Some s' \<and>
     coils_file (io s') 1 = Some 1 \<and> coils_file (io s') 2 = Some 0 \<and> coils_file (io s') 7 = Some 1"
proof -
  let ?s = "demo_conn demo_io [0, 1, 0, 0, 0, 8, 1, 15, 0, 0, 0, 3, 1, 0xf2]"
  have "\<exists>s'. processModbusMessage ?s 14 = Some s' \<and> MessageLength s' = 12 \<and>
     (\<forall>p. coils_file (io s') p =
        (if req_start ?s \<le> p \<and> p < req_start ?s + 1 * 8
         then map_option (\<lambda>_. bitRead (buffer ?s ! (13 + (p - req_start ?s) div 8)) ((p - req_start ?s) mod 8))
                (coils_file (io ?s) p)
         else coils_file (io ?s) p))"
    by (rule write_multiple_coils_whole_bytes) (simp_all add: c_word_eq byte_count_def)
  then show ?thesis
    by (auto simp: c_word_eq bitRead_def)
qed

text \<open>C6: Write Multiple Registers refines the sequence of stores of its words, where every
  address is a 16-bit register other than 1024, a 32-bit one whose range starts in the 32-bit
  registers with uniformly mapped variables, or the one register of a 64-bit variable it reaches in
  step with the first (\<open>multi_ok\<close>).\<close>

theorem write_multiple_registers_refines:
  assumes ok: "conn_ok s" and n: "13 + req_count s * 2 \<le> n" and fc: "function_code s = 16"
    and len: "unat (buffer s ! 12) = req_count s * 2"
    and multi: "\<And>i. i < req_count s \<Longrightarrow> multi_ok (io s) (req_start s) (req_start s + i)"
    and distinct: "regs_distinct (io s)"
  shows "\<exists>s'. processModbusMessage s n = Some s' \<and> MessageLength s' = 12 \<and> regs_distinct (io s') \<and>
     (\<forall>p. regs (io s') p =
        (if req_start s \<le> p \<and> p < req_start s + req_count s
         then map_option (\<lambda>_. of_nat (c_word (buffer s ! (13 + (p - req_start s) * 2))
                (buffer s ! (14 + (p - req_start s) * 2)))) (regs (io s) p)
         else regs (io s) p))"
proof (cases "12 \<le> n")
  case False
  then show ?thesis using n by simp
next
  case True
  let ?t = "s\<lparr>MessageLength := 0\<rparr>"
  have ok': "conn_ok ?t" using ok by simp
  have "WriteMultipleRegisters ?t n = Some (write_ack
      (store_seq reg_store (req_start s) (req_words (req_count s) (buffer s)) (io s)) ?t)"
    using WriteMultipleRegisters_eq [OF ok' True, of "req_count s"] n len multi by simp
  then show ?thesis
    using n fc registers.fetch_seq [OF distinct] registers.inv_seq [OF distinct]
    by (auto simp: process_dispatch [OF ok] Let_def)
qed

theorem write_multiple_registers_refines_witness:
  "\<exists>s'. processModbusMessage (demo_conn demo_io
       [0, 1, 0, 0, 0, 11, 1, 16, 8, 0, 0, 2, 4, 0x12, 0x34, 0x56, 0x78]) 17 = Some s' \<and>
     regs (io s') 2048 = Some 0x1234 \<and> regs (io s') 2049 = Some 0x5678"
proof -
  let ?s = "demo_conn demo_io [0, 1, 0, 0, 0, 11, 1, 16, 8, 0, 0, 2, 4, 0x12, 0x34, 0x56, 0x78]"
  have mo: "multi_ok demo_io 2048 (2048 + i)" if "i < 2" for i
    using that by (cases i) (auto simp: numeral_2_eq_2)
  have "\<exists>s'. processModbusMessage ?s 17 = Some s' \<and> MessageLength s' = 12 \<and> regs_distinct (io s') \<and>
     (\<forall>p. regs (io s') p =
        (if req_start ?s \<le> p \<and> p < req_start ?s + req_count ?s
         then map_option (\<lambda>_. of_nat (c_word (buffer ?s ! (13 + (p - req_start ?s) * 2))
                (buffer ?s ! (14 + (p - req_start ?s) * 2)))) (regs (io ?s) p)
         else regs (io ?s) p))"
    by (rule write_multiple_registers_refines) (use mo in \<open>simp_all add: c_word_eq\<close>)
  then obtain s' where s': "processModbusMessage ?s 17 = Some s'"
    and val: "\<forall>p. regs (io s') p =
        (if req_start ?s \<le> p \<and> p < req_start ?s + req_count ?s
         then map_option (\<lambda>_. of_nat (c_word (buffer ?s ! (13 + (p - req_start ?s) * 2))
                (buffer ?s ! (14 + (p - req_start ?s) * 2)))) (regs (io ?s) p)
         else regs (io ?s) p)"
    by blast
  from s' spec [OF val, of 2048] spec [OF val, of 2049] show ?thesis
    by (simp add: c_word_eq)
qed

text \<open>A Write Multiple Registers request for the four words of a 64-bit variable is
  acknowledged but stores only the first, most significant word: for the others the code tests
  \<open>(Start - MIN_64B_RANGE) % 4\<close> instead of the register's own position.\<close>

theorem write_lint_stores_one_word:
  assumes ok: "conn_ok s" and n: "21 \<le> n" and fc: "function_code s = 16"
    and S: "req_start s = 4096 + 4 * k" "k < 1024" and cnt: "req_count s = 4" "unat (buffer s ! 12) = 8"
    and p: "lint_memory (io s) k = Some c"
  shows "\<exists>s'. processModbusMessage s n = Some s' \<and> MessageLength s' = 12 \<and>
     lint_word (s64_heap (io s') c) 0 = of_nat (c_word (buffer s ! 13) (buffer s ! 14)) \<and>
     lint_word (s64_heap (io s') c) 1 = lint_word (s64_heap (io s) c) 1 \<and>
     lint_word (s64_heap (io s') c) 2 = lint_word (s64_heap (io s) c) 2 \<and>
     lint_word (s64_heap (io s') c) 3 = lint_word (s64_heap (io s) c) 3"
proof -
  let ?t = "s\<lparr>MessageLength := 0\<rparr>" and ?v = "of_nat (c_word (buffer s ! 13) (buffer s ! 14)) :: u16"
  have ok': "conn_ok ?t" using ok by simp
  have "WriteMultipleRegisters ?t n = Some (write_ack
      (set_s64 c (set_lint_word (s64_heap (io s) c) 0 (unat ?v)) (io s)) ?t)"
    using WriteMultipleRegisters_lint [OF ok' n, of k c] S cnt p by (simp add: unat_of_nat_c_word)
  then show ?thesis
    using n fc by (simp add: process_dispatch [OF ok] Let_def lint_word_set)
qed

theorem write_lint_stores_one_word_witness:
  "\<exists>s'. processModbusMessage (demo_conn demo_io
       [0, 1, 0, 0, 0, 15, 1, 16, 16, 0, 0, 4, 8, 1, 2, 3, 4, 5, 6, 7, 8]) 21 = Some s' \<and>
     lint_word (s64_heap (io s') (Located ''__ML0'')) 0 = 0x102 \<and>
     lint_word (s64_heap (io s') (Located ''__ML0'')) 3 = 0"
  using write_lint_stores_one_word [of "demo_conn demo_io
       [0, 1, 0, 0, 0, 15, 1, 16, 16, 0, 0, 4, 8, 1, 2, 3, 4, 5, 6, 7, 8]" 21 0 "Located ''__ML0''"]
  by (force simp: c_word_eq demo_io_def lint_word_def)

section \<open>Requests that change nothing\<close>

text \<open>C7: A request with another function code, or of fewer than 8 bytes, is answered with the
  exception reply \<open>ILLEGAL_FUNCTION\<close>: nine bytes, the length field 3, the function code with its
  high bit set, the transaction and unit identifiers of the request, and no effect on the plant.\<close>

theorem unknown_function_refused:
  assumes ok: "conn_ok s" and fc: "n < 8 \<or> function_code s \<notin> {1, 2, 3, 4, 5, 6, 15, 16}"
  shows "processModbusMessage s n = Some (s\<lparr>MessageLength := 9,
     buffer := (buffer s)[4 := 0, 5 := 3, 7 := function_code s OR 0x80, 8 := 1]\<rparr>)"
  using fc process_runt [OF ok] process_dispatch [OF ok] ok
  by (cases "n < 8") (auto simp: Let_def error_reply_def mb_consts conn_ok_def)

theorem unknown_function_refused_witness:
  "\<exists>s'. processModbusMessage (demo_conn demo_io [0, 1, 0, 0, 0, 2, 1, 43]) 8 = Some s' \<and>
     buffer s' ! 7 = 171 \<and> buffer s' ! 0 = 0 \<and> buffer s' ! 1 = 1 \<and> buffer s' ! 8 = 1"
proof -
  have "processModbusMessage (demo_conn demo_io [0, 1, 0, 0, 0, 2, 1, 43]) 8 =
      Some (demo_conn demo_io [0, 1, 0, 0, 0, 2, 1, 43] \<lparr>MessageLength := 9,
        buffer := (buffer (demo_conn demo_io [0, 1, 0, 0, 0, 2, 1, 43]))[4 := 0, 5 := 3,
          7 := buffer (demo_conn demo_io [0, 1, 0, 0, 0, 2, 1, 43]) ! 7 OR 0x80, 8 := 1]\<rparr>)"
    by (rule unknown_function_refused) simp_all
  then show ?thesis by (simp add: demo_conn_def)
qed

text \<open>The functions that read, and every function that ends in an exception before its loop,
  leave the process image as it was: only function codes 5, 6, 15 and 16 change it.\<close>

theorem only_writes_change_io:
  assumes ok: "conn_ok s" and fc: "function_code s \<notin> {5, 6, 15, 16}"
    and run: "processModbusMessage s n = Some s'"
  shows "io s' = io s"
proof (cases "n < 8")
  case True
  then show ?thesis using run process_runt [OF ok] by auto
next
  case False
  let ?t = "s\<lparr>MessageLength := 0\<rparr>"
  have ok': "conn_ok ?t" using ok by simp
  have hold: "io r = io s" if "ReadHoldingRegisters ?t n = Some r" for r
  proof (cases "\<forall>i < req_count s. 12 \<le> n \<and> req_count s \<le> 127 \<longrightarrow> req_start s + i \<noteq> 1024")
    case True
    then show ?thesis
      using that holding.returns [OF ok', of n] by (force simp: holding_bytes_None)
  next
    case False
    then have "12 \<le> n" "req_count s \<le> 127" "req_start s \<le> 1024" "1024 < req_start s + req_count s"
      by auto
    then show ?thesis using that ReadHoldingRegisters_1024 [OF ok', of n] by simp
  qed
  have inr: "io r = io s" if "ReadInputRegisters ?t n = Some r" for r
    using that inregs.returns [OF ok', of n] by (force simp: input_bytes_eq)
  have bits: "io r = io s" if "ReadCoils ?t n = Some r \<or> ReadDiscreteInputs ?t n = Some r" for r
    using that coils.returns [OF ok', of n] inputs.returns [OF ok', of n] by force
  have err: "io r = io s" if "ModbusError ?t e = Some r" for e r
    using that ok by (auto simp: conn_ok_def)
  have "processModbusMessage s n \<in> {ReadCoils ?t n, ReadDiscreteInputs ?t n, ReadHoldingRegisters ?t n,
      ReadInputRegisters ?t n, ModbusError ?t ERR_ILLEGAL_FUNCTION}"
    using False fc by (simp only: process_dispatch [OF ok leI [OF False]] Let_def split: if_splits) simp
  then have "Some s' \<in> {ReadCoils ?t n, ReadDiscreteInputs ?t n, ReadHoldingRegisters ?t n,
      ReadInputRegisters ?t n, ModbusError ?t ERR_ILLEGAL_FUNCTION}"
    unfolding run .
  then show ?thesis
    unfolding insert_iff empty_iff
    by (elim disjE; (simp only: simp_thms; fail)?) (metis bits hold inr err)+
qed

theorem only_writes_change_io_witness:
  "\<exists>s'. processModbusMessage (demo_conn demo_io [0, 1, 0, 0, 0, 2, 1, 43]) 8 = Some s' \<and> io s' = demo_io"
proof -
  let ?s = "demo_conn demo_io [0, 1, 0, 0, 0, 2, 1, 43]"
  have ok: "conn_ok ?s" by simp
  have "\<exists>s'. processModbusMessage ?s 8 = Some s'"
    using ok by (simp add: process_dispatch [OF ok] Let_def conn_ok_def)
  then obtain s' where s': "processModbusMessage ?s 8 = Some s'" by blast
  show ?thesis using only_writes_change_io [OF ok _ s'] s' by auto
qed

end
