(* ===== verification/ModbusMap.thy ===== *)
theory ModbusMap
  imports Modbus
begin

text \<open>
  What \<open>mapUnusedIO\<close> leaves in the pointer tables: each of its four loops in closed form, and
  the whole function.
\<close>

definition fill1 :: "nat \<Rightarrow> (nat \<Rightarrow> cell) \<Rightarrow> (nat \<Rightarrow> cell option) \<Rightarrow> nat \<Rightarrow> cell option" where
  "fill1 n obj tab i = (if i < n \<and> tab i = None then Some (obj i) else tab i)"

definition fill2 :: "nat \<Rightarrow> (nat \<Rightarrow> cell) \<Rightarrow> (nat \<Rightarrow> nat \<Rightarrow> cell option) \<Rightarrow> nat \<Rightarrow> nat \<Rightarrow> cell option" where
  "fill2 n obj tab i j =
     (if j < 8 \<and> i * 8 + j < n \<and> tab i j = None then Some (obj (i * 8 + j)) else tab i j)"

lemma fill1_0 [simp]: "fill1 0 obj tab = tab"
  by (rule ext) (simp add: fill1_def)

lemma fill2_0 [simp]: "fill2 0 obj tab = tab"
  by (intro ext) (simp add: fill2_def)

lemma fill1_Suc:
  "fill1 (Suc n) obj tab = (case fill1 n obj tab n of
     None \<Rightarrow> (fill1 n obj tab)(n := Some (obj n)) | Some _ \<Rightarrow> fill1 n obj tab)"
  by (rule ext) (auto simp: fill1_def less_Suc_eq split: option.splits)

lemma fill2_Suc:
  "fill2 (Suc n) obj tab = (case fill2 n obj tab (n div 8) (n mod 8) of
     None \<Rightarrow> (fill2 n obj tab)(n div 8 := ((fill2 n obj tab) (n div 8))(n mod 8 := Some (obj n)))
   | Some _ \<Rightarrow> fill2 n obj tab)"
proof -
  have split8: "i * 8 + j = n \<longleftrightarrow> i = n div 8 \<and> j = n mod 8" if "j < 8" for i j
    using that by auto
  show ?thesis
    by (intro ext) (auto simp: fill2_def less_Suc_eq split8 split: option.splits)
qed

lemma map_discrete_inputs:
  "n \<le> 8192 \<Longrightarrow> for_range 0 n map_discrete_input m =
     Some (m\<lparr>bool_input := fill2 n Mb_discrete_input (bool_input m)\<rparr>)"
proof (induction n)
  case (Suc n)
  then show ?case
    by (simp add: for_range_Suc_right map_discrete_input_def fill2_Suc del: for_range.simps(2)
        split: option.splits)
qed simp

lemma map_coils:
  "n \<le> 8192 \<Longrightarrow> for_range 0 n map_coil m = Some (m\<lparr>bool_output := fill2 n Mb_coils (bool_output m)\<rparr>)"
proof (induction n)
  case (Suc n)
  then show ?case
    by (simp add: for_range_Suc_right map_coil_def fill2_Suc del: for_range.simps(2)
        split: option.splits)
qed simp

lemma map_input_regs:
  "n \<le> 1024 \<Longrightarrow> for_range 0 n map_input_reg m = Some (m\<lparr>int_input := fill1 n Mb_input_regs (int_input m)\<rparr>)"
proof (induction n)
  case (Suc n)
  then show ?case
    by (simp add: for_range_Suc_right map_input_reg_def fill1_Suc del: for_range.simps(2)
        split: option.splits)
qed simp

lemma map_output_regs:
  "n \<le> 1024 \<Longrightarrow> for_range 0 n map_holding_reg m =
     Some (m\<lparr>int_output := fill1 n Mb_holding_regs (int_output m)\<rparr>)"
proof (induction n)
  case (Suc n)
  then show ?case
    by (simp add: for_range_Suc_right map_holding_reg_def mb_consts fill1_Suc del: for_range.simps(2)
        split: option.splits)
qed simp

lemma map_memory_regs:
  "n \<le> 1024 \<Longrightarrow> for_range 1024 n map_holding_reg m =
     (if \<exists>k < n. int_memory m k = None then None else Some m)"
proof (induction n)
  case (Suc n)
  then show ?case
    by (auto simp add: for_range_Suc_right map_holding_reg_def mb_consts BUFFER_SIZE_def less_Suc_eq
        simp del: for_range.simps(2) split: option.splits)
qed simp

text \<open>\<open>mapUnusedIO\<close> points every unmapped discrete input, coil, input register and output
  register at its Modbus variable and keeps every mapped one, but only when all 1024 memory words
  are already mapped: for an unmapped word it tests \<open>int_memory[i - MIN_16B_RANGE]\<close> and assigns
  \<open>int_memory[i]\<close> with \<open>i >= 1024\<close>, past the end of the table.\<close>

theorem mapUnusedIO_memory_words:
  "mapUnusedIO m =
     (if bufferLock m \<or> (\<exists>k < 1024. int_memory m k = None) then None
      else Some (m\<lparr>bool_input := fill2 800 Mb_discrete_input (bool_input m),
                   bool_output := fill2 800 Mb_coils (bool_output m),
                   int_input := fill1 1024 Mb_input_regs (int_input m),
                   int_output := fill1 1024 Mb_holding_regs (int_output m)\<rparr>))"
proof (cases "bufferLock m")
  case True
  then show ?thesis by (simp add: mapUnusedIO_def)
next
  case False
  have regs: "for_range 0 2048 map_holding_reg t =
      (if \<exists>k < 1024. int_memory t k = None then None
       else Some (t\<lparr>int_output := fill1 1024 Mb_holding_regs (int_output t)\<rparr>))" for t
    using for_range_add [of 0 1024 1024 map_holding_reg t]
    by (simp add: map_output_regs map_memory_regs)
  show ?thesis
    using False
    by (auto simp: mapUnusedIO_def mb_consts map_discrete_inputs map_coils map_input_regs regs
        unlock_buffer_def)
qed

end
