(* ===== verification/NetServer.thy ===== *)
theory NetServer
  imports ModbusProps ModbusMap
begin

text \<open>
  \<open>src/core/server.cpp\<close>: the TCP side of the Modbus slave. A socket is the list of what arrives on
  it, a segment of bytes (\<open>Some\<close>) or an error (\<open>None\<close>); after the last one the peer has closed
  the connection. The second part interleaves the threads of several clients, which share the
  process image and the global \<open>MessageLength\<close>.
\<close>

unbundle bit_operations_syntax

section \<open>One connection\<close>

type_synonym socket = "u8 list option list"

text \<open>The system call \<open>read(fd, buf, k)\<close>: at most \<open>k\<close> bytes, the rest of a segment stays.\<close>

fun sock_read :: "nat \<Rightarrow> socket \<Rightarrow> u8 list option \<times> socket" where
  "sock_read k [] = (Some [], [])"
| "sock_read k (None # ss) = (None, ss)"
| "sock_read k (Some bs # ss) = (Some (take k bs), if k < length bs then Some (drop k bs) # ss else ss)"

text \<open>\<open>bzero(buffer, 1024)\<close>, then the bytes read; the returned \<open>int\<close> is \<open>-1\<close> for an error.\<close>

definition listenToClient :: "socket \<Rightarrow> int \<times> u8 list \<times> socket" where
  "listenToClient sk =
     (let buf = replicate 1024 0; (r, sk') = sock_read 1024 sk in
      case r of
        None \<Rightarrow> (-1, buf, sk')
      | Some bs \<Rightarrow> (int (length bs), bs @ drop (length bs) buf, sk'))"

text \<open>The request is processed in place and \<open>MessageLength\<close> bytes of the array are sent.\<close>

definition processMessage :: "mb_state \<Rightarrow> nat \<Rightarrow> (mb_state \<times> u8 list) option" where
  "processMessage s bufferSize = do {
     s' \<leftarrow> processModbusMessage s bufferSize;
     (if MessageLength s' \<le> length (buffer s') then Some (s', take (MessageLength s') (buffer s')) else None) }"

text \<open>The loop of a client thread ends when the connection is closed or broken.\<close>

datatype conn_end = Closed | Broken

definition sock_size :: "socket \<Rightarrow> nat" where
  "sock_size sk = sum_list (map (\<lambda>x. case x of None \<Rightarrow> 1 | Some bs \<Rightarrow> Suc (length bs)) sk)"

lemma listenToClient_shrinks:
  "listenToClient sk = (n, b, sk') \<Longrightarrow> 0 < n \<Longrightarrow> sock_size sk' < sock_size sk"
  by (cases "(1024::nat, sk)" rule: sock_read.cases)
     (auto simp: listenToClient_def sock_size_def Let_def split: if_splits)

text \<open>\<open>handleConnections\<close> by itself, that is, while no other client thread uses \<open>MessageLength\<close>.\<close>

function handleConnections ::
  "socket \<Rightarrow> mb_state \<Rightarrow> (conn_end \<times> mb_state \<times> u8 list list) option" where
  "handleConnections sk s =
     (case listenToClient sk of (messageSize, buf, sk') \<Rightarrow>
        if messageSize \<le> 0 \<or> messageSize > 1024
        then Some (if messageSize = 0 then Closed else Broken, s\<lparr>buffer := buf\<rparr>, [])
        else (case processMessage (s\<lparr>buffer := buf\<rparr>) (nat messageSize) of
            None \<Rightarrow> None
          | Some (s', out) \<Rightarrow>
              map_option (\<lambda>(e, t, outs). (e, t, out # outs)) (handleConnections sk' s')))"
  by pat_completeness auto
termination
  by (relation "measure (\<lambda>(sk, s). sock_size sk)") (auto intro: listenToClient_shrinks [OF sym])

declare handleConnections.simps [simp del]

text \<open>
  A message as it reaches the dispatcher. Whether it is safe depends on its bytes and on the
  pointer tables only.
\<close>

definition received :: "plc_io \<Rightarrow> nat \<Rightarrow> u8 list \<Rightarrow> mb_state" where
  "received m ml bs = \<lparr>io = m, buffer = bs @ replicate (1024 - length bs) 0, MessageLength = ml\<rparr>"

definition msg_ok :: "plc_io \<Rightarrow> u8 list \<Rightarrow> bool" where
  "msg_ok m bs \<longleftrightarrow> 0 < length bs \<and> length bs \<le> 1024 \<and> request_safe (received m 0 bs) (length bs)"

lemma request_safe_ml: "request_safe (received m a bs) n = request_safe (received m 0 bs) n"
  by (simp add: request_safe_def received_def)

lemma request_safe_tables:
  assumes "tables m = tables m'"
  shows "request_safe (received m a bs) n = request_safe (received m' b bs) n"
  using tables_eqD(8) [OF assms] by (simp add: request_safe_def received_def)

lemma msg_ok_tables: "tables m = tables m' \<Longrightarrow> msg_ok m bs = msg_ok m' bs"
  using request_safe_tables [of m m' 0 bs "length bs" 0] by (simp add: msg_ok_def)

lemma processMessage_ok:
  assumes m: "\<not> bufferLock m" and ok: "msg_ok m bs"
  obtains s' out where "processMessage (received m ml bs) (length bs) = Some (s', out)"
    "\<not> bufferLock (io s')" "tables (io s') = tables m" "9 \<le> length out" "length out \<le> 264"
    "length (buffer s') = 1024" "MessageLength s' = length out" "out = take (length out) (buffer s')"
proof -
  have "conn_ok (received m ml bs)"
    using m ok by (simp add: conn_ok_def received_def msg_ok_def)
  moreover have "request_safe (received m ml bs) (length bs)"
    using ok request_safe_ml [of m ml bs] by (simp add: msg_ok_def)
  ultimately obtain s' where s': "processModbusMessage (received m ml bs) (length bs) = Some s'"
      "reply_ok (received m ml bs) s'"
    using process_returns by blast
  then show ?thesis
    using that [of s' "take (MessageLength s') (buffer s')"]
    by (simp add: processMessage_def reply_ok_def conn_ok_def received_def)
qed

lemma listenToClient_segment:
  assumes "0 < length bs" "length bs \<le> 1024"
  shows "listenToClient (Some bs # sk) = (int (length bs), buffer (received m ml bs), sk)"
  using assms by (simp add: listenToClient_def Let_def received_def)

text \<open>C8: A client that is alone and sends safe requests, one segment each, gets one reply per request: the
  thread returns with the connection closed, every reply has 9 to 264 bytes, and the mutex is free
  and the pointer tables are as they were. Safety of a request (\<open>msg_ok\<close>) depends on the tables
  only, so it is enough to ask it of the initial state.\<close>

theorem client_requests_all_answered:
  assumes "\<not> bufferLock (io s)" "\<forall>bs \<in> set msgs. msg_ok (io s) bs"
  shows "\<exists>t outs. handleConnections (map Some msgs) s = Some (Closed, t, outs) \<and>
     length outs = length msgs \<and> (\<forall>out \<in> set outs. 9 \<le> length out \<and> length out \<le> 264) \<and>
     \<not> bufferLock (io t) \<and> tables (io t) = tables (io s)"
  using assms
proof (induction msgs arbitrary: s)
  case Nil
  then show ?case
    by (subst handleConnections.simps) (simp add: listenToClient_def Let_def)
next
  case (Cons bs msgs)
  have ok: "msg_ok (io s) bs" using Cons.prems by simp
  then have n: "0 < length bs" "length bs \<le> 1024" by (simp_all add: msg_ok_def)
  obtain s' out where s': "processMessage (received (io s) (MessageLength s) bs) (length bs) = Some (s', out)"
      "\<not> bufferLock (io s')" "tables (io s') = tables (io s)" "9 \<le> length out" "length out \<le> 264"
    by (rule processMessage_ok [OF Cons.prems(1) ok])
  have "\<forall>x \<in> set msgs. msg_ok (io s') x"
    using Cons.prems(2) msg_ok_tables [OF s'(3)] by simp
  from Cons.IH [OF s'(2) this] obtain t outs where
    rest: "handleConnections (map Some msgs) s' = Some (Closed, t, outs)" "length outs = length msgs"
      "\<forall>out \<in> set outs. 9 \<le> length out \<and> length out \<le> 264" "\<not> bufferLock (io t)"
      "tables (io t) = tables (io s')" by blast
  have st: "s\<lparr>buffer := buffer (received (io s) (MessageLength s) bs)\<rparr> = received (io s) (MessageLength s) bs"
    by (simp add: received_def)
  have "handleConnections (map Some (bs # msgs)) s = Some (Closed, t, out # outs)"
    using n s'(1) rest(1)
    by (subst handleConnections.simps)
       (simp add: listenToClient_segment [OF n, of _ "io s" "MessageLength s"] st)
  then show ?case using rest s' by auto
qed

theorem client_requests_all_answered_witness:
  "\<exists>t outs. handleConnections (map Some [[0, 1, 0, 0, 0, 6, 1, 3, 0, 5, 0, 1], [0, 2, 0, 0, 0, 2, 1, 43]])
     (demo_conn demo_io []) = Some (Closed, t, outs) \<and> length outs = 2"
proof -
  have "\<exists>t outs. handleConnections (map Some [[0, 1, 0, 0, 0, 6, 1, 3, 0, 5, 0, 1], [0, 2, 0, 0, 0, 2, 1, 43]])
     (demo_conn demo_io []) = Some (Closed, t, outs) \<and>
     length outs = length [[0, 1, 0, 0, 0, 6, 1, 3, 0, 5, 0, 1], [0, 2, 0, 0, 0, 2, 1, 43 :: u8]] \<and>
     (\<forall>out \<in> set outs. 9 \<le> length out \<and> length out \<le> 264) \<and> \<not> bufferLock (io t) \<and>
     tables (io t) = tables (io (demo_conn demo_io []))"
    by (rule client_requests_all_answered)
       (simp_all add: msg_ok_def request_safe_def received_def c_word_eq)
  then show ?thesis by auto
qed

section \<open>Several clients\<close>

text \<open>
  Each thread has its own array, and all share \<open>MessageLength\<close>. Every access to this variable is a
  step of its own: \<open>processModbusMessage\<close> clears it, the function of the request stores the length of
  its reply, and the \<open>return\<close> reads it into a local variable. What the function of a request does
  besides is one step: it works on the array of the thread, except for a single section under
  \<open>bufferLock\<close>, and nothing in it reads \<open>MessageLength\<close>. The remaining steps accept a client, receive a
  request, send a reply, and end a thread.
\<close>

datatype phase = Listening | Received nat | Cleared nat | Handled nat | Stored | Returned nat

record client =
  phase :: phase
  cbuf :: "u8 list"
  sent :: "u8 list list"

record server =
  sio :: plc_io
  sML :: nat
  clients :: "nat \<Rightarrow> client option"

inductive srv_step :: "u8 list set \<Rightarrow> server \<Rightarrow> server \<Rightarrow> bool" for net where
  accept: "clients S c = None \<Longrightarrow>
     srv_step net S (S\<lparr>clients := (clients S)(c \<mapsto> \<lparr>phase = Listening, cbuf = replicate 1024 0, sent = []\<rparr>)\<rparr>)"
| receive: "clients S c = Some k \<Longrightarrow> phase k = Listening \<Longrightarrow> bs \<in> net \<Longrightarrow>
     listenToClient [Some bs] = (n, buf, sk) \<Longrightarrow> 0 < n \<Longrightarrow> n \<le> 1024 \<Longrightarrow>
     srv_step net S (S\<lparr>clients := (clients S)(c \<mapsto> k\<lparr>phase := Received (nat n), cbuf := buf\<rparr>)\<rparr>)"
| clear: "clients S c = Some k \<Longrightarrow> phase k = Received n \<Longrightarrow>
     srv_step net S (S\<lparr>sML := 0, clients := (clients S)(c \<mapsto> k\<lparr>phase := Cleared n\<rparr>)\<rparr>)"
| handle: "clients S c = Some k \<Longrightarrow> phase k = Cleared n \<Longrightarrow>
     processModbusMessage \<lparr>io = sio S, buffer = cbuf k, MessageLength = 0\<rparr> n = Some s' \<Longrightarrow>
     srv_step net S (S\<lparr>sio := io s',
        clients := (clients S)(c \<mapsto> k\<lparr>phase := Handled (MessageLength s'), cbuf := buffer s'\<rparr>)\<rparr>)"
| store_length: "clients S c = Some k \<Longrightarrow> phase k = Handled l \<Longrightarrow>
     srv_step net S (S\<lparr>sML := l, clients := (clients S)(c \<mapsto> k\<lparr>phase := Stored\<rparr>)\<rparr>)"
| return_length: "clients S c = Some k \<Longrightarrow> phase k = Stored \<Longrightarrow>
     srv_step net S (S\<lparr>clients := (clients S)(c \<mapsto> k\<lparr>phase := Returned (sML S)\<rparr>)\<rparr>)"
| reply: "clients S c = Some k \<Longrightarrow> phase k = Returned l \<Longrightarrow> l \<le> length (cbuf k) \<Longrightarrow>
     srv_step net S (S\<lparr>clients := (clients S)(c \<mapsto>
        k\<lparr>phase := Listening, sent := sent k @ [take l (cbuf k)]\<rparr>)\<rparr>)"
| finish: "clients S c = Some k \<Longrightarrow> phase k = Listening \<Longrightarrow>
     srv_step net S (S\<lparr>clients := (clients S)(c := None)\<rparr>)"

definition srv_init :: "plc_io \<Rightarrow> server" where
  "srv_init m = \<lparr>sio = m, sML = 0, clients = (\<lambda>_. None)\<rparr>"

abbreviation srv_reach :: "u8 list set \<Rightarrow> plc_io \<Rightarrow> server \<Rightarrow> bool" where
  "srv_reach net m \<equiv> (srv_step net)\<^sup>*\<^sup>* (srv_init m)"

text \<open>The values \<open>MessageLength\<close> ever has, and the invariant of the interleaved server.\<close>

definition a_length :: "nat \<Rightarrow> bool" where
  "a_length l \<longleftrightarrow> l = 0 \<or> 9 \<le> l \<and> l \<le> 264"

definition client_ok :: "plc_io \<Rightarrow> client \<Rightarrow> bool" where
  "client_ok m k \<longleftrightarrow> length (cbuf k) = 1024 \<and> (\<forall>r \<in> set (sent k). a_length (length r)) \<and>
     (case phase k of
        Received n \<Rightarrow> request_safe \<lparr>io = m, buffer = cbuf k, MessageLength = 0\<rparr> n
      | Cleared n \<Rightarrow> request_safe \<lparr>io = m, buffer = cbuf k, MessageLength = 0\<rparr> n
      | Handled l \<Rightarrow> a_length l
      | Returned l \<Rightarrow> a_length l
      | _ \<Rightarrow> True)"

definition srv_inv :: "plc_io \<Rightarrow> server \<Rightarrow> bool" where
  "srv_inv m S \<longleftrightarrow> tables (sio S) = tables m \<and> \<not> bufferLock (sio S) \<and> a_length (sML S) \<and>
     (\<forall>c k. clients S c = Some k \<longrightarrow> client_ok m k)"

lemma request_safe_frame:
  assumes "tables m = tables m'"
  shows "request_safe \<lparr>io = m, buffer = b, MessageLength = i\<rparr> n = request_safe \<lparr>io = m', buffer = b, MessageLength = j\<rparr> n"
  using tables_eqD(8) [OF assms] by (simp add: request_safe_def)

lemma srv_inv_client: "srv_inv m S \<Longrightarrow> clients S c = Some k \<Longrightarrow> client_ok m k"
  by (simp add: srv_inv_def)

lemma srv_inv_update:
  assumes "srv_inv m S" "client_ok m k"
  shows "srv_inv m (S\<lparr>clients := (clients S)(c \<mapsto> k)\<rparr>)"
    "a_length l \<Longrightarrow> srv_inv m (S\<lparr>sML := l, clients := (clients S)(c \<mapsto> k)\<rparr>)"
  using assms by (auto simp: srv_inv_def)

lemma srv_inv_handle:
  assumes inv: "srv_inv m S" and c: "clients S c = Some k" "phase k = Cleared n"
    and run: "processModbusMessage \<lparr>io = sio S, buffer = cbuf k, MessageLength = 0\<rparr> n = Some s'"
  shows "srv_inv m (S\<lparr>sio := io s',
        clients := (clients S)(c \<mapsto> k\<lparr>phase := Handled (MessageLength s'), cbuf := buffer s'\<rparr>)\<rparr>)"
proof -
  let ?s = "\<lparr>io = sio S, buffer = cbuf k, MessageLength = 0\<rparr>"
  have t: "tables (sio S) = tables m" and k: "client_ok m k"
    using inv c by (auto simp: srv_inv_def)
  have "conn_ok ?s" using inv k by (simp add: srv_inv_def client_ok_def conn_ok_def)
  moreover have "request_safe ?s n"
    using k c(2) request_safe_frame [OF t, of "cbuf k" 0 n 0] by (simp add: client_ok_def)
  ultimately have r: "reply_ok ?s s'" using process_returns run by fastforce
  then have "client_ok m (k\<lparr>phase := Handled (MessageLength s'), cbuf := buffer s'\<rparr>)"
    using k by (simp add: client_ok_def reply_ok_def conn_ok_def a_length_def)
  then show ?thesis using inv r t by (auto simp: srv_inv_def reply_ok_def conn_ok_def)
qed

lemma srv_inv_step:
  assumes step: "srv_step net S S'" and inv: "srv_inv m S" and net: "\<forall>bs \<in> net. msg_ok m bs"
  shows "srv_inv m S'"
  using step
proof cases
  case (accept c)
  then show ?thesis using inv by (auto intro!: srv_inv_update simp: client_ok_def)
next
  case (receive c k bs n buf sk)
  have bs: "0 < length bs" "length bs \<le> 1024" "msg_ok m bs"
    using net receive(4) by (auto simp: msg_ok_def)
  have "n = int (length bs)" "buf = buffer (received m 0 bs)"
    using receive(5) listenToClient_segment [OF bs(1,2), of "[]" m 0] by simp_all
  then show ?thesis
    using receive bs inv srv_inv_client [OF inv receive(2)]
    by (auto intro!: srv_inv_update simp: client_ok_def msg_ok_def received_def)
next
  case (clear c k n)
  then show ?thesis using srv_inv_client [OF inv clear(2)]
    by (auto intro!: srv_inv_update(2) [OF inv] simp: client_ok_def a_length_def)
next
  case (handle c k n s')
  then show ?thesis using srv_inv_handle [OF inv] by simp
next
  case (store_length c k l)
  then show ?thesis using srv_inv_client [OF inv store_length(2)]
    by (auto intro!: srv_inv_update(2) [OF inv] simp: client_ok_def)
next
  case (return_length c k)
  then show ?thesis using srv_inv_client [OF inv return_length(2)] inv
    by (auto intro!: srv_inv_update(1) [OF inv] simp: client_ok_def srv_inv_def)
next
  case (reply c k l)
  then show ?thesis using srv_inv_client [OF inv reply(2)]
    by (auto intro!: srv_inv_update(1) [OF inv] simp: client_ok_def)
next
  case (finish c k)
  then show ?thesis using inv by (auto simp: srv_inv_def)
qed

lemma srv_inv_reach:
  assumes "srv_reach net m S" "\<not> bufferLock m" "\<forall>bs \<in> net. msg_ok m bs"
  shows "srv_inv m S"
  using assms(1)
proof (induction rule: rtranclp_induct)
  case base
  show ?case using assms(2) by (simp add: srv_inv_def srv_init_def a_length_def)
next
  case (step S S')
  then show ?case using srv_inv_step assms(3) by blast
qed

text \<open>A client that is accepted and has sent a request; a request up to the stored length of its reply;
  and the reply, whose length is what \<open>MessageLength\<close> is by then.\<close>

lemma srv_reach_step: "srv_reach net m S \<Longrightarrow> srv_step net S T \<Longrightarrow> srv_reach net m T"
  by (rule rtranclp.rtrancl_into_rtrancl)

lemma reach_request:
  assumes "srv_reach net m S" "clients S c = None" "b \<in> net" "0 < length b" "length b \<le> 1024"
  shows "srv_reach net m (S\<lparr>clients := (clients S)(c \<mapsto> \<lparr>phase = Received (length b), cbuf = buffer (received m 0 b), sent = []\<rparr>)\<rparr>)"
proof -
  let ?k = "\<lparr>phase = Listening, cbuf = replicate 1024 0, sent = []\<rparr>"
  let ?S = "S\<lparr>clients := (clients S)(c \<mapsto> ?k)\<rparr>"
  have 1: "srv_reach net m ?S" by (rule srv_reach_step [OF assms(1)]) (rule accept [OF assms(2)])
  have "srv_step net ?S (?S\<lparr>clients := (clients ?S)(c \<mapsto> ?k\<lparr>phase := Received (nat (int (length b))), cbuf := buffer (received m 0 b)\<rparr>)\<rparr>)"
    by (rule receive [OF _ _ assms(3) listenToClient_segment [OF assms(4,5), of "[]" m 0]]) (use assms(4,5) in simp_all)
  then have "srv_step net ?S (S\<lparr>clients := (clients S)(c \<mapsto> \<lparr>phase = Received (length b), cbuf = buffer (received m 0 b), sent = []\<rparr>)\<rparr>)"
    by simp
  with 1 show ?thesis by (rule srv_reach_step)
qed

lemma reach_stored:
  assumes "srv_reach net m S" "clients S c = Some k" "phase k = Received n"
    and "processModbusMessage \<lparr>io = sio S, buffer = cbuf k, MessageLength = 0\<rparr> n = Some s'"
  shows "srv_reach net m (S\<lparr>sio := io s', sML := MessageLength s', clients := (clients S)(c \<mapsto> k\<lparr>cbuf := buffer s', phase := Stored\<rparr>)\<rparr>)"
proof -
  let ?S1 = "S\<lparr>sML := 0, clients := (clients S)(c \<mapsto> k\<lparr>phase := Cleared n\<rparr>)\<rparr>"
  let ?k = "k\<lparr>phase := Handled (MessageLength s'), cbuf := buffer s'\<rparr>"
  let ?S2 = "S\<lparr>sML := 0, sio := io s', clients := (clients S)(c \<mapsto> ?k)\<rparr>"
  have 1: "srv_reach net m ?S1" by (rule srv_reach_step [OF assms(1)]) (rule clear [OF assms(2,3)])
  have "srv_step net ?S1 ?S2" using handle [of ?S1 c "k\<lparr>phase := Cleared n\<rparr>" n s' net] assms(4) by simp
  with 1 have 2: "srv_reach net m ?S2" by (rule srv_reach_step)
  have "srv_step net ?S2 (?S2\<lparr>sML := MessageLength s', clients := (clients ?S2)(c \<mapsto> ?k\<lparr>phase := Stored\<rparr>)\<rparr>)"
    by (rule store_length [of _ _ ?k]) simp_all
  moreover have "?S2\<lparr>sML := MessageLength s', clients := (clients ?S2)(c \<mapsto> ?k\<lparr>phase := Stored\<rparr>)\<rparr> =
      S\<lparr>sio := io s', sML := MessageLength s', clients := (clients S)(c \<mapsto> k\<lparr>cbuf := buffer s', phase := Stored\<rparr>)\<rparr>"
    by simp
  ultimately show ?thesis using srv_reach_step [OF 2] by metis
qed

lemma reach_reply:
  assumes "srv_reach net m S" "clients S c = Some k" "phase k = Stored" "sML S \<le> length (cbuf k)"
  shows "\<exists>T. srv_reach net m T \<and> clients T c = Some (k\<lparr>phase := Listening, sent := sent k @ [take (sML S) (cbuf k)]\<rparr>)"
proof -
  let ?k = "k\<lparr>phase := Returned (sML S)\<rparr>"
  let ?S1 = "S\<lparr>clients := (clients S)(c \<mapsto> ?k)\<rparr>"
  let ?T = "?S1\<lparr>clients := (clients ?S1)(c \<mapsto> ?k\<lparr>phase := Listening, sent := sent ?k @ [take (sML S) (cbuf ?k)]\<rparr>)\<rparr>"
  have 1: "srv_reach net m ?S1" by (rule srv_reach_step [OF assms(1)]) (rule return_length [OF assms(2,3)])
  have "srv_step net ?S1 ?T" by (rule reply) (use assms(4) in simp_all)
  with 1 have "srv_reach net m ?T" by (rule srv_reach_step)
  moreover have "clients ?T c = Some (k\<lparr>phase := Listening, sent := sent k @ [take (sML S) (cbuf k)]\<rparr>)" by simp
  ultimately show ?thesis by (intro exI [of _ ?T] conjI)
qed

text \<open>Two clients: between the first one's stored length and its \<open>return\<close>, the second one's request is
  begun, or processed as well.\<close>

lemma race_run:
  assumes m: "\<not> bufferLock m" and ok: "msg_ok m b0" "msg_ok m b1"
    and p0: "processMessage (received m 0 b0) (length b0) = Some (s0, out0)"
    and p1: "processMessage (received (io s0) 0 b1) (length b1) = Some (s1, out1)"
  shows "\<exists>S k. srv_reach {b0, b1} m S \<and> clients S 0 = Some k \<and> sent k = [take (length out1) (buffer s0)]"
    "\<exists>S k. srv_reach {b0, b1} m S \<and> clients S 0 = Some k \<and> sent k = [[]]"
proof -
  let ?N = "{b0, b1}"
  let ?r = "\<lambda>b. \<lparr>phase = Received (length b), cbuf = buffer (received m 0 b), sent = []\<rparr>"
  let ?S = "\<lambda>i l k0 k1. \<lparr>sio = i, sML = l, clients = (\<lambda>_. None)(0 \<mapsto> k0, 1 \<mapsto> k1)\<rparr>"
  let ?d = "\<lambda>s. \<lparr>phase = Stored, cbuf = buffer s, sent = []\<rparr>"
  have n: "0 < length b0" "length b0 \<le> 1024" "0 < length b1" "length b1 \<le> 1024"
    using ok by (simp_all add: msg_ok_def)
  obtain s' out where "processMessage (received m 0 b0) (length b0) = Some (s', out)"
      "length (buffer s') = 1024" "\<not> bufferLock (io s')" "tables (io s') = tables m"
    by (rule processMessage_ok [OF m ok(1)])
  with p0 have s0: "length (buffer s0) = 1024" "\<not> bufferLock (io s0)" "tables (io s0) = tables m" by simp_all
  have ok': "msg_ok (io s0) b1" using ok(2) msg_ok_tables [OF s0(3)] by simp
  obtain s' out where "processMessage (received (io s0) 0 b1) (length b1) = Some (s', out)"
      "MessageLength s' = length out" "length out \<le> 264"
    by (rule processMessage_ok [OF s0(2) ok'])
  with p1 have s1: "MessageLength s1 = length out1" "length out1 \<le> 264" by simp_all
  have run: "processModbusMessage (received m 0 b0) (length b0) = Some s0"
    "processModbusMessage (received (io s0) 0 b1) (length b1) = Some s1"
    using p0 p1 by (auto simp: processMessage_def bind_eq_Some_conv split: if_splits)
  have "srv_reach ?N m (srv_init m)" by simp
  from reach_request [OF this _ _ n(1,2), of 0]
  have "srv_reach ?N m \<lparr>sio = m, sML = 0, clients = (\<lambda>_. None)(0 \<mapsto> ?r b0)\<rparr>" by (simp add: srv_init_def)
  from reach_request [OF this _ _ n(3,4), of 1] have begun: "srv_reach ?N m (?S m 0 (?r b0) (?r b1))" by simp
  have stored: "srv_reach ?N m (?S (io s0) (MessageLength s0) (?d s0) (?r b1))"
    using reach_stored [OF begun, of 0 "?r b0" "length b0" s0] run(1) by (simp add: received_def fun_upd_twist)
  have both: "srv_reach ?N m (?S (io s1) (MessageLength s1) (?d s0) (?d s1))"
    using reach_stored [OF stored, of 1 "?r b1" "length b1" s1] run(2) by (simp add: received_def)
  have "MessageLength s1 \<le> length (buffer s0)" using s0(1) s1 by simp
  then obtain T where "srv_reach ?N m T" "clients T 0 = Some \<lparr>phase = Listening, cbuf = buffer s0, sent = [take (length out1) (buffer s0)]\<rparr>"
    using reach_reply [OF both, of 0 "?d s0"] s1(1) by auto
  then show "\<exists>S k. srv_reach ?N m S \<and> clients S 0 = Some k \<and> sent k = [take (length out1) (buffer s0)]"
    by (intro exI [of _ T] exI [of _ "\<lparr>phase = Listening, cbuf = buffer s0, sent = [take (length out1) (buffer s0)]\<rparr>"]) simp
  have "srv_step ?N (?S (io s0) (MessageLength s0) (?d s0) (?r b1)) (?S (io s0) 0 (?d s0) ((?r b1)\<lparr>phase := Cleared (length b1)\<rparr>))"
    using clear [of "?S (io s0) (MessageLength s0) (?d s0) (?r b1)" 1 "?r b1" "length b1" ?N] by simp
  from srv_reach_step [OF stored this]
  obtain T where "srv_reach ?N m T" "clients T 0 = Some \<lparr>phase = Listening, cbuf = buffer s0, sent = [[]]\<rparr>"
    using reach_reply [of ?N m "?S (io s0) 0 (?d s0) ((?r b1)\<lparr>phase := Cleared (length b1)\<rparr>)" 0 "?d s0"] by auto
  then show "\<exists>S k. srv_reach ?N m S \<and> clients S 0 = Some k \<and> sent k = [[]]"
    by (intro exI [of _ T] exI [of _ "\<lparr>phase = Listening, cbuf = buffer s0, sent = [[]]\<rparr>"]) simp
qed

text \<open>Two requests on the demonstration image, answered with 11 and with 9 bytes.\<close>

lemma demo_race:
  obtains s0 out0 s1 out1 where "\<not> bufferLock demo_io"
    "msg_ok demo_io [0, 1, 0, 0, 0, 6, 1, 3, 0, 5, 0, 1]" "msg_ok demo_io [0, 2, 0, 0, 0, 2, 1, 43]"
    "processMessage (received demo_io 0 [0, 1, 0, 0, 0, 6, 1, 3, 0, 5, 0, 1])
       (length [0, 1, 0, 0, 0, 6, 1, 3, 0, 5, 0, 1 :: u8]) = Some (s0, out0)"
    "processMessage (received (io s0) 0 [0, 2, 0, 0, 0, 2, 1, 43])
       (length [0, 2, 0, 0, 0, 2, 1, 43 :: u8]) = Some (s1, out1)"
    "length out0 \<noteq> length out1" "length out1 = 9" "length (buffer s0) = 1024"
proof -
  let ?b0 = "[0, 1, 0, 0, 0, 6, 1, 3, 0, 5, 0, 1] :: u8 list" and ?b1 = "[0, 2, 0, 0, 0, 2, 1, 43] :: u8 list"
  have m: "\<not> bufferLock demo_io" by simp
  have ok: "msg_ok demo_io ?b0" "msg_ok demo_io ?b1"
    by (simp_all add: msg_ok_def request_safe_def received_def c_word_eq)
  obtain s0 out0 where s0: "processMessage (received demo_io 0 ?b0) (length ?b0) = Some (s0, out0)"
      "\<not> bufferLock (io s0)" "tables (io s0) = tables demo_io" "length (buffer s0) = 1024"
      "MessageLength s0 = length out0"
    by (rule processMessage_ok [OF m ok(1)])
  have ok1: "msg_ok (io s0) ?b1" using ok(2) msg_ok_tables [OF s0(3)] by simp
  let ?s1 = "received (io s0) 0 ?b1"
  obtain s1 out1 where s1: "processMessage ?s1 (length ?b1) = Some (s1, out1)" "MessageLength s1 = length out1"
    by (rule processMessage_ok [OF s0(2) ok1])
  let ?t = "demo_conn demo_io ?b0"
  have t: "conn_ok ?t" "conn_ok (?t\<lparr>MessageLength := 0\<rparr>)" by simp_all
  have "received demo_io 0 ?b0 = ?t" "length ?b0 = 12" by (simp_all add: received_def demo_conn_def)
  with s0(1) have p: "processMessage ?t 12 = Some (s0, out0)" by (simp only:)
  then have "ReadHoldingRegisters (?t\<lparr>MessageLength := 0\<rparr>) 12 = Some s0"
    by (auto simp: processMessage_def process_dispatch [OF t(1)] bind_eq_Some_conv Let_def split: if_splits)
  then have "MessageLength s0 = 11"
    using ReadHoldingRegisters_reply [OF t(2), of 12] by (force simp: c_word_eq)
  moreover have c1: "conn_ok ?s1" using s0(2) by (simp add: conn_ok_def received_def)
  have "?s1 = \<lparr>io = io s0, buffer = ?b1 @ replicate 1016 0, MessageLength = 0\<rparr>"
    by (simp add: received_def)
  then have "function_code ?s1 = 43" by simp
  then have "MessageLength s1 = 9"
    using s1(1) c1 by (auto simp: processMessage_def process_dispatch [OF c1] bind_eq_Some_conv Let_def
        conn_ok_def split: if_splits)
  ultimately have "length out0 \<noteq> length out1" "length out1 = 9" using s0(5) s1(2) by simp_all
  then show ?thesis
    by (rule that [OF m ok s0(1) s1(1) _ _ s0(4)])
qed

text \<open>C9: However the accesses of the client threads to the shared \<open>MessageLength\<close> interleave, no reply
  leaves the array: in every state reached with safe requests the mutex is free, the pointer tables
  are those of the start, and every reply sent to any client is empty or has 9 to 264 bytes. An empty
  reply and one of the wrong length do occur (\<open>reply_lost\<close>, \<open>reply_length_race\<close>).\<close>

theorem interleaved_replies_bounded:
  assumes "srv_reach net m S" "\<not> bufferLock m" "\<forall>bs \<in> net. msg_ok m bs"
    and "clients S c = Some k" "r \<in> set (sent k)"
  shows "(length r = 0 \<or> 9 \<le> length r \<and> length r \<le> 264) \<and> \<not> bufferLock (sio S) \<and> tables (sio S) = tables m"
  using srv_inv_reach [OF assms(1-3)] assms(4,5) by (auto simp: srv_inv_def client_ok_def a_length_def)

theorem interleaved_replies_bounded_witness:
  "\<exists>S k r. srv_reach {[0, 1, 0, 0, 0, 6, 1, 3, 0, 5, 0, 1], [0, 2, 0, 0, 0, 2, 1, 43]} demo_io S \<and>
     clients S 0 = Some k \<and> sent k = [r] \<and> (length r = 0 \<or> 9 \<le> length r \<and> length r \<le> 264)"
proof (rule demo_race, goal_cases)
  case (1 s0 out0 s1 out1)
  obtain S k where S: "srv_reach {[0, 1, 0, 0, 0, 6, 1, 3, 0, 5, 0, 1], [0, 2, 0, 0, 0, 2, 1, 43]} demo_io S"
      "clients S 0 = Some k" "sent k = [take (length out1) (buffer s0)]"
    using race_run(1) [OF 1(1-5)] by blast
  then have "length (take (length out1) (buffer s0)) = 0 \<or>
      9 \<le> length (take (length out1) (buffer s0)) \<and> length (take (length out1) (buffer s0)) \<le> 264"
    using interleaved_replies_bounded [OF S(1) 1(1) _ S(2)] 1(2,3) by simp
  then show ?case using S by blast
qed

text \<open>The shared \<open>MessageLength\<close> gives one client's reply the length of another's: two
  clients whose requests are processed one after the other before the first reply is sent reach a
  state in which the first client was sent its own bytes cut, or padded, to the length of the
  second client's reply.\<close>

theorem reply_length_race:
  assumes "\<not> bufferLock m" "msg_ok m b0" "msg_ok m b1"
    and "processMessage (received m 0 b0) (length b0) = Some (s0, out0)"
    and "processMessage (received (io s0) 0 b1) (length b1) = Some (s1, out1)"
    and "length out0 \<noteq> length out1"
  shows "\<exists>S k. srv_reach {b0, b1} m S \<and> clients S 0 = Some k \<and>
     sent k = [take (length out1) (buffer s0)] \<and> sent k \<noteq> [out0]"
proof -
  obtain S k where S: "srv_reach {b0, b1} m S" "clients S 0 = Some k" "sent k = [take (length out1) (buffer s0)]"
    using race_run(1) [OF assms(1-5)] by blast
  obtain s' out where "processMessage (received m 0 b0) (length b0) = Some (s', out)"
      "length (buffer s') = 1024" "\<not> bufferLock (io s')" "tables (io s') = tables m"
    by (rule processMessage_ok [OF assms(1,2)])
  with assms(4) have s0: "length (buffer s0) = 1024" "\<not> bufferLock (io s0)" "tables (io s0) = tables m" by simp_all
  have "msg_ok (io s0) b1" using assms(3) msg_ok_tables [OF s0(3)] by simp
  then obtain s' out where "processMessage (received (io s0) 0 b1) (length b1) = Some (s', out)" "length out \<le> 264"
    by (rule processMessage_ok [OF s0(2)])
  then have "length (take (length out1) (buffer s0)) = length out1" using assms(5) s0(1) by simp
  then have "sent k \<noteq> [out0]" using S(3) assms(6) by auto
  with S show ?thesis by blast
qed

theorem reply_length_race_witness:
  "\<exists>S k r. srv_reach {[0, 1, 0, 0, 0, 6, 1, 3, 0, 5, 0, 1], [0, 2, 0, 0, 0, 2, 1, 43]} demo_io S \<and>
     clients S 0 = Some k \<and> sent k = [r] \<and> length r = 9"
proof (rule demo_race, goal_cases)
  case (1 s0 out0 s1 out1)
  then show ?case using reply_length_race [OF 1(1-6)] by fastforce
qed

text \<open>A request that another thread begins at the wrong moment leaves the first client without a reply:
  nothing is sent, although its request was processed.\<close>

theorem reply_lost:
  "\<exists>S k. srv_reach {[0, 1, 0, 0, 0, 6, 1, 3, 0, 5, 0, 1], [0, 2, 0, 0, 0, 2, 1, 43]} demo_io S \<and>
     clients S 0 = Some k \<and> sent k = [[]]"
proof (rule demo_race, goal_cases)
  case (1 s0 out0 s1 out1)
  then show ?case using race_run(2) [OF 1(1-5)] by blast
qed

section \<open>Starting the server\<close>

text \<open>
  \<open>createSocket\<close> gives the results of \<open>socket\<close> and \<open>bind\<close> a meaning: \<open>None\<close> is \<open>exit(1)\<close>. The
  start of the server is the socket and then \<open>mapUnusedIO\<close>; the accept loop is a step relation,
  because the thread it creates reads \<open>arguments\<close>, an array of the block of the loop, when it starts.
\<close>

definition createSocket :: "int \<Rightarrow> int \<Rightarrow> int option" where
  "createSocket socket_fd bind_result =
     (if socket_fd < 0 then None else if bind_result < 0 then None else Some socket_fd)"

definition startServer_setup :: "int \<Rightarrow> int \<Rightarrow> plc_io \<Rightarrow> (int \<times> plc_io) option" where
  "startServer_setup socket_fd bind_result m = do {
     fd \<leftarrow> createSocket socket_fd bind_result;
     m' \<leftarrow> mapUnusedIO m;
     Some (fd, m') }"

record accept_state =
  arguments :: "int option"
  created :: "int list"
  served :: "(int \<times> int option) list"

inductive accept_step :: "accept_state \<Rightarrow> accept_state \<Rightarrow> bool" where
  client_accepted: "arguments A = None \<Longrightarrow> 0 \<le> fd \<Longrightarrow>
     accept_step A (A\<lparr>arguments := Some fd, created := created A @ [fd]\<rparr>)"
| accept_error: "arguments A = None \<Longrightarrow> (fd :: int) < 0 \<Longrightarrow> accept_step A A"
| end_of_block: "arguments A = Some fd \<Longrightarrow> accept_step A (A\<lparr>arguments := None\<rparr>)"
| thread_starts: "created A = xs @ fd # ys \<Longrightarrow>
     accept_step A (A\<lparr>created := xs @ ys, served := served A @ [(fd, arguments A)]\<rparr>)"

abbreviation accept_reach :: "accept_state \<Rightarrow> bool" where
  "accept_reach \<equiv> accept_step\<^sup>*\<^sup>* \<lparr>arguments = None, created = [], served = []\<rparr>"

text \<open>A client thread may read its argument after the array it points to is gone: the accept
  loop does not wait for the thread to copy the descriptor out of its block-local array.\<close>

theorem thread_argument_dangling:
  assumes "0 \<le> fd"
  shows "\<exists>A. accept_reach A \<and> served A = [(fd, None)]"
proof -
  let ?A = "\<lambda>a c s. \<lparr>arguments = a, created = c, served = s\<rparr> :: accept_state"
  have "accept_step (?A None [] []) (?A (Some fd) [fd] [])"
    using client_accepted [of "?A None [] []" fd] assms by simp
  moreover have "accept_step (?A (Some fd) [fd] []) (?A None [fd] [])"
    using end_of_block [of "?A (Some fd) [fd] []" fd] by simp
  moreover have "accept_step (?A None [fd] []) (?A None [] [(fd, None)])"
    using thread_starts [of "?A None [fd] []" "[]" fd "[]"] by simp
  ultimately have "accept_reach (?A None [] [(fd, None)])"
    by (meson rtranclp.intros)
  then show ?thesis by (intro exI [of _ "?A None [] [(fd, None)]"]) simp
qed

theorem thread_argument_dangling_witness:
  "\<exists>A. accept_reach A \<and> served A = [(4, None)]"
  by (rule thread_argument_dangling) simp

end
