(* ===== verification/PersistentStorage.thy ===== *)
theory PersistentStorage
  imports ModbusProps
begin

text \<open>
  \<open>src/core/persistent_storage.cpp\<close>: the thread that keeps a copy of the 16-bit outputs in
  \<open>persistent.file\<close> and the function that loads it. The copy is an array of \<open>IEC_INT\<close>, signed,
  while the outputs are \<open>IEC_UINT\<close>; an element never assigned is \<open>None\<close>, and using its value has
  no result. The file is the list of the array's elements.
\<close>

unbundle bit_operations_syntax

type_synonym persistent = "u16 option list"

section \<open>The comparison\<close>

text \<open>Both operands are promoted to \<open>int\<close>: the element with its sign, the output without one.\<close>

definition differs :: "u16 \<Rightarrow> u16 \<Rightarrow> bool" where
  "differs p v \<longleftrightarrow> sint p \<noteq> int (unat v)"

lemma sint_u16: "sint (v :: u16) = (if unat v < 32768 then int (unat v) else int (unat v) - 65536)"
proof -
  have r: "unat v < 65536" by (rule unat_u16_less)
  have "sint v = signed_take_bit 15 (int (unat v))" by (simp add: sint_uint)
  also have "\<dots> = (int (unat v) + 32768) mod 65536 - 32768"
    using r by (simp add: signed_take_bit_eq_take_bit_shift take_bit_eq_mod)
  also have "\<dots> = (if unat v < 32768 then int (unat v) else int (unat v) - 65536)"
  proof (cases "unat v < 32768")
    case False
    then obtain k where k: "unat v = 32768 + k" by (auto simp: not_less le_iff_add)
    have "(int (unat v) + 32768) mod 65536 = (int k + 65536) mod 65536"
      by (simp only: k of_nat_add of_nat_numeral) (simp add: add.commute)
    also have "\<dots> = int k" using r k by simp
    finally show ?thesis using False k by simp
  next
    case True
    then have "(int (unat v) + 32768) mod 65536 = int (unat v) + 32768"
      by (intro mod_pos_pos_trivial) linarith+
    then show ?thesis using True by simp
  qed
  finally show ?thesis .
qed

lemma differs_iff: "differs p v \<longleftrightarrow> p \<noteq> v \<or> 32768 \<le> unat v"
proof (cases "unat p < 32768")
  case True
  then have "differs p v \<longleftrightarrow> unat p \<noteq> unat v" by (simp only: differs_def sint_u16 if_True of_nat_eq_iff)
  then show ?thesis using True by (auto simp: word_unat_eq_iff)
next
  case False
  have "unat p < 65536" by (rule unat_u16_less)
  then have "int (unat p) - 65536 < 0" by linarith
  then have "int (unat p) - 65536 \<noteq> int (unat v)" by linarith
  then have "differs p v" by (simp only: differs_def sint_u16 False if_False not_False_eq_True)
  then show ?thesis using False by auto
qed

section \<open>The thread\<close>

definition ps_copy :: "plc_io \<Rightarrow> nat \<Rightarrow> persistent \<Rightarrow> persistent option" where
  "ps_copy m i buf = do {
     p \<leftarrow> ptr1 (int_output m) i;
     (case p of Some c \<Rightarrow> arr_put buf i (Some (u16_heap m c)) | None \<Rightarrow> Some buf) }"

definition ps_compare :: "plc_io \<Rightarrow> nat \<Rightarrow> persistent \<times> bool \<Rightarrow> (persistent \<times> bool) option" where
  "ps_compare m i st =
     (let (buf, bufferOutdated) = st in do {
        p \<leftarrow> ptr1 (int_output m) i;
        (case p of
          None \<Rightarrow> Some st
        | Some c \<Rightarrow> do {
            e \<leftarrow> arr_get buf i;
            v \<leftarrow> e;
            (if differs v (u16_heap m c) then do {
               buf \<leftarrow> arr_put buf i (Some (u16_heap m c));
               Some (buf, True) }
             else Some st) }) })"

text \<open>One critical section each; the state of the process image is returned with the mutex released.\<close>

definition ps_init :: "plc_io \<Rightarrow> (plc_io \<times> persistent) option" where
  "ps_init m = do {
     m \<leftarrow> lock_buffer m;
     buf \<leftarrow> for_range 0 BUFFER_SIZE (ps_copy m) (replicate BUFFER_SIZE None);
     Some (unlock_buffer m, buf) }"

definition ps_pass :: "plc_io \<Rightarrow> persistent \<Rightarrow> (plc_io \<times> persistent \<times> bool) option" where
  "ps_pass m buf = do {
     m \<leftarrow> lock_buffer m;
     (buf, bufferOutdated) \<leftarrow> for_range 0 BUFFER_SIZE (ps_compare m) (buf, False);
     Some (unlock_buffer m, buf, bufferOutdated) }"

text \<open>
  What the file system answers: \<open>fopen\<close> fails, \<open>fwrite\<close> stores only the first \<open>k\<close> elements, or
  all. The thread returns on a failure; otherwise it sleeps and starts over with whatever the
  process image is then, so a run is given by the list of these images and answers.
\<close>

datatype disk = Open_failed | Wrote nat

datatype ps_result = Running persistent | Returned

definition ps_write :: "disk \<Rightarrow> persistent \<Rightarrow> persistent \<Rightarrow> persistent \<times> ps_result" where
  "ps_write d buf disk_file =
     (case d of
        Open_failed \<Rightarrow> (disk_file, Returned)
      | Wrote k \<Rightarrow> if k < BUFFER_SIZE then (take k buf, Returned) else (buf, Running buf))"

fun persistentStorage_loop ::
  "(plc_io \<times> disk) list \<Rightarrow> persistent \<Rightarrow> persistent \<Rightarrow> (persistent \<times> ps_result) option" where
  "persistentStorage_loop [] buf f = Some (f, Running buf)"
| "persistentStorage_loop ((m, d) # rest) buf f = do {
     (m', buf', bufferOutdated) \<leftarrow> ps_pass m buf;
     (if bufferOutdated then
        (case ps_write d buf' f of
           (f', Returned) \<Rightarrow> Some (f', Returned)
         | (f', Running b) \<Rightarrow> persistentStorage_loop rest b f')
      else persistentStorage_loop rest buf' f) }"

definition persistentStorage ::
  "plc_io \<Rightarrow> (plc_io \<times> disk) list \<Rightarrow> persistent \<Rightarrow> (persistent \<times> ps_result) option" where
  "persistentStorage m runs f = do { (m', buf) \<leftarrow> ps_init m; persistentStorage_loop runs buf f }"

text \<open>
  Loading: the file does not exist (\<open>None\<close>), is short, or is complete. The function returns 0 in
  the first two cases and falls off its end, with no value, in the third.
\<close>

definition ps_load :: "persistent \<Rightarrow> nat \<Rightarrow> plc_io \<Rightarrow> plc_io option" where
  "ps_load buf i m = do {
     p \<leftarrow> ptr1 (int_output m) i;
     (case p of
        Some c \<Rightarrow> do { e \<leftarrow> arr_get buf i; v \<leftarrow> e; Some (set_u16 c v m) }
      | None \<Rightarrow> Some m) }"

definition readPersistentStorage :: "persistent option \<Rightarrow> plc_io \<Rightarrow> (int option \<times> plc_io) option" where
  "readPersistentStorage f m =
     (case f of
        None \<Rightarrow> Some (Some 0, m)
      | Some buf \<Rightarrow>
          if length buf < BUFFER_SIZE then Some (Some 0, m)
          else do {
            m \<leftarrow> lock_buffer m;
            m \<leftarrow> for_range 0 BUFFER_SIZE (ps_load buf) m;
            Some (None, unlock_buffer m) })"

section \<open>The loops in closed form\<close>

text \<open>The value of output \<open>i\<close>, where it is mapped.\<close>

definition output_at :: "plc_io \<Rightarrow> nat \<Rightarrow> u16 option" where
  "output_at m i = map_option (u16_heap m) (int_output m i)"

text \<open>An array covers the outputs when every mapped one has an assigned element.\<close>

definition covers :: "persistent \<Rightarrow> plc_io \<Rightarrow> bool" where
  "covers buf m \<longleftrightarrow> length buf = 1024 \<and> (\<forall>i < 1024. output_at m i \<noteq> None \<longrightarrow> buf ! i \<noteq> None)"

definition snapshot :: "nat \<Rightarrow> plc_io \<Rightarrow> persistent \<Rightarrow> persistent" where
  "snapshot n m buf = map (\<lambda>i. case output_at m i of Some v \<Rightarrow> if i < n then Some v else buf ! i | None \<Rightarrow> buf ! i) [0..<length buf]"

lemma length_snapshot [simp]: "length (snapshot n m buf) = length buf"
  by (simp add: snapshot_def)

lemma nth_snapshot [simp]:
  "i < length buf \<Longrightarrow> snapshot n m buf ! i =
     (case output_at m i of Some v \<Rightarrow> if i < n then Some v else buf ! i | None \<Rightarrow> buf ! i)"
  by (simp add: snapshot_def split: option.splits)

lemma snapshot_0 [simp]: "snapshot 0 m buf = buf"
  by (rule nth_equalityI) (simp_all split: option.splits)

lemma snapshot_Suc:
  assumes "n < length buf"
  shows "snapshot (Suc n) m buf = (case output_at m n of
     None \<Rightarrow> snapshot n m buf | Some v \<Rightarrow> (snapshot n m buf)[n := Some v])"
  using assms by (intro nth_equalityI) (auto simp: nth_list_update less_Suc_eq split: option.splits)

lemma ps_copy_loop:
  "n \<le> 1024 \<Longrightarrow> length buf = 1024 \<Longrightarrow> for_range 0 n (ps_copy m) buf = Some (snapshot n m buf)"
proof (induction n)
  case (Suc n)
  then show ?case
    by (simp add: for_range_Suc_right ps_copy_def snapshot_Suc output_at_def del: for_range.simps(2)
        split: option.splits)
qed simp

definition outdated :: "nat \<Rightarrow> plc_io \<Rightarrow> persistent \<Rightarrow> bool" where
  "outdated n m buf \<longleftrightarrow> (\<exists>i < n. \<exists>v p. output_at m i = Some v \<and> buf ! i = Some p \<and> differs p v)"

lemma ps_compare_loop:
  assumes c: "covers buf m"
  shows "n \<le> 1024 \<Longrightarrow> for_range 0 n (ps_compare m) (buf, False) = Some (snapshot n m buf, outdated n m buf)"
proof (induction n)
  case 0
  then show ?case by (simp add: outdated_def)
next
  case (Suc n)
  have len: "length buf = 1024" using c by (simp add: covers_def)
  have step: "ps_compare m n (snapshot n m buf, outdated n m buf) =
      Some (snapshot (Suc n) m buf, outdated (Suc n) m buf)"
  proof (cases "output_at m n")
    case None
    then show ?thesis using Suc.prems len
      by (auto simp: ps_compare_def snapshot_Suc outdated_def less_Suc_eq output_at_def Let_def)
  next
    case (Some v)
    then have "buf ! n \<noteq> None" using c Suc.prems unfolding covers_def by simp
    then obtain p where p: "buf ! n = Some p" by blast
    obtain cell where cell: "int_output m n = Some cell" "u16_heap m cell = v"
      using Some by (auto simp: output_at_def)
    have "\<not> differs p v \<Longrightarrow> snapshot n m buf = (snapshot n m buf)[n := Some v]"
      using p Suc.prems len Some by (intro nth_equalityI) (auto simp: differs_iff nth_list_update)
    then show ?thesis using Suc.prems len p cell Some
      by (auto simp: ps_compare_def snapshot_Suc outdated_def less_Suc_eq Let_def)
  qed
  then show ?case using Suc by (simp add: for_range_Suc_right del: for_range.simps(2))
qed

lemma output_at_lock [simp]:
  "output_at (m\<lparr>bufferLock := b\<rparr>) = output_at m" "output_at (unlock_buffer m) = output_at m"
  by (rule ext, simp add: output_at_def)+

lemma snapshot_lock [simp]: "snapshot n (m\<lparr>bufferLock := b\<rparr>) buf = snapshot n m buf"
  by (simp add: snapshot_def)

lemma outdated_lock [simp]: "outdated n (m\<lparr>bufferLock := b\<rparr>) buf = outdated n m buf"
  by (simp add: outdated_def)

lemma covers_lock [simp]: "covers buf (m\<lparr>bufferLock := b\<rparr>) = covers buf m"
  by (simp add: covers_def)

lemma ps_init_eq:
  "\<not> bufferLock m \<Longrightarrow> ps_init m = Some (m, snapshot 1024 m (replicate 1024 None))"
  by (simp add: ps_init_def ps_copy_loop BUFFER_SIZE_def)

lemma ps_pass_eq:
  "\<not> bufferLock m \<Longrightarrow> covers buf m \<Longrightarrow>
     ps_pass m buf = Some (m, snapshot 1024 m buf, outdated 1024 m buf)"
  by (simp add: ps_pass_def ps_compare_loop BUFFER_SIZE_def)

lemma covers_snapshot: "length buf = 1024 \<Longrightarrow> covers (snapshot 1024 m buf) m"
  by (auto simp: covers_def)

text \<open>With an unchanged process image the thread should find nothing to save. It writes the file
  on every pass as soon as one mapped output is at least 0x8000, because the saved copy is signed;
  with all outputs below it never writes.\<close>

theorem unchanged_image_saved_iff_large:
  assumes m: "\<not> bufferLock m"
  defines "large \<equiv> \<exists>i < 1024. \<exists>v. output_at m i = Some v \<and> 32768 \<le> unat v"
    and "buf \<equiv> snapshot 1024 m (replicate 1024 None)"
  shows "persistentStorage m (replicate (Suc k) (m, Wrote 1024)) f =
     Some (if large then buf else f, Running buf)"
proof -
  have len: "length buf = 1024" by (simp add: buf_def)
  have cov: "covers buf m" unfolding buf_def by (simp add: covers_snapshot)
  have fix_buf: "snapshot 1024 m buf = buf"
    unfolding buf_def by (intro nth_equalityI) (simp_all split: option.splits)
  have out: "outdated 1024 m buf \<longleftrightarrow> large"
    by (auto simp: outdated_def large_def buf_def differs_iff)
  have pass: "ps_pass m buf = Some (m, buf, large)"
    using ps_pass_eq [OF m cov] fix_buf out by simp
  have loop: "persistentStorage_loop (replicate j (m, Wrote 1024)) buf g =
      Some (if large \<and> 0 < j then buf else g, Running buf)" for j g
    by (induction j arbitrary: g) (simp_all add: pass ps_write_def BUFFER_SIZE_def)
  show ?thesis
    using ps_init_eq [OF m] loop [of "Suc k" f] unfolding persistentStorage_def buf_def [symmetric]
    by simp
qed

theorem unchanged_image_saved_iff_large_witness:
  "\<exists>buf. persistentStorage (set_u16 (Mb_holding_regs 7) 0x9000 demo_io)
     (replicate 3 (set_u16 (Mb_holding_regs 7) 0x9000 demo_io, Wrote 1024)) [] = Some (buf, Running buf)"
proof -
  let ?m = "set_u16 (Mb_holding_regs 7) 0x9000 demo_io"
  have v: "output_at ?m 7 = Some 0x9000"
    by (simp add: output_at_def demo_io_def)
  have large: "\<exists>i < 1024. \<exists>v. output_at ?m i = Some v \<and> 32768 \<le> unat v"
    by (rule exI [of _ 7]) (simp add: v)
  have "\<not> bufferLock ?m" by simp
  from unchanged_image_saved_iff_large [OF this, of 2 "[]"] large show ?thesis
    by (simp add: numeral_3_eq_3 numeral_2_eq_2 cong: if_cong)
qed

section \<open>Saving and loading\<close>

text \<open>No two 16-bit outputs share a variable.\<close>

definition outputs_distinct :: "plc_io \<Rightarrow> bool" where
  "outputs_distinct m \<longleftrightarrow>
     (\<forall>i < 1024. \<forall>j < 1024. int_output m i \<noteq> None \<longrightarrow> int_output m i = int_output m j \<longrightarrow> i = j)"

lemma ps_load_loop:
  assumes cov: "covers buf m" and val: "\<And>i v. i < 1024 \<Longrightarrow> output_at m i = Some v \<Longrightarrow> buf ! i = Some v"
    and t: "tables m2 = tables m" and d: "outputs_distinct m"
  shows "\<exists>m3. for_range 0 1024 (ps_load buf) m2 = Some m3 \<and> tables m3 = tables m \<and>
     (\<forall>i < 1024. output_at m3 i = output_at m i)"
proof -
  define I where "I = (\<lambda>k m'. tables m' = tables m \<and> (\<forall>i < k. i < 1024 \<longrightarrow> output_at m' i = output_at m i))"
  have "\<exists>m3. for_range 0 1024 (ps_load buf) m2 = Some m3 \<and> I (0 + 1024) m3"
  proof (rule for_range_total)
    show "I 0 m2" using t by (simp add: I_def)
    fix k m' assume k: "k < (0::nat) + 1024" and inv: "I k m'"
    have ptr: "int_output m' = int_output m" using inv tables_eqD(6) [of m' m] by (simp add: I_def)
    show "\<exists>m''. ps_load buf k m' = Some m'' \<and> I (Suc k) m''"
    proof (cases "int_output m k")
      case None
      then show ?thesis using k inv ptr
        by (auto simp: ps_load_def I_def less_Suc_eq output_at_def)
    next
      case (Some c)
      let ?v = "u16_heap m c"
      have "buf ! k = Some ?v" "length buf = 1024"
        using val [of k ?v] k Some cov by (simp_all add: output_at_def covers_def)
      then have "ps_load buf k m' = Some (set_u16 c ?v m')"
        using k Some ptr by (simp add: ps_load_def)
      moreover have "output_at (set_u16 c ?v m') i = output_at m i" if "i < Suc k" for i
      proof (cases "i = k")
        case True
        then show ?thesis using Some ptr by (simp add: output_at_def)
      next
        case False
        then have i: "i < k" "i < 1024" using that k by simp_all
        have "int_output m i = Some c \<Longrightarrow> i = k"
          using d [unfolded outputs_distinct_def, rule_format, of i k] i k Some by simp
        then have "int_output m i \<noteq> Some c" using False by blast
        then have "output_at (set_u16 c ?v m') i = output_at m' i"
          using ptr by (cases "int_output m i") (auto simp: output_at_def)
        then show ?thesis using inv i by (simp add: I_def)
      qed
      ultimately show ?thesis using inv by (auto simp: I_def)
    qed
  qed
  then show ?thesis by (auto simp: I_def)
qed

text \<open>C10: What a pass writes to the file, loading brings back: into any process image with the same
  pointer tables, \<open>readPersistentStorage\<close> restores every mapped output to its value at the pass,
  releases the mutex, and returns no value at all: it flows off its end, which C++ leaves undefined
  and which is taken here for a return to the caller with the result \<open>None\<close>.\<close>

theorem save_then_load:
  assumes m: "\<not> bufferLock m" "outputs_distinct m" and buf: "covers buf m"
    and pass: "ps_pass m buf = Some (m1, buf', flag)"
    and m2: "\<not> bufferLock m2" "tables m2 = tables m"
  shows "\<exists>m3. readPersistentStorage (Some (fst (ps_write (Wrote 1024) buf' f))) m2 = Some (None, m3) \<and>
     \<not> bufferLock m3 \<and> tables m3 = tables m \<and> (\<forall>i < 1024. output_at m3 i = output_at m i)"
proof -
  have b: "buf' = snapshot 1024 m buf" and len: "length buf = 1024"
    using pass ps_pass_eq [OF m(1) buf] buf by (auto simp add: covers_def)
  obtain m3 where m3: "for_range 0 1024 (ps_load buf') (m2\<lparr>bufferLock := True\<rparr>) = Some m3"
      "tables m3 = tables m" "\<forall>i < 1024. output_at m3 i = output_at m i"
    using ps_load_loop [OF _ _ _ m(2), of buf' "m2\<lparr>bufferLock := True\<rparr>"] b len m2
    by (auto simp: covers_snapshot)
  then show ?thesis
    using m2 b len by (simp add: readPersistentStorage_def ps_write_def BUFFER_SIZE_def)
qed

theorem save_then_load_witness:
  "\<exists>m1 buf' m3. ps_pass demo_io (snapshot 1024 demo_io (replicate 1024 None)) = Some (m1, buf', False) \<and>
     readPersistentStorage (Some (fst (ps_write (Wrote 1024) buf' []))) (set_u16 (Mb_holding_regs 5) 0 demo_io)
       = Some (None, m3) \<and> output_at m3 5 = Some 0x1234"
proof -
  let ?b = "snapshot 1024 demo_io (replicate 1024 None)"
  have m: "\<not> bufferLock demo_io" by simp
  have d: "outputs_distinct demo_io" by (simp add: outputs_distinct_def demo_io_def)
  have cov: "covers ?b demo_io" by (simp add: covers_snapshot)
  have small: "\<not> outdated 1024 demo_io ?b"
    by (auto simp: outdated_def differs_iff output_at_def demo_io_def split: if_splits)
  have pass: "ps_pass demo_io ?b = Some (demo_io, snapshot 1024 demo_io ?b, False)"
    using ps_pass_eq [OF m cov] small by simp
  have m2: "\<not> bufferLock (set_u16 (Mb_holding_regs 5) 0 demo_io)"
    "tables (set_u16 (Mb_holding_regs 5) 0 demo_io) = tables demo_io" by simp_all
  obtain m3 where "readPersistentStorage (Some (fst (ps_write (Wrote 1024) (snapshot 1024 demo_io ?b) [])))
       (set_u16 (Mb_holding_regs 5) 0 demo_io) = Some (None, m3)" "\<forall>i < 1024. output_at m3 i = output_at demo_io i"
    using save_then_load [OF m d cov pass m2, of "[]"] by blast
  moreover have "output_at demo_io 5 = Some 0x1234" by (simp add: output_at_def demo_io_def)
  ultimately show ?thesis using pass by simp
qed

end
