(* ===== verification/Hardware.thy ===== *)
theory Hardware
  imports RegisterFile
begin

text \<open>
  What the hardware layers share: the loops that copy pins to mapped inputs and mapped outputs to
  pins, and the locale \<open>hw_layer\<close>, the contract the main loop relies on. A layer is a pair of
  functions from what the devices answer (\<open>'e\<close>) and the process image to the new image and the
  list of the commands sent to the devices (\<open>'o\<close>).
\<close>

unbundle bit_operations_syntax

section \<open>The contract\<close>

text \<open>What a layer leaves alone: the pointer tables, and the mutex, which is free again.\<close>

definition hw_frame :: "plc_io \<Rightarrow> plc_io \<Rightarrow> bool" where
  "hw_frame m m' \<longleftrightarrow> \<not> bufferLock m' \<and> tables m' = tables m"

lemma hw_frame_trans: "hw_frame a b \<Longrightarrow> hw_frame b c \<Longrightarrow> hw_frame a c"
  by (simp add: hw_frame_def)

lemma hw_frame_refl: "\<not> bufferLock m \<Longrightarrow> hw_frame m m"
  by (simp add: hw_frame_def)

locale hw_layer =
  fixes update_in update_out :: "'e \<Rightarrow> plc_io \<Rightarrow> (plc_io \<times> 'o list) option"
    and env_ok :: "'e \<Rightarrow> bool"
  assumes in_frame: "env_ok e \<Longrightarrow> \<not> bufferLock m \<Longrightarrow> \<exists>m' os. update_in e m = Some (m', os) \<and> hw_frame m m'"
    and out_frame: "env_ok e \<Longrightarrow> \<not> bufferLock m \<Longrightarrow> \<exists>m' os. update_out e m = Some (m', os) \<and> hw_frame m m'"

section \<open>Copying inputs\<close>

text \<open>
  The bodies of the loops: \<open>if (tab[i/8][i%8] != NULL) *tab[i/8][i%8] = value\<close>, and the same for
  a table of 16-bit pointers.
\<close>

definition bit_in :: "(plc_io \<Rightarrow> nat \<Rightarrow> nat \<Rightarrow> cell option) \<Rightarrow> (nat \<Rightarrow> u8) \<Rightarrow> nat \<Rightarrow> plc_io \<Rightarrow> plc_io option" where
  "bit_in tab val i m = do {
     p \<leftarrow> ptr2 (tab m) (i div 8) (i mod 8);
     Some (case p of Some c \<Rightarrow> set_u8 c (val i) m | None \<Rightarrow> m) }"

definition reg_in :: "(plc_io \<Rightarrow> nat \<Rightarrow> cell option) \<Rightarrow> (nat \<Rightarrow> u16) \<Rightarrow> nat \<Rightarrow> plc_io \<Rightarrow> plc_io option" where
  "reg_in tab val i m = do {
     p \<leftarrow> ptr1 (tab m) i;
     Some (case p of Some c \<Rightarrow> set_u16 c (val i) m | None \<Rightarrow> m) }"

text \<open>The bodies of the output loops: a command for a mapped output, nothing for another.\<close>

definition bit_out ::
  "(plc_io \<Rightarrow> nat \<Rightarrow> nat \<Rightarrow> cell option) \<Rightarrow> (nat \<Rightarrow> u8 \<Rightarrow> 'o) \<Rightarrow> plc_io \<Rightarrow> nat \<Rightarrow> 'o list \<Rightarrow> 'o list option" where
  "bit_out tab cmd m i os = do {
     p \<leftarrow> ptr2 (tab m) (i div 8) (i mod 8);
     Some (case p of Some c \<Rightarrow> os @ [cmd i (u8_heap m c)] | None \<Rightarrow> os) }"

definition reg_out ::
  "(plc_io \<Rightarrow> nat \<Rightarrow> cell option) \<Rightarrow> (nat \<Rightarrow> u16 \<Rightarrow> 'o) \<Rightarrow> plc_io \<Rightarrow> nat \<Rightarrow> 'o list \<Rightarrow> 'o list option" where
  "reg_out tab cmd m i os = do {
     p \<leftarrow> ptr1 (tab m) i;
     Some (case p of Some c \<Rightarrow> os @ [cmd i (u16_heap m c)] | None \<Rightarrow> os) }"

definition bit_ptr :: "(plc_io \<Rightarrow> nat \<Rightarrow> nat \<Rightarrow> cell option) \<Rightarrow> plc_io \<Rightarrow> nat \<Rightarrow> cell option" where
  "bit_ptr tab m i = tab m (i div 8) (i mod 8)"

text \<open>
  A table is a field of the record: the stores leave it alone. \<open>tab_field\<close> holds of the selectors
  the layers use.
\<close>

definition tab_field :: "(plc_io \<Rightarrow> 't) \<Rightarrow> bool" where
  "tab_field tab \<longleftrightarrow> (\<forall>m m'. tables m = tables m' \<longrightarrow> tab m = tab m')"

lemma tab_field_tables [simp]:
  "tab_field bool_input" "tab_field bool_output" "tab_field int_input" "tab_field int_output"
  "tab_field byte_input" "tab_field byte_output"
  by (simp_all add: tab_field_def tables_def)

lemma tab_fieldD: "tab_field tab \<Longrightarrow> tables m = tables m' \<Longrightarrow> tab m = tab m'"
  unfolding tab_field_def by blast

text \<open>The loops always run to their end and change no table.\<close>

lemma bit_in_loop:
  assumes "lo + n \<le> 8192"
  shows "\<exists>m'. for_range lo n (bit_in tab val) m = Some m' \<and> tables m' = tables m \<and>
     bufferLock m' = bufferLock m \<and> u16_heap m' = u16_heap m"
proof -
  let ?I = "\<lambda>(k::nat) m'. tables m' = tables m \<and> bufferLock m' = bufferLock m \<and> u16_heap m' = u16_heap m"
  have "\<exists>m'. for_range lo n (bit_in tab val) m = Some m' \<and> ?I (lo + n) m'"
  proof (rule for_range_total)
    show "\<exists>s'. bit_in tab val k s = Some s' \<and> ?I (Suc k) s'" if "lo \<le> k" "k < lo + n" "?I k s" for k s
      using that assms by (auto simp: bit_in_def split: option.splits)
  qed simp
  then show ?thesis .
qed

lemma reg_in_loop:
  assumes "lo + n \<le> 1024"
  shows "\<exists>m'. for_range lo n (reg_in tab val) m = Some m' \<and> tables m' = tables m \<and>
     bufferLock m' = bufferLock m \<and> u8_heap m' = u8_heap m"
proof -
  let ?I = "\<lambda>(k::nat) m'. tables m' = tables m \<and> bufferLock m' = bufferLock m \<and> u8_heap m' = u8_heap m"
  have "\<exists>m'. for_range lo n (reg_in tab val) m = Some m' \<and> ?I (lo + n) m'"
  proof (rule for_range_total)
    show "\<exists>s'. reg_in tab val k s = Some s' \<and> ?I (Suc k) s'" if "lo \<le> k" "k < lo + n" "?I k s" for k s
      using that assms by (auto simp: reg_in_def split: option.splits)
  qed simp
  then show ?thesis .
qed

text \<open>
  The values the input loops leave, where no two of the pointers are equal: each mapped input has
  its own value.
\<close>

lemma store_loop_values:
  fixes get :: "'s \<Rightarrow> 'c \<Rightarrow> 'v"
  assumes step: "\<And>k s. k < n \<Longrightarrow> J s \<Longrightarrow> body k s = Some (case p k of Some c \<Rightarrow> put c (val k) s | None \<Rightarrow> s)"
    and put: "\<And>c v s. J s \<Longrightarrow> J (put c v s)" "\<And>c v s. get (put c v s) = (get s)(c := v)"
    and d: "\<And>i j. i < n \<Longrightarrow> j < n \<Longrightarrow> p i \<noteq> None \<Longrightarrow> p i = p j \<Longrightarrow> i = j"
    and start: "J m" and run: "for_range 0 n body m = Some m'" and i: "i < n" "p i = Some c"
  shows "get m' c = val i"
proof -
  define I where "I = (\<lambda>k s. J s \<and> (\<forall>i c. i < k \<and> i < n \<and> p i = Some c \<longrightarrow> get s c = val i))"
  have "I (0 + n) m'"
  proof (rule for_range_inv [OF _ _ run])
    show "I 0 m" using start by (simp add: I_def)
    show "I (Suc k) s'" if k: "k < 0 + n" and inv: "I k s" and st: "body k s = Some s'" for k s s'
    proof -
      have s': "s' = (case p k of Some c \<Rightarrow> put c (val k) s | None \<Rightarrow> s)"
        using step [of k s] k inv st by (simp add: I_def)
      have "get s' c = val i" if "i < Suc k" "p i = Some c" for i c
        using that inv d [of i k] k by (cases "i = k") (auto simp: s' I_def put(2) split: option.splits)
      then show ?thesis using inv put(1) by (auto simp: I_def s' split: option.splits)
    qed
  qed
  then show ?thesis using i by (simp add: I_def)
qed

lemma bit_in_values:
  assumes n: "n \<le> 8192" and f: "tab_field tab"
    and d: "\<And>i j. i < n \<Longrightarrow> j < n \<Longrightarrow> bit_ptr tab m i \<noteq> None \<Longrightarrow> bit_ptr tab m i = bit_ptr tab m j \<Longrightarrow> i = j"
    and run: "for_range 0 n (bit_in tab val) m = Some m'" and i: "i < n" "bit_ptr tab m i = Some c"
  shows "u8_heap m' c = val i"
proof (rule store_loop_values [where J = "\<lambda>s. tables s = tables m" and p = "bit_ptr tab m" and get = u8_heap and put = set_u8,
      OF _ _ _ d _ run i])
  show "bit_in tab val k s = Some (case bit_ptr tab m k of Some c \<Rightarrow> set_u8 c (val k) s | None \<Rightarrow> s)"
    if "k < n" "tables s = tables m" for k s
    using that n tab_fieldD [OF f that(2)] by (simp add: bit_in_def bit_ptr_def)
qed (simp_all add: fun_upd_def)

lemma reg_in_values:
  assumes n: "n \<le> 1024" and f: "tab_field tab"
    and d: "\<And>i j. i < n \<Longrightarrow> j < n \<Longrightarrow> tab m i \<noteq> None \<Longrightarrow> tab m i = tab m j \<Longrightarrow> i = j"
    and run: "for_range 0 n (reg_in tab val) m = Some m'" and i: "i < n" "tab m i = Some c"
  shows "u16_heap m' c = val i"
proof (rule store_loop_values [where J = "\<lambda>s. tables s = tables m" and p = "tab m" and get = u16_heap and put = set_u16,
      OF _ _ _ d _ run i])
  show "reg_in tab val k s = Some (case tab m k of Some c \<Rightarrow> set_u16 c (val k) s | None \<Rightarrow> s)"
    if "k < n" "tables s = tables m" for k s
    using that n tab_fieldD [OF f that(2)] by (simp add: reg_in_def)
qed (simp_all add: fun_upd_def)

text \<open>No two entries of \<open>bool_input\<close>, and no two of \<open>int_input\<close>, point at the same variable.\<close>

definition inputs_distinct :: "plc_io \<Rightarrow> bool" where
  "inputs_distinct m \<longleftrightarrow>
     (\<forall>i < 8192. \<forall>j < 8192. bit_ptr bool_input m i \<noteq> None \<and> bit_ptr bool_input m i = bit_ptr bool_input m j \<longrightarrow> i = j) \<and>
     (\<forall>i < 1024. \<forall>j < 1024. int_input m i \<noteq> None \<and> int_input m i = int_input m j \<longrightarrow> i = j)"

text \<open>\<open>if (tab[i] != NULL) *tab[i] = value\<close> for a table of pointers to bytes.\<close>

definition byte_in :: "(plc_io \<Rightarrow> nat \<Rightarrow> cell option) \<Rightarrow> (nat \<Rightarrow> u8) \<Rightarrow> nat \<Rightarrow> plc_io \<Rightarrow> plc_io option" where
  "byte_in tab val i m = do {
     p \<leftarrow> ptr1 (tab m) i;
     Some (case p of Some c \<Rightarrow> set_u8 c (val i) m | None \<Rightarrow> m) }"

lemma byte_in_loop:
  assumes "lo + n \<le> 1024" and f: "tab_field tab"
  shows "\<exists>m'. for_range lo n (byte_in tab val) m = Some m' \<and> tables m' = tables m \<and>
     bufferLock m' = bufferLock m \<and> u16_heap m' = u16_heap m \<and>
     (\<forall>c. (\<forall>i < lo + n. tab m i \<noteq> Some c) \<longrightarrow> u8_heap m' c = u8_heap m c)"
proof -
  let ?I = "\<lambda>(k::nat) m'. tables m' = tables m \<and> bufferLock m' = bufferLock m \<and> u16_heap m' = u16_heap m \<and>
    (\<forall>c. (\<forall>i < lo + n. tab m i \<noteq> Some c) \<longrightarrow> u8_heap m' c = u8_heap m c)"
  have "\<exists>m'. for_range lo n (byte_in tab val) m = Some m' \<and> ?I (lo + n) m'"
  proof (rule for_range_total [where I = ?I])
    show "\<exists>s'. byte_in tab val k s = Some s' \<and> ?I (Suc k) s'" if "lo \<le> k" "k < lo + n" "?I k s" for k s
      using that assms(1) tab_fieldD [OF f, of s m] by (auto simp: byte_in_def split: option.splits)
  qed simp
  then show ?thesis .
qed

section \<open>Copying outputs\<close>

text \<open>The commands are those of the mapped outputs, in order.\<close>

definition bit_cmds ::
  "(plc_io \<Rightarrow> nat \<Rightarrow> nat \<Rightarrow> cell option) \<Rightarrow> (nat \<Rightarrow> u8 \<Rightarrow> 'o) \<Rightarrow> plc_io \<Rightarrow> nat list \<Rightarrow> 'o list" where
  "bit_cmds tab cmd m is =
     concat (map (\<lambda>i. case bit_ptr tab m i of Some c \<Rightarrow> [cmd i (u8_heap m c)] | None \<Rightarrow> []) is)"

definition reg_cmds ::
  "(plc_io \<Rightarrow> nat \<Rightarrow> cell option) \<Rightarrow> (nat \<Rightarrow> u16 \<Rightarrow> 'o) \<Rightarrow> plc_io \<Rightarrow> nat list \<Rightarrow> 'o list" where
  "reg_cmds tab cmd m is =
     concat (map (\<lambda>i. case tab m i of Some c \<Rightarrow> [cmd i (u16_heap m c)] | None \<Rightarrow> []) is)"

lemma bit_out_loop:
  "lo + n \<le> 8192 \<Longrightarrow> for_range lo n (bit_out tab cmd m) os = Some (os @ bit_cmds tab cmd m [lo..<lo + n])"
proof (induction n)
  case (Suc n)
  then show ?case
    by (auto simp: for_range_Suc_right bit_out_def bit_cmds_def bit_ptr_def simp del: for_range.simps(2)
        split: option.splits)
qed (simp add: bit_cmds_def)

lemma reg_out_loop:
  "lo + n \<le> 1024 \<Longrightarrow> for_range lo n (reg_out tab cmd m) os = Some (os @ reg_cmds tab cmd m [lo..<lo + n])"
proof (induction n)
  case (Suc n)
  then show ?case
    by (auto simp: for_range_Suc_right reg_out_def reg_cmds_def simp del: for_range.simps(2)
        split: option.splits)
qed (simp add: reg_cmds_def)

lemma cmds_lock [simp]:
  "tab_field tab \<Longrightarrow> bit_cmds tab cmd (m\<lparr>bufferLock := b\<rparr>) is = bit_cmds tab cmd m is"
  "tab_field rtab \<Longrightarrow> reg_cmds rtab rcmd (m\<lparr>bufferLock := b\<rparr>) is = reg_cmds rtab rcmd m is"
proof -
  show "bit_cmds tab cmd (m\<lparr>bufferLock := b\<rparr>) is = bit_cmds tab cmd m is" if "tab_field tab"
  proof -
    have "tab (m\<lparr>bufferLock := b\<rparr>) = tab m" by (rule tab_fieldD [OF that]) simp
    then show ?thesis by (simp add: bit_cmds_def bit_ptr_def cong: option.case_cong)
  qed
  show "reg_cmds rtab rcmd (m\<lparr>bufferLock := b\<rparr>) is = reg_cmds rtab rcmd m is" if "tab_field rtab"
  proof -
    have "rtab (m\<lparr>bufferLock := b\<rparr>) = rtab m" by (rule tab_fieldD [OF that]) simp
    then show ?thesis by (simp add: reg_cmds_def cong: option.case_cong)
  qed
qed

end
