(* ===== verification/MainLoop.thy ===== *)
theory MainLoop
  imports Hardware
begin

text \<open>
  \<open>src/core/main.cpp\<close>: the timers, the choice of the servers from the command line and the scan
  cycle. The program compiled from the user's code, \<open>config_run__\<close>, and the generated \<open>glueVars\<close>
  are parameters; the hardware layer is one that satisfies \<open>hw_layer\<close>. \<open>updateTime\<close> is the
  function whose text \<open>glue_generator.cpp\<close> writes.
\<close>

unbundle bit_operations_syntax

section \<open>Timers\<close>

record timespec =
  tv_sec :: int
  tv_nsec :: int

text \<open>The division and the remainder of C++ truncate.\<close>

definition sleep_thread :: "int \<Rightarrow> timespec" where
  "sleep_thread milliseconds =
     \<lparr>tv_sec = milliseconds sdiv 1000, tv_nsec = (milliseconds smod 1000) * 1000000\<rparr>"

text \<open>The instant \<open>sleep_until\<close> waits for; \<open>delay\<close> is an \<open>int\<close>.\<close>

definition sleep_until :: "timespec \<Rightarrow> int \<Rightarrow> timespec" where
  "sleep_until ts delay =
     (let ts = ts\<lparr>tv_nsec := tv_nsec ts + delay\<rparr> in
      if tv_nsec ts \<ge> 1000 * 1000 * 1000
      then ts\<lparr>tv_nsec := tv_nsec ts - 1000 * 1000 * 1000, tv_sec := tv_sec ts + 1\<rparr> else ts)"

definition updateTime :: "nat \<Rightarrow> timespec \<Rightarrow> timespec" where
  "updateTime ticktime t =
     (let t = t\<lparr>tv_nsec := tv_nsec t + int ticktime\<rparr> in
      if tv_nsec t \<ge> 1000000000 then t\<lparr>tv_nsec := tv_nsec t - 1000000000, tv_sec := tv_sec t + 1\<rparr> else t)"

text \<open>The conversion of \<open>unsigned long long\<close> to the parameter of type \<open>int\<close>.\<close>

definition to_int :: "nat \<Rightarrow> int" where
  "to_int n = sint (of_nat n :: c_int)"

section \<open>The command line\<close>

text \<open>
  \<open>getopt\<close> with \<open>m:d:\<close> delivers option characters with their arguments; \<open>atoi\<close> of an argument
  is a parameter here (it is modelled with the glue generator). \<open>None\<close> is \<open>exit(1)\<close> or \<open>abort()\<close>.
\<close>

record cmdline =
  modbus_flag :: bool
  dnp3_flag :: bool
  modbus_port :: int
  dnp3_port :: int

fun read_args :: "(string \<Rightarrow> int) \<Rightarrow> (char \<times> string) list \<Rightarrow> cmdline \<Rightarrow> cmdline option" where
  "read_args atoi [] c = Some c"
| "read_args atoi ((opt, optarg) # rest) c =
     (if opt = CHR ''m'' then read_args atoi rest (c\<lparr>modbus_flag := True, modbus_port := atoi optarg\<rparr>)
      else if opt = CHR ''d'' then read_args atoi rest (c\<lparr>dnp3_flag := True, dnp3_port := atoi optarg\<rparr>)
      else None)"

definition main_args :: "(string \<Rightarrow> int) \<Rightarrow> (char \<times> string) list \<Rightarrow> cmdline option" where
  "main_args atoi opts =
     read_args atoi opts \<lparr>modbus_flag = False, dnp3_flag = False, modbus_port = 502, dnp3_port = 20000\<rparr>"

text \<open>The ports of the server threads that are created, Modbus first.\<close>

definition servers :: "cmdline \<Rightarrow> int option \<times> int option" where
  "servers c =
     (if modbus_flag c \<or> (\<not> modbus_flag c \<and> \<not> dnp3_flag c) then Some (modbus_port c) else None,
      if dnp3_flag c \<or> (\<not> modbus_flag c \<and> \<not> dnp3_flag c) then Some (dnp3_port c) else None)"

section \<open>The scan cycle\<close>

text \<open>
  The state of the runtime: the process image, the tick, an \<open>int\<close>, the clock of the program, the
  instant of the last wake-up and the internal state of the program.
\<close>

record 'p plc =
  image :: plc_io
  tick :: int
  current_time :: timespec
  timer :: timespec
  prog :: 'p

text \<open>\<open>tick++\<close> of a signed \<open>int\<close> overflows at \<open>2\<^sup>3\<^sup>1 - 1\<close>, which has no result.\<close>

definition int_incr :: "int \<Rightarrow> int option" where
  "int_incr n = (if n < 2147483647 then Some (n + 1) else None)"

definition scan_cycle ::
  "('e \<Rightarrow> plc_io \<Rightarrow> (plc_io \<times> 'o list) option) \<Rightarrow> ('e \<Rightarrow> plc_io \<Rightarrow> (plc_io \<times> 'o list) option) \<Rightarrow>
   (plc_io \<Rightarrow> plc_io) \<Rightarrow> (c_long \<Rightarrow> 'p \<times> plc_io \<Rightarrow> 'p \<times> plc_io) \<Rightarrow> nat \<Rightarrow>
   'e \<times> 'e \<Rightarrow> 'p plc \<Rightarrow> ('p plc \<times> 'o list) option" where
  "scan_cycle updateBuffersIn updateBuffersOut glueVars config_run common_ticktime env s = do {
     let m = glueVars (image s);
     (m, out1) \<leftarrow> updateBuffersIn (fst env) m;
     m \<leftarrow> lock_buffer m;
     t \<leftarrow> int_incr (tick s);
     let (p, m) = config_run (of_int (tick s)) (prog s, m);
     let m = unlock_buffer m;
     (m, out2) \<leftarrow> updateBuffersOut (snd env) m;
     Some (\<lparr>image = m, tick = t, current_time = updateTime common_ticktime (current_time s),
            timer = sleep_until (timer s) (to_int common_ticktime), prog = p\<rparr>, out1 @ out2) }"

fun scan_cycles ::
  "('e \<Rightarrow> plc_io \<Rightarrow> (plc_io \<times> 'o list) option) \<Rightarrow> ('e \<Rightarrow> plc_io \<Rightarrow> (plc_io \<times> 'o list) option) \<Rightarrow>
   (plc_io \<Rightarrow> plc_io) \<Rightarrow> (c_long \<Rightarrow> 'p \<times> plc_io \<Rightarrow> 'p \<times> plc_io) \<Rightarrow> nat \<Rightarrow>
   ('e \<times> 'e) list \<Rightarrow> 'p plc \<Rightarrow> ('p plc \<times> 'o list) option" where
  "scan_cycles uin uout glue run ticktime [] s = Some (s, [])"
| "scan_cycles uin uout glue run ticktime (e # es) s = do {
     (s, out) \<leftarrow> scan_cycle uin uout glue run ticktime e s;
     (s, outs) \<leftarrow> scan_cycles uin uout glue run ticktime es s;
     Some (s, out @ outs) }"

text \<open>
  What the generated code is trusted with: the program and \<open>glueVars\<close> leave the mutex alone, and
  the program leaves the pointer tables alone.
\<close>

definition glue_ok :: "(plc_io \<Rightarrow> plc_io) \<Rightarrow> bool" where
  "glue_ok glue \<longleftrightarrow> (\<forall>m. bufferLock (glue m) = bufferLock m)"

definition run_ok :: "(c_long \<Rightarrow> 'p \<times> plc_io \<Rightarrow> 'p \<times> plc_io) \<Rightarrow> bool" where
  "run_ok run \<longleftrightarrow> (\<forall>t p m. tables (snd (run t (p, m))) = tables m)"

context hw_layer
begin

text \<open>One cycle, and any number of cycles, on a layer that keeps the contract.\<close>

lemma cycle_runs:
  assumes "env_ok (fst e)" "env_ok (snd e)" "glue_ok glue" "run_ok run" "\<not> bufferLock (image s)"
    "0 \<le> tick s" "tick s < 2147483647"
  shows "\<exists>s' out. scan_cycle update_in update_out glue run ticktime e s = Some (s', out) \<and>
     tick s' = tick s + 1 \<and> \<not> bufferLock (image s') \<and> tables (image s') = tables (glue (image s))"
proof -
  let ?m0 = "glue (image s)"
  have "\<not> bufferLock ?m0" using assms(3,5) by (simp add: glue_ok_def)
  then obtain m1 o1 where m1: "update_in (fst e) ?m0 = Some (m1, o1)" "hw_frame ?m0 m1"
    using in_frame [OF assms(1)] by blast
  let ?l = "m1\<lparr>bufferLock := True\<rparr>"
  obtain p m2 where m2: "run (of_int (tick s)) (prog s, ?l) = (p, m2)" by (cases "run (of_int (tick s)) (prog s, ?l)")
  then have t2: "tables m2 = tables m1" using assms(4) by (metis run_ok_def snd_conv tables_set(6))
  have "\<not> bufferLock (unlock_buffer m2)" by simp
  then obtain m3 o2 where m3: "update_out (snd e) (unlock_buffer m2) = Some (m3, o2)"
      "hw_frame (unlock_buffer m2) m3"
    using out_frame [OF assms(2)] by blast
  show ?thesis
    using m1 m2 m3 t2 assms(7) by (simp add: scan_cycle_def hw_frame_def int_incr_def Let_def)
qed

lemma cycles_run:
  assumes "\<forall>e \<in> set es. env_ok (fst e) \<and> env_ok (snd e)" "glue_ok glue" "run_ok run"
    "\<not> bufferLock (image s)" "0 \<le> tick s" "tick s + int (length es) \<le> 2147483647"
  shows "\<exists>s' out. scan_cycles update_in update_out glue run ticktime es s = Some (s', out) \<and>
     tick s' = tick s + int (length es) \<and> \<not> bufferLock (image s')"
  using assms
proof (induction es arbitrary: s)
  case Nil
  then show ?case by simp
next
  case (Cons e es)
  obtain s1 o1 where s1: "scan_cycle update_in update_out glue run ticktime e s = Some (s1, o1)"
      "tick s1 = tick s + 1" "\<not> bufferLock (image s1)"
    using cycle_runs [of e glue run s ticktime] Cons.prems by auto
  obtain s2 o2 where "scan_cycles update_in update_out glue run ticktime es s1 = Some (s2, o2)"
      "tick s2 = tick s1 + int (length es)" "\<not> bufferLock (image s2)"
    using Cons.IH [of s1] Cons.prems s1 by auto
  then show ?case using s1 by simp
qed

lemma tick_overflow:
  assumes "env_ok (fst e)" "glue_ok glue" "\<not> bufferLock (image s)" "tick s = 2147483647"
  shows "scan_cycle update_in update_out glue run ticktime e s = None"
proof -
  have "\<not> bufferLock (glue (image s))" using assms(2,3) by (simp add: glue_ok_def)
  then obtain m1 o1 where "update_in (fst e) (glue (image s)) = Some (m1, o1)" "\<not> bufferLock m1"
    using in_frame [OF assms(1)] unfolding hw_frame_def by blast
  then show ?thesis using assms(4) by (simp add: scan_cycle_def int_incr_def Let_def)
qed

end

section \<open>The period\<close>

definition nanoseconds :: "timespec \<Rightarrow> int" where
  "nanoseconds t = tv_sec t * 1000000000 + tv_nsec t"

definition valid_time :: "timespec \<Rightarrow> bool" where
  "valid_time t \<longleftrightarrow> 0 \<le> tv_nsec t \<and> tv_nsec t < 1000000000"

lemma sleep_until_sum [simp]: "nanoseconds (sleep_until t d) = nanoseconds t + d"
  by (simp add: sleep_until_def nanoseconds_def Let_def)

lemma sleep_until_valid:
  "valid_time t \<Longrightarrow> 0 \<le> d \<Longrightarrow> d \<le> 1000000000 \<Longrightarrow> valid_time (sleep_until t d)"
  by (auto simp: sleep_until_def valid_time_def Let_def)

lemma updateTime_sleep_until: "updateTime n t = sleep_until t (int n)"
  by (simp add: updateTime_def sleep_until_def Let_def)

lemma to_int_unat: "to_int n = signed_take_bit 31 (int (unat (of_nat n :: c_int)))"
  by (simp add: to_int_def sint_uint)

lemma to_int_small: "n < 2147483648 \<Longrightarrow> to_int n = int n"
  by (simp add: to_int_unat unat_of_nat signed_take_bit_int_eq_self)

text \<open>C12: With a period of at most one second the loop wakes up at exact multiples of it: after \<open>k\<close>
  cycles the timer is the start plus \<open>k\<close> periods, without drift, and always a time that
  \<open>clock_nanosleep\<close> accepts. The program's clock advances by the same amount.\<close>

theorem period_exact:
  assumes "valid_time t" "n \<le> 1000000000"
  shows "nanoseconds (((\<lambda>t. sleep_until t (to_int n)) ^^ k) t) = nanoseconds t + int k * int n \<and>
     valid_time (((\<lambda>t. sleep_until t (to_int n)) ^^ k) t) \<and>
     ((updateTime n) ^^ k) t = ((\<lambda>t. sleep_until t (to_int n)) ^^ k) t"
proof -
  have n: "to_int n = int n" using assms(2) by (intro to_int_small) simp
  have 1: "nanoseconds (((\<lambda>t. sleep_until t (int n)) ^^ k) t) = nanoseconds t + int k * int n"
    by (induction k) (simp_all add: algebra_simps)
  have 2: "valid_time (((\<lambda>t. sleep_until t (int n)) ^^ k) t)"
    using assms by (induction k) (simp_all add: sleep_until_valid)
  have 3: "((updateTime n) ^^ k) t = ((\<lambda>t. sleep_until t (int n)) ^^ k) t"
    by (induction k) (simp_all add: updateTime_sleep_until)
  from 1 2 3 show ?thesis by (simp only: n)
qed

theorem period_exact_witness:
  "nanoseconds (((\<lambda>t. sleep_until t (to_int 50000000)) ^^ 30) \<lparr>tv_sec = 7, tv_nsec = 0\<rparr>) = 8500000000"
proof -
  have "valid_time \<lparr>tv_sec = 7, tv_nsec = 0\<rparr>" by (simp add: valid_time_def)
  from period_exact [OF this, of 50000000 30] show ?thesis by (simp add: nanoseconds_def)
qed

text \<open>With a period of more than one second the timer leaves the range of valid times for good:
  only one second is carried per cycle, so the nanoseconds grow by the period less one second each
  time and \<open>clock_nanosleep\<close> is called with an invalid time, which does not sleep. A period of
  \<open>2\<^sup>3\<^sup>1\<close> nanoseconds or more is truncated and moves the timer backwards.\<close>

theorem long_period_invalid:
  assumes "valid_time t" "1000000000 < n" "n < 2147483648" "1000000000 \<le> int k * (int n - 1000000000)"
  shows "\<not> valid_time (((\<lambda>t. sleep_until t (to_int n)) ^^ k) t) \<and> to_int (n + 2147483648) < 0"
proof
  have n: "to_int n = int n" using assms(3) by (rule to_int_small)
  have step: "tv_nsec (((\<lambda>t. sleep_until t (int n)) ^^ j) t) = tv_nsec t + int j * (int n - 1000000000)" for j
  proof (induction j)
    case (Suc j)
    have "0 \<le> int j * (int n - 1000000000)" using assms(2) by simp
    then have "1000000000 \<le> tv_nsec (((\<lambda>t. sleep_until t (int n)) ^^ j) t) + int n"
      using Suc assms(1,2) unfolding valid_time_def by linarith
    then show ?case using Suc by (simp add: sleep_until_def Let_def algebra_simps)
  qed simp
  show "\<not> valid_time (((\<lambda>t. sleep_until t (to_int n)) ^^ k) t)"
    using step [of k] assms(1,4) by (simp add: n valid_time_def)
  have "unat (of_nat (n + 2147483648) :: c_int) = n + 2147483648"
    using assms(3) by (simp only: unat_of_nat) simp
  then have "to_int (n + 2147483648) = (int n + 4294967296) mod 4294967296 - 2147483648"
    by (simp only: to_int_unat) (simp add: signed_take_bit_eq_take_bit_shift take_bit_eq_mod)
  then show "to_int (n + 2147483648) < 0" using assms(3) by simp
qed

theorem long_period_invalid_witness:
  "\<not> valid_time (((\<lambda>t. sleep_until t (to_int 1500000000)) ^^ 2) \<lparr>tv_sec = 0, tv_nsec = 0\<rparr>)"
proof -
  have "valid_time \<lparr>tv_sec = 0, tv_nsec = 0\<rparr>" by (simp add: valid_time_def)
  from long_period_invalid [OF this, of 1500000000 2] show ?thesis by simp
qed

end
