(* ===== verification/PinLayers.thy ===== *)
theory PinLayers
  imports Complex_Main MainLoop ModbusProps
begin

text \<open>
  The hardware layers that copy pins: \<open>blank.cpp\<close>, \<open>raspberrypi.cpp\<close>, \<open>unipi.cpp\<close> and
  \<open>fischertechnik.cpp\<close>. The libraries wiringPi and its serial functions are what they answer: the
  level of every pin, and the bytes on the serial line.
\<close>

unbundle bit_operations_syntax

datatype pin_cmd =
    DigitalWrite int u8
  | PwmWrite int int
  | PinMode int string
  | PullUpDn int string
  | LibraryCall string int

section \<open>The blank layer\<close>

definition blank_initializeHardware :: "pin_cmd list" where
  "blank_initializeHardware = []"

definition blank_updateBuffersIn :: "unit \<Rightarrow> plc_io \<Rightarrow> (plc_io \<times> pin_cmd list) option" where
  "blank_updateBuffersIn e m = do { m \<leftarrow> lock_buffer m; Some (unlock_buffer m, []) }"

definition blank_updateBuffersOut :: "unit \<Rightarrow> plc_io \<Rightarrow> (plc_io \<times> pin_cmd list) option" where
  "blank_updateBuffersOut e m = do { m \<leftarrow> lock_buffer m; Some (unlock_buffer m, []) }"

interpretation blank: hw_layer blank_updateBuffersIn blank_updateBuffersOut "\<lambda>_. True"
  by unfold_locales (simp_all add: blank_updateBuffersIn_def blank_updateBuffersOut_def hw_frame_def)

section \<open>Raspberry Pi\<close>

definition inBufferPinMask :: "int list" where
  "inBufferPinMask = [8, 9, 7, 0, 2, 3, 12, 13, 14, 21, 22, 23, 24, 25]"

definition outBufferPinMask :: "int list" where
  "outBufferPinMask = [15, 16, 4, 5, 6, 10, 11, 26, 27, 28, 29]"

definition analogOutBufferPinMask :: "int list" where
  "analogOutBufferPinMask = [1]"

definition rpi_initializeHardware :: "pin_cmd list" where
  "rpi_initializeHardware =
     LibraryCall ''wiringPiSetup'' 0 #
     concat (map (\<lambda>i. PinMode (inBufferPinMask ! i) ''INPUT'' #
        (if i \<noteq> 0 \<and> i \<noteq> 1 then [PullUpDn (inBufferPinMask ! i) ''PUD_DOWN''] else [])) [0..<14]) @
     map (\<lambda>i. PinMode (outBufferPinMask ! i) ''OUTPUT'') [0..<11] @
     map (\<lambda>i. PinMode (analogOutBufferPinMask ! i) ''PWM_OUTPUT'') [0..<1]"

definition rpi_updateBuffersIn :: "(int \<Rightarrow> int) \<Rightarrow> plc_io \<Rightarrow> (plc_io \<times> pin_cmd list) option" where
  "rpi_updateBuffersIn digitalRead m = do {
     m \<leftarrow> lock_buffer m;
     m \<leftarrow> for_range 0 14 (bit_in bool_input (\<lambda>i. of_int (digitalRead (inBufferPinMask ! i)))) m;
     Some (unlock_buffer m, []) }"

definition rpi_updateBuffersOut :: "(int \<Rightarrow> int) \<Rightarrow> plc_io \<Rightarrow> (plc_io \<times> pin_cmd list) option" where
  "rpi_updateBuffersOut digitalRead m = do {
     m \<leftarrow> lock_buffer m;
     os \<leftarrow> for_range 0 11 (bit_out bool_output (\<lambda>i v. DigitalWrite (outBufferPinMask ! i) v) m) [];
     os \<leftarrow> for_range 0 1 (reg_out int_output (\<lambda>i v. PwmWrite (analogOutBufferPinMask ! i) (int (unat v div 64))) m) os;
     Some (unlock_buffer m, os) }"

lemma bit_in_locked:
  assumes "\<not> bufferLock m" "n \<le> 8192"
  obtains m' where "for_range 0 n (bit_in tab val) (m\<lparr>bufferLock := True\<rparr>) = Some m'" "hw_frame m (unlock_buffer m')"
    "u16_heap m' = u16_heap m"
  using bit_in_loop [of 0 n tab val "m\<lparr>bufferLock := True\<rparr>"] assms by (auto simp: hw_frame_def)

lemma rpi_out_eq:
  assumes "\<not> bufferLock m"
  shows "rpi_updateBuffersOut e m = Some (m,
     bit_cmds bool_output (\<lambda>i v. DigitalWrite (outBufferPinMask ! i) v) m [0..<11] @
     reg_cmds int_output (\<lambda>i v. PwmWrite (analogOutBufferPinMask ! i) (int (unat v div 64))) m [0..<1])"
  using assms by (simp add: rpi_updateBuffersOut_def bit_out_loop reg_out_loop del: for_range.simps upt_Suc)

interpretation rpi: hw_layer rpi_updateBuffersIn rpi_updateBuffersOut "\<lambda>_. True"
proof
  fix e :: "int \<Rightarrow> int" and m :: plc_io assume m: "\<not> bufferLock m"
  show "\<exists>m' os. rpi_updateBuffersIn e m = Some (m', os) \<and> hw_frame m m'"
    by (rule bit_in_locked [OF m, of 14 bool_input "\<lambda>i. of_int (e (inBufferPinMask ! i))"])
       (simp_all add: rpi_updateBuffersIn_def m)
  show "\<exists>m' os. rpi_updateBuffersOut e m = Some (m', os) \<and> hw_frame m m'"
    using m by (simp add: rpi_out_eq hw_frame_refl)
qed

text \<open>C11: One scan cycle on the Raspberry Pi: the program runs once, with the mutex held and the
  current tick, on an image in which every mapped input has the level of its own pin, and the
  commands sent to the pins are the values of the outputs that the program left, the PWM output
  divided by 64. The mutex is free again, tick and timers have advanced.\<close>

theorem rpi_scan_cycle:
  assumes gen: "glue_ok glue" "run_ok run" and s: "\<not> bufferLock (image s)" "tick s < 2147483647"
    and distinct: "\<And>i j. i < 14 \<Longrightarrow> j < 14 \<Longrightarrow> bit_ptr bool_input (glue (image s)) i \<noteq> None \<Longrightarrow>
       bit_ptr bool_input (glue (image s)) i = bit_ptr bool_input (glue (image s)) j \<Longrightarrow> i = j"
  shows "\<exists>m1 p m2. tables m1 = tables (glue (image s)) \<and> bufferLock m1 \<and>
     (\<forall>i c. i < 14 \<and> bit_ptr bool_input (glue (image s)) i = Some c \<longrightarrow>
        u8_heap m1 c = of_int (fst e (inBufferPinMask ! i))) \<and>
     run (of_int (tick s)) (prog s, m1) = (p, m2) \<and>
     scan_cycle rpi_updateBuffersIn rpi_updateBuffersOut glue run ticktime e s =
       Some (\<lparr>image = unlock_buffer m2, tick = tick s + 1, current_time = updateTime ticktime (current_time s),
              timer = sleep_until (timer s) (to_int ticktime), prog = p\<rparr>,
         bit_cmds bool_output (\<lambda>i v. DigitalWrite (outBufferPinMask ! i) v) (unlock_buffer m2) [0..<11] @
         reg_cmds int_output (\<lambda>i v. PwmWrite (analogOutBufferPinMask ! i) (int (unat v div 64))) (unlock_buffer m2) [0..<1])"
proof -
  let ?m0 = "glue (image s)" and ?v = "\<lambda>i. of_int (fst e (inBufferPinMask ! i)) :: u8"
  let ?l = "?m0\<lparr>bufferLock := True\<rparr>"
  have m0: "\<not> bufferLock ?m0" using gen(1) s(1) by (simp add: glue_ok_def)
  obtain m1 where m1: "for_range 0 14 (bit_in bool_input ?v) ?l = Some m1" "hw_frame ?m0 (unlock_buffer m1)"
    by (rule bit_in_locked [OF m0, of 14]) simp_all
  have lk: "bufferLock m1"
    using bit_in_loop [of 0 14 bool_input ?v ?l] m1(1) by auto
  have ptr: "bit_ptr bool_input ?l = bit_ptr bool_input ?m0" by (rule ext) (simp add: bit_ptr_def)
  have vals: "u8_heap m1 c = ?v i" if "i < 14" "bit_ptr bool_input ?m0 i = Some c" for i c
    using bit_in_values [OF _ tab_field_tables(1), of 14 ?l ?v m1 i c] distinct that m1(1) ptr by auto
  obtain p m2 where m2: "run (of_int (tick s)) (prog s, m1) = (p, m2)" by (cases "run (of_int (tick s)) (prog s, m1)")
  have lock: "lock_buffer (unlock_buffer m1) = Some m1"
    using lk by (simp add: lock_buffer_def unlock_buffer_def)
  have "scan_cycle rpi_updateBuffersIn rpi_updateBuffersOut glue run ticktime e s =
       Some (\<lparr>image = unlock_buffer m2, tick = tick s + 1, current_time = updateTime ticktime (current_time s),
              timer = sleep_until (timer s) (to_int ticktime), prog = p\<rparr>,
         bit_cmds bool_output (\<lambda>i v. DigitalWrite (outBufferPinMask ! i) v) (unlock_buffer m2) [0..<11] @
         reg_cmds int_output (\<lambda>i v. PwmWrite (analogOutBufferPinMask ! i) (int (unat v div 64))) (unlock_buffer m2) [0..<1])"
    using m0 m1(1) m2 lock s(2)
    by (simp add: scan_cycle_def rpi_updateBuffersIn_def rpi_out_eq int_incr_def Let_def
        del: for_range.simps upt_Suc upt.simps)
  then show ?thesis
    using m1(2) lk vals m2 by (intro exI [of _ m1] exI [of _ p] exI [of _ m2]) (simp add: hw_frame_def)
qed

text \<open>A program that copies the first input to the first output.\<close>

definition demo_run :: "c_long \<Rightarrow> nat \<times> plc_io \<Rightarrow> nat \<times> plc_io" where
  "demo_run t s = (Suc (fst s), set_u8 (Mb_coils 0) (u8_heap (snd s) (Mb_discrete_input 0)) (snd s))"

lemma demo_run_ok: "run_ok demo_run"
  by (simp add: run_ok_def demo_run_def)

theorem rpi_scan_cycle_witness:
  "\<exists>s' out. scan_cycle rpi_updateBuffersIn rpi_updateBuffersOut (\<lambda>m. m) demo_run 50000000
     (\<lambda>pin. if pin = 8 then 1 else 0, \<lambda>_. 0)
     \<lparr>image = demo_io, tick = 0, current_time = \<lparr>tv_sec = 0, tv_nsec = 0\<rparr>, timer = \<lparr>tv_sec = 0, tv_nsec = 0\<rparr>, prog = 0\<rparr>
     = Some (s', out) \<and> tick s' = 1 \<and> hd out = DigitalWrite 15 1"
proof -
  let ?t = "\<lparr>tv_sec = 0, tv_nsec = 0\<rparr>" and ?e = "(\<lambda>pin. if pin = 8 then 1 else 0, \<lambda>_. 0) :: (int \<Rightarrow> int) \<times> (int \<Rightarrow> int)"
  let ?s = "\<lparr>image = demo_io, tick = 0, current_time = ?t, timer = ?t, prog = 0\<rparr> :: nat plc"
  have ptr: "bit_ptr bool_input demo_io i = Some (Mb_discrete_input i)" for i
    by (simp add: bit_ptr_def demo_io_def)
  obtain m1 p m2 where m: "tables m1 = tables demo_io"
      "\<forall>i c. i < 14 \<and> bit_ptr bool_input demo_io i = Some c \<longrightarrow> u8_heap m1 c = of_int (fst ?e (inBufferPinMask ! i))"
      "demo_run (of_int 0) (0, m1) = (p, m2)"
      "scan_cycle rpi_updateBuffersIn rpi_updateBuffersOut (\<lambda>m. m) demo_run 50000000 ?e ?s =
       Some (\<lparr>image = unlock_buffer m2, tick = 0 + 1, current_time = updateTime 50000000 ?t,
              timer = sleep_until ?t (to_int 50000000), prog = p\<rparr>,
         bit_cmds bool_output (\<lambda>i v. DigitalWrite (outBufferPinMask ! i) v) (unlock_buffer m2) [0..<11] @
         reg_cmds int_output (\<lambda>i v. PwmWrite (analogOutBufferPinMask ! i) (int (unat v div 64))) (unlock_buffer m2) [0..<1])"
    using rpi_scan_cycle [of "\<lambda>m. m" demo_run ?s ?e 50000000] demo_run_ok ptr
    by (auto simp: glue_ok_def)
  have "u8_heap m1 (Mb_discrete_input 0) = 1"
    using m(2) [rule_format, of 0 "Mb_discrete_input 0"] ptr [of 0] by (simp add: inBufferPinMask_def)
  then have m2: "m2 = set_u8 (Mb_coils 0) 1 m1" using m(3) by (simp add: demo_run_def)
  have "bit_ptr bool_output (unlock_buffer m2) 0 = Some (Mb_coils 0)"
    using tables_eqD(2) [OF m(1)] by (simp add: m2 bit_ptr_def demo_io_def)
  moreover have "[0..<11] = 0 # [1..<11]" by (simp add: upt_conv_Cons)
  ultimately have "hd (bit_cmds bool_output (\<lambda>i v. DigitalWrite (outBufferPinMask ! i) v) (unlock_buffer m2) [0..<11]
       @ xs) = DigitalWrite 15 1" for xs
    by (simp add: bit_cmds_def outBufferPinMask_def m2)
  with m(4) show ?thesis by simp
qed

section \<open>UniPi\<close>

definition inputPinMask :: "int list" where
  "inputPinMask = [7, 7, 0, 2, 4, 3, 5, 14, 11, 10, 13, 6, 12]"

definition DOUT_PINBASE :: int where "DOUT_PINBASE = 100"
definition ANALOG_OUT_PIN :: int where "ANALOG_OUT_PIN = 1"

definition unipi_initializeHardware :: "pin_cmd list" where
  "unipi_initializeHardware =
     [LibraryCall ''wiringPiSetup'' 0, LibraryCall ''mcp_adcSetup'' 0x68, LibraryCall ''mcp23008Setup'' 0x20,
      LibraryCall ''pwmSetMode'' 0, LibraryCall ''pwmSetClock'' 47, LibraryCall ''pwmSetRange'' 1024] @
     map (\<lambda>i. PinMode (DOUT_PINBASE + int i) ''OUTPUT'') [0..<8] @
     concat (map (\<lambda>i. [PinMode (inputPinMask ! i) ''INPUT'', PullUpDn (inputPinMask ! i) ''PUD_UP'']) [0..<13]) @
     [PinMode ANALOG_OUT_PIN ''PWM_OUTPUT'', LibraryCall ''pthread_create'' 0]"

text \<open>
  The converter thread polls the three bytes of a conversion until its ready bit clears, scales the
  value and stores it under a mutex of its own. The product with the \<open>double\<close> 2.28 is a parameter;
  polls that never end give no value.
\<close>

fun adc_poll :: "(u8 \<times> u8 \<times> u8) list \<Rightarrow> nat option" where
  "adc_poll [] = None"
| "adc_poll ((d0, d1, d2) # rest) =
     (if drop_bit 7 d2 \<noteq> 0 then adc_poll rest else Some (c_word d0 d1))"

definition adc_convert :: "(nat \<Rightarrow> real) \<Rightarrow> nat \<Rightarrow> nat" where
  "adc_convert times_2_28 value =
     (let conversion = times_2_28 value;
          conversion = (if conversion > 65535 then 65535 else conversion)
      in nat \<lfloor>conversion\<rfloor>)"

definition readAdcThread_pass ::
  "(nat \<Rightarrow> real) \<Rightarrow> (u8 \<times> u8 \<times> u8) list \<times> (u8 \<times> u8 \<times> u8) list \<Rightarrow> nat \<times> nat \<Rightarrow> (nat \<times> nat) option" where
  "readAdcThread_pass times_2_28 polls adcBuffer = do {
     v0 \<leftarrow> adc_poll (fst polls);
     let adcBuffer = (adc_convert times_2_28 v0, snd adcBuffer);
     v1 \<leftarrow> adc_poll (snd polls);
     Some (fst adcBuffer, adc_convert times_2_28 v1) }"

definition mcp_adcRead :: "nat \<times> nat \<Rightarrow> nat \<Rightarrow> nat" where
  "mcp_adcRead adcBuffer chan =
     (if chan < 2 then (if chan = 0 then fst adcBuffer else snd adcBuffer) else 0)"

definition unipi_updateBuffersIn ::
  "(int \<Rightarrow> int) \<times> nat \<times> nat \<Rightarrow> plc_io \<Rightarrow> (plc_io \<times> pin_cmd list) option" where
  "unipi_updateBuffersIn e m = (let (digitalRead, adcBuffer) = e in do {
     m \<leftarrow> lock_buffer m;
     m \<leftarrow> for_range 0 13 (bit_in bool_input (\<lambda>i. if digitalRead (inputPinMask ! i) = 0 then 1 else 0)) m;
     m \<leftarrow> for_range 0 2 (reg_in int_input (\<lambda>i. of_nat (mcp_adcRead adcBuffer i))) m;
     Some (unlock_buffer m, []) })"

definition unipi_updateBuffersOut ::
  "(int \<Rightarrow> int) \<times> nat \<times> nat \<Rightarrow> plc_io \<Rightarrow> (plc_io \<times> pin_cmd list) option" where
  "unipi_updateBuffersOut e m = do {
     m \<leftarrow> lock_buffer m;
     os \<leftarrow> for_range 0 8 (bit_out bool_output (\<lambda>i v. DigitalWrite (DOUT_PINBASE + int i) v) m) [];
     p \<leftarrow> ptr1 (int_output m) 0;
     let os = (case p of Some c \<Rightarrow> os @ [PwmWrite ANALOG_OUT_PIN (int (unat (u16_heap m c) div 64))] | None \<Rightarrow> os);
     Some (unlock_buffer m, os) }"

lemma reg_in_keeps:
  assumes "n \<le> 1024"
  obtains m' where "for_range 0 n (reg_in tab val) m = Some m'" "tables m' = tables m" "u8_heap m' = u8_heap m"
  using reg_in_loop [of 0 n tab val m] assms by auto

interpretation unipi: hw_layer unipi_updateBuffersIn unipi_updateBuffersOut "\<lambda>_. True"
proof
  fix e :: "(int \<Rightarrow> int) \<times> nat \<times> nat" and m :: plc_io assume m: "\<not> bufferLock m"
  obtain m1 where m1: "for_range 0 13 (bit_in bool_input (\<lambda>i. if fst e (inputPinMask ! i) = 0 then 1 else 0))
      (m\<lparr>bufferLock := True\<rparr>) = Some m1" "hw_frame m (unlock_buffer m1)"
    by (rule bit_in_locked [OF m, of 13]) simp_all
  obtain m2 where "for_range 0 2 (reg_in int_input (\<lambda>i. of_nat (mcp_adcRead (snd e) i))) m1 = Some m2"
      "tables m2 = tables m1"
    by (rule reg_in_keeps [of 2]) simp
  with m m1 show "\<exists>m' os. unipi_updateBuffersIn e m = Some (m', os) \<and> hw_frame m m'"
    by (cases e) (simp add: unipi_updateBuffersIn_def hw_frame_def)
  show "\<exists>m' os. unipi_updateBuffersOut e m = Some (m', os) \<and> hw_frame m m'"
    using m by (simp add: unipi_updateBuffersOut_def bit_out_loop hw_frame_def Let_def del: for_range.simps upt_Suc)
qed

section \<open>Fischertechnik\<close>

text \<open>
  One exchange over the serial line: three bytes out, and \<open>Some (b0, b1)\<close> when exactly two bytes
  arrive in time. Otherwise \<open>recvBytes\<close>, a local array without initial value, is not assigned, and
  reading it has no result.
\<close>

definition fisch_initializeHardware :: "int \<Rightarrow> pin_cmd list option" where
  "fisch_initializeHardware serialFd =
     (if serialFd < 0 then None else Some [LibraryCall ''wiringPiSetup'' 0, LibraryCall ''serialOpen'' 9600])"

definition fisch_collect :: "plc_io \<Rightarrow> nat \<Rightarrow> u8 \<Rightarrow> u8 option" where
  "fisch_collect m i sendByte = do {
     p \<leftarrow> ptr2 (bool_output m) (i div 8) (i mod 8);
     Some (case p of Some c \<Rightarrow> sendByte OR push_bit (i mod 8) (u8_heap m c) | None \<Rightarrow> sendByte) }"

definition fisch_bit_in :: "(u8 \<times> u8) option \<Rightarrow> nat \<Rightarrow> plc_io \<Rightarrow> plc_io option" where
  "fisch_bit_in recvBytes i m = do {
     p \<leftarrow> ptr2 (bool_input m) (i div 8) (i mod 8);
     (case p of
        None \<Rightarrow> Some m
      | Some c \<Rightarrow> do {
          (b0, b1) \<leftarrow> recvBytes;
          Some (set_u8 c (bitRead (if i < 8 then b0 else b1) (i mod 8)) m) }) }"

definition fisch_sendOutput :: "u8 list \<Rightarrow> (u8 \<times> u8) option \<Rightarrow> pin_cmd list \<times> (u8 \<times> u8) option" where
  "fisch_sendOutput sendBytes answer =
     (map (\<lambda>b. LibraryCall ''serialPutchar'' (uint b)) sendBytes, answer)"

definition fisch_updateBuffers :: "(u8 \<times> u8) option \<Rightarrow> plc_io \<Rightarrow> (plc_io \<times> pin_cmd list) option" where
  "fisch_updateBuffers answer m = do {
     m \<leftarrow> lock_buffer m;
     b1 \<leftarrow> for_range 0 8 (fisch_collect m) 0;
     b2 \<leftarrow> for_range 8 8 (fisch_collect m) 0;
     let m = unlock_buffer m;
     let (os, recvBytes) = fisch_sendOutput [0xC2, b1, b2] answer;
     m \<leftarrow> lock_buffer m;
     m \<leftarrow> for_range 0 8 (fisch_bit_in recvBytes) m;
     m \<leftarrow> for_range 8 8 (fisch_bit_in recvBytes) m;
     Some (unlock_buffer m, os) }"

lemma fisch_collect_loop:
  assumes "lo + n \<le> 8192"
  shows "\<exists>b. for_range lo n (fisch_collect m) a = Some b"
proof -
  have "\<exists>b. for_range lo n (fisch_collect m) a = Some b \<and> True"
    by (rule for_range_total) (use assms in \<open>auto simp: fisch_collect_def\<close>)
  then show ?thesis by blast
qed

lemma fisch_bit_in_answered:
  assumes "i < 16"
  shows "fisch_bit_in (Some (b0, b1)) i = bit_in bool_input (\<lambda>i. bitRead (if i < 8 then b0 else b1) (i mod 8)) i"
proof
  fix m :: plc_io
  have "ptr2 (bool_input m) (i div 8) (i mod 8) = Some (bool_input m (i div 8) (i mod 8))"
    using assms by (intro ptr2_position) simp
  then show "fisch_bit_in (Some (b0, b1)) i m = bit_in bool_input (\<lambda>i. bitRead (if i < 8 then b0 else b1) (i mod 8)) i m"
    unfolding fisch_bit_in_def bit_in_def by (cases "bool_input m (i div 8) (i mod 8)") simp_all
qed

lemma fisch_bit_in_timeout:
  assumes "i < 16"
  shows "fisch_bit_in None i m = (if bool_input m (i div 8) (i mod 8) = None then Some m else None)"
proof -
  have "ptr2 (bool_input m) (i div 8) (i mod 8) = Some (bool_input m (i div 8) (i mod 8))"
    using assms by (intro ptr2_position) simp
  then show ?thesis
    unfolding fisch_bit_in_def by (cases "bool_input m (i div 8) (i mod 8)") simp_all
qed

lemma fisch_loop:
  assumes "lo + n \<le> 16"
  shows "\<exists>m'. for_range lo n (fisch_bit_in (Some (b0, b1))) m = Some m' \<and> tables m' = tables m"
proof -
  have "for_range lo n (fisch_bit_in (Some (b0, b1))) m =
      for_range lo n (bit_in bool_input (\<lambda>i. bitRead (if i < 8 then b0 else b1) (i mod 8))) m"
    using assms by (intro for_range_cong) (simp add: fisch_bit_in_answered)
  then show ?thesis
    using bit_in_loop [of lo n bool_input "\<lambda>i. bitRead (if i < 8 then b0 else b1) (i mod 8)" m] assms by auto
qed

lemma fisch_answered:
  assumes m: "\<not> bufferLock m" and e: "e \<noteq> None"
  shows "\<exists>m' os. fisch_updateBuffers e m = Some (m', os) \<and> hw_frame m m'"
proof -
  obtain b0 b1 where b: "e = Some (b0, b1)" using e by auto
  let ?m = "m\<lparr>bufferLock := True\<rparr>"
  obtain x y where xy: "for_range 0 8 (fisch_collect ?m) 0 = Some x" "for_range 8 8 (fisch_collect ?m) 0 = Some y"
    using fisch_collect_loop [of 0 8 ?m 0] fisch_collect_loop [of 8 8 ?m 0] by auto
  obtain m1 where m1: "for_range 0 8 (fisch_bit_in (Some (b0, b1))) ?m = Some m1" "tables m1 = tables ?m"
    using fisch_loop [of 0 8 b0 b1 ?m] by auto
  obtain m2 where m2: "for_range 8 8 (fisch_bit_in (Some (b0, b1))) m1 = Some m2" "tables m2 = tables m1"
    using fisch_loop [of 8 8 b0 b1 m1] by auto
  show ?thesis
    using m b xy m1 m2
    by (simp add: fisch_updateBuffers_def fisch_sendOutput_def hw_frame_def Let_def del: for_range.simps)
qed

interpretation fisch: hw_layer fisch_updateBuffers fisch_updateBuffers "\<lambda>e. e \<noteq> None"
  by unfold_locales (rule fisch_answered; assumption)+

text \<open>When the serial answer does not arrive in time the layer reads bytes it never received:
  with any of the 16 inputs mapped, the update of the buffers has no defined result.\<close>

theorem fisch_timeout_undefined:
  assumes m: "\<not> bufferLock m" and i: "i < 16" "bool_input m (i div 8) (i mod 8) \<noteq> None"
  shows "fisch_updateBuffers None m = None"
proof -
  have loop: "(\<exists>m'. for_range lo n (fisch_bit_in None) a = Some m') \<Longrightarrow> for_range lo n (fisch_bit_in None) a = Some a"
    if "lo + n \<le> 16" for lo n a
    using that
  proof (induction n arbitrary: lo)
    case (Suc n)
    then show ?case by (auto simp: fisch_bit_in_timeout split: if_splits)
  qed simp
  have stop: "for_range lo n (fisch_bit_in None) a = None"
    if r: "lo \<le> i" "i < lo + n" "lo + n \<le> 16" and a: "bool_input a = bool_input m" for lo n a
  proof (rule ccontr)
    assume "for_range lo n (fisch_bit_in None) a \<noteq> None"
    moreover have "n = (i - lo) + Suc (n - Suc (i - lo))" using r by simp
    ultimately have "for_range lo (i - lo) (fisch_bit_in None) a \<bind> (\<lambda>b. fisch_bit_in None i b) \<noteq> None"
      using for_range_add [of lo "i - lo" "Suc (n - Suc (i - lo))" "fisch_bit_in None" a] r
      by (cases "for_range lo (i - lo) (fisch_bit_in None) a") (auto simp: bind_eq_Some_conv)
    then have "fisch_bit_in None i a \<noteq> None"
      using loop [of lo "i - lo" a] r by (cases "for_range lo (i - lo) (fisch_bit_in None) a") auto
    then show False using i a by (simp add: fisch_bit_in_timeout)
  qed
  show ?thesis
  proof (cases "i < 8")
    case True
    then have "for_range 0 8 (fisch_bit_in None) (m\<lparr>bufferLock := True\<rparr>) = None"
      by (intro stop) simp_all
    then show ?thesis using m
      by (simp add: fisch_updateBuffers_def fisch_sendOutput_def Let_def bind_eq_None_conv del: for_range.simps)
  next
    case False
    have "for_range 8 8 (fisch_bit_in None) (m\<lparr>bufferLock := True\<rparr>) = None"
      using False i(1) by (intro stop) simp_all
    moreover have "for_range 0 8 (fisch_bit_in None) (m\<lparr>bufferLock := True\<rparr>) \<in> {None, Some (m\<lparr>bufferLock := True\<rparr>)}"
      using loop [of 0 8 "m\<lparr>bufferLock := True\<rparr>"] by (cases "for_range 0 8 (fisch_bit_in None) (m\<lparr>bufferLock := True\<rparr>)") auto
    ultimately show ?thesis using m
      by (auto simp: fisch_updateBuffers_def fisch_sendOutput_def Let_def bind_eq_None_conv simp del: for_range.simps)
  qed
qed

theorem fisch_timeout_undefined_witness: "fisch_updateBuffers None demo_io = None"
  by (rule fisch_timeout_undefined [of demo_io 3]) (simp_all add: demo_io_def)

end
