(* ===== verification/NetLayers.thy ===== *)
theory NetLayers
  imports MainLoop NetServer
begin

text \<open>
  The hardware layers that exchange packets: \<open>simulink.cpp\<close>, one structure of 64 bytes over UDP,
  and \<open>esp8266.cpp\<close>, structures of 4 bytes over TCP. Both fill the buffers from a thread of their
  own, so their \<open>updateBuffersIn\<close> and \<open>updateBuffersOut\<close> do nothing. Structures are the bytes of
  a little-endian machine; memory that was never written is a parameter, its junk.
\<close>

unbundle bit_operations_syntax

section \<open>Simulink\<close>

definition PLC_DATA_SIZE :: nat where "PLC_DATA_SIZE = 64"

text \<open>
  \<open>struct plcData\<close>: \<open>analogIn\<close> at 0, \<open>analogOut\<close> at 16, \<open>digitalIn\<close> at 32, \<open>digitalOut\<close> at 48.
  A \<open>bool\<close> whose byte is neither 0 nor 1 has no value.
\<close>

definition get_analogIn :: "u8 list \<Rightarrow> nat \<Rightarrow> u16" where
  "get_analogIn d i = of_nat (c_word (d ! (2 * i + 1)) (d ! (2 * i)))"

definition put_analogOut :: "u8 list \<Rightarrow> nat \<Rightarrow> u16 \<Rightarrow> u8 list" where
  "put_analogOut d i v = d[16 + 2 * i := lowByte v, 17 + 2 * i := highByte v]"

definition get_digitalIn :: "u8 list \<Rightarrow> nat \<Rightarrow> u8 option" where
  "get_digitalIn d i = (if d ! (32 + i) = 0 \<or> d ! (32 + i) = 1 then Some (d ! (32 + i)) else None)"

definition put_digitalOut :: "u8 list \<Rightarrow> nat \<Rightarrow> u8 \<Rightarrow> u8 list" where
  "put_digitalOut d i v = d[48 + i := if v \<noteq> 0 then 1 else 0]"

definition sim_analog :: "nat \<Rightarrow> plc_io \<times> u8 list \<Rightarrow> (plc_io \<times> u8 list) option" where
  "sim_analog i st = (let (m, d) = st in do {
     p \<leftarrow> ptr1 (int_input m) i;
     let m = (case p of Some c \<Rightarrow> set_u16 c (get_analogIn d i) m | None \<Rightarrow> m);
     q \<leftarrow> ptr1 (int_output m) i;
     let d = (case q of Some c \<Rightarrow> put_analogOut d i (u16_heap m c) | None \<Rightarrow> d);
     Some (m, d) })"

definition sim_digital :: "nat \<Rightarrow> plc_io \<times> u8 list \<Rightarrow> (plc_io \<times> u8 list) option" where
  "sim_digital i st = (let (m, d) = st in do {
     p \<leftarrow> ptr2 (bool_input m) (i div 8) (i mod 8);
     m \<leftarrow> (case p of Some c \<Rightarrow> do { v \<leftarrow> get_digitalIn d i; Some (set_u8 c v m) } | None \<Rightarrow> Some m);
     q \<leftarrow> ptr2 (bool_output m) (i div 8) (i mod 8);
     let d = (case q of Some c \<Rightarrow> put_digitalOut d i (u8_heap m c) | None \<Rightarrow> d);
     Some (m, d) })"

text \<open>
  One pass of the thread: \<open>recvfrom\<close> fails (\<open>None\<close>) or overwrites the first bytes of the structure,
  which keeps what it had from the passes before; then the exchange and the reply of 64 bytes.
\<close>

definition sim_exchangeData ::
  "u8 list option \<Rightarrow> plc_io \<times> u8 list \<Rightarrow> ((plc_io \<times> u8 list) \<times> u8 list option) option" where
  "sim_exchangeData packet st = (let (m, plc_data) = st in
     case packet of
       None \<Rightarrow> Some (st, None)
     | Some bs \<Rightarrow> do {
         let d = take PLC_DATA_SIZE bs @ drop (length bs) plc_data;
         m \<leftarrow> lock_buffer m;
         (m, d) \<leftarrow> for_range 0 8 sim_analog (m, d);
         (m, d) \<leftarrow> for_range 0 16 sim_digital (m, d);
         let m = unlock_buffer m;
         Some ((m, d), Some d) })"

definition sim_createUDPSocket :: "int \<Rightarrow> int \<Rightarrow> int option" where
  "sim_createUDPSocket socket_fd bind_result =
     (if socket_fd < 0 then None else if bind_result < 0 then None else Some socket_fd)"

definition sim_updateBuffersIn :: "unit \<Rightarrow> plc_io \<Rightarrow> (plc_io \<times> unit list) option" where
  "sim_updateBuffersIn e m = Some (m, [])"

definition sim_updateBuffersOut :: "unit \<Rightarrow> plc_io \<Rightarrow> (plc_io \<times> unit list) option" where
  "sim_updateBuffersOut e m = Some (m, [])"

interpretation sim: hw_layer sim_updateBuffersIn sim_updateBuffersOut "\<lambda>_. True"
  by unfold_locales (simp_all add: sim_updateBuffersIn_def sim_updateBuffersOut_def hw_frame_def)

text \<open>A packet whose digital inputs are 0 or 1 is exchanged: every index is in its array.\<close>

lemma sim_analog_step:
  "i < 8 \<Longrightarrow> \<exists>m' d'. sim_analog i (m, d) = Some (m', d') \<and> tables m' = tables m \<and> length d' = length d \<and>
     (\<forall>k. 32 \<le> k \<longrightarrow> d' ! k = d ! k)"
  by (auto simp: sim_analog_def put_analogOut_def Let_def split: option.splits)

lemma sim_digital_step:
  "i < 16 \<Longrightarrow> d ! (32 + i) = 0 \<or> d ! (32 + i) = 1 \<Longrightarrow>
     \<exists>m' d'. sim_digital i (m, d) = Some (m', d') \<and> tables m' = tables m \<and> length d' = length d \<and>
     (\<forall>k. 32 \<le> k \<and> k < 48 \<longrightarrow> d' ! k = d ! k)"
  by (auto simp: sim_digital_def put_digitalOut_def get_digitalIn_def Let_def split: option.splits)

lemma sim_exchange_defined:
  assumes m: "\<not> bufferLock m" and d: "length plc_data = 64" and bs: "length bs = 64"
    and bools: "\<And>i. i < 16 \<Longrightarrow> bs ! (32 + i) = 0 \<or> bs ! (32 + i) = 1"
  shows "\<exists>m' d'. sim_exchangeData (Some bs) (m, plc_data) = Some ((m', d'), Some d') \<and>
     length d' = 64 \<and> hw_frame m m'"
proof -
  let ?l = "m\<lparr>bufferLock := True\<rparr>"
  have "\<exists>st. for_range 0 8 sim_analog (?l, bs) = Some st \<and> (tables (fst st) = tables m \<and> length (snd st) = 64 \<and>
      (\<forall>k. 32 \<le> k \<longrightarrow> snd st ! k = bs ! k))"
  proof (rule for_range_total)
    fix k st assume k: "k < (0::nat) + 8"
      and I: "tables (fst st) = tables m \<and> length (snd st) = 64 \<and> (\<forall>k. 32 \<le> k \<longrightarrow> snd st ! k = bs ! k)"
    then show "\<exists>st'. sim_analog k st = Some st' \<and> (tables (fst st') = tables m \<and> length (snd st') = 64 \<and>
        (\<forall>k. 32 \<le> k \<longrightarrow> snd st' ! k = bs ! k))"
      using sim_analog_step [of k "fst st" "snd st"] by (cases st) auto
  qed (use bs in simp)
  then obtain m1 d1 where 1: "for_range 0 8 sim_analog (?l, bs) = Some (m1, d1)" "tables m1 = tables m"
      "length d1 = 64" "\<forall>k. 32 \<le> k \<longrightarrow> d1 ! k = bs ! k" by auto
  have "\<exists>st. for_range 0 16 sim_digital (m1, d1) = Some st \<and> (tables (fst st) = tables m \<and> length (snd st) = 64 \<and>
      (\<forall>k. 32 \<le> k \<and> k < 48 \<longrightarrow> snd st ! k = bs ! k))"
  proof (rule for_range_total)
    fix k st assume k: "k < (0::nat) + 16"
      and I: "tables (fst st) = tables m \<and> length (snd st) = 64 \<and> (\<forall>k. 32 \<le> k \<and> k < 48 \<longrightarrow> snd st ! k = bs ! k)"
    then show "\<exists>st'. sim_digital k st = Some st' \<and> (tables (fst st') = tables m \<and> length (snd st') = 64 \<and>
        (\<forall>k. 32 \<le> k \<and> k < 48 \<longrightarrow> snd st' ! k = bs ! k))"
      using sim_digital_step [of k "snd st" "fst st"] bools [of k] by (cases st) auto
  qed (use 1 in simp)
  then obtain m2 d2 where 2: "for_range 0 16 sim_digital (m1, d1) = Some (m2, d2)" "tables m2 = tables m"
      "length d2 = 64" by auto
  show ?thesis
    using m bs d 1 2 by (simp add: sim_exchangeData_def hw_frame_def PLC_DATA_SIZE_def Let_def del: for_range.simps)
qed

section \<open>ESP8266\<close>

text \<open>
  A message of at least four bytes: device, eight digital inputs, the analog input. The reply
  starts as uninitialised stack memory.
\<close>

definition esp_out_bit :: "plc_io \<Rightarrow> nat \<Rightarrow> nat \<Rightarrow> u8 \<Rightarrow> u8 option" where
  "esp_out_bit m device i digital = do {
     p \<leftarrow> ptr2 (bool_output m) device i;
     Some (case p of Some c \<Rightarrow> bitWrite digital i (u8_heap m c) | None \<Rightarrow> digital) }"

definition esp_in_bit :: "nat \<Rightarrow> u8 \<Rightarrow> nat \<Rightarrow> plc_io \<Rightarrow> plc_io option" where
  "esp_in_bit device digital i m = do {
     p \<leftarrow> ptr2 (bool_input m) device i;
     Some (case p of Some c \<Rightarrow> set_u8 c (bitRead digital i) m | None \<Rightarrow> m) }"

definition processMessage_esp ::
  "u8 \<times> u16 \<Rightarrow> u8 list \<Rightarrow> nat \<Rightarrow> plc_io \<Rightarrow> (plc_io \<times> u8 list option) option" where
  "processMessage_esp junk buf bufferSize m =
     (if bufferSize \<ge> 4 then do {
        device_id \<leftarrow> arr_get buf 0;
        digital \<leftarrow> arr_get buf 1;
        lo \<leftarrow> arr_get buf 2;
        hi \<leftarrow> arr_get buf 3;
        (if unat device_id < 100 then do {
           let dev = unat device_id;
           m \<leftarrow> lock_buffer m;
           m \<leftarrow> for_range 0 8 (esp_in_bit dev digital) m;
           p \<leftarrow> ptr1 (int_input m) dev;
           let m = (case p of Some c \<Rightarrow> set_u16 c (of_nat (c_word hi lo)) m | None \<Rightarrow> m);
           out_digital \<leftarrow> for_range 0 8 (esp_out_bit m dev) (fst junk);
           q \<leftarrow> ptr1 (int_output m) dev;
           let analog = (case q of Some c \<Rightarrow> u16_heap m c | None \<Rightarrow> snd junk);
           Some (unlock_buffer m, Some [device_id, out_digital, lowByte analog, highByte analog]) }
         else Some (m, None)) }
      else Some (m, None))"

text \<open>The socket as in \<open>server.cpp\<close>: \<open>None\<close> is \<open>exit(1)\<close>, and a read that fails gives \<open>-1\<close>.\<close>

definition createSocket_esp :: "int \<Rightarrow> int \<Rightarrow> int option" where
  "createSocket_esp socket_fd bind_result =
     (if socket_fd < 0 then None else if bind_result < 0 then None else Some socket_fd)"

definition listenToClient_esp :: "socket \<Rightarrow> int \<times> u8 list \<times> socket" where
  "listenToClient_esp sk =
     (let buf = replicate 1024 0; (r, sk') = sock_read 1024 sk in
      case r of
        None \<Rightarrow> (-1, buf, sk')
      | Some bs \<Rightarrow> (int (length bs), bs @ drop (length bs) buf, sk'))"

text \<open>The loop of a connection, with the junk of each iteration.\<close>

fun handleConnections_esp ::
  "(u8 \<times> u16) list \<Rightarrow> socket \<Rightarrow> plc_io \<Rightarrow> (plc_io \<times> u8 list list) option" where
  "handleConnections_esp [] sk m = Some (m, [])"
| "handleConnections_esp (j # js) sk m =
     (let (messageSize, buf, sk') = listenToClient_esp sk in
      if messageSize \<le> 0 \<or> messageSize > 1024 then Some (m, [])
      else do {
        (m, r) \<leftarrow> processMessage_esp j buf (nat messageSize) m;
        (m, rs) \<leftarrow> handleConnections_esp js sk' m;
        Some (m, case r of Some bs \<Rightarrow> bs # rs | None \<Rightarrow> rs) })"

definition esp_updateBuffersIn :: "unit \<Rightarrow> plc_io \<Rightarrow> (plc_io \<times> unit list) option" where
  "esp_updateBuffersIn e m = Some (m, [])"

definition esp_updateBuffersOut :: "unit \<Rightarrow> plc_io \<Rightarrow> (plc_io \<times> unit list) option" where
  "esp_updateBuffersOut e m = Some (m, [])"

interpretation esp: hw_layer esp_updateBuffersIn esp_updateBuffersOut "\<lambda>_. True"
  by unfold_locales (simp_all add: esp_updateBuffersIn_def esp_updateBuffersOut_def hw_frame_def)

lemma esp_in_loop:
  assumes "dev < 1024" "n \<le> 8"
  shows "\<exists>m'. for_range 0 n (esp_in_bit dev digital) m = Some m' \<and> tables m' = tables m \<and> u16_heap m' = u16_heap m"
proof -
  have "\<exists>m'. for_range 0 n (esp_in_bit dev digital) m = Some m' \<and> (tables m' = tables m \<and> u16_heap m' = u16_heap m)"
    by (rule for_range_total) (use assms in \<open>auto simp: esp_in_bit_def split: option.splits\<close>)
  then show ?thesis .
qed

lemma esp_out_loop:
  assumes dev: "dev < 1024"
  shows "n \<le> 8 \<Longrightarrow> \<exists>d. for_range 0 n (esp_out_bit m dev) j = Some d \<and>
     (\<forall>i < 8. bitRead d i = (case bool_output m dev i of
        Some c \<Rightarrow> if i < n then (if u8_heap m c \<noteq> 0 then 1 else 0) else bitRead j i | None \<Rightarrow> bitRead j i))"
proof (induction n)
  case 0
  then show ?case by (simp split: option.splits)
next
  case (Suc n)
  then obtain d where d: "for_range 0 n (esp_out_bit m dev) j = Some d"
    "\<forall>i < 8. bitRead d i = (case bool_output m dev i of
        Some c \<Rightarrow> if i < n then (if u8_heap m c \<noteq> 0 then 1 else 0) else bitRead j i | None \<Rightarrow> bitRead j i)"
    by auto
  show ?case
  proof (cases "bool_output m dev n")
    case None
    then have "for_range 0 (Suc n) (esp_out_bit m dev) j = Some d"
      using d(1) dev Suc.prems by (simp add: for_range_Suc_right esp_out_bit_def del: for_range.simps)
    then show ?thesis using d(2) None by (auto simp: less_Suc_eq split: option.splits)
  next
    case (Some c)
    then have "for_range 0 (Suc n) (esp_out_bit m dev) j = Some (bitWrite d n (u8_heap m c))"
      using d(1) dev Suc.prems by (simp add: for_range_Suc_right esp_out_bit_def del: for_range.simps)
    then show ?thesis using d(2) Some Suc.prems
      by (auto simp: less_Suc_eq bitRead_bitWrite split: option.splits)
  qed
qed

lemma esp_message:
  assumes m: "\<not> bufferLock m" and n: "4 \<le> n" "length buf = 1024" and dev: "unat (buf ! 0) < 100"
  shows "\<exists>m' d lo hi. processMessage_esp junk buf n m = Some (m', Some [buf ! 0, d, lo, hi]) \<and> hw_frame m m' \<and>
     (\<forall>i < 8. bitRead d i = (case bool_output m (unat (buf ! 0)) i of
        Some c \<Rightarrow> if u8_heap m' c \<noteq> 0 then 1 else 0 | None \<Rightarrow> bitRead (fst junk) i)) \<and>
     c_word hi lo = (case int_output m (unat (buf ! 0)) of
        Some c \<Rightarrow> unat (u16_heap m' c) | None \<Rightarrow> unat (snd junk))"
proof -
  let ?d = "unat (buf ! 0)" and ?l = "m\<lparr>bufferLock := True\<rparr>"
  have d: "?d < 1024" using dev by simp
  obtain m1 where m1: "for_range 0 8 (esp_in_bit ?d (buf ! 1)) ?l = Some m1" "tables m1 = tables ?l"
    using esp_in_loop [OF d, of 8 "buf ! 1" ?l] by auto
  define m2 where "m2 = (case int_input m ?d of
      Some c \<Rightarrow> set_u16 c (of_nat (c_word (buf ! 3) (buf ! 2))) m1 | None \<Rightarrow> m1)"
  have t2: "tables m2 = tables m" using m1(2) by (simp add: m2_def split: option.splits)
  note tabs = tables_eqD [OF t2] tables_eqD [OF m1(2) [unfolded tables_set]]
  obtain x where x: "for_range 0 8 (esp_out_bit m2 ?d) (fst junk) = Some x"
    "\<forall>i < 8. bitRead x i = (case bool_output m ?d i of
        Some c \<Rightarrow> if u8_heap m2 c \<noteq> 0 then 1 else 0 | None \<Rightarrow> bitRead (fst junk) i)"
    using esp_out_loop [OF d, of 8 m2 "fst junk"] by (auto simp: tabs cong: option.case_cong)
  let ?a = "case int_output m ?d of Some c \<Rightarrow> u16_heap m2 c | None \<Rightarrow> snd junk"
  have "processMessage_esp junk buf n m = Some (unlock_buffer m2, Some [buf ! 0, x, lowByte ?a, highByte ?a])"
    using m n d dev m1(1) x(1) tabs
    by (cases "int_input m ?d"; cases "int_output m ?d")
       (simp_all add: processMessage_esp_def Let_def m2_def del: for_range.simps)
  moreover have "hw_frame m (unlock_buffer m2)" using t2 by (simp add: hw_frame_def)
  ultimately show ?thesis using x(2) by (auto split: option.splits)
qed

text \<open>C13: The reply to a message from a device below 100 carries the mapped outputs of that device,
  bit by bit and the analog one little-endian, as they are after its inputs were stored; the bits
  and the word of unmapped outputs are whatever was on the stack, sent to the peer.\<close>

theorem esp_reply:
  assumes m: "\<not> bufferLock m" and n: "4 \<le> n" "length buf = 1024" and dev: "unat (buf ! 0) < 100"
  shows "\<exists>m' d lo hi. processMessage_esp junk buf n m = Some (m', Some [buf ! 0, d, lo, hi]) \<and> hw_frame m m' \<and>
     (\<forall>i < 8. bitRead d i = (case bool_output m (unat (buf ! 0)) i of
        Some c \<Rightarrow> if u8_heap m' c \<noteq> 0 then 1 else 0 | None \<Rightarrow> bitRead (fst junk) i)) \<and>
     c_word hi lo = (case int_output m (unat (buf ! 0)) of
        Some c \<Rightarrow> unat (u16_heap m' c) | None \<Rightarrow> unat (snd junk))"
  using assms by (rule esp_message)

theorem esp_reply_witness:
  "\<exists>m' d lo hi. processMessage_esp (0, 0xdead) ([7, 5, 0, 0] @ replicate 1020 0) 4 (demo_io\<lparr>int_output := (\<lambda>_. None)\<rparr>) =
     Some (m', Some [7, d, lo, hi]) \<and> c_word hi lo = 0xdead"
proof -
  let ?m = "demo_io\<lparr>int_output := (\<lambda>_. None)\<rparr>" and ?b = "[7, 5, 0, 0] @ replicate 1020 0 :: u8 list"
  obtain m' d lo hi where "processMessage_esp (0, 0xdead) ?b 4 ?m = Some (m', Some [?b ! 0, d, lo, hi])"
      "c_word hi lo = (case int_output ?m (unat (?b ! 0)) of
        Some c \<Rightarrow> unat (u16_heap m' c) | None \<Rightarrow> unat (snd (0 :: u8, 0xdead :: u16)))"
    using esp_reply [of ?m 4 ?b "(0, 0xdead)"] by auto
  then show ?thesis by simp
qed

section \<open>The server of the ESP8266 layer\<close>

text \<open>
  \<open>startServer_esp\<close> and the threads it creates. As in \<open>server.cpp\<close> a thread reads its descriptor from
  \<open>arguments\<close>, an array of the block of the loop; a thread that starts after the end of the block has
  no step. \<open>esp_open\<close> are the descriptors the process holds: \<open>accept\<close> returns a new one, and
  nothing closes them when \<open>handleConnections_esp\<close> leaves its loop.
\<close>

record esp_server =
  esp_io :: plc_io
  esp_args :: "int option"
  esp_created :: nat
  esp_threads :: "int list"
  esp_open :: "int list"
  esp_sent :: "(int \<times> u8 list) list"

inductive esp_step :: "u8 list set \<Rightarrow> esp_server \<Rightarrow> esp_server \<Rightarrow> bool" for net where
  esp_accepted: "esp_args S = None \<Longrightarrow> 0 \<le> fd \<Longrightarrow> fd \<notin> set (esp_open S) \<Longrightarrow>
     esp_step net S (S\<lparr>esp_args := Some fd, esp_created := Suc (esp_created S), esp_open := fd # esp_open S\<rparr>)"
| esp_accept_error: "esp_args S = None \<Longrightarrow> esp_step net S S"
| esp_end_of_block: "esp_args S = Some fd \<Longrightarrow> esp_step net S (S\<lparr>esp_args := None\<rparr>)"
| esp_thread_starts: "esp_created S = Suc n \<Longrightarrow> esp_args S = Some fd \<Longrightarrow>
     esp_step net S (S\<lparr>esp_created := n, esp_threads := fd # esp_threads S\<rparr>)"
| esp_served: "fd \<in> set (esp_threads S) \<Longrightarrow> bs \<in> net \<Longrightarrow> listenToClient_esp [Some bs] = (n, buf, sk) \<Longrightarrow>
     0 < n \<Longrightarrow> n \<le> 1024 \<Longrightarrow> processMessage_esp junk buf (nat n) (esp_io S) = Some (m', r) \<Longrightarrow>
     esp_step net S (S\<lparr>esp_io := m', esp_sent := (case r of Some p \<Rightarrow> [(fd, p)] | None \<Rightarrow> []) @ esp_sent S\<rparr>)"
| esp_thread_ends: "esp_threads S = xs @ fd # ys \<Longrightarrow> listenToClient_esp sk = (n, buf, sk') \<Longrightarrow> n \<le> 0 \<or> n > 1024 \<Longrightarrow>
     esp_step net S (S\<lparr>esp_threads := xs @ ys\<rparr>)"

definition esp_start :: "plc_io \<Rightarrow> esp_server" where
  "esp_start m = \<lparr>esp_io = m, esp_args = None, esp_created = 0, esp_threads = [], esp_open = [], esp_sent = []\<rparr>"

lemma processMessage_esp_total:
  assumes "\<not> bufferLock m" "length buf = 1024"
  shows "\<exists>m' r. processMessage_esp junk buf n m = Some (m', r) \<and> hw_frame m m' \<and> (\<forall>p. r = Some p \<longrightarrow> length p = 4)"
proof (cases "4 \<le> n \<and> unat (buf ! 0) < 100")
  case True
  then show ?thesis using esp_message [OF assms(1), of n buf junk] assms(2) by fastforce
next
  case False
  then show ?thesis using assms by (auto simp: processMessage_esp_def hw_frame_def)
qed

lemma listenToClient_esp_length: "listenToClient_esp sk = (n, buf, sk') \<Longrightarrow> n \<le> 1024 \<Longrightarrow> length buf = 1024"
  by (auto simp: listenToClient_esp_def Let_def split: prod.splits option.splits)

text \<open>
  In every interleaving of connections and messages the mutex is free between the messages, the
  tables are those of the start, every reply has four bytes, no served descriptor is closed, and no
  descriptor is ever given back.
\<close>

theorem esp_server_invariant:
  assumes "\<not> bufferLock m" "(esp_step net)\<^sup>*\<^sup>* (esp_start m) S"
  shows "hw_frame m (esp_io S) \<and> (\<forall>(fd, p) \<in> set (esp_sent S). length p = 4) \<and>
    set (esp_threads S) \<subseteq> set (esp_open S) \<and> set_option (esp_args S) \<subseteq> set (esp_open S) \<and> distinct (esp_open S)"
  using assms(2)
proof (induction rule: rtranclp_induct)
  case base
  then show ?case using assms(1) by (simp add: esp_start_def hw_frame_refl)
next
  case (step S S')
  from step(2) step(3) show ?case
  proof cases
    case (esp_served fd bs n buf sk junk m' r)
    have l: "\<not> bufferLock (esp_io S)" using step(3) by (simp add: hw_frame_def)
    have "hw_frame (esp_io S) m'" "\<forall>p. r = Some p \<longrightarrow> length p = 4"
      using processMessage_esp_total [OF l listenToClient_esp_length [OF esp_served(4)], of junk "nat n"] esp_served(6,7)
      by auto
    then show ?thesis using step(3) hw_frame_trans [of m] unfolding esp_served(1) by (auto split: option.splits)
  qed auto
qed

text \<open>Every descriptor stays open: after any number of clients that came and went, as many
  descriptors are held, although no thread serves them.\<close>

theorem esp_descriptors_leak:
  "\<exists>S. (esp_step net)\<^sup>*\<^sup>* (esp_start m) S \<and> length (esp_open S) = n \<and> esp_threads S = [] \<and> esp_created S = 0 \<and> esp_args S = None"
proof (induction n)
  case 0
  show ?case by (intro exI [of _ "esp_start m"]) (simp add: esp_start_def)
next
  case (Suc n)
  then obtain S where S: "(esp_step net)\<^sup>*\<^sup>* (esp_start m) S" "length (esp_open S) = n" "esp_threads S = []"
    "esp_created S = 0" "esp_args S = None" by blast
  define fd where "fd = Max (set (0 # esp_open S)) + 1"
  have "x \<le> fd - 1" if "x \<in> set (0 # esp_open S)" for x using Max_ge [OF _ that] by (simp add: fd_def)
  then have fd: "fd \<notin> set (esp_open S)" "0 \<le> fd" by force+
  let ?A = "S\<lparr>esp_args := Some fd, esp_created := 1, esp_open := fd # esp_open S\<rparr>"
  let ?B = "?A\<lparr>esp_created := 0, esp_threads := [fd]\<rparr>" and ?C = "?A\<lparr>esp_created := 0, esp_threads := []\<rparr>"
  have "esp_step net S ?A" using esp_accepted [OF S(5) fd(2,1), of net] S(4) by simp
  moreover have "esp_step net ?A ?B" using esp_thread_starts [of ?A 0 fd net] S(3) by simp
  moreover have "esp_step net ?B ?C"
    using esp_thread_ends [of ?B "[]" fd "[]" "[]" 0 "replicate 1024 0" "[]" net] S(3)
    by (simp add: listenToClient_esp_def)
  moreover have "esp_step net ?C (?C\<lparr>esp_args := None\<rparr>)" using esp_end_of_block [of ?C fd net] by simp
  ultimately have "(esp_step net)\<^sup>*\<^sup>* (esp_start m) (?C\<lparr>esp_args := None\<rparr>)"
    using S(1) by (meson rtranclp.rtrancl_into_rtrancl)
  then show ?case using S(2-) by (intro exI [of _ "?C\<lparr>esp_args := None\<rparr>"]) simp
qed

end
