(* ===== verification/CString.thy ===== *)
theory CString
  imports Prelude
begin

text \<open>
  The C string handling the configuration readers share. An array of characters is a list; a
  pointer into it is the rest of the list, and reading past the end of the array has no result.
  The string in an array is what stands before its first NUL.
\<close>

section \<open>Arrays of characters\<close>

abbreviation NUL :: char where
  "NUL \<equiv> CHR 0x00"

text \<open>\<open>strncpy(buf, s, n)\<close> into an array of \<open>n\<close> characters: cut, or filled up with NUL.\<close>

definition strncpy :: "nat \<Rightarrow> string \<Rightarrow> char list" where
  "strncpy n s = take n s @ replicate (n - length s) NUL"

text \<open>\<open>while (!p(*s)) s++\<close>, and the same with a copy of the characters passed.\<close>

fun skip_until :: "(char \<Rightarrow> bool) \<Rightarrow> char list \<Rightarrow> char list option" where
  "skip_until p [] = None"
| "skip_until p (c # cs) = (if p c then Some (c # cs) else skip_until p cs)"

fun copy_until :: "(char \<Rightarrow> bool) \<Rightarrow> char list \<Rightarrow> (string \<times> char list) option" where
  "copy_until p [] = None"
| "copy_until p (c # cs) =
     (if p c then Some ([], c # cs) else map_option (\<lambda>(w, r). (c # w, r)) (copy_until p cs))"

text \<open>\<open>s++\<close> on a pointer that may have reached the end of its array, and \<open>strlen\<close>.\<close>

fun next_char :: "char list \<Rightarrow> char list option" where
  "next_char [] = None"
| "next_char (c # cs) = Some cs"

definition c_string :: "char list \<Rightarrow> string option" where
  "c_string a = map_option fst (copy_until (\<lambda>c. c = NUL) a)"

text \<open>
  A copy into an array of \<open>cap\<close> characters that ends every character with a new NUL writes past the
  end of the array when the copied word has \<open>cap\<close> characters or more.
\<close>

definition fits :: "nat \<Rightarrow> string \<Rightarrow> string option" where
  "fits cap w = (if length w < cap then Some w else None)"

lemma skip_until_append:
  "(\<forall>c \<in> set w. \<not> p c) \<Longrightarrow> p d \<Longrightarrow> skip_until p (w @ d # r) = Some (d # r)"
  by (induction w) auto

lemma copy_until_append:
  "(\<forall>c \<in> set w. \<not> p c) \<Longrightarrow> p d \<Longrightarrow> copy_until p (w @ d # r) = Some (w, d # r)"
  by (induction w) auto

lemma skip_until_None: "skip_until p s = None \<longleftrightarrow> (\<forall>c \<in> set s. \<not> p c)"
  by (induction s) auto

lemma copy_until_None: "copy_until p s = None \<longleftrightarrow> (\<forall>c \<in> set s. \<not> p c)"
  by (induction s) auto

lemma copy_until_Some:
  "copy_until p s = Some (w, r) \<Longrightarrow> s = w @ r \<and> (\<forall>c \<in> set w. \<not> p c) \<and> r \<noteq> [] \<and> p (hd r)"
  by (induction s arbitrary: w) (auto split: if_splits)

lemma strncpy_short: "length s < n \<Longrightarrow> strncpy n s = s @ NUL # replicate (n - Suc (length s)) NUL"
  by (simp add: strncpy_def Suc_diff_Suc flip: replicate_Suc)

lemma length_strncpy [simp]: "length (strncpy n s) = n"
  by (simp add: strncpy_def)

lemma set_strncpy: "c \<in> set (strncpy n s) \<Longrightarrow> c = NUL \<or> c \<in> set s"
  by (auto simp: strncpy_def dest: in_set_takeD split: if_splits)

section \<open>Decimal numbers\<close>

definition digit_char :: "nat \<Rightarrow> char" where
  "digit_char d = char_of (d + 48)"

definition is_digit :: "char \<Rightarrow> bool" where
  "is_digit c \<longleftrightarrow> 48 \<le> (of_char c :: nat) \<and> (of_char c :: nat) \<le> 57"

definition digit_val :: "char \<Rightarrow> nat" where
  "digit_val c = of_char c - 48"

definition is_space :: "char \<Rightarrow> bool" where
  "is_space c \<longleftrightarrow> (of_char c :: nat) \<in> {9, 10, 11, 12, 13, 32}"

fun digits_val :: "nat \<Rightarrow> string \<Rightarrow> nat" where
  "digits_val n [] = n"
| "digits_val n (c # cs) = (if is_digit c then digits_val (10 * n + digit_val c) cs else n)"

text \<open>
  \<open>atoi\<close>: white space, a sign, digits up to the first other character; a value outside \<open>int\<close> has
  no result.
\<close>

definition atoi :: "string \<Rightarrow> int option" where
  "atoi s =
     (let s = dropWhile is_space s;
          (neg, s) = (case s of
             c # cs \<Rightarrow> if c = CHR ''-'' then (True, cs) else if c = CHR ''+'' then (False, cs) else (False, s)
           | [] \<Rightarrow> (False, s));
          n = (if neg then - int (digits_val 0 s) else int (digits_val 0 s))
      in if - 2147483648 \<le> n \<and> n \<le> 2147483647 then Some n else None)"

text \<open>The decimal text of a number, as \<open>ostream\<close> prints it.\<close>

fun print_nat :: "nat \<Rightarrow> string" where
  "print_nat n = (if n < 10 then [digit_char n] else print_nat (n div 10) @ [digit_char (n mod 10)])"

declare print_nat.simps [simp del]

definition print_int :: "int \<Rightarrow> string" where
  "print_int n = (if n < 0 then CHR ''-'' # print_nat (nat (- n)) else print_nat (nat n))"

lemma of_digit_char [simp]: "d < 10 \<Longrightarrow> (of_char (digit_char d) :: nat) = d + 48"
  by (simp add: digit_char_def of_char_of)

lemma is_digit_char [simp]: "d < 10 \<Longrightarrow> is_digit (digit_char d)"
  by (simp add: is_digit_def)

lemma digit_val_char [simp]: "d < 10 \<Longrightarrow> digit_val (digit_char d) = d"
  by (simp add: digit_val_def)

lemma print_nat_digits: "\<forall>c \<in> set (print_nat n). is_digit c"
proof (induction n rule: print_nat.induct)
  case (1 n)
  show ?case
  proof (cases "n < 10")
    case True
    then show ?thesis by (simp add: print_nat.simps [of n])
  next
    case False
    then show ?thesis using 1 by (simp add: print_nat.simps [of n])
  qed
qed

lemma print_nat_nonempty: "print_nat n \<noteq> []"
  by (simp add: print_nat.simps [of n])

lemma digits_val_append:
  "(\<forall>c \<in> set w. is_digit c) \<Longrightarrow> digits_val n (w @ s) = digits_val (digits_val n w) s"
  by (induction w arbitrary: n) auto

lemma digits_val_stop: "\<not> is_digit c \<Longrightarrow> digits_val n (c # s) = n"
  by simp

lemma digits_val_print [simp]: "digits_val 0 (print_nat n) = n"
proof (induction n rule: print_nat.induct)
  case (1 n)
  show ?case
  proof (cases "n < 10")
    case True
    then show ?thesis by (simp add: print_nat.simps [of n])
  next
    case False
    then show ?thesis
      using 1 by (simp add: print_nat.simps [of n] digits_val_append [OF print_nat_digits])
  qed
qed

lemma digit_not_space_sign:
  assumes "is_digit c"
  shows "\<not> is_space c" "c \<noteq> CHR ''-''" "c \<noteq> CHR ''+''" "c \<noteq> NUL" "c \<noteq> CHR ''_''" "c \<noteq> CHR '',''"
  using assms by (auto simp: is_digit_def is_space_def)

lemma atoi_print: "n < 2147483648 \<Longrightarrow> atoi (print_nat n) = Some (int n)"
proof -
  assume n: "n < 2147483648"
  obtain c cs where c: "print_nat n = c # cs" using print_nat_nonempty [of n] by (cases "print_nat n") auto
  then have d: "is_digit c" using print_nat_digits [of n] by simp
  have "digits_val 0 (c # cs) = n" using digits_val_print [of n] c by simp
  then show ?thesis
    unfolding atoi_def c using digit_not_space_sign [OF d] n by (simp del: digits_val.simps)
qed

end
