(* ===== verification/GlueGenerator.thy ===== *)
theory GlueGenerator
  imports CString IOBuffers
begin

text \<open>
  \<open>src/glue_generator_src/glue_generator.cpp\<close>: the program that reads the list of located variables
  the IEC compiler writes and generates \<open>glueVars\<close>, one assignment of a pointer per variable. The
  generated statements are a datatype with their text and their meaning on the process image, so
  that the properties speak of what the generated function does.
\<close>

section \<open>Reading a declaration\<close>

text \<open>
  A line \<open>__LOCATED_VAR(type,name,...)\<close>. The two output arrays have 100 characters; a field without
  characters leaves its array as it was, at first uninitialised (\<open>None\<close>). The search for the
  parenthesis and for the commas has no other end than the array of 1024 characters.
\<close>

definition copy_field :: "string option \<Rightarrow> char list \<Rightarrow> (string option \<times> char list) option" where
  "copy_field old r = do {
     (w, r) \<leftarrow> copy_until (\<lambda>c. c = CHR '','') r;
     (if w = [] then Some (old, r) else do { w \<leftarrow> fits 100 w; Some (Some w, r) }) }"

definition parseIecVars :: "string \<Rightarrow> string option \<times> string option \<Rightarrow> (string option \<times> string option) option" where
  "parseIecVars line st = do {
     let (varName, varType) = st;
     r \<leftarrow> skip_until (\<lambda>c. c = CHR ''('') (strncpy 1024 line);
     r \<leftarrow> next_char r;
     (varType, r) \<leftarrow> copy_field varType r;
     r \<leftarrow> next_char r;
     (varName, r) \<leftarrow> copy_field varName r;
     Some (varName, varType) }"

section \<open>The address in a name\<close>

text \<open>
  The two numbers of \<open>__QX12_3\<close>. \<open>tempBuffer\<close> is uninitialised until the first character is copied
  and keeps the first number when there is no second one.
\<close>

definition findPositions :: "string \<Rightarrow> (int \<times> int) option" where
  "findPositions varName = do {
     (t, r) \<leftarrow> copy_until (\<lambda>c. c = CHR ''_'' \<or> c = NUL) (drop 4 (varName @ [NUL]));
     let tempBuffer = (if t = [] then None else Some t);
     pos1 \<leftarrow> do { b \<leftarrow> tempBuffer; atoi b };
     (if hd r = NUL then Some (pos1, 0)
      else do {
        r \<leftarrow> next_char r;
        (t, r) \<leftarrow> copy_until (\<lambda>c. c = NUL) r;
        let tempBuffer = (if t = [] then tempBuffer else Some t);
        pos2 \<leftarrow> do { b \<leftarrow> tempBuffer; atoi b };
        Some (pos1, pos2) }) }"

section \<open>The generated statements\<close>

datatype glue_stmt =
    Bool_input int int string | Bool_output int int string
  | Byte_input int string | Byte_output int string
  | Int_input int string | Int_output int string
  | Int_memory int string | Dint_memory int string | Lint_memory int string

definition semicolon :: string where
  "semicolon = CHR '';'' # [CHR 0x0D, CHR 0x0A]"

fun stmt_text :: "glue_stmt \<Rightarrow> string" where
  "stmt_text (Bool_input i j v) = CHR 0x09 # ''bool_input['' @ print_int i @ '']['' @ print_int j @ ''] = '' @ v @ semicolon"
| "stmt_text (Bool_output i j v) = CHR 0x09 # ''bool_output['' @ print_int i @ '']['' @ print_int j @ ''] = '' @ v @ semicolon"
| "stmt_text (Byte_input i v) = CHR 0x09 # ''byte_input['' @ print_int i @ ''] = '' @ v @ semicolon"
| "stmt_text (Byte_output i v) = CHR 0x09 # ''byte_output['' @ print_int i @ ''] = '' @ v @ semicolon"
| "stmt_text (Int_input i v) = CHR 0x09 # ''int_input['' @ print_int i @ ''] = '' @ v @ semicolon"
| "stmt_text (Int_output i v) = CHR 0x09 # ''int_output['' @ print_int i @ ''] = '' @ v @ semicolon"
| "stmt_text (Int_memory i v) = CHR 0x09 # ''int_memory['' @ print_int i @ ''] = '' @ v @ semicolon"
| "stmt_text (Dint_memory i v) = CHR 0x09 # ''dint_memory['' @ print_int i @ ''] = (IEC_DINT *)'' @ v @ semicolon"
| "stmt_text (Lint_memory i v) = CHR 0x09 # ''lint_memory['' @ print_int i @ ''] = (IEC_LINT *)'' @ v @ semicolon"

text \<open>
  \<open>glueVar\<close>: a second index of 8 or more is reported on the screen and used all the same. Another
  direction or size generates nothing.
\<close>

definition glueVar :: "string \<Rightarrow> glue_stmt list option" where
  "glueVar varName = do {
     (pos1, pos2) \<leftarrow> findPositions varName;
     dir \<leftarrow> arr_get (varName @ [NUL]) 2;
     size \<leftarrow> arr_get (varName @ [NUL]) 3;
     Some (
       if dir = CHR ''I'' then
         (if size = CHR ''X'' then [Bool_input pos1 pos2 varName]
          else if size = CHR ''B'' then [Byte_input pos1 varName]
          else if size = CHR ''W'' then [Int_input pos1 varName] else [])
       else if dir = CHR ''Q'' then
         (if size = CHR ''X'' then [Bool_output pos1 pos2 varName]
          else if size = CHR ''B'' then [Byte_output pos1 varName]
          else if size = CHR ''W'' then [Int_output pos1 varName] else [])
       else if dir = CHR ''M'' then
         (if size = CHR ''W'' then [Int_memory pos1 varName]
          else if size = CHR ''D'' then [Dint_memory pos1 varName]
          else if size = CHR ''L'' then [Lint_memory pos1 varName] else [])
       else []) }"

text \<open>
  The loop of \<open>main\<close> over the lines of the file. Both arrays are printed, so using them before they
  were assigned has no result.
\<close>

fun glue_lines :: "string list \<Rightarrow> string option \<times> string option \<Rightarrow> glue_stmt list option" where
  "glue_lines [] st = Some []"
| "glue_lines (line # rest) st = do {
     (varName, varType) \<leftarrow> parseIecVars line st;
     n \<leftarrow> varName;
     _ \<leftarrow> varType;
     ss \<leftarrow> glueVar n;
     ss' \<leftarrow> glue_lines rest (varName, varType);
     Some (ss @ ss') }"

definition generate_glueVars :: "string list \<Rightarrow> glue_stmt list option" where
  "generate_glueVars located = glue_lines located (None, None)"

section \<open>What the generated function does\<close>

text \<open>An assignment outside its table has no result.\<close>

definition set_tab1 :: "int \<Rightarrow> string \<Rightarrow> (nat \<Rightarrow> cell option) \<Rightarrow> (nat \<Rightarrow> cell option) option" where
  "set_tab1 i v tab =
     (if 0 \<le> i \<and> i < int BUFFER_SIZE then Some (tab(nat i := Some (Located v))) else None)"

definition set_tab2 ::
  "int \<Rightarrow> int \<Rightarrow> string \<Rightarrow> (nat \<Rightarrow> nat \<Rightarrow> cell option) \<Rightarrow> (nat \<Rightarrow> nat \<Rightarrow> cell option) option" where
  "set_tab2 i j v tab =
     (if 0 \<le> i \<and> i < int BUFFER_SIZE \<and> 0 \<le> j \<and> j < 8
      then Some (tab(nat i := (tab (nat i))(nat j := Some (Located v)))) else None)"

fun exec_stmt :: "glue_stmt \<Rightarrow> plc_io \<Rightarrow> plc_io option" where
  "exec_stmt (Bool_input i j v) m = do { t \<leftarrow> set_tab2 i j v (bool_input m); Some (m\<lparr>bool_input := t\<rparr>) }"
| "exec_stmt (Bool_output i j v) m = do { t \<leftarrow> set_tab2 i j v (bool_output m); Some (m\<lparr>bool_output := t\<rparr>) }"
| "exec_stmt (Byte_input i v) m = do { t \<leftarrow> set_tab1 i v (byte_input m); Some (m\<lparr>byte_input := t\<rparr>) }"
| "exec_stmt (Byte_output i v) m = do { t \<leftarrow> set_tab1 i v (byte_output m); Some (m\<lparr>byte_output := t\<rparr>) }"
| "exec_stmt (Int_input i v) m = do { t \<leftarrow> set_tab1 i v (int_input m); Some (m\<lparr>int_input := t\<rparr>) }"
| "exec_stmt (Int_output i v) m = do { t \<leftarrow> set_tab1 i v (int_output m); Some (m\<lparr>int_output := t\<rparr>) }"
| "exec_stmt (Int_memory i v) m = do { t \<leftarrow> set_tab1 i v (int_memory m); Some (m\<lparr>int_memory := t\<rparr>) }"
| "exec_stmt (Dint_memory i v) m = do { t \<leftarrow> set_tab1 i v (dint_memory m); Some (m\<lparr>dint_memory := t\<rparr>) }"
| "exec_stmt (Lint_memory i v) m = do { t \<leftarrow> set_tab1 i v (lint_memory m); Some (m\<lparr>lint_memory := t\<rparr>) }"

fun exec_glue :: "glue_stmt list \<Rightarrow> plc_io \<Rightarrow> plc_io option" where
  "exec_glue [] m = Some m"
| "exec_glue (s # ss) m = do { m \<leftarrow> exec_stmt s m; exec_glue ss m }"

section \<open>Declarations\<close>

text \<open>A located variable of the IEC program, and its line in the file.\<close>

record decl =
  dtype :: string
  ddir :: char
  dsize :: char
  dp1 :: nat
  dp2 :: "nat option"
  drest :: string

definition var_name :: "decl \<Rightarrow> string" where
  "var_name d = ''__'' @ ddir d # dsize d # print_nat (dp1 d) @
     (case dp2 d of None \<Rightarrow> [] | Some k \<Rightarrow> CHR ''_'' # print_nat k)"

definition decl_line :: "decl \<Rightarrow> string" where
  "decl_line d = ''__LOCATED_VAR('' @ dtype d @ CHR '','' # var_name d @ CHR '','' # drest d"

definition pos2_of :: "decl \<Rightarrow> nat" where
  "pos2_of d = (case dp2 d of None \<Rightarrow> 0 | Some k \<Rightarrow> k)"

definition well_formed :: "decl \<Rightarrow> bool" where
  "well_formed d \<longleftrightarrow> dtype d \<noteq> [] \<and> length (dtype d) < 100 \<and> (\<forall>c \<in> set (dtype d). c \<noteq> CHR '','') \<and>
     ddir d \<noteq> CHR '','' \<and> dsize d \<noteq> CHR '','' \<and> ddir d \<noteq> NUL \<and> dsize d \<noteq> NUL \<and>
     dp1 d < 2147483648 \<and> pos2_of d < 2147483648 \<and>
     length (var_name d) < 100 \<and> length (decl_line d) < 1024"

text \<open>The table and the index a declaration means.\<close>

fun stmt_of :: "decl \<Rightarrow> glue_stmt list" where
  "stmt_of d = (let i = int (dp1 d); j = int (pos2_of d); v = var_name d in
     if (ddir d, dsize d) = (CHR ''I'', CHR ''X'') then [Bool_input i j v]
     else if (ddir d, dsize d) = (CHR ''Q'', CHR ''X'') then [Bool_output i j v]
     else if (ddir d, dsize d) = (CHR ''I'', CHR ''B'') then [Byte_input i v]
     else if (ddir d, dsize d) = (CHR ''Q'', CHR ''B'') then [Byte_output i v]
     else if (ddir d, dsize d) = (CHR ''I'', CHR ''W'') then [Int_input i v]
     else if (ddir d, dsize d) = (CHR ''Q'', CHR ''W'') then [Int_output i v]
     else if (ddir d, dsize d) = (CHR ''M'', CHR ''W'') then [Int_memory i v]
     else if (ddir d, dsize d) = (CHR ''M'', CHR ''D'') then [Dint_memory i v]
     else if (ddir d, dsize d) = (CHR ''M'', CHR ''L'') then [Lint_memory i v]
     else [])"

declare stmt_of.simps [simp del]

lemma print_nat_no:
  "c \<in> set (print_nat n) \<Longrightarrow> c \<noteq> CHR ''_'' \<and> c \<noteq> NUL \<and> c \<noteq> CHR '',''"
  using print_nat_digits [of n] digit_not_space_sign(4-6) [of c] by blast

lemma findPositions_var_name:
  assumes "dp1 d < 2147483648" "pos2_of d < 2147483648"
  shows "findPositions (var_name d) = Some (int (dp1 d), int (pos2_of d))"
proof (cases "dp2 d")
  case None
  have "copy_until (\<lambda>c. c = CHR ''_'' \<or> c = NUL) (print_nat (dp1 d) @ [NUL]) = Some (print_nat (dp1 d), [NUL])"
    by (rule copy_until_append) (auto dest: print_nat_no)
  then show ?thesis
    using None assms(1) print_nat_nonempty [of "dp1 d"]
    by (simp add: findPositions_def var_name_def pos2_of_def atoi_print Let_def)
next
  case (Some k)
  have "copy_until (\<lambda>c. c = CHR ''_'' \<or> c = NUL) (print_nat (dp1 d) @ CHR ''_'' # print_nat k @ [NUL]) =
      Some (print_nat (dp1 d), CHR ''_'' # print_nat k @ [NUL])"
    by (rule copy_until_append) (auto dest: print_nat_no)
  moreover have "copy_until (\<lambda>c. c = NUL) (print_nat k @ [NUL]) = Some (print_nat k, [NUL])"
    by (rule copy_until_append) (auto dest: print_nat_no)
  ultimately show ?thesis
    using Some assms print_nat_nonempty [of "dp1 d"] print_nat_nonempty [of k]
    by (simp add: findPositions_def var_name_def pos2_of_def atoi_print Let_def)
qed

lemma glueVar_var_name:
  assumes "dp1 d < 2147483648" "pos2_of d < 2147483648"
  shows "glueVar (var_name d) = Some (stmt_of d)"
proof -
  have "arr_get (var_name d @ [NUL]) 2 = Some (ddir d)" "arr_get (var_name d @ [NUL]) 3 = Some (dsize d)"
    by (simp_all add: var_name_def arr_get_def)
  then show ?thesis
    by (simp add: glueVar_def findPositions_var_name [OF assms] stmt_of.simps Let_def)
qed

lemma parse_decl_line:
  assumes "well_formed d"
  shows "parseIecVars (decl_line d) st = Some (Some (var_name d), Some (dtype d))"
proof -
  let ?z = "NUL # replicate (1024 - Suc (length (decl_line d))) NUL"
  have "strncpy 1024 (decl_line d) = decl_line d @ ?z"
    using assms by (intro strncpy_short) (simp add: well_formed_def)
  also have "\<dots> = ''__LOCATED_VAR'' @ CHR ''('' # dtype d @ CHR '','' # var_name d @ CHR '','' # drest d @ ?z"
    by (simp add: decl_line_def)
  finally have line: "strncpy 1024 (decl_line d) = \<dots>" .
  have skip: "skip_until (\<lambda>c. c = CHR ''('') (strncpy 1024 (decl_line d)) =
      Some (CHR ''('' # dtype d @ CHR '','' # var_name d @ CHR '','' # drest d @ ?z)"
    unfolding line by (rule skip_until_append) simp_all
  have ty: "copy_until (\<lambda>c. c = CHR '','') (dtype d @ CHR '','' # r) = Some (dtype d, CHR '','' # r)" for r
    using assms by (intro copy_until_append) (auto simp: well_formed_def)
  have nm: "copy_until (\<lambda>c. c = CHR '','') (var_name d @ CHR '','' # r) = Some (var_name d, CHR '','' # r)" for r
    using assms by (intro copy_until_append)
      (auto simp: well_formed_def var_name_def dest: print_nat_no split: option.splits)
  have "var_name d \<noteq> []" by (simp add: var_name_def)
  then show ?thesis
    using assms by (simp add: parseIecVars_def skip copy_field_def ty nm fits_def well_formed_def Let_def split: prod.split)
qed

lemma glue_lines_decls:
  "(\<forall>d \<in> set ds. well_formed d) \<Longrightarrow> glue_lines (map decl_line ds) st = Some (concat (map stmt_of ds))"
proof (induction ds arbitrary: st)
  case (Cons d ds)
  then have "well_formed d" by simp
  then show ?case
    using Cons by (simp add: parse_decl_line glueVar_var_name well_formed_def)
qed simp

section \<open>Executing the generated function\<close>

type_synonym address = "char \<times> char \<times> nat \<times> nat"

definition pointer_at :: "plc_io \<Rightarrow> address \<Rightarrow> cell option" where
  "pointer_at m a = (case a of (dir, sz, i, j) \<Rightarrow>
     if (dir, sz) = (CHR ''I'', CHR ''X'') then bool_input m i j
     else if (dir, sz) = (CHR ''Q'', CHR ''X'') then bool_output m i j
     else if (dir, sz) = (CHR ''I'', CHR ''B'') then byte_input m i
     else if (dir, sz) = (CHR ''Q'', CHR ''B'') then byte_output m i
     else if (dir, sz) = (CHR ''I'', CHR ''W'') then int_input m i
     else if (dir, sz) = (CHR ''Q'', CHR ''W'') then int_output m i
     else if (dir, sz) = (CHR ''M'', CHR ''W'') then int_memory m i
     else if (dir, sz) = (CHR ''M'', CHR ''D'') then dint_memory m i
     else if (dir, sz) = (CHR ''M'', CHR ''L'') then lint_memory m i
     else None)"

definition addr :: "decl \<Rightarrow> address" where
  "addr d = (ddir d, dsize d, dp1 d, if dsize d = CHR ''X'' then pos2_of d else 0)"

definition addressable :: "decl \<Rightarrow> bool" where
  "addressable d \<longleftrightarrow> dp1 d < 1024 \<and> (dsize d = CHR ''X'' \<longrightarrow> pos2_of d < 8) \<and>
     (ddir d, dsize d) \<in> {(CHR ''I'', CHR ''X''), (CHR ''Q'', CHR ''X''), (CHR ''I'', CHR ''B''),
        (CHR ''Q'', CHR ''B''), (CHR ''I'', CHR ''W''), (CHR ''Q'', CHR ''W''), (CHR ''M'', CHR ''W''),
        (CHR ''M'', CHR ''D''), (CHR ''M'', CHR ''L'')}"

lemma exec_glue_append: "exec_glue (xs @ ys) m = do { m \<leftarrow> exec_glue xs m; exec_glue ys m }"
  by (induction xs arbitrary: m) (auto split: bind_split)

lemma pointer_at_update:
  "pointer_at (m\<lparr>bool_input := t2\<rparr>) (dir, sz, i, j) =
     (if dir = CHR ''I'' \<and> sz = CHR ''X'' then t2 i j else pointer_at m (dir, sz, i, j))"
  "pointer_at (m\<lparr>bool_output := t2\<rparr>) (dir, sz, i, j) =
     (if dir = CHR ''Q'' \<and> sz = CHR ''X'' then t2 i j else pointer_at m (dir, sz, i, j))"
  "pointer_at (m\<lparr>byte_input := t1\<rparr>) (dir, sz, i, j) =
     (if dir = CHR ''I'' \<and> sz = CHR ''B'' then t1 i else pointer_at m (dir, sz, i, j))"
  "pointer_at (m\<lparr>byte_output := t1\<rparr>) (dir, sz, i, j) =
     (if dir = CHR ''Q'' \<and> sz = CHR ''B'' then t1 i else pointer_at m (dir, sz, i, j))"
  "pointer_at (m\<lparr>int_input := t1\<rparr>) (dir, sz, i, j) =
     (if dir = CHR ''I'' \<and> sz = CHR ''W'' then t1 i else pointer_at m (dir, sz, i, j))"
  "pointer_at (m\<lparr>int_output := t1\<rparr>) (dir, sz, i, j) =
     (if dir = CHR ''Q'' \<and> sz = CHR ''W'' then t1 i else pointer_at m (dir, sz, i, j))"
  "pointer_at (m\<lparr>int_memory := t1\<rparr>) (dir, sz, i, j) =
     (if dir = CHR ''M'' \<and> sz = CHR ''W'' then t1 i else pointer_at m (dir, sz, i, j))"
  "pointer_at (m\<lparr>dint_memory := t1\<rparr>) (dir, sz, i, j) =
     (if dir = CHR ''M'' \<and> sz = CHR ''D'' then t1 i else pointer_at m (dir, sz, i, j))"
  "pointer_at (m\<lparr>lint_memory := t1\<rparr>) (dir, sz, i, j) =
     (if dir = CHR ''M'' \<and> sz = CHR ''L'' then t1 i else pointer_at m (dir, sz, i, j))"
  by (simp_all add: pointer_at_def)

lemma pointer_at_cases:
  "pointer_at m (CHR ''I'', CHR ''X'', i, j) = bool_input m i j"
  "pointer_at m (CHR ''Q'', CHR ''X'', i, j) = bool_output m i j"
  "pointer_at m (CHR ''I'', CHR ''B'', i, j) = byte_input m i"
  "pointer_at m (CHR ''Q'', CHR ''B'', i, j) = byte_output m i"
  "pointer_at m (CHR ''I'', CHR ''W'', i, j) = int_input m i"
  "pointer_at m (CHR ''Q'', CHR ''W'', i, j) = int_output m i"
  "pointer_at m (CHR ''M'', CHR ''W'', i, j) = int_memory m i"
  "pointer_at m (CHR ''M'', CHR ''D'', i, j) = dint_memory m i"
  "pointer_at m (CHR ''M'', CHR ''L'', i, j) = lint_memory m i"
  by (simp_all add: pointer_at_def)

text \<open>What the statement of one declaration changes: the pointer at its address.\<close>

lemma exec_stmt_of:
  assumes "addressable d" "snd (snd (snd a)) = 0 \<or> fst (snd a) = CHR ''X''"
  shows "\<exists>m'. exec_glue (stmt_of d) m = Some m' \<and> bufferLock m' = bufferLock m \<and>
     u8_heap m' = u8_heap m \<and> u16_heap m' = u16_heap m \<and>
     pointer_at m' a = (if a = addr d then Some (Located (var_name d)) else pointer_at m a)"
proof -
  obtain dir sz i j where a: "a = (dir, sz, i, j)" by (cases a)
  have legal: "(ddir d, dsize d) \<in> {(CHR ''I'', CHR ''X''), (CHR ''Q'', CHR ''X''), (CHR ''I'', CHR ''B''),
        (CHR ''Q'', CHR ''B''), (CHR ''I'', CHR ''W''), (CHR ''Q'', CHR ''W''), (CHR ''M'', CHR ''W''),
        (CHR ''M'', CHR ''D''), (CHR ''M'', CHR ''L'')}"
    and r: "dp1 d < 1024" "dsize d = CHR ''X'' \<Longrightarrow> pos2_of d < 8"
    using assms(1) by (simp_all add: addressable_def)
  show ?thesis
    using legal unfolding a
    by (elim insertE emptyE; insert r assms(2))
       (auto simp add: a addr_def stmt_of.simps set_tab1_def set_tab2_def BUFFER_SIZE_def Let_def
          pointer_at_update pointer_at_cases)
qed

text \<open>C14: From the variables of a program to the pointers of the runtime: for lines the IEC compiler
  writes for located variables with distinct addresses in the tables, the generated function points
  the entry at the address of each variable to that variable, and changes no other entry and no
  value.\<close>

theorem glue_points_every_variable:
  assumes "\<forall>d \<in> set ds. well_formed d \<and> addressable d" "distinct (map addr ds)"
  shows "\<exists>ss m'. generate_glueVars (map decl_line ds) = Some ss \<and> exec_glue ss m = Some m' \<and>
     (\<forall>d \<in> set ds. pointer_at m' (addr d) = Some (Located (var_name d))) \<and>
     (\<forall>dir sz i j. (dir, sz, i, j) \<notin> set (map addr ds) \<and> (j = 0 \<or> sz = CHR ''X'') \<longrightarrow>
        pointer_at m' (dir, sz, i, j) = pointer_at m (dir, sz, i, j)) \<and>
     u8_heap m' = u8_heap m \<and> u16_heap m' = u16_heap m \<and> bufferLock m' = bufferLock m"
proof -
  have "\<exists>m'. exec_glue (concat (map stmt_of ds)) m = Some m' \<and>
     (\<forall>d \<in> set ds. pointer_at m' (addr d) = Some (Located (var_name d))) \<and>
     (\<forall>a. a \<notin> set (map addr ds) \<and> (snd (snd (snd a)) = 0 \<or> fst (snd a) = CHR ''X'') \<longrightarrow>
        pointer_at m' a = pointer_at m a) \<and>
     u8_heap m' = u8_heap m \<and> u16_heap m' = u16_heap m \<and> bufferLock m' = bufferLock m"
    using assms
  proof (induction ds arbitrary: m)
    case Nil
    then show ?case by simp
  next
    case (Cons d ds)
    have ok: "snd (snd (snd (addr e))) = 0 \<or> fst (snd (addr e)) = CHR ''X''" for e
      by (simp add: addr_def)
    have d: "addressable d" using Cons.prems by simp
    obtain m1 where m1: "exec_glue (stmt_of d) m = Some m1"
      using exec_stmt_of [OF d ok [of d], of m] by blast
    have at1: "pointer_at m1 a = (if a = addr d then Some (Located (var_name d)) else pointer_at m a)"
      if "snd (snd (snd a)) = 0 \<or> fst (snd a) = CHR ''X''" for a
      using exec_stmt_of [OF d that, of m] m1 by auto
    have heaps1: "u8_heap m1 = u8_heap m" "u16_heap m1 = u16_heap m" "bufferLock m1 = bufferLock m"
      using exec_stmt_of [OF d ok [of d], of m] m1 by auto
    have "\<forall>e \<in> set ds. well_formed e \<and> addressable e" "distinct (map addr ds)"
      using Cons.prems by simp_all
    from Cons.IH [OF this, of m1] obtain m' where m': "exec_glue (concat (map stmt_of ds)) m1 = Some m'"
      "\<forall>e \<in> set ds. pointer_at m' (addr e) = Some (Located (var_name e))"
      "\<forall>a. a \<notin> set (map addr ds) \<and> (snd (snd (snd a)) = 0 \<or> fst (snd a) = CHR ''X'') \<longrightarrow>
        pointer_at m' a = pointer_at m1 a"
      "u8_heap m' = u8_heap m1" "u16_heap m' = u16_heap m1" "bufferLock m' = bufferLock m1" by blast
    have new: "addr d \<notin> set (map addr ds)" using Cons.prems by simp
    then have "pointer_at m' (addr d) = Some (Located (var_name d))"
      using m'(3) [rule_format, of "addr d"] ok at1 [OF ok] by simp
    then show ?case
      using m1 m' at1 heaps1 by (auto simp: exec_glue_append)
  qed
  moreover have "generate_glueVars (map decl_line ds) = Some (concat (map stmt_of ds))"
    using assms(1) glue_lines_decls by (auto simp: generate_glueVars_def)
  ultimately show ?thesis by (metis fst_conv snd_conv)
qed

definition demo_decls :: "decl list" where
  "demo_decls = [
     \<lparr>dtype = ''BOOL'', ddir = CHR ''I'', dsize = CHR ''X'', dp1 = 0, dp2 = Some 1, drest = ''I,X,0,1)''\<rparr>,
     \<lparr>dtype = ''INT'', ddir = CHR ''Q'', dsize = CHR ''W'', dp1 = 12, dp2 = None, drest = ''Q,W,12)''\<rparr>]"

lemma print_nat_demo:
  "print_nat 0 = ''0''" "print_nat 1 = ''1''" "print_nat (Suc 0) = ''1''" "print_nat 5 = ''5''" "print_nat 9 = ''9''"
  "print_nat 12 = ''12''"
  by code_simp+

lemma demo_decls_ok: "\<forall>d \<in> set demo_decls. well_formed d \<and> addressable d" "distinct (map addr demo_decls)"
  and demo_lines: "map decl_line demo_decls =
    [''__LOCATED_VAR(BOOL,__IX0_1,I,X,0,1)'', ''__LOCATED_VAR(INT,__QW12,Q,W,12)'']"
  by (simp_all add: demo_decls_def well_formed_def addressable_def addr_def decl_line_def var_name_def
      pos2_of_def print_nat_demo)

theorem glue_points_every_variable_witness:
  "\<forall>m. \<exists>ss m'. generate_glueVars [''__LOCATED_VAR(BOOL,__IX0_1,I,X,0,1)'', ''__LOCATED_VAR(INT,__QW12,Q,W,12)'']
       = Some ss \<and> exec_glue ss m = Some m' \<and> (\<exists>v. bool_input m' 0 1 = Some v) \<and> int_output m' 3 = int_output m 3"
proof
  fix m
  obtain ss m' where ss: "generate_glueVars (map decl_line demo_decls) = Some ss" "exec_glue ss m = Some m'"
      "\<forall>d \<in> set demo_decls. pointer_at m' (addr d) = Some (Located (var_name d))"
      "\<forall>dir sz i j. (dir, sz, i, j) \<notin> set (map addr demo_decls) \<and> (j = 0 \<or> sz = CHR ''X'') \<longrightarrow>
        pointer_at m' (dir, sz, i, j) = pointer_at m (dir, sz, i, j)"
    using glue_points_every_variable [OF demo_decls_ok, of m] by blast
  have "\<exists>v. bool_input m' 0 1 = Some v"
    using ss(3) by (simp add: demo_decls_def addr_def pos2_of_def pointer_at_cases)
  moreover have "int_output m' 3 = int_output m 3"
    using ss(4) [rule_format, of "CHR ''Q''" "CHR ''W''" 3 0]
    by (simp add: demo_decls_def addr_def pos2_of_def pointer_at_cases)
  ultimately show "\<exists>ss m'. generate_glueVars [''__LOCATED_VAR(BOOL,__IX0_1,I,X,0,1)'', ''__LOCATED_VAR(INT,__QW12,Q,W,12)'']
       = Some ss \<and> exec_glue ss m = Some m' \<and> (\<exists>v. bool_input m' 0 1 = Some v) \<and> int_output m' 3 = int_output m 3"
    using ss(1,2) unfolding demo_lines by blast
qed

text \<open>A bit index of 8 or more is only reported: the generated assignment is written all the
  same, and running it leaves the table.\<close>

theorem glue_bit_index_unchecked:
  assumes "well_formed d" "dsize d = CHR ''X''" "ddir d = CHR ''I'' \<or> ddir d = CHR ''Q''" "8 \<le> pos2_of d"
  shows "\<exists>ss. generate_glueVars [decl_line d] = Some ss \<and> ss \<noteq> [] \<and> exec_glue ss m = None"
proof -
  have gen: "generate_glueVars [decl_line d] = Some (stmt_of d)"
    using assms(1) glue_lines_decls [of "[d]" "(None, None)"] by (simp add: generate_glueVars_def)
  have out: "set_tab2 i (int (pos2_of d)) v tab = None" for i v tab
    using assms(4) by (simp add: set_tab2_def)
  from assms(3) have "stmt_of d \<noteq> [] \<and> exec_glue (stmt_of d) m = None"
    using assms(2) by (elim disjE) (simp_all add: stmt_of.simps Let_def out)
  with gen show ?thesis by blast
qed

theorem glue_bit_index_unchecked_witness:
  "\<forall>m. \<exists>ss. generate_glueVars [decl_line \<lparr>dtype = ''BOOL'', ddir = CHR ''Q'', dsize = CHR ''X'', dp1 = 0, dp2 = Some 9, drest = []\<rparr>]
     = Some ss \<and> exec_glue ss m = None"
  apply (rule allI)
  subgoal for m
  using glue_bit_index_unchecked
    [of "\<lparr>dtype = ''BOOL'', ddir = CHR ''Q'', dsize = CHR ''X'', dp1 = 0, dp2 = Some 9, drest = []\<rparr>" m]
  by (simp add: well_formed_def decl_line_def var_name_def pos2_of_def print_nat_demo)
     blast
  done

text \<open>The reader trusts its file: a line without a parenthesis is searched past the end of the
  buffer, and a second index without digits repeats the first one.\<close>

theorem glue_reader_unchecked:
  assumes "\<forall>c \<in> set line. c \<noteq> CHR ''(''" "n < 2147483648"
  shows "parseIecVars line st = None \<and>
     findPositions (''__QX'' @ print_nat n @ ''_'') = Some (int n, int n)"
proof
  have "\<forall>c \<in> set (strncpy 1024 line). c \<noteq> CHR ''(''"
    using assms(1) by (auto dest!: set_strncpy)
  then have "skip_until (\<lambda>c. c = CHR ''('') (strncpy 1024 line) = None"
    by (simp add: skip_until_None)
  then show "parseIecVars line st = None"
    by (simp add: parseIecVars_def Let_def split: prod.splits)
  have "copy_until (\<lambda>c. c = CHR ''_'' \<or> c = NUL) (print_nat n @ CHR ''_'' # [NUL]) =
      Some (print_nat n, CHR ''_'' # [NUL])"
    by (rule copy_until_append) (auto dest: print_nat_no)
  then show "findPositions (''__QX'' @ print_nat n @ ''_'') = Some (int n, int n)"
    using assms(2) print_nat_nonempty [of n] by (simp add: findPositions_def atoi_print Let_def)
qed

theorem glue_reader_unchecked_witness:
  "parseIecVars ''BOOL,__IX0_1'' (None, None) = None \<and> findPositions ''__QX5_'' = Some (5, 5)"
  using glue_reader_unchecked [of "''BOOL,__IX0_1''" 5 "(None, None)"]
  by (simp add: print_nat_demo)

end
