(* ===== verification/StOptimizer.thy ===== *)
theory StOptimizer
  imports Prelude
begin

text \<open>
  \<open>src/st_optimizer_src/st_optimizer.cpp\<close>: the filter that joins the bodies of equal IF statements
  of a structured-text file. A file is the list of its lines; \<open>None\<close> is the exception
  \<open>std::out_of_range\<close> of \<open>string::at\<close>, which nothing catches.
\<close>

section \<open>Recognising statements\<close>

definition first_nonblank :: "string \<Rightarrow> nat" where
  "first_nonblank line = length (takeWhile (\<lambda>c. c = CHR '' '') line)"

text \<open>\<open>line.at(i) == c0 && line.at(i+1) == c1 && ...\<close>, from left to right.\<close>

fun at_matches :: "string \<Rightarrow> nat \<Rightarrow> string \<Rightarrow> bool option" where
  "at_matches line i [] = Some True"
| "at_matches line i (c # cs) = do {
     x \<leftarrow> arr_get line i;
     (if x = c then at_matches line (Suc i) cs else Some False) }"

definition is_IF_statement :: "string \<Rightarrow> bool option" where
  "is_IF_statement line =
     (let i = first_nonblank line in
      if length line \<ge> 3 \<and> i < length line then at_matches line i ''IF '' else Some False)"

definition is_END_IF_statement :: "string \<Rightarrow> bool option" where
  "is_END_IF_statement line =
     (let i = first_nonblank line in
      if length line \<ge> 7 then at_matches line i ''END_IF;'' else Some False)"

section \<open>Joining\<close>

text \<open>\<open>count_for_break\<close> after a line.\<close>

definition next_count :: "nat \<Rightarrow> string \<Rightarrow> nat option" where
  "next_count count line = do {
     b \<leftarrow> is_IF_statement line;
     (if b then Some (count + 1)
      else do { e \<leftarrow> is_END_IF_statement line; Some (if e then count - 1 else count) }) }"

text \<open>
  The lines up to the one that ends the statement, that line and the rest; no such line at the end
  of the file (\<open>None\<close> inside).
\<close>

fun take_block :: "nat \<Rightarrow> string list \<Rightarrow> (string list \<times> (string \<times> string list) option) option" where
  "take_block count [] = Some ([], None)"
| "take_block count (line # rest) = do {
     count \<leftarrow> next_count count line;
     (if count = 0 then Some ([], Some (line, rest))
      else do { (w, r) \<leftarrow> take_block count rest; Some (line # w, r) }) }"

text \<open>
  The bodies of the statements of the rest of the file whose first line is \<open>if_statement\<close>, at any
  depth; \<open>count\<close> is 0 outside of them.
\<close>

fun collect_bodies :: "string \<Rightarrow> nat \<Rightarrow> string list \<Rightarrow> string list option" where
  "collect_bodies if_statement count [] = Some []"
| "collect_bodies if_statement count (line # rest) =
     (if count = 0
      then collect_bodies if_statement (if line = if_statement then 1 else 0) rest
      else do {
        count \<leftarrow> next_count count line;
        (if count = 0 then collect_bodies if_statement 0 rest
         else do { w \<leftarrow> collect_bodies if_statement count rest; Some (line # w) }) })"

lemma take_block_shorter: "take_block c ls = Some (w, Some (e, r)) \<Longrightarrow> length r < length ls"
proof (induction c ls arbitrary: w rule: take_block.induct)
  case (2 c line rest)
  then show ?case by (fastforce simp: bind_eq_Some_conv split: if_splits)
qed simp

text \<open>
  The main loop. After a statement it goes on with the line after its end; a statement that never
  ends is closed with what \<open>getline\<close> left in \<open>line\<close> at the end of the file.
\<close>

function optimize_lines :: "string \<Rightarrow> string list \<Rightarrow> string list \<Rightarrow> string list option" where
  "optimize_lines eof_line list_of_IFs [] = Some []"
| "optimize_lines eof_line list_of_IFs (line # rest) = (case is_IF_statement line of
     None \<Rightarrow> None
   | Some False \<Rightarrow> map_option (\<lambda>out. line # out) (optimize_lines eof_line list_of_IFs rest)
   | Some True \<Rightarrow> (case take_block 1 rest of
       None \<Rightarrow> None
     | Some (body, None) \<Rightarrow>
         Some (if line \<in> set list_of_IFs then [] else line # body @ [eof_line])
     | Some (body, Some (end_if, rest')) \<Rightarrow>
         if line \<in> set list_of_IFs then optimize_lines eof_line list_of_IFs rest'
         else (case collect_bodies line 0 rest' of
             None \<Rightarrow> None
           | Some more \<Rightarrow> map_option (\<lambda>out. line # body @ more @ end_if # out)
               (optimize_lines eof_line (list_of_IFs @ [line]) rest'))))"
  by pat_completeness auto
termination
  by (relation "measure (\<lambda>(e, i, ls). length ls)") (auto dest!: take_block_shorter)

text \<open>The program: the lines of the input, whether its last line ends in a newline, and the output.\<close>

definition st_optimizer :: "string list \<Rightarrow> bool \<Rightarrow> string list option" where
  "st_optimizer stfile newline_at_end =
     optimize_lines (if newline_at_end \<or> stfile = [] then [] else last stfile) [] stfile"

section \<open>Plain lines\<close>

text \<open>A plain line is recognised as neither statement.\<close>

definition plain :: "string \<Rightarrow> bool" where
  "plain line \<longleftrightarrow> is_IF_statement line = Some False \<and> is_END_IF_statement line = Some False"

definition opens :: "string \<Rightarrow> bool" where
  "opens line \<longleftrightarrow> is_IF_statement line = Some True"

definition closes :: "string \<Rightarrow> bool" where
  "closes line \<longleftrightarrow> is_IF_statement line = Some False \<and> is_END_IF_statement line = Some True"


lemma next_count_simps [simp]:
  "opens l \<Longrightarrow> next_count c l = Some (Suc c)"
  "closes l \<Longrightarrow> next_count c l = Some (c - 1)"
  "plain l \<Longrightarrow> next_count c l = Some c"
  by (simp_all add: opens_def closes_def plain_def next_count_def)

lemma line_kinds:
  "opens l \<Longrightarrow> \<not> closes l" "opens l \<Longrightarrow> \<not> plain l" "closes l \<Longrightarrow> \<not> plain l"
  by (simp_all add: opens_def closes_def plain_def)


lemma collect_none: "l \<notin> set ls \<Longrightarrow> collect_bodies l 0 ls = Some []"
  by (induction ls) auto



section \<open>Equal statements\<close>

lemma take_block_plain:
  assumes "\<forall>l \<in> set w. plain l" "closes e"
  shows "take_block 1 (w @ e # r) = Some (w, Some (e, r))"
  using assms by (induction w) simp_all

lemma collect_plain_block:
  assumes "\<forall>l \<in> set w. plain l" "closes e"
  shows "collect_bodies c 1 (w @ e # r) = map_option (\<lambda>out. w @ out) (collect_bodies c 0 r)"
  using assms
proof (induction w)
  case Nil
  then show ?case by (cases "collect_bodies c 0 r") simp_all
next
  case (Cons a w)
  then show ?case by (cases "collect_bodies c 0 r") simp_all
qed

lemma collect_skip: "c \<notin> set w \<Longrightarrow> collect_bodies c 0 (w @ r) = collect_bodies c 0 r"
  by (induction w) auto

lemma optimize_plain: "\<forall>l \<in> set w. plain l \<Longrightarrow>
     optimize_lines eof ifs (w @ r) = map_option (\<lambda>out. w @ out) (optimize_lines eof ifs r)"
proof (induction w)
  case Nil
  then show ?case by (cases "optimize_lines eof ifs r") simp_all
next
  case (Cons a w)
  then show ?case by (cases "optimize_lines eof ifs r") (simp_all add: plain_def)
qed

text \<open>Two IF statements with the same first line are joined into the first: the second body moves
  before everything that stood between the statements, so what lay between no longer runs between
  the two tests of the condition.\<close>

theorem equal_IFs_joined:
  assumes "opens c" "closes e1" "closes e2"
    and "\<forall>l \<in> set (body1 @ between @ body2 @ after). plain l"
  shows "st_optimizer (c # body1 @ e1 # between @ c # body2 @ e2 # after) nl =
     Some (c # body1 @ body2 @ e1 # between @ after)"
proof -
  have p: "\<forall>l \<in> set body1. plain l" "\<forall>l \<in> set between. plain l" "\<forall>l \<in> set body2. plain l" "\<forall>l \<in> set after. plain l"
    using assms(4) by auto
  have notin: "c \<notin> set between" "c \<notin> set after" using p(2,4) assms(1) line_kinds(2) by blast+
  have if_c: "is_IF_statement c = Some True" using assms(1) by (simp add: opens_def)
  let ?rest = "between @ c # body2 @ e2 # after"
  have collect: "collect_bodies c 0 ?rest = Some body2"
    using collect_skip [OF notin(1)] collect_plain_block [OF p(3) assms(3)] collect_none [OF notin(2)] by simp
  have second: "optimize_lines eof [c] ?rest = Some (between @ after)" for eof
    using optimize_plain [OF p(2)] optimize_plain [OF p(4), of eof "[c]" "[]"] if_c
      take_block_plain [OF p(3) assms(3)] by simp
  show ?thesis
    using if_c take_block_plain [OF p(1) assms(2)] collect second by (simp add: st_optimizer_def)
qed

theorem equal_IFs_joined_witness:
  "st_optimizer [''IF a THEN'', ''x := 1;'', ''END_IF;'', ''a := FALSE;'', ''IF a THEN'', ''x := 2;'', ''END_IF;'', ''y := x;''] True =
     Some [''IF a THEN'', ''x := 1;'', ''x := 2;'', ''END_IF;'', ''a := FALSE;'', ''y := x;'']"
proof -
  have "st_optimizer (''IF a THEN'' # [''x := 1;''] @ ''END_IF;'' # [''a := FALSE;''] @
      ''IF a THEN'' # [''x := 2;''] @ ''END_IF;'' # [''y := x;'']) True =
    Some (''IF a THEN'' # [''x := 1;''] @ [''x := 2;''] @ ''END_IF;'' # [''a := FALSE;''] @ [''y := x;''])"
    by (rule equal_IFs_joined)
       (simp_all add: opens_def closes_def plain_def is_IF_statement_def is_END_IF_statement_def
          first_nonblank_def arr_get_def)
  then show ?thesis by simp
qed

text \<open>The search for equal statements looks at every later line, also inside other IF statements,
  although only first-level statements are meant: the body of a nested statement is copied to the
  first one and stays where it was, so it may run twice.\<close>

theorem nested_IF_body_duplicated:
  assumes "opens c" "opens d" "c \<noteq> d" "closes e1" "closes e2" "closes e3"
    and "\<forall>l \<in> set (body1 @ body2). plain l"
  shows "st_optimizer (c # body1 @ e1 # d # c # body2 @ [e2, e3]) nl =
     Some (c # body1 @ body2 @ e1 # d # c # body2 @ [e2, e3])"
proof -
  have p: "\<forall>l \<in> set body1. plain l" "\<forall>l \<in> set body2. plain l" using assms(7) by auto
  have ifs: "is_IF_statement c = Some True" "is_IF_statement d = Some True"
    using assms(1,2) by (simp_all add: opens_def)
  have not_c: "e3 \<noteq> c" "\<not> opens e3" using assms(1,6) line_kinds(1) by blast+
  have collect: "collect_bodies c 0 (d # c # body2 @ [e2, e3]) = Some body2"
    using assms(3) collect_plain_block [OF p(2) assms(5), of c "[e3]"] not_c by simp
  have "take_block 1 (c # body2 @ [e2, e3]) = Some (c # body2 @ [e2], Some (e3, []))"
  proof -
    have "take_block 2 (w @ [e2, e3]) = Some (w @ [e2], Some (e3, []))" if "\<forall>l \<in> set w. plain l" for w
      using that assms(5,6) by (induction w) simp_all
    then show ?thesis using p(2) assms(1) by (simp add: numeral_2_eq_2)
  qed
  then have "optimize_lines eof [c] (d # c # body2 @ [e2, e3]) = Some (d # c # body2 @ [e2, e3])" for eof
    using ifs(2) assms(3) by simp
  then show ?thesis
    using ifs(1) take_block_plain [OF p(1) assms(4)] collect by (simp add: st_optimizer_def)
qed

theorem nested_IF_body_duplicated_witness:
  "st_optimizer [''IF a THEN'', ''x := 1;'', ''END_IF;'', ''IF b THEN'', ''IF a THEN'', ''n := n + 1;'', ''END_IF;'', ''END_IF;''] True =
     Some [''IF a THEN'', ''x := 1;'', ''n := n + 1;'', ''END_IF;'', ''IF b THEN'', ''IF a THEN'', ''n := n + 1;'', ''END_IF;'', ''END_IF;'']"
proof -
  have "st_optimizer (''IF a THEN'' # [''x := 1;''] @ ''END_IF;'' # ''IF b THEN'' # ''IF a THEN'' #
      [''n := n + 1;''] @ [''END_IF;'', ''END_IF;'']) True =
    Some (''IF a THEN'' # [''x := 1;''] @ [''n := n + 1;''] @ ''END_IF;'' # ''IF b THEN'' # ''IF a THEN'' #
      [''n := n + 1;''] @ [''END_IF;'', ''END_IF;''])"
    by (rule nested_IF_body_duplicated)
       (simp_all add: opens_def closes_def plain_def is_IF_statement_def is_END_IF_statement_def
          first_nonblank_def arr_get_def)
  then show ?thesis by simp
qed

text \<open>A line of seven or more blanks inside an IF statement ends the program with an exception,
  and so does a line anywhere whose only word is \<open>I\<close> after two or more blanks.\<close>

theorem blank_line_crash:
  assumes "opens c" "\<forall>l \<in> set w. plain l" "7 \<le> n" "2 \<le> k"
  shows "st_optimizer (c # w @ replicate n CHR '' '' # rest) nl = None \<and>
     st_optimizer (w @ (replicate k CHR '' '' @ ''I'') # rest) nl = None"
proof -
  have blanks: "takeWhile (\<lambda>x. x = CHR '' '') (replicate m CHR '' '' @ s) = replicate m CHR '' ''
      @ takeWhile (\<lambda>x. x = CHR '' '') s" for m s
    by (rule takeWhile_append2) simp
  have "next_count j (replicate n CHR '' '') = None" for j
    using assms(3) blanks [of n "[]"]
    by (simp add: next_count_def is_IF_statement_def is_END_IF_statement_def first_nonblank_def arr_get_def)
  then have "take_block 1 (w @ replicate n CHR '' '' # rest) = None"
    using assms(2) by (induction w) simp_all
  then have 1: "st_optimizer (c # w @ replicate n CHR '' '' # rest) nl = None"
    using assms(1) by (simp add: st_optimizer_def opens_def)
  have "is_IF_statement (replicate k CHR '' '' @ ''I'') = None"
    using assms(4) blanks [of k "''I''"]
    by (simp add: is_IF_statement_def first_nonblank_def arr_get_def nth_append)
  then have "optimize_lines eof [] (w @ (replicate k CHR '' '' @ ''I'') # rest) = None" for eof
    using optimize_plain [OF assms(2)] by simp
  then show ?thesis using 1 by (simp add: st_optimizer_def)
qed

theorem blank_line_crash_witness:
  "st_optimizer [''IF a THEN'', ''x := 1;'', ''       '', ''END_IF;''] True = None \<and>
   st_optimizer [''x := 1;'', ''  I''] True = None"
proof -
  have "st_optimizer (''IF a THEN'' # [''x := 1;''] @ replicate 7 CHR '' '' # [''END_IF;'']) True = None \<and>
    st_optimizer ([''x := 1;''] @ (replicate 2 CHR '' '' @ ''I'') # [''END_IF;'']) True = None"
    by (rule blank_line_crash)
       (simp_all add: opens_def plain_def is_IF_statement_def is_END_IF_statement_def first_nonblank_def arr_get_def)
  moreover have "st_optimizer ([''x := 1;''] @ (replicate 2 CHR '' '' @ ''I'') # []) True = None"
    by (rule blank_line_crash [of "''IF a THEN''" "[''x := 1;'']" 7 2 "[]" True, THEN conjunct2])
       (simp_all add: opens_def plain_def is_IF_statement_def is_END_IF_statement_def first_nonblank_def arr_get_def)
  ultimately show ?thesis by (simp add: numeral_eq_Suc)
qed

end
