(* ===== verification/ModbusMaster.thy ===== *)
theory ModbusMaster
  imports MainLoop CString
begin

text \<open>
  The Modbus master layer \<open>src/core/hardware_layers/modbus_master.cpp\<close>: the reader of
  \<open>mbconfig.cfg\<close>, the thread that polls the slave devices and the two functions the main loop
  calls. The program reaches the devices through libmodbus only; what that library answers in one
  pass is a parameter (\<open>mb_answer\<close>), and the calls it gets are the result (\<open>mb_call\<close>).
\<close>

unbundle bit_operations_syntax

section \<open>Data\<close>

definition MB_TCP :: u8 where "MB_TCP = 1"
definition MB_RTU :: u8 where "MB_RTU = 2"
definition MAX_MB_IO :: nat where "MAX_MB_IO = 400"

text \<open>
  A context of libmodbus is the arguments it was made from. A character array is the string in it;
  the fields of a device nobody has set are what \<open>malloc\<close> left in the memory.
\<close>

datatype mb_context =
    New_tcp string u16
  | New_rtu string c_int char c_int c_int

record mb_address =
  start_address :: u16
  num_regs :: u16

record mb_device =
  mb_ctx :: "mb_context option"
  dev_name :: string
  protocol :: u8
  dev_address :: string
  ip_port :: u16
  rtu_baud :: c_int
  rtu_parity :: char
  rtu_data_bit :: c_int
  rtu_stop_bit :: c_int
  dev_id :: u8
  isConnected :: bool
  discrete_inputs :: mb_address
  coils :: mb_address
  input_registers :: mb_address
  holding_registers :: mb_address

text \<open>
  The globals of the file. \<open>mb_devices\<close> has \<open>num_devices\<close> elements; it is the null pointer, here
  the empty list, until the configuration is read.
\<close>

record mb_master =
  bool_input_buf :: "u8 list"
  bool_output_buf :: "u8 list"
  int_input_buf :: "u16 list"
  int_output_buf :: "u16 list"
  ioLock :: bool
  mb_devices :: "mb_device list"
  num_devices :: u8

definition lock_io :: "mb_master \<Rightarrow> mb_master option" where
  "lock_io mm = (if ioLock mm then None else Some (mm\<lparr>ioLock := True\<rparr>))"

definition unlock_io :: "mb_master \<Rightarrow> mb_master" where
  "unlock_io mm = mm\<lparr>ioLock := False\<rparr>"

section \<open>Reading the configuration\<close>

text \<open>
  \<open>getData\<close> with the capacity of the array it fills. When the first separator is missing the scan
  stops at the NUL, and the second one starts behind it.
\<close>

definition getData :: "char list \<Rightarrow> nat \<Rightarrow> char \<Rightarrow> char \<Rightarrow> string option" where
  "getData line cap separator1 separator2 = do {
     r \<leftarrow> skip_until (\<lambda>c. c = separator1 \<or> c = NUL) line;
     r \<leftarrow> next_char r;
     (w, r) \<leftarrow> copy_until (\<lambda>c. c = separator2 \<or> c = NUL) r;
     fits cap w }"

text \<open>Neither of these two stops at the NUL, and neither sets the array when it copies nothing.\<close>

definition getDeviceNumber :: "char list \<Rightarrow> int option" where
  "getDeviceNumber line = do {
     (w, r) \<leftarrow> copy_until (\<lambda>c. c = CHR ''.'') (drop 6 line);
     temp \<leftarrow> fits 5 w;
     if temp = [] then None else atoi temp }"

definition getFunction :: "char list \<Rightarrow> string option" where
  "getFunction line = do {
     r \<leftarrow> skip_until (\<lambda>c. c = CHR ''.'') line;
     r \<leftarrow> next_char r;
     (w, r) \<leftarrow> copy_until (\<lambda>c. c = CHR '' '' \<or> c = CHR ''='' \<or> c = CHR ''('') r;
     parameter \<leftarrow> fits 100 w;
     if parameter = [] then None else Some parameter }"

text \<open>\<open>!strncmp(s, word, strlen(word))\<close> for a constant word.\<close>

definition starts :: "char list \<Rightarrow> string \<Rightarrow> bool" where
  "starts s w \<longleftrightarrow> take (length w) s = w"

definition upd_device :: "int \<Rightarrow> (mb_device \<Rightarrow> mb_device) \<Rightarrow> mb_master \<Rightarrow> mb_master option" where
  "upd_device n f mm = (if 0 \<le> n \<and> nat n < length (mb_devices mm)
     then Some (mm\<lparr>mb_devices := (mb_devices mm)[nat n := f (mb_devices mm ! nat n)]\<rparr>) else None)"

text \<open>A value of the line in quotes, as a number; the capacity is that of \<open>temp_buffer\<close>.\<close>

definition number_data :: "char list \<Rightarrow> nat \<Rightarrow> int option" where
  "number_data line cap = do { w \<leftarrow> getData line cap (CHR 0x22) (CHR 0x22); atoi w }"

definition set_addr :: "(mb_address \<Rightarrow> mb_address) \<Rightarrow> string \<Rightarrow> mb_device \<Rightarrow> mb_device" where
  "set_addr f which d =
     (if which = ''Discrete_Inputs'' then d\<lparr>discrete_inputs := f (discrete_inputs d)\<rparr>
      else if which = ''Coils'' then d\<lparr>coils := f (coils d)\<rparr>
      else if which = ''Input_Registers'' then d\<lparr>input_registers := f (input_registers d)\<rparr>
      else d\<lparr>holding_registers := f (holding_registers d)\<rparr>)"

definition set_number :: "char list \<Rightarrow> nat \<Rightarrow> int \<Rightarrow> (int \<Rightarrow> mb_device \<Rightarrow> mb_device) \<Rightarrow> mb_master \<Rightarrow> mb_master option" where
  "set_number line cap n f mm = do { v \<leftarrow> number_data line cap; upd_device n (f v) mm }"

definition set_range :: "char list \<Rightarrow> int \<Rightarrow> string \<Rightarrow> string \<Rightarrow> mb_master \<Rightarrow> mb_master option" where
  "set_range line n which field mm =
     set_number line 10 n (\<lambda>v. set_addr (\<lambda>a. if field = ''_Start'' then a\<lparr>start_address := word_of_int v\<rparr>
       else a\<lparr>num_regs := word_of_int v\<rparr>) which) mm"

text \<open>The chain of cases on the name of the parameter.\<close>

definition device_line :: "char list \<Rightarrow> mb_master \<Rightarrow> mb_master option" where
  "device_line line mm = do {
     n \<leftarrow> getDeviceNumber line;
     f \<leftarrow> getFunction line;
     if starts f ''name'' then do {
       w \<leftarrow> getData line 100 (CHR 0x22) (CHR 0x22);
       upd_device n (\<lambda>d. d\<lparr>dev_name := w\<rparr>) mm }
     else if starts f ''protocol'' then do {
       w \<leftarrow> getData line 5 (CHR 0x22) (CHR 0x22);
       if starts w ''TCP'' then upd_device n (\<lambda>d. d\<lparr>protocol := MB_TCP\<rparr>) mm
       else if starts w ''RTU'' then upd_device n (\<lambda>d. d\<lparr>protocol := MB_RTU\<rparr>) mm
       else Some mm }
     else if starts f ''slave_id'' then set_number line 5 n (\<lambda>v d. d\<lparr>dev_id := word_of_int v\<rparr>) mm
     else if starts f ''address'' then do {
       w \<leftarrow> getData line 100 (CHR 0x22) (CHR 0x22);
       upd_device n (\<lambda>d. d\<lparr>dev_address := w\<rparr>) mm }
     else if starts f ''IP_Port'' then set_number line 6 n (\<lambda>v d. d\<lparr>ip_port := word_of_int v\<rparr>) mm
     else if starts f ''RTU_Baud_Rate'' then set_number line 10 n (\<lambda>v d. d\<lparr>rtu_baud := word_of_int v\<rparr>) mm
     else if starts f ''RTU_Parity'' then do {
       w \<leftarrow> getData line 3 (CHR 0x22) (CHR 0x22);
       upd_device n (\<lambda>d. d\<lparr>rtu_parity := (case w of c # _ \<Rightarrow> c | [] \<Rightarrow> NUL)\<rparr>) mm }
     else if starts f ''RTU_Data_Bits'' then set_number line 6 n (\<lambda>v d. d\<lparr>rtu_data_bit := word_of_int v\<rparr>) mm
     else if starts f ''RTU_Stop_Bits'' then set_number line 6 n (\<lambda>v d. d\<lparr>rtu_stop_bit := word_of_int v\<rparr>) mm
     else if starts f ''Discrete_Inputs_Start'' then set_range line n ''Discrete_Inputs'' ''_Start'' mm
     else if starts f ''Discrete_Inputs_Size'' then set_range line n ''Discrete_Inputs'' ''_Size'' mm
     else if starts f ''Coils_Start'' then set_range line n ''Coils'' ''_Start'' mm
     else if starts f ''Coils_Size'' then set_range line n ''Coils'' ''_Size'' mm
     else if starts f ''Input_Registers_Start'' then set_range line n ''Input_Registers'' ''_Start'' mm
     else if starts f ''Input_Registers_Size'' then set_range line n ''Input_Registers'' ''_Size'' mm
     else if starts f ''Holding_Registers_Start'' then set_range line n ''Holding_Registers'' ''_Start'' mm
     else if starts f ''Holding_Registers_Size'' then set_range line n ''Holding_Registers'' ''_Size'' mm
     else Some mm }"

text \<open>\<open>junk\<close> is what \<open>malloc\<close> finds in the memory of the devices.\<close>

definition config_line :: "(nat \<Rightarrow> mb_device) \<Rightarrow> string \<Rightarrow> mb_master \<Rightarrow> mb_master option" where
  "config_line junk line mm =
     (let line_str = strncpy 1024 line in
      if hd line_str = CHR ''#'' then Some mm
      else do {
        s \<leftarrow> c_string line_str;
        if \<not> 1 < length s then Some mm
        else if starts line_str ''Num_Devices'' then do {
          v \<leftarrow> number_data line_str 5;
          let n = (word_of_int v :: u8);
          Some (mm\<lparr>num_devices := n, mb_devices := map junk [0..<unat n]\<rparr>) }
        else if starts line_str ''device'' then device_line line_str mm
        else Some mm })"

fun parseConfig :: "(nat \<Rightarrow> mb_device) \<Rightarrow> string list \<Rightarrow> mb_master \<Rightarrow> mb_master option" where
  "parseConfig junk [] mm = Some mm"
| "parseConfig junk (line # lines) mm = do { mm \<leftarrow> config_line junk line mm; parseConfig junk lines mm }"

section \<open>Initialisation\<close>

text \<open>
  A device whose protocol is neither of the two keeps the pointer \<open>malloc\<close> left it, which
  \<open>modbus_set_slave\<close> dereferences. No path of the file sets \<open>isConnected\<close> before the thread reads
  it.
\<close>

definition make_context :: "mb_device \<Rightarrow> mb_device option" where
  "make_context d =
     (if protocol d = MB_TCP then Some (d\<lparr>mb_ctx := Some (New_tcp (dev_address d) (ip_port d))\<rparr>)
      else if protocol d = MB_RTU then Some (d\<lparr>mb_ctx := Some (New_rtu (dev_address d) (rtu_baud d)
        (rtu_parity d) (rtu_data_bit d) (rtu_stop_bit d))\<rparr>)
      else None)"

definition init_device :: "nat \<Rightarrow> mb_master \<Rightarrow> mb_master option" where
  "init_device i mm = do {
     d \<leftarrow> arr_get (mb_devices mm) i;
     d \<leftarrow> make_context d;
     Some (mm\<lparr>mb_devices := (mb_devices mm)[i := d]\<rparr>) }"

definition mbm_initializeHardware :: "(nat \<Rightarrow> mb_device) \<Rightarrow> string list \<Rightarrow> mb_master \<Rightarrow> mb_master option" where
  "mbm_initializeHardware junk cfgfile mm = do {
     mm \<leftarrow> parseConfig junk cfgfile mm;
     for_range 0 (unat (num_devices mm)) init_device mm }"

section \<open>The exchange with the devices\<close>

text \<open>
  What libmodbus answers for one device in one pass: whether \<open>modbus_connect\<close> succeeds, what the
  two reads return (\<open>None\<close> is -1) and whether the two writes do.
\<close>

record mb_answer =
  a_connect :: bool
  a_bits :: "u8 list option"
  a_write_bits :: bool
  a_registers :: "u16 list option"
  a_write_registers :: bool

datatype mb_call =
    Connect nat
  | Close nat
  | Read_input_bits nat u16 u16
  | Write_bits nat u16 "u8 list"
  | Read_input_registers nat u16 u16
  | Write_registers nat u16 "u16 list"

record mb_pass =
  bool_input_index :: u16
  bool_output_index :: u16
  int_input_index :: u16
  int_output_index :: u16
  calls :: "mb_call list"
  master :: mb_master

definition dev :: "nat \<Rightarrow> mb_pass \<Rightarrow> mb_device" where
  "dev i p = mb_devices (master p) ! i"

definition set_connected :: "nat \<Rightarrow> bool \<Rightarrow> mb_pass \<Rightarrow> mb_pass" where
  "set_connected i b p = p\<lparr>master := (master p)\<lparr>mb_devices :=
     (mb_devices (master p))[i := (dev i p)\<lparr>isConnected := b\<rparr>]\<rparr>\<rparr>"

definition tell :: "mb_call \<Rightarrow> mb_pass \<Rightarrow> mb_pass" where
  "tell c p = p\<lparr>calls := calls p @ [c]\<rparr>"

definition try_connect :: "mb_answer \<Rightarrow> nat \<Rightarrow> mb_pass \<Rightarrow> mb_pass" where
  "try_connect a i p =
     (if \<not> isConnected (dev i p)
      then (let p = tell (Connect i) p in if a_connect a then set_connected i True p else p)
      else p)"

text \<open>One store of a read loop: \<open>buf[index] = tempBuff[j]; index++\<close>.\<close>

definition put_bit :: "u8 \<Rightarrow> mb_pass \<Rightarrow> mb_pass option" where
  "put_bit v p = do {
     b \<leftarrow> arr_put (bool_input_buf (master p)) (unat (bool_input_index p)) v;
     Some (p\<lparr>master := (master p)\<lparr>bool_input_buf := b\<rparr>, bool_input_index := bool_input_index p + 1\<rparr>) }"

definition put_reg :: "u16 \<Rightarrow> mb_pass \<Rightarrow> mb_pass option" where
  "put_reg v p = do {
     b \<leftarrow> arr_put (int_input_buf (master p)) (unat (int_input_index p)) v;
     Some (p\<lparr>master := (master p)\<lparr>int_input_buf := b\<rparr>, int_input_index := int_input_index p + 1\<rparr>) }"

fun put_all :: "('v \<Rightarrow> mb_pass \<Rightarrow> mb_pass option) \<Rightarrow> 'v list \<Rightarrow> mb_pass \<Rightarrow> mb_pass option" where
  "put_all put [] p = Some p"
| "put_all put (v # vs) p = do { p \<leftarrow> put v p; put_all put vs p }"

text \<open>
  The reads. The buffer of the answer has \<open>num_regs\<close> elements; a failed read of either kind moves
  the same index, that of the bits.
\<close>

definition read_bits :: "mb_answer \<Rightarrow> nat \<Rightarrow> mb_pass \<Rightarrow> mb_pass option" where
  "read_bits a i p =
     (let di = discrete_inputs (dev i p) in
      if num_regs di \<noteq> 0 then
        (let p = tell (Read_input_bits i (start_address di) (num_regs di)) p in
         case a_bits a of
           None \<Rightarrow> Some (set_connected i False
             (tell (Close i) (p\<lparr>bool_input_index := bool_input_index p + num_regs di\<rparr>)))
         | Some tempBuff \<Rightarrow>
             if length tempBuff \<le> unat (num_regs di) then do {
               mm \<leftarrow> lock_io (master p);
               p \<leftarrow> put_all put_bit tempBuff (p\<lparr>master := mm\<rparr>);
               Some (p\<lparr>master := unlock_io (master p)\<rparr>) }
             else None)
      else Some p)"

definition read_registers :: "mb_answer \<Rightarrow> nat \<Rightarrow> mb_pass \<Rightarrow> mb_pass option" where
  "read_registers a i p =
     (let ir = input_registers (dev i p) in
      if num_regs ir \<noteq> 0 then
        (let p = tell (Read_input_registers i (start_address ir) (num_regs ir)) p in
         case a_registers a of
           None \<Rightarrow> Some (set_connected i False
             (tell (Close i) (p\<lparr>bool_input_index := bool_input_index p + num_regs (discrete_inputs (dev i p))\<rparr>)))
         | Some tempBuff \<Rightarrow>
             if length tempBuff \<le> unat (num_regs ir) then do {
               mm \<leftarrow> lock_io (master p);
               p \<leftarrow> put_all put_reg tempBuff (p\<lparr>master := mm\<rparr>);
               Some (p\<lparr>master := unlock_io (master p)\<rparr>) }
             else None)
      else Some p)"

text \<open>The writes: the loop that fills the buffer, and the call.\<close>

definition get_bit :: "nat \<Rightarrow> u8 list \<times> mb_pass \<Rightarrow> (u8 list \<times> mb_pass) option" where
  "get_bit j = (\<lambda>(tempBuff, p). do {
     v \<leftarrow> arr_get (bool_output_buf (master p)) (unat (bool_output_index p));
     Some (tempBuff @ [v], p\<lparr>bool_output_index := bool_output_index p + 1\<rparr>) })"

definition get_reg :: "nat \<Rightarrow> u16 list \<times> mb_pass \<Rightarrow> (u16 list \<times> mb_pass) option" where
  "get_reg j = (\<lambda>(tempBuff, p). do {
     v \<leftarrow> arr_get (int_output_buf (master p)) (unat (int_output_index p));
     Some (tempBuff @ [v], p\<lparr>int_output_index := int_output_index p + 1\<rparr>) })"

definition close_on_failure :: "bool \<Rightarrow> nat \<Rightarrow> mb_pass \<Rightarrow> mb_pass" where
  "close_on_failure ok i p = (if ok then p else set_connected i False (tell (Close i) p))"

definition write_coils :: "mb_answer \<Rightarrow> nat \<Rightarrow> mb_pass \<Rightarrow> mb_pass option" where
  "write_coils a i p =
     (let co = coils (dev i p) in
      if num_regs co \<noteq> 0 then do {
        mm \<leftarrow> lock_io (master p);
        (tempBuff, p) \<leftarrow> for_range 0 (unat (num_regs co)) get_bit ([], p\<lparr>master := mm\<rparr>);
        let p = p\<lparr>master := unlock_io (master p)\<rparr>;
        Some (close_on_failure (a_write_bits a) i (tell (Write_bits i (start_address co) tempBuff) p)) }
      else Some p)"

definition write_words :: "mb_answer \<Rightarrow> nat \<Rightarrow> mb_pass \<Rightarrow> mb_pass option" where
  "write_words a i p =
     (let hr = holding_registers (dev i p) in
      if num_regs hr \<noteq> 0 then do {
        mm \<leftarrow> lock_io (master p);
        (tempBuff, p) \<leftarrow> for_range 0 (unat (num_regs hr)) get_reg ([], p\<lparr>master := mm\<rparr>);
        let p = p\<lparr>master := unlock_io (master p)\<rparr>;
        Some (close_on_failure (a_write_registers a) i (tell (Write_registers i (start_address hr) tempBuff) p)) }
      else Some p)"

text \<open>The body of the loop over the devices. A device that fails in the middle is used to the end.\<close>

definition exchange_device :: "(nat \<Rightarrow> mb_answer) \<Rightarrow> nat \<Rightarrow> mb_pass \<Rightarrow> mb_pass option" where
  "exchange_device ans i p =
     (if i < length (mb_devices (master p)) then
        (let a = ans i; p = try_connect a i p in
         if isConnected (dev i p) then do {
           p \<leftarrow> read_bits a i p;
           p \<leftarrow> write_coils a i p;
           p \<leftarrow> read_registers a i p;
           write_words a i p }
         else Some p)
      else None)"

text \<open>One pass of the endless loop of the thread, which then sleeps 30 ms.\<close>

definition exchangeData_pass :: "(nat \<Rightarrow> mb_answer) \<Rightarrow> mb_master \<Rightarrow> (mb_master \<times> mb_call list) option" where
  "exchangeData_pass ans mm = do {
     p \<leftarrow> for_range 0 (unat (num_devices mm)) (exchange_device ans)
       \<lparr>bool_input_index = 0, bool_output_index = 0, int_input_index = 0, int_output_index = 0,
        calls = [], master = mm\<rparr>;
     Some (master p, calls p) }"

section \<open>The functions the main loop calls\<close>

definition mbm_in_step :: "mb_master \<Rightarrow> nat \<Rightarrow> plc_io \<Rightarrow> plc_io option" where
  "mbm_in_step mm i m = do {
     m \<leftarrow> bit_in bool_input (\<lambda>i. bool_input_buf mm ! i) i m;
     reg_in int_input (\<lambda>i. int_input_buf mm ! i) i m }"

definition mbm_updateBuffersIn :: "mb_master \<Rightarrow> plc_io \<Rightarrow> (plc_io \<times> mb_master list) option" where
  "mbm_updateBuffersIn mm m = do {
     m \<leftarrow> lock_buffer m;
     mm \<leftarrow> lock_io mm;
     m \<leftarrow> for_range 0 MAX_MB_IO (mbm_in_step mm) m;
     Some (unlock_buffer m, [unlock_io mm]) }"

definition mbm_out_step :: "plc_io \<Rightarrow> nat \<Rightarrow> mb_master \<Rightarrow> mb_master option" where
  "mbm_out_step m i mm = do {
     p \<leftarrow> ptr2 (bool_output m) (i div 8) (i mod 8);
     mm \<leftarrow> (case p of
         Some c \<Rightarrow> do { b \<leftarrow> arr_put (bool_output_buf mm) i (u8_heap m c); Some (mm\<lparr>bool_output_buf := b\<rparr>) }
       | None \<Rightarrow> Some mm);
     q \<leftarrow> ptr1 (int_output m) i;
     (case q of
         Some c \<Rightarrow> do { b \<leftarrow> arr_put (int_output_buf mm) i (u16_heap m c); Some (mm\<lparr>int_output_buf := b\<rparr>) }
       | None \<Rightarrow> Some mm) }"

definition mbm_updateBuffersOut :: "mb_master \<Rightarrow> plc_io \<Rightarrow> (plc_io \<times> mb_master list) option" where
  "mbm_updateBuffersOut mm m = do {
     m \<leftarrow> lock_buffer m;
     mm \<leftarrow> lock_io mm;
     mm \<leftarrow> for_range 0 MAX_MB_IO (mbm_out_step m) mm;
     Some (unlock_buffer m, [unlock_io mm]) }"

section \<open>The layer as the main loop sees it\<close>

definition mm_wf :: "mb_master \<Rightarrow> bool" where
  "mm_wf mm \<longleftrightarrow> length (bool_input_buf mm) = 400 \<and> length (bool_output_buf mm) = 400 \<and>
     length (int_input_buf mm) = 400 \<and> length (int_output_buf mm) = 400 \<and>
     length (mb_devices mm) = unat (num_devices mm) \<and> \<not> ioLock mm"

lemma mbm_in_loop:
  "\<exists>m'. for_range 0 MAX_MB_IO (mbm_in_step mm) m = Some m' \<and> tables m' = tables m \<and> bufferLock m' = bufferLock m"
proof -
  have "\<exists>m'. for_range 0 MAX_MB_IO (mbm_in_step mm) m = Some m' \<and>
      (tables m' = tables m \<and> bufferLock m' = bufferLock m)"
  proof (rule for_range_total)
    fix k s assume "k < 0 + MAX_MB_IO" "tables s = tables m \<and> bufferLock s = bufferLock m"
    then show "\<exists>s'. mbm_in_step mm k s = Some s' \<and> (tables s' = tables m \<and> bufferLock s' = bufferLock m)"
      by (auto simp: mbm_in_step_def bit_in_def reg_in_def MAX_MB_IO_def split: option.splits)
  qed simp
  then show ?thesis by simp
qed

definition outs_only :: "mb_master \<Rightarrow> mb_master \<Rightarrow> bool" where
  "outs_only mm mm' \<longleftrightarrow> length (bool_output_buf mm') = length (bool_output_buf mm) \<and>
     length (int_output_buf mm') = length (int_output_buf mm) \<and> ioLock mm' = ioLock mm \<and>
     mm'\<lparr>bool_output_buf := bool_output_buf mm, int_output_buf := int_output_buf mm\<rparr> = mm"

lemma mbm_out_loop:
  assumes "length (bool_output_buf mm) = 400" "length (int_output_buf mm) = 400"
  shows "\<exists>mm'. for_range 0 MAX_MB_IO (mbm_out_step m) mm = Some mm' \<and> outs_only mm mm'"
proof (rule for_range_total)
  fix k s assume k: "k < 0 + MAX_MB_IO" and I: "outs_only mm s"
  then show "\<exists>s'. mbm_out_step m k s = Some s' \<and> outs_only mm s'"
    using assms by (auto simp: mbm_out_step_def outs_only_def MAX_MB_IO_def split: option.splits)
qed (simp add: outs_only_def)

interpretation mbm: hw_layer mbm_updateBuffersIn mbm_updateBuffersOut mm_wf
proof
  fix e :: mb_master and m :: plc_io
  assume e: "mm_wf e" and m: "\<not> bufferLock m"
  show "\<exists>m' os. mbm_updateBuffersIn e m = Some (m', os) \<and> hw_frame m m'"
    using e m mbm_in_loop [of "e\<lparr>ioLock := True\<rparr>" "m\<lparr>bufferLock := True\<rparr>"]
    by (auto simp: mbm_updateBuffersIn_def lock_buffer_def lock_io_def mm_wf_def hw_frame_def)
  obtain mm' where "for_range 0 MAX_MB_IO (mbm_out_step (m\<lparr>bufferLock := True\<rparr>)) (e\<lparr>ioLock := True\<rparr>) = Some mm'"
    using mbm_out_loop [of "e\<lparr>ioLock := True\<rparr>" "m\<lparr>bufferLock := True\<rparr>"] e by (auto simp: mm_wf_def)
  then show "\<exists>m' os. mbm_updateBuffersOut e m = Some (m', os) \<and> hw_frame m m'"
    using e m by (auto simp: mbm_updateBuffersOut_def lock_buffer_def lock_io_def mm_wf_def hw_frame_def)
qed

section \<open>One device\<close>

lemma unat_of_nat_u16: "n < 65536 \<Longrightarrow> unat (of_nat n :: u16) = n"
  by (simp add: unat_of_nat)

lemma put_all_bits:
  assumes "bool_input_index p = of_nat (length xs)" "bool_input_buf (master p) = xs @ rest"
    "length vs \<le> length rest" "length xs + length vs \<le> 400"
  shows "put_all put_bit vs p = Some (p\<lparr>bool_input_index := of_nat (length xs + length vs),
     master := (master p)\<lparr>bool_input_buf := xs @ vs @ drop (length vs) rest\<rparr>\<rparr>)"
  using assms
proof (induction vs arbitrary: p xs rest)
  case Nil
  then show ?case by (cases p; cases "master p") auto
next
  case (Cons v vs)
  obtain r rest' where r: "rest = r # rest'" using Cons.prems(3) by (cases rest) auto
  let ?p = "p\<lparr>master := (master p)\<lparr>bool_input_buf := (xs @ [v]) @ rest'\<rparr>, bool_input_index := of_nat (length (xs @ [v]))\<rparr>"
  have "put_bit v p = Some ?p"
    using Cons.prems r by (simp add: put_bit_def unat_of_nat_u16 ac_simps)
  moreover have "put_all put_bit vs ?p = Some (?p\<lparr>bool_input_index := of_nat (length (xs @ [v]) + length vs),
     master := (master ?p)\<lparr>bool_input_buf := (xs @ [v]) @ vs @ drop (length vs) rest'\<rparr>\<rparr>)"
    by (rule Cons.IH) (use Cons.prems r in auto)
  ultimately show ?case using r by simp
qed

lemma put_all_regs:
  assumes "int_input_index p = of_nat (length xs)" "int_input_buf (master p) = xs @ rest"
    "length vs \<le> length rest" "length xs + length vs \<le> 400"
  shows "put_all put_reg vs p = Some (p\<lparr>int_input_index := of_nat (length xs + length vs),
     master := (master p)\<lparr>int_input_buf := xs @ vs @ drop (length vs) rest\<rparr>\<rparr>)"
  using assms
proof (induction vs arbitrary: p xs rest)
  case Nil
  then show ?case by (cases p; cases "master p") auto
next
  case (Cons v vs)
  obtain r rest' where r: "rest = r # rest'" using Cons.prems(3) by (cases rest) auto
  let ?p = "p\<lparr>master := (master p)\<lparr>int_input_buf := (xs @ [v]) @ rest'\<rparr>, int_input_index := of_nat (length (xs @ [v]))\<rparr>"
  have "put_reg v p = Some ?p"
    using Cons.prems r by (simp add: put_reg_def unat_of_nat_u16 ac_simps)
  moreover have "put_all put_reg vs ?p = Some (?p\<lparr>int_input_index := of_nat (length (xs @ [v]) + length vs),
     master := (master ?p)\<lparr>int_input_buf := (xs @ [v]) @ vs @ drop (length vs) rest'\<rparr>\<rparr>)"
    by (rule Cons.IH) (use Cons.prems r in auto)
  ultimately show ?case using r by simp
qed

lemma get_bits_loop:
  assumes "bool_output_index p = of_nat o0" "o0 + n \<le> length (bool_output_buf (master p))"
    "length (bool_output_buf (master p)) \<le> 400"
  shows "for_range 0 n get_bit ([], p) =
     Some (take n (drop o0 (bool_output_buf (master p))), p\<lparr>bool_output_index := of_nat (o0 + n)\<rparr>)"
  using assms
proof (induction n)
  case 0
  then show ?case by (cases p) auto
next
  case (Suc n)
  then have "o0 + n < length (bool_output_buf (master p))" "o0 + n < 65536" by simp_all
  then show ?case using Suc
    by (simp add: for_range_Suc_right get_bit_def unat_of_nat_u16 take_Suc_conv_app_nth ac_simps del: for_range.simps(2) of_nat_add)
qed

lemma get_regs_loop:
  assumes "int_output_index p = of_nat o0" "o0 + n \<le> length (int_output_buf (master p))"
    "length (int_output_buf (master p)) \<le> 400"
  shows "for_range 0 n get_reg ([], p) =
     Some (take n (drop o0 (int_output_buf (master p))), p\<lparr>int_output_index := of_nat (o0 + n)\<rparr>)"
  using assms
proof (induction n)
  case 0
  then show ?case by (cases p) auto
next
  case (Suc n)
  then have "o0 + n < length (int_output_buf (master p))" "o0 + n < 65536" by simp_all
  then show ?case using Suc
    by (simp add: for_range_Suc_right get_reg_def unat_of_nat_u16 take_Suc_conv_app_nth ac_simps del: for_range.simps(2) of_nat_add)
qed

text \<open>
  What one device contributes to a pass in which its calls succeed: the values it reads, and the
  calls it gets. A device that is down contributes nothing.
\<close>

definition goes_up :: "mb_answer \<Rightarrow> mb_device \<Rightarrow> bool" where
  "goes_up a d \<longleftrightarrow> isConnected d \<or> a_connect a"

definition answers_ok :: "mb_answer \<Rightarrow> mb_device \<Rightarrow> bool" where
  "answers_ok a d \<longleftrightarrow> goes_up a d \<longrightarrow>
     map_option length (a_bits a) = Some (unat (num_regs (discrete_inputs d))) \<and>
     map_option length (a_registers a) = Some (unat (num_regs (input_registers d))) \<and>
     a_write_bits a \<and> a_write_registers a"

definition got_bits :: "mb_answer \<Rightarrow> mb_device \<Rightarrow> u8 list" where
  "got_bits a d = (if goes_up a d then the (a_bits a) else [])"

definition got_regs :: "mb_answer \<Rightarrow> mb_device \<Rightarrow> u16 list" where
  "got_regs a d = (if goes_up a d then the (a_registers a) else [])"

definition out_size :: "(mb_device \<Rightarrow> mb_address) \<Rightarrow> mb_answer \<Rightarrow> mb_device \<Rightarrow> nat" where
  "out_size f a d = (if goes_up a d then unat (num_regs (f d)) else 0)"

definition device_calls :: "mb_answer \<Rightarrow> nat \<Rightarrow> mb_device \<Rightarrow> u8 list \<Rightarrow> u16 list \<Rightarrow> mb_call list" where
  "device_calls a i d cs hs =
     (if isConnected d then [] else [Connect i]) @
     (if \<not> goes_up a d then [] else
        (if num_regs (discrete_inputs d) = 0 then []
         else [Read_input_bits i (start_address (discrete_inputs d)) (num_regs (discrete_inputs d))]) @
        (if num_regs (coils d) = 0 then [] else [Write_bits i (start_address (coils d)) cs]) @
        (if num_regs (input_registers d) = 0 then []
         else [Read_input_registers i (start_address (input_registers d)) (num_regs (input_registers d))]) @
        (if num_regs (holding_registers d) = 0 then []
         else [Write_registers i (start_address (holding_registers d)) hs]))"

lemma read_bits_ok:
  assumes "a_bits a = Some vs" "length vs = unat (num_regs (discrete_inputs (dev i p)))"
    "bool_input_index p = of_nat (length xs)" "bool_input_buf (master p) = xs @ rest"
    "length vs \<le> length rest" "length xs + length vs \<le> 400" "\<not> ioLock (master p)"
  shows "read_bits a i p = Some (p\<lparr>bool_input_index := of_nat (length xs + length vs),
     calls := calls p @ (if num_regs (discrete_inputs (dev i p)) = 0 then []
       else [Read_input_bits i (start_address (discrete_inputs (dev i p))) (num_regs (discrete_inputs (dev i p)))]),
     master := (master p)\<lparr>bool_input_buf := xs @ vs @ drop (length vs) rest\<rparr>\<rparr>)"
proof (cases "num_regs (discrete_inputs (dev i p)) = 0")
  case True
  then have "vs = []" using assms(2) by simp
  then show ?thesis using True assms by (cases p; cases "master p") (auto simp: read_bits_def)
next
  case False
  let ?q = "tell (Read_input_bits i (start_address (discrete_inputs (dev i p))) (num_regs (discrete_inputs (dev i p)))) p"
  have "put_all put_bit vs (?q\<lparr>master := (master p)\<lparr>ioLock := True\<rparr>\<rparr>) = Some
     (?q\<lparr>master := (master p)\<lparr>ioLock := True\<rparr>, bool_input_index := of_nat (length xs + length vs),
      master := (master p)\<lparr>ioLock := True, bool_input_buf := xs @ vs @ drop (length vs) rest\<rparr>\<rparr>)"
    using put_all_bits [of "?q\<lparr>master := (master p)\<lparr>ioLock := True\<rparr>\<rparr>" xs rest vs] assms
    by (simp add: tell_def)
  then show ?thesis using False assms
    by (cases p; cases "master p") (simp add: read_bits_def Let_def lock_io_def unlock_io_def tell_def)
qed

lemma read_registers_ok:
  assumes "a_registers a = Some vs" "length vs = unat (num_regs (input_registers (dev i p)))"
    "int_input_index p = of_nat (length xs)" "int_input_buf (master p) = xs @ rest"
    "length vs \<le> length rest" "length xs + length vs \<le> 400" "\<not> ioLock (master p)"
  shows "read_registers a i p = Some (p\<lparr>int_input_index := of_nat (length xs + length vs),
     calls := calls p @ (if num_regs (input_registers (dev i p)) = 0 then []
       else [Read_input_registers i (start_address (input_registers (dev i p))) (num_regs (input_registers (dev i p)))]),
     master := (master p)\<lparr>int_input_buf := xs @ vs @ drop (length vs) rest\<rparr>\<rparr>)"
proof (cases "num_regs (input_registers (dev i p)) = 0")
  case True
  then have "vs = []" using assms(2) by simp
  then show ?thesis using True assms by (cases p; cases "master p") (auto simp: read_registers_def)
next
  case False
  let ?q = "tell (Read_input_registers i (start_address (input_registers (dev i p))) (num_regs (input_registers (dev i p)))) p"
  have "put_all put_reg vs (?q\<lparr>master := (master p)\<lparr>ioLock := True\<rparr>\<rparr>) = Some
     (?q\<lparr>master := (master p)\<lparr>ioLock := True\<rparr>, int_input_index := of_nat (length xs + length vs),
      master := (master p)\<lparr>ioLock := True, int_input_buf := xs @ vs @ drop (length vs) rest\<rparr>\<rparr>)"
    using put_all_regs [of "?q\<lparr>master := (master p)\<lparr>ioLock := True\<rparr>\<rparr>" xs rest vs] assms
    by (simp add: tell_def)
  then show ?thesis using False assms
    by (cases p; cases "master p") (simp add: read_registers_def Let_def lock_io_def unlock_io_def tell_def)
qed

lemma write_coils_ok:
  assumes "bool_output_index p = of_nat o0" "a_write_bits a" "\<not> ioLock (master p)"
    "n = unat (num_regs (coils (dev i p)))" "o0 + n \<le> length (bool_output_buf (master p))"
    "length (bool_output_buf (master p)) \<le> 400"
  shows "write_coils a i p = Some (p\<lparr>bool_output_index := of_nat (o0 + n),
     calls := calls p @ (if num_regs (coils (dev i p)) = 0 then []
       else [Write_bits i (start_address (coils (dev i p))) (take n (drop o0 (bool_output_buf (master p))))])\<rparr>)"
proof (cases "num_regs (coils (dev i p)) = 0")
  case True
  then show ?thesis using assms by (cases p) (auto simp: write_coils_def)
next
  case False
  have "for_range 0 n get_bit ([], p\<lparr>master := (master p)\<lparr>ioLock := True\<rparr>\<rparr>) =
     Some (take n (drop o0 (bool_output_buf (master p))),
       p\<lparr>master := (master p)\<lparr>ioLock := True\<rparr>, bool_output_index := of_nat (o0 + n)\<rparr>)"
    using get_bits_loop [of "p\<lparr>master := (master p)\<lparr>ioLock := True\<rparr>\<rparr>" o0 n] assms by simp
  then show ?thesis using False assms(2,3) unfolding write_coils_def assms(4)
    by (cases p; cases "master p") (simp add: Let_def lock_io_def unlock_io_def tell_def close_on_failure_def)
qed

lemma write_words_ok:
  assumes "int_output_index p = of_nat o0" "a_write_registers a" "\<not> ioLock (master p)"
    "n = unat (num_regs (holding_registers (dev i p)))" "o0 + n \<le> length (int_output_buf (master p))"
    "length (int_output_buf (master p)) \<le> 400"
  shows "write_words a i p = Some (p\<lparr>int_output_index := of_nat (o0 + n),
     calls := calls p @ (if num_regs (holding_registers (dev i p)) = 0 then []
       else [Write_registers i (start_address (holding_registers (dev i p))) (take n (drop o0 (int_output_buf (master p))))])\<rparr>)"
proof (cases "num_regs (holding_registers (dev i p)) = 0")
  case True
  then show ?thesis using assms by (cases p) (auto simp: write_words_def)
next
  case False
  have "for_range 0 n get_reg ([], p\<lparr>master := (master p)\<lparr>ioLock := True\<rparr>\<rparr>) =
     Some (take n (drop o0 (int_output_buf (master p))),
       p\<lparr>master := (master p)\<lparr>ioLock := True\<rparr>, int_output_index := of_nat (o0 + n)\<rparr>)"
    using get_regs_loop [of "p\<lparr>master := (master p)\<lparr>ioLock := True\<rparr>\<rparr>" o0 n] assms by simp
  then show ?thesis using False assms(2,3) unfolding write_words_def assms(4)
    by (cases p; cases "master p") (simp add: Let_def lock_io_def unlock_io_def tell_def close_on_failure_def)
qed

lemma try_connect_up:
  assumes "goes_up a (dev i p)" "i < length (mb_devices (master p))"
  shows "try_connect a i p = p\<lparr>calls := calls p @ (if isConnected (dev i p) then [] else [Connect i]),
     master := (master p)\<lparr>mb_devices := (mb_devices (master p))[i := (dev i p)\<lparr>isConnected := True\<rparr>]\<rparr>\<rparr>"
proof (cases "isConnected (dev i p)")
  case True
  then have "(dev i p)\<lparr>isConnected := True\<rparr> = mb_devices (master p) ! i" by (cases "dev i p") (simp add: dev_def)
  then show ?thesis using True by (cases p; cases "master p") (simp add: try_connect_def)
next
  case False
  then show ?thesis using assms
    by (cases p; cases "master p") (simp add: try_connect_def goes_up_def set_connected_def tell_def dev_def)
qed

text \<open>The state after a device all of whose calls succeed, and after one that stays down.\<close>

definition after_device ::
  "mb_answer \<Rightarrow> nat \<Rightarrow> mb_device \<Rightarrow> nat \<Rightarrow> nat \<Rightarrow> u8 list \<Rightarrow> u16 list \<Rightarrow> mb_pass \<Rightarrow> mb_pass" where
  "after_device a i d o0 o1 xs ys p =
     p\<lparr>bool_input_index := of_nat (length xs + length (got_bits a d)),
       bool_output_index := of_nat (o0 + out_size coils a d),
       int_input_index := of_nat (length ys + length (got_regs a d)),
       int_output_index := of_nat (o1 + out_size holding_registers a d),
       calls := calls p @ device_calls a i d (take (out_size coils a d) (drop o0 (bool_output_buf (master p))))
         (take (out_size holding_registers a d) (drop o1 (int_output_buf (master p)))),
       master := (master p)\<lparr>
         bool_input_buf := xs @ got_bits a d @ drop (length xs + length (got_bits a d)) (bool_input_buf (master p)),
         int_input_buf := ys @ got_regs a d @ drop (length ys + length (got_regs a d)) (int_input_buf (master p)),
         mb_devices := (mb_devices (master p))[i := d\<lparr>isConnected := goes_up a d\<rparr>]\<rparr>\<rparr>"

lemma exchange_device_down:
  assumes "i < length (mb_devices (master p))" "\<not> goes_up (ans i) (dev i p)"
  shows "exchange_device ans i p = Some (tell (Connect i) p)"
  using assms by (simp add: exchange_device_def Let_def try_connect_def goes_up_def tell_def dev_def)

lemma exchange_device_ok:
  assumes i: "i < length (mb_devices (master p))" and d: "d = dev i p" and ok: "answers_ok (ans i) d"
    and idx: "bool_input_index p = of_nat (length xs)" "bool_output_index p = of_nat o0"
      "int_input_index p = of_nat (length ys)" "int_output_index p = of_nat o1"
    and buf: "bool_input_buf (master p) = xs @ rest" "int_input_buf (master p) = ys @ rest'"
      "length (bool_input_buf (master p)) = 400" "length (int_input_buf (master p)) = 400"
      "length (bool_output_buf (master p)) = 400" "length (int_output_buf (master p)) = 400"
    and fit: "length xs + length (got_bits (ans i) d) \<le> 400" "length ys + length (got_regs (ans i) d) \<le> 400"
      "o0 + out_size coils (ans i) d \<le> 400" "o1 + out_size holding_registers (ans i) d \<le> 400"
    and l: "\<not> ioLock (master p)"
  shows "exchange_device ans i p = Some (after_device (ans i) i d o0 o1 xs ys p)"
proof (cases "goes_up (ans i) d")
  case False
  then have "\<not> isConnected d" by (simp add: goes_up_def)
  then have "(mb_devices (master p))[i := d\<lparr>isConnected := False\<rparr>] = mb_devices (master p)"
    using d by (cases d) (simp add: dev_def list_update_same_conv i)
  then show ?thesis using exchange_device_down [of i p ans] False i d idx buf \<open>\<not> isConnected d\<close>
    by (cases p; cases "master p")
      (simp add: after_device_def got_bits_def got_regs_def out_size_def device_calls_def tell_def)
next
  case True
  let ?a = "ans i" and ?d = "d\<lparr>isConnected := True\<rparr>"
  let ?n = "unat (num_regs (coils d))" and ?m = "unat (num_regs (holding_registers d))"
  from ok True obtain bs rs where a: "a_bits ?a = Some bs" "length bs = unat (num_regs (discrete_inputs d))"
      "a_registers ?a = Some rs" "length rs = unat (num_regs (input_registers d))"
      "a_write_bits ?a" "a_write_registers ?a"
    by (auto simp: answers_ok_def)
  have g: "got_bits ?a d = bs" "got_regs ?a d = rs" "out_size coils ?a d = ?n" "out_size holding_registers ?a d = ?m"
    using True a by (simp_all add: got_bits_def got_regs_def out_size_def)
  define q where "q = try_connect ?a i p"
  have q: "q = p\<lparr>calls := calls p @ (if isConnected d then [] else [Connect i]),
     master := (master p)\<lparr>mb_devices := (mb_devices (master p))[i := ?d]\<rparr>\<rparr>"
    using try_connect_up [of ?a i p] True i d by (simp add: q_def)
  have dq: "dev i q = ?d" using q i by (simp add: dev_def)
  define r where "r = q\<lparr>bool_input_index := of_nat (length xs + length bs),
     calls := calls q @ (if num_regs (discrete_inputs d) = 0 then []
       else [Read_input_bits i (start_address (discrete_inputs d)) (num_regs (discrete_inputs d))]),
     master := (master q)\<lparr>bool_input_buf := xs @ bs @ drop (length bs) rest\<rparr>\<rparr>"
  have 1: "read_bits ?a i q = Some r"
    using read_bits_ok [of ?a bs i q xs rest] a idx buf fit l q dq g by (simp add: r_def)
  have dr: "dev i r = ?d" using dq by (simp add: r_def dev_def)
  define t where "t = r\<lparr>bool_output_index := of_nat (o0 + ?n),
     calls := calls r @ (if num_regs (coils d) = 0 then []
       else [Write_bits i (start_address (coils d)) (take ?n (drop o0 (bool_output_buf (master p))))])\<rparr>"
  have 2: "write_coils ?a i r = Some t"
    using write_coils_ok [of r o0 ?a ?n i] a idx buf fit l q dr g by (simp add: t_def r_def)
  have dt: "dev i t = ?d" using dr by (simp add: t_def dev_def)
  define u where "u = t\<lparr>int_input_index := of_nat (length ys + length rs),
     calls := calls t @ (if num_regs (input_registers d) = 0 then []
       else [Read_input_registers i (start_address (input_registers d)) (num_regs (input_registers d))]),
     master := (master t)\<lparr>int_input_buf := ys @ rs @ drop (length rs) rest'\<rparr>\<rparr>"
  have 3: "read_registers ?a i t = Some u"
    using read_registers_ok [of ?a rs i t ys rest'] a idx buf fit l q dt g by (simp add: u_def t_def r_def)
  have du: "dev i u = ?d" using dt by (simp add: u_def dev_def)
  define v where "v = u\<lparr>int_output_index := of_nat (o1 + ?m),
     calls := calls u @ (if num_regs (holding_registers d) = 0 then []
       else [Write_registers i (start_address (holding_registers d)) (take ?m (drop o1 (int_output_buf (master p))))])\<rparr>"
  have 4: "write_words ?a i u = Some v"
    using write_words_ok [of u o1 ?a ?m i] a idx buf fit l q du g by (simp add: v_def u_def t_def r_def)
  have "exchange_device ans i p = Some v"
    using 1 2 3 4 i dq unfolding exchange_device_def Let_def q_def [symmetric] by simp
  moreover have "v = after_device ?a i d o0 o1 xs ys p"
    using True buf unfolding v_def u_def t_def r_def q after_device_def g
    by (cases p; cases "master p") (simp add: device_calls_def)
  ultimately show ?thesis by simp
qed

section \<open>One pass over the devices\<close>

text \<open>
  What the first \<open>k\<close> devices have contributed together: a device finds its place in the four
  buffers behind those that were up before it.
\<close>

definition pass_bits :: "(nat \<Rightarrow> mb_answer) \<Rightarrow> mb_device list \<Rightarrow> nat \<Rightarrow> u8 list" where
  "pass_bits ans ds k = concat (map (\<lambda>i. got_bits (ans i) (ds ! i)) [0..<k])"

definition pass_regs :: "(nat \<Rightarrow> mb_answer) \<Rightarrow> mb_device list \<Rightarrow> nat \<Rightarrow> u16 list" where
  "pass_regs ans ds k = concat (map (\<lambda>i. got_regs (ans i) (ds ! i)) [0..<k])"

definition pass_out :: "(mb_device \<Rightarrow> mb_address) \<Rightarrow> (nat \<Rightarrow> mb_answer) \<Rightarrow> mb_device list \<Rightarrow> nat \<Rightarrow> nat" where
  "pass_out f ans ds k = sum_list (map (\<lambda>i. out_size f (ans i) (ds ! i)) [0..<k])"

definition pass_calls :: "(nat \<Rightarrow> mb_answer) \<Rightarrow> mb_master \<Rightarrow> nat \<Rightarrow> mb_call list" where
  "pass_calls ans mm k = (let ds = mb_devices mm in concat (map (\<lambda>i.
     device_calls (ans i) i (ds ! i)
       (take (out_size coils (ans i) (ds ! i)) (drop (pass_out coils ans ds i) (bool_output_buf mm)))
       (take (out_size holding_registers (ans i) (ds ! i)) (drop (pass_out holding_registers ans ds i) (int_output_buf mm))))
     [0..<k]))"

definition pass_devices :: "(nat \<Rightarrow> mb_answer) \<Rightarrow> mb_device list \<Rightarrow> nat \<Rightarrow> mb_device list" where
  "pass_devices ans ds k = map (\<lambda>i. (ds ! i)\<lparr>isConnected := goes_up (ans i) (ds ! i)\<rparr>) [0..<k] @ drop k ds"

definition pass_at :: "(nat \<Rightarrow> mb_answer) \<Rightarrow> mb_master \<Rightarrow> nat \<Rightarrow> mb_pass" where
  "pass_at ans mm k = (let ds = mb_devices mm; bs = pass_bits ans ds k; rs = pass_regs ans ds k in
     \<lparr>bool_input_index = of_nat (length bs), bool_output_index = of_nat (pass_out coils ans ds k),
      int_input_index = of_nat (length rs), int_output_index = of_nat (pass_out holding_registers ans ds k),
      calls = pass_calls ans mm k,
      master = mm\<lparr>bool_input_buf := bs @ drop (length bs) (bool_input_buf mm),
        int_input_buf := rs @ drop (length rs) (int_input_buf mm),
        mb_devices := pass_devices ans ds k\<rparr>\<rparr>)"

text \<open>The buffers are large enough for the devices that are up.\<close>

definition pass_fits :: "(nat \<Rightarrow> mb_answer) \<Rightarrow> mb_device list \<Rightarrow> bool" where
  "pass_fits ans ds \<longleftrightarrow> (let n = length ds in
     length (pass_bits ans ds n) \<le> MAX_MB_IO \<and> length (pass_regs ans ds n) \<le> MAX_MB_IO \<and>
     pass_out coils ans ds n \<le> MAX_MB_IO \<and> pass_out holding_registers ans ds n \<le> MAX_MB_IO)"

lemma pass_Suc:
  "pass_bits ans ds (Suc k) = pass_bits ans ds k @ got_bits (ans k) (ds ! k)"
  "pass_regs ans ds (Suc k) = pass_regs ans ds k @ got_regs (ans k) (ds ! k)"
  "pass_out f ans ds (Suc k) = pass_out f ans ds k + out_size f (ans k) (ds ! k)"
  by (simp_all add: pass_bits_def pass_regs_def pass_out_def)

lemma pass_mono:
  assumes "k \<le> n"
  shows "length (pass_bits ans ds k) \<le> length (pass_bits ans ds n)"
    "length (pass_regs ans ds k) \<le> length (pass_regs ans ds n)" "pass_out f ans ds k \<le> pass_out f ans ds n"
proof -
  have e: "[0..<n] = [0..<k] @ [k..<n]" using assms by (metis le0 upt_add_eq_append ordered_cancel_comm_monoid_diff_class.add_diff_inverse)
  show "length (pass_bits ans ds k) \<le> length (pass_bits ans ds n)"
    "length (pass_regs ans ds k) \<le> length (pass_regs ans ds n)" "pass_out f ans ds k \<le> pass_out f ans ds n"
    unfolding pass_bits_def pass_regs_def pass_out_def e by simp_all
qed

lemma pass_devices_nth: "k < length ds \<Longrightarrow> pass_devices ans ds k ! k = ds ! k"
  by (simp add: pass_devices_def nth_append)

lemma pass_devices_Suc:
  "k < length ds \<Longrightarrow> (pass_devices ans ds k)[k := (ds ! k)\<lparr>isConnected := goes_up (ans k) (ds ! k)\<rparr>] =
     pass_devices ans ds (Suc k)"
  by (simp add: pass_devices_def list_update_append flip: Cons_nth_drop_Suc)

lemma pass_step:
  assumes mm: "mm_wf mm" and k: "k < length (mb_devices mm)"
    and ok: "answers_ok (ans k) (mb_devices mm ! k)" and fit: "pass_fits ans (mb_devices mm)"
  shows "exchange_device ans k (pass_at ans mm k) = Some (pass_at ans mm (Suc k))"
proof -
  let ?ds = "mb_devices mm" and ?p = "pass_at ans mm k"
  let ?xs = "pass_bits ans ?ds k" and ?ys = "pass_regs ans ?ds k"
  note le = pass_mono [of "Suc k" "length ?ds", unfolded pass_Suc, simplified] Suc_leI [OF k]
  have f: "length ?xs + length (got_bits (ans k) (?ds ! k)) \<le> 400" "length ?ys + length (got_regs (ans k) (?ds ! k)) \<le> 400"
    "pass_out coils ans ?ds k + out_size coils (ans k) (?ds ! k) \<le> 400"
    "pass_out holding_registers ans ?ds k + out_size holding_registers (ans k) (?ds ! k) \<le> 400"
    using le(1) [of ans ?ds] le(2) [of ans ?ds] le(3) [of coils ans ?ds] le(3) [of holding_registers ans ?ds] k fit
    by (auto simp: pass_fits_def MAX_MB_IO_def Let_def)
  have d: "?ds ! k = dev k ?p" using pass_devices_nth [OF k] by (simp add: dev_def pass_at_def Let_def)
  have "exchange_device ans k ?p = Some (after_device (ans k) k (?ds ! k) (pass_out coils ans ?ds k)
      (pass_out holding_registers ans ?ds k) ?xs ?ys ?p)"
    by (rule exchange_device_ok [where rest = "drop (length ?xs) (bool_input_buf mm)"
          and rest' = "drop (length ?ys) (int_input_buf mm)"])
      (use f d ok mm k in \<open>auto simp: pass_at_def Let_def mm_wf_def pass_devices_def\<close>)
  also have "after_device (ans k) k (?ds ! k) (pass_out coils ans ?ds k)
      (pass_out holding_registers ans ?ds k) ?xs ?ys ?p = pass_at ans mm (Suc k)"
    using pass_devices_Suc [OF k, of ans] by (simp add: after_device_def pass_at_def Let_def pass_Suc pass_calls_def ac_simps)
  finally show ?thesis .
qed

lemma pass_start: "pass_at ans mm 0 = \<lparr>bool_input_index = 0, bool_output_index = 0, int_input_index = 0,
    int_output_index = 0, calls = [], master = mm\<rparr>"
  by (simp add: pass_at_def pass_bits_def pass_regs_def pass_out_def pass_calls_def pass_devices_def)

lemma pass_runs:
  assumes "mm_wf mm" "pass_fits ans (mb_devices mm)"
    "\<And>i. i < length (mb_devices mm) \<Longrightarrow> answers_ok (ans i) (mb_devices mm ! i)"
  shows "exchangeData_pass ans mm =
     Some (master (pass_at ans mm (length (mb_devices mm))), pass_calls ans mm (length (mb_devices mm)))"
proof -
  let ?n = "length (mb_devices mm)"
  have n: "unat (num_devices mm) = ?n" using assms(1) by (simp add: mm_wf_def)
  have "\<exists>p. for_range 0 ?n (exchange_device ans) (pass_at ans mm 0) = Some p \<and> p = pass_at ans mm (0 + ?n)"
    by (rule for_range_total [where I = "\<lambda>k p. p = pass_at ans mm k"]) (use pass_step assms in auto)
  then have "for_range 0 ?n (exchange_device ans) (pass_at ans mm 0) = Some (pass_at ans mm ?n)" by simp
  then show ?thesis by (simp add: exchangeData_pass_def n pass_start) (simp add: pass_at_def Let_def)
qed

text \<open>C16: In a pass in which every device that is up answers in full, the bits and words read lie one
  device behind the other in the input buffers, the devices that are up sharing them in order, the
  rest of the buffers keeps its values, and the calls are those of each device on its own slice of
  the output buffers.\<close>

theorem master_pass:
  assumes "mm_wf mm" "pass_fits ans (mb_devices mm)"
    and "\<And>i. i < length (mb_devices mm) \<Longrightarrow> answers_ok (ans i) (mb_devices mm ! i)"
  shows "\<exists>mm'. exchangeData_pass ans mm = Some (mm', pass_calls ans mm (length (mb_devices mm))) \<and>
     bool_input_buf mm' = pass_bits ans (mb_devices mm) (length (mb_devices mm)) @
       drop (length (pass_bits ans (mb_devices mm) (length (mb_devices mm)))) (bool_input_buf mm) \<and>
     int_input_buf mm' = pass_regs ans (mb_devices mm) (length (mb_devices mm)) @
       drop (length (pass_regs ans (mb_devices mm) (length (mb_devices mm)))) (int_input_buf mm) \<and>
     map isConnected (mb_devices mm') =
       map (\<lambda>i. goes_up (ans i) (mb_devices mm ! i)) [0..<length (mb_devices mm)] \<and>
     bool_output_buf mm' = bool_output_buf mm \<and> int_output_buf mm' = int_output_buf mm \<and> mm_wf mm'"
proof -
  have "length (pass_bits ans (mb_devices mm) (length (mb_devices mm))) \<le> 400"
    "length (pass_regs ans (mb_devices mm) (length (mb_devices mm))) \<le> 400"
    using assms(2) by (simp_all add: pass_fits_def Let_def MAX_MB_IO_def)
  then show ?thesis
    using pass_runs [OF assms] assms(1)
    by (simp add: pass_at_def Let_def mm_wf_def pass_devices_def o_def)
qed

definition demo_addr :: "u16 \<Rightarrow> u16 \<Rightarrow> mb_address" where
  "demo_addr s n = \<lparr>start_address = s, num_regs = n\<rparr>"

definition demo_device :: "bool \<Rightarrow> u16 \<Rightarrow> u16 \<Rightarrow> mb_device" where
  "demo_device up n c = \<lparr>mb_ctx = None, dev_name = ''d'', protocol = 1, dev_address = ''10.0.0.1'', ip_port = 502,
     rtu_baud = 0, rtu_parity = CHR ''N'', rtu_data_bit = 0, rtu_stop_bit = 0, dev_id = 1, isConnected = up,
     discrete_inputs = demo_addr 0 n, coils = demo_addr 8 c, input_registers = demo_addr 0 1,
     holding_registers = demo_addr 0 0\<rparr>"

definition demo_master :: "mb_device list \<Rightarrow> mb_master" where
  "demo_master ds = \<lparr>bool_input_buf = replicate 400 0, bool_output_buf = [1, 0, 1] @ replicate 397 0,
     int_input_buf = replicate 400 0, int_output_buf = replicate 400 0, ioLock = False,
     mb_devices = ds, num_devices = of_nat (length ds)\<rparr>"

definition demo_answer :: "bool \<Rightarrow> u8 list \<Rightarrow> u16 list \<Rightarrow> mb_answer" where
  "demo_answer c bs rs = \<lparr>a_connect = c, a_bits = Some bs, a_write_bits = True, a_registers = Some rs,
     a_write_registers = True\<rparr>"

lemmas demo_master_simps = demo_addr_def demo_device_def demo_master_def demo_answer_def

theorem master_pass_witness:
  "\<exists>mm'. exchangeData_pass (\<lambda>i. if i = 0 then demo_answer True [1, 0] [7] else demo_answer True [1] [9])
      (demo_master [demo_device False 2 1, demo_device True 1 2]) = Some (mm',
        [Connect 0, Read_input_bits 0 0 2, Write_bits 0 8 [1], Read_input_registers 0 0 1,
         Read_input_bits 1 0 1, Write_bits 1 8 [0, 1], Read_input_registers 1 0 1]) \<and>
     take 3 (bool_input_buf mm') = [1, 0, 1] \<and> take 2 (int_input_buf mm') = [7, 9]"
proof -
  let ?ans = "\<lambda>i. if i = 0 then demo_answer True [1, 0] [7] else demo_answer True [1] [9]"
  let ?mm = "demo_master [demo_device False 2 1, demo_device True 1 2]"
  have ds: "mb_devices ?mm = [demo_device False 2 1, demo_device True 1 2]" by (simp add: demo_master_def)
  have u: "[0..<2] = [0, 1::nat]" by (simp add: upt_rec)
  have p: "pass_bits ?ans (mb_devices ?mm) 2 = [1, 0, 1]" "pass_regs ?ans (mb_devices ?mm) 2 = [7, 9]"
    "pass_out coils ?ans (mb_devices ?mm) 2 = 3" "pass_out holding_registers ?ans (mb_devices ?mm) 2 = 0"
    "pass_out coils ?ans (mb_devices ?mm) 0 = 0" "pass_out coils ?ans (mb_devices ?mm) (Suc 0) = 1"
    unfolding ds by (simp_all add: pass_bits_def pass_regs_def pass_out_def u got_bits_def got_regs_def out_size_def
      goes_up_def demo_device_def demo_answer_def demo_addr_def)
  have c: "pass_calls ?ans ?mm 2 = [Connect 0, Read_input_bits 0 0 2, Write_bits 0 8 [1], Read_input_registers 0 0 1,
         Read_input_bits 1 0 1, Write_bits 1 8 [0, 1], Read_input_registers 1 0 1]"
    using p(5,6) unfolding pass_calls_def Let_def
    by (simp add: u device_calls_def goes_up_def demo_master_simps out_size_def)
  have "\<exists>mm'. exchangeData_pass ?ans ?mm = Some (mm', pass_calls ?ans ?mm (length (mb_devices ?mm))) \<and>
     bool_input_buf mm' = pass_bits ?ans (mb_devices ?mm) (length (mb_devices ?mm)) @
       drop (length (pass_bits ?ans (mb_devices ?mm) (length (mb_devices ?mm)))) (bool_input_buf ?mm) \<and>
     int_input_buf mm' = pass_regs ?ans (mb_devices ?mm) (length (mb_devices ?mm)) @
       drop (length (pass_regs ?ans (mb_devices ?mm) (length (mb_devices ?mm)))) (int_input_buf ?mm) \<and>
     map isConnected (mb_devices mm') =
       map (\<lambda>i. goes_up (?ans i) (mb_devices ?mm ! i)) [0..<length (mb_devices ?mm)] \<and>
     bool_output_buf mm' = bool_output_buf ?mm \<and> int_output_buf mm' = int_output_buf ?mm \<and> mm_wf mm'"
  proof (rule master_pass)
    show "mm_wf ?mm" by (simp add: mm_wf_def demo_master_def)
    show "pass_fits ?ans (mb_devices ?mm)" using p(1-4) ds by (simp add: pass_fits_def MAX_MB_IO_def numeral_2_eq_2)
    show "answers_ok (?ans i) (mb_devices ?mm ! i)" if "i < length (mb_devices ?mm)" for i
      using that by (auto simp: answers_ok_def demo_master_simps less_Suc_eq)
  qed
  moreover have "length (mb_devices ?mm) = 2" by (simp add: ds)
  ultimately show ?thesis using p(1,2) c by auto
qed

text \<open>A device that cannot be reached gives up its place in the buffers: with two devices, the
  bits of the second are stored behind the \<open>n\<close> of the first when that is up, and from index 0 when
  it is not, so the same inputs of the program show other devices' values.\<close>

theorem unreachable_device_shifts_others:
  assumes "mm_wf mm" "mb_devices mm = [d0, d1]" "\<not> isConnected d0" "isConnected d1"
    and "a_connect (ans 0)" "answers_ok (ans 0) d0" "answers_ok (ans 1) d1" "pass_fits ans [d0, d1]"
  shows "\<exists>mm1 cs1 mm2 cs2. exchangeData_pass ans mm = Some (mm1, cs1) \<and>
     exchangeData_pass (ans(0 := (ans 0)\<lparr>a_connect := False\<rparr>)) mm = Some (mm2, cs2) \<and>
     (\<forall>j. j < unat (num_regs (discrete_inputs d1)) \<longrightarrow>
        bool_input_buf mm1 ! (unat (num_regs (discrete_inputs d0)) + j) = the (a_bits (ans 1)) ! j \<and>
        bool_input_buf mm2 ! j = the (a_bits (ans 1)) ! j)"
proof -
  let ?ans = "ans(0 := (ans 0)\<lparr>a_connect := False\<rparr>)"
  have u: "[0..<2] = [0, 1::nat]" by (simp add: upt_rec)
  obtain b0 b1 where b: "a_bits (ans 0) = Some b0" "length b0 = unat (num_regs (discrete_inputs d0))"
      "a_bits (ans 1) = Some b1" "length b1 = unat (num_regs (discrete_inputs d1))"
    using assms by (auto simp: answers_ok_def goes_up_def)
  have p: "pass_bits ans [d0, d1] 2 = b0 @ b1" "pass_bits ?ans [d0, d1] 2 = b1"
    using assms b by (simp_all add: pass_bits_def u got_bits_def goes_up_def)
  have fit: "pass_fits ?ans [d0, d1]"
    using assms(3,4,5,8) by (simp add: pass_fits_def Let_def pass_bits_def pass_regs_def pass_out_def u got_bits_def
        got_regs_def out_size_def goes_up_def flip: numeral_2_eq_2)
  have ok: "answers_ok (ans i) (mb_devices mm ! i)" "answers_ok (?ans i) (mb_devices mm ! i)"
    if "i < length (mb_devices mm)" for i
    using that assms by (auto simp: less_Suc_eq answers_ok_def goes_up_def)
  have 2: "length (mb_devices mm) = 2" using assms(2) by simp
  have r1: "exchangeData_pass ans mm = Some (master (pass_at ans mm 2), pass_calls ans mm 2)"
    using pass_runs [OF assms(1) _ ok(1)] assms(2,8) 2 by metis
  have r2: "exchangeData_pass ?ans mm = Some (master (pass_at ?ans mm 2), pass_calls ?ans mm 2)"
    using pass_runs [OF assms(1) _ ok(2)] assms(2) fit 2 by metis
  have "bool_input_buf (master (pass_at ans mm 2)) = (b0 @ b1) @ drop (length (b0 @ b1)) (bool_input_buf mm)"
    "bool_input_buf (master (pass_at ?ans mm 2)) = b1 @ drop (length b1) (bool_input_buf mm)"
    unfolding pass_at_def Let_def assms(2) p by simp_all
  note bufs = this
  have "bool_input_buf (master (pass_at ans mm 2)) ! (unat (num_regs (discrete_inputs d0)) + j) = b1 ! j"
    if "j < unat (num_regs (discrete_inputs d1))" for j
    unfolding bufs(1) b(2) [symmetric] using that b(4) by (simp add: nth_append)
  moreover have "bool_input_buf (master (pass_at ?ans mm 2)) ! j = b1 ! j"
    if "j < unat (num_regs (discrete_inputs d1))" for j
    unfolding bufs(2) using that b(4) by (simp add: nth_append)
  ultimately show ?thesis unfolding r1 r2 b(3) option.sel by blast
qed

theorem unreachable_device_shifts_others_witness:
  "\<exists>mm1 cs1 mm2 cs2.
     exchangeData_pass (\<lambda>i. if i = 0 then demo_answer True [0, 0] [7] else demo_answer True [1] [9])
       (demo_master [demo_device False 2 0, demo_device True 1 0]) = Some (mm1, cs1) \<and>
     exchangeData_pass ((\<lambda>i. if i = 0 then demo_answer True [0, 0] [7] else demo_answer True [1] [9])
       (0 := demo_answer False [0, 0] [7]))
       (demo_master [demo_device False 2 0, demo_device True 1 0]) = Some (mm2, cs2) \<and>
     bool_input_buf mm1 ! 2 = 1 \<and> bool_input_buf mm2 ! 0 = 1"
proof -
  let ?ans = "\<lambda>i::nat. if i = 0 then demo_answer True [0, 0] [7] else demo_answer True [1] [9]"
  let ?d0 = "demo_device False 2 0" and ?d1 = "demo_device True 1 0"
  have u: "[0..<2] = [0, 1::nat]" by (simp add: upt_rec)
  have a: "(?ans 0)\<lparr>a_connect := False\<rparr> = demo_answer False [0, 0] [7]" by (simp add: demo_answer_def)
  have "\<exists>mm1 cs1 mm2 cs2. exchangeData_pass ?ans (demo_master [?d0, ?d1]) = Some (mm1, cs1) \<and>
     exchangeData_pass (?ans(0 := (?ans 0)\<lparr>a_connect := False\<rparr>)) (demo_master [?d0, ?d1]) = Some (mm2, cs2) \<and>
     (\<forall>j. j < unat (num_regs (discrete_inputs ?d1)) \<longrightarrow>
        bool_input_buf mm1 ! (unat (num_regs (discrete_inputs ?d0)) + j) = the (a_bits (?ans 1)) ! j \<and>
        bool_input_buf mm2 ! j = the (a_bits (?ans 1)) ! j)"
  proof (rule unreachable_device_shifts_others)
    show "pass_fits ?ans [?d0, ?d1]"
      by (simp add: pass_fits_def Let_def pass_bits_def pass_regs_def pass_out_def u got_bits_def
        got_regs_def out_size_def goes_up_def MAX_MB_IO_def demo_master_simps flip: numeral_2_eq_2)
  qed (simp_all add: mm_wf_def answers_ok_def demo_master_simps)
  then obtain mm1 cs1 mm2 cs2 where 1: "exchangeData_pass ?ans (demo_master [?d0, ?d1]) = Some (mm1, cs1)"
      "exchangeData_pass (?ans(0 := demo_answer False [0, 0] [7])) (demo_master [?d0, ?d1]) = Some (mm2, cs2)"
    and 2: "\<forall>j. j < unat (num_regs (discrete_inputs ?d1)) \<longrightarrow>
        bool_input_buf mm1 ! (unat (num_regs (discrete_inputs ?d0)) + j) = the (a_bits (?ans 1)) ! j \<and>
        bool_input_buf mm2 ! j = the (a_bits (?ans 1)) ! j"
    unfolding a by blast
  have "bool_input_buf mm1 ! 2 = 1 \<and> bool_input_buf mm2 ! 0 = 1"
    using 2 [rule_format, of 0] by (simp add: demo_master_simps)
  then show ?thesis using 1 by blast
qed

text \<open>When the input registers of a connected device cannot be read, it is the index of the bits
  that moves on, by the number of its discrete inputs a second time; the index of the words stays,
  so the bits and the words of all later devices are stored in the wrong places.\<close>

theorem failed_register_read_moves_bits:
  assumes "isConnected (dev i p)" "i < length (mb_devices (master p))" "num_regs (input_registers (dev i p)) \<noteq> 0"
    and "coils (dev i p) = \<lparr>start_address = 0, num_regs = 0\<rparr>" "holding_registers (dev i p) = \<lparr>start_address = 0, num_regs = 0\<rparr>"
    and "a_bits (ans i) = Some vs" "length vs = unat (num_regs (discrete_inputs (dev i p)))" "a_registers (ans i) = None"
    and "bool_input_index p = of_nat (length xs)" "bool_input_buf (master p) = xs @ rest"
      "length vs \<le> length rest" "length xs + length vs \<le> 400" "\<not> ioLock (master p)"
  shows "\<exists>p'. exchange_device ans i p = Some p' \<and>
     bool_input_index p' = bool_input_index p + 2 * num_regs (discrete_inputs (dev i p)) \<and>
     int_input_index p' = int_input_index p \<and> \<not> isConnected (dev i p')"
proof -
  have c: "try_connect (ans i) i p = p" using assms(1) by (simp add: try_connect_def)
  note r = read_bits_ok [OF assms(6,7,9-13)]
  have n: "of_nat (length vs) = num_regs (discrete_inputs (dev i p))" using assms(7) by simp
  show ?thesis
    using assms(1-5,8,9) n unfolding exchange_device_def Let_def c
    by (simp add: r write_coils_def read_registers_def write_words_def dev_def set_connected_def tell_def Let_def)
qed

theorem failed_register_read_moves_bits_witness:
  "\<exists>p'. exchange_device (\<lambda>i. (demo_answer True [1, 1] [])\<lparr>a_registers := None\<rparr>) 0
      \<lparr>bool_input_index = 0, bool_output_index = 0, int_input_index = 0, int_output_index = 0, calls = [],
       master = demo_master [(demo_device True 2 0)\<lparr>coils := \<lparr>start_address = 0, num_regs = 0\<rparr>\<rparr>]\<rparr> = Some p' \<and>
     bool_input_index p' = 4 \<and> int_input_index p' = 0"
  using failed_register_read_moves_bits [of 0 "\<lparr>bool_input_index = 0, bool_output_index = 0, int_input_index = 0,
      int_output_index = 0, calls = [],
       master = demo_master [(demo_device True 2 0)\<lparr>coils := \<lparr>start_address = 0, num_regs = 0\<rparr>\<rparr>]\<rparr>"
      "\<lambda>i. (demo_answer True [1, 1] [])\<lparr>a_registers := None\<rparr>" "[1, 1]" "[]" "replicate 400 0"]
  by (auto simp: dev_def demo_master_simps)

end
