(* ===== verification/ModbusConfig.thy ===== *)
theory ModbusConfig
  imports ModbusMaster
begin

text \<open>
  The reader of \<open>mbconfig.cfg\<close> against the format it is meant for: a configuration printed with one
  line for each parameter of each device is read back as it was. The lines are those of the sample
  file \<open>src/core/mbconfig.cfg\<close>.
\<close>

section \<open>Printing a configuration\<close>

definition QUOTE :: char where "QUOTE = CHR 0x22"

definition param_line :: "nat \<Rightarrow> string \<Rightarrow> string \<Rightarrow> string" where
  "param_line i f v = ''device'' @ print_nat i @ ''.'' @ f @ '' = '' @ [QUOTE] @ v @ [QUOTE]"

definition count_line :: "nat \<Rightarrow> string" where
  "count_line n = ''Num_Devices = '' @ [QUOTE] @ print_nat n @ [QUOTE]"

definition device_params :: "mb_device \<Rightarrow> (string \<times> string) list" where
  "device_params d =
    [(''name'', dev_name d),
     (''protocol'', if protocol d = MB_TCP then ''TCP'' else ''RTU''),
     (''slave_id'', print_nat (unat (dev_id d))),
     (''address'', dev_address d),
     (''IP_Port'', print_nat (unat (ip_port d))),
     (''RTU_Baud_Rate'', print_nat (unat (rtu_baud d))),
     (''RTU_Parity'', [rtu_parity d]),
     (''RTU_Data_Bits'', print_nat (unat (rtu_data_bit d))),
     (''RTU_Stop_Bits'', print_nat (unat (rtu_stop_bit d))),
     (''Discrete_Inputs_Start'', print_nat (unat (start_address (discrete_inputs d)))),
     (''Discrete_Inputs_Size'', print_nat (unat (num_regs (discrete_inputs d)))),
     (''Coils_Start'', print_nat (unat (start_address (coils d)))),
     (''Coils_Size'', print_nat (unat (num_regs (coils d)))),
     (''Input_Registers_Start'', print_nat (unat (start_address (input_registers d)))),
     (''Input_Registers_Size'', print_nat (unat (num_regs (input_registers d)))),
     (''Holding_Registers_Start'', print_nat (unat (start_address (holding_registers d)))),
     (''Holding_Registers_Size'', print_nat (unat (num_regs (holding_registers d))))]"

definition device_lines :: "nat \<Rightarrow> mb_device \<Rightarrow> string list" where
  "device_lines i d = map (\<lambda>(f, v). param_line i f v) (device_params d)"

definition config_lines :: "mb_device list \<Rightarrow> string list" where
  "config_lines ds = count_line (length ds) # concat (map (\<lambda>i. device_lines i (ds ! i)) [0..<length ds])"

text \<open>What fits: strings without quotes that leave room for their NUL, numbers the buffers hold.\<close>

definition plain :: "string \<Rightarrow> bool" where
  "plain s \<longleftrightarrow> QUOTE \<notin> set s \<and> NUL \<notin> set s"

definition config_ok :: "mb_device \<Rightarrow> bool" where
  "config_ok d \<longleftrightarrow> plain (dev_name d) \<and> length (dev_name d) < 100 \<and> plain (dev_address d) \<and>
     length (dev_address d) < 100 \<and> (protocol d = MB_TCP \<or> protocol d = MB_RTU) \<and> plain [rtu_parity d] \<and>
     unat (rtu_baud d) < 1000000000 \<and> unat (rtu_data_bit d) < 100000 \<and> unat (rtu_stop_bit d) < 100000"

section \<open>Reading one line\<close>

lemma print_nat_length: "n < 10 ^ k \<Longrightarrow> 0 < k \<Longrightarrow> length (print_nat n) \<le> k"
proof (induction k arbitrary: n)
  case (Suc k)
  show ?case
  proof (cases "n < 10")
    case False
    then have k: "0 < k" using Suc.prems by (cases k) auto
    have "n div 10 < 10 ^ k" using Suc.prems(1) by (simp add: less_mult_imp_div_less)
    then have "length (print_nat (n div 10)) \<le> k" using Suc.IH k by simp
    then show ?thesis using False by (simp add: print_nat.simps [of n])
  qed (simp add: print_nat.simps [of n])
qed simp

lemma digit_plain: "is_digit c \<Longrightarrow> c \<noteq> QUOTE \<and> c \<noteq> NUL \<and> c \<noteq> CHR ''.''"
  by (auto simp: is_digit_def QUOTE_def)

lemma print_nat_plain [simp]: "plain (print_nat n)"
  using print_nat_digits [of n] digit_plain by (auto simp: plain_def)

lemma c_string_append: "NUL \<notin> set w \<Longrightarrow> c_string (w @ NUL # r) = Some w"
  using copy_until_append [of w "\<lambda>c. c = NUL" NUL r] by (auto simp: c_string_def)

lemma getData_line:
  assumes "QUOTE \<notin> set pre" "NUL \<notin> set pre" "plain v" "length v < cap"
  shows "getData (pre @ QUOTE # v @ QUOTE # rest) cap (CHR 0x22) (CHR 0x22) = Some v"
proof -
  have "skip_until (\<lambda>c. c = CHR 0x22 \<or> c = NUL) (pre @ QUOTE # v @ QUOTE # rest) = Some (QUOTE # v @ QUOTE # rest)"
    using assms by (intro skip_until_append) (auto simp: QUOTE_def)
  moreover have "copy_until (\<lambda>c. c = CHR 0x22 \<or> c = NUL) (v @ QUOTE # rest) = Some (v, QUOTE # rest)"
    using assms by (intro copy_until_append) (auto simp: QUOTE_def plain_def)
  ultimately show ?thesis using assms(4) by (simp add: getData_def fits_def)
qed

lemma getDeviceNumber_line:
  assumes "i < 256"
  shows "getDeviceNumber (''device'' @ print_nat i @ CHR ''.'' # rest) = Some (int i)"
proof -
  have "copy_until (\<lambda>c. c = CHR ''.'') (print_nat i @ CHR ''.'' # rest) = Some (print_nat i, CHR ''.'' # rest)"
    using print_nat_digits [of i] digit_plain by (intro copy_until_append) auto
  moreover have "length (print_nat i) \<le> 3" by (rule print_nat_length) (use assms in auto)
  ultimately show ?thesis
    using assms print_nat_nonempty [of i] by (simp add: getDeviceNumber_def fits_def atoi_print)
qed

lemma getFunction_line:
  assumes "f \<noteq> []" "length f < 100" "CHR '' '' \<notin> set f" "CHR ''='' \<notin> set f" "CHR ''('' \<notin> set f"
  shows "getFunction (''device'' @ print_nat i @ CHR ''.'' # f @ CHR '' '' # rest) = Some f"
proof -
  have "skip_until (\<lambda>c. c = CHR ''.'') ((''device'' @ print_nat i) @ CHR ''.'' # f @ CHR '' '' # rest) =
      Some (CHR ''.'' # f @ CHR '' '' # rest)"
    using print_nat_digits [of i] digit_plain by (intro skip_until_append) auto
  moreover have "copy_until (\<lambda>c. c = CHR '' '' \<or> c = CHR ''='' \<or> c = CHR ''('') (f @ CHR '' '' # rest) = Some (f, CHR '' '' # rest)"
    using assms by (intro copy_until_append) auto
  ultimately show ?thesis using assms by (simp add: getFunction_def fits_def)
qed

text \<open>The names of the parameters.\<close>

definition field_name :: "string \<Rightarrow> bool" where
  "field_name f \<longleftrightarrow> f \<noteq> [] \<and> length f < 100 \<and> plain f \<and> CHR '' '' \<notin> set f \<and> CHR ''='' \<notin> set f \<and> CHR ''('' \<notin> set f"

definition line_buffer :: "nat \<Rightarrow> string \<Rightarrow> string \<Rightarrow> char list" where
  "line_buffer i f v = strncpy 1024 (param_line i f v)"

lemma param_line_facts:
  assumes "i < 256" "field_name f" "plain v" "length v < 100"
  shows "length (param_line i f v) < 1024" "NUL \<notin> set (param_line i f v)"
proof -
  have "length (print_nat i) \<le> 3" by (rule print_nat_length) (use assms in auto)
  then show "length (param_line i f v) < 1024" using assms by (simp add: param_line_def field_name_def)
  show "NUL \<notin> set (param_line i f v)"
    using assms print_nat_plain [of i] by (auto simp: param_line_def field_name_def plain_def QUOTE_def)
qed

lemma line_buffer_eq:
  assumes "i < 256" "field_name f" "plain v" "length v < 100"
  shows "\<exists>z. line_buffer i f v =
     ''device'' @ print_nat i @ CHR ''.'' # f @ CHR '' '' # ''= '' @ QUOTE # v @ QUOTE # NUL # z"
  using strncpy_short [OF param_line_facts(1) [OF assms]] by (auto simp: line_buffer_def param_line_def)

lemma line_reads:
  assumes a: "i < 256" "field_name f" "plain v" "length v < 100"
  shows "getDeviceNumber (line_buffer i f v) = Some (int i)" "getFunction (line_buffer i f v) = Some f"
    "length v < cap \<Longrightarrow> getData (line_buffer i f v) cap (CHR 0x22) (CHR 0x22) = Some v"
    "config_line junk (param_line i f v) mm = device_line (line_buffer i f v) mm"
proof -
  obtain z where z: "line_buffer i f v =
     ''device'' @ print_nat i @ CHR ''.'' # f @ CHR '' '' # ''= '' @ QUOTE # v @ QUOTE # NUL # z"
    using line_buffer_eq [OF a] by blast
  show "getDeviceNumber (line_buffer i f v) = Some (int i)" unfolding z by (rule getDeviceNumber_line [OF a(1)])
  show "getFunction (line_buffer i f v) = Some f"
    unfolding z by (rule getFunction_line) (use a in \<open>auto simp: field_name_def\<close>)
  let ?pre = "''device'' @ print_nat i @ CHR ''.'' # f @ CHR '' '' # ''= ''"
  show "getData (line_buffer i f v) cap (CHR 0x22) (CHR 0x22) = Some v" if "length v < cap"
  proof -
    have "QUOTE \<notin> set ?pre" "NUL \<notin> set ?pre"
      using a(2) print_nat_plain [of i] by (auto simp: plain_def field_name_def QUOTE_def)
    then show ?thesis using getData_line [of ?pre v cap "NUL # z"] a(3) that unfolding z by simp
  qed
  have "c_string (line_buffer i f v) = Some (param_line i f v)"
    using c_string_append [OF param_line_facts(2) [OF a]] strncpy_short [OF param_line_facts(1) [OF a]]
    by (simp add: line_buffer_def)
  then show "config_line junk (param_line i f v) mm = device_line (line_buffer i f v) mm"
    using z unfolding config_line_def line_buffer_def [symmetric] by (simp add: Let_def starts_def param_line_def)
qed

lemma number_line:
  assumes "i < 256" "field_name f" "n < 2147483648" "n < 10 ^ k" "0 < k" "k < cap" "cap \<le> 100"
  shows "number_data (line_buffer i f (print_nat n)) cap = Some (int n)"
proof -
  have "length (print_nat n) \<le> k" using print_nat_length assms(4,5) by blast
  then show ?thesis
    using line_reads(3) [of i f "print_nat n" cap] assms by (simp add: number_data_def atoi_print)
qed

section \<open>Reading a whole configuration\<close>

text \<open>The effect of one line.\<close>

definition upd_at :: "nat \<Rightarrow> (mb_device \<Rightarrow> mb_device) \<Rightarrow> mb_master \<Rightarrow> mb_master" where
  "upd_at i g mm = mm\<lparr>mb_devices := (mb_devices mm)[i := g (mb_devices mm ! i)]\<rparr>"

lemma upd_device_at: "i < length (mb_devices mm) \<Longrightarrow> upd_device (int i) g mm = Some (upd_at i g mm)"
  by (simp add: upd_device_def upd_at_def)

lemma word_of_int_unat [simp]: "word_of_int (int (unat w)) = (w :: 'a::len word)"
  by simp

text \<open>Each kind of line.\<close>

lemmas starts_simps = starts_def field_name_def plain_def QUOTE_def

lemma text_lines:
  assumes i: "i < 256" "i < length (mb_devices mm)" and d: "config_ok d"
  shows "device_line (line_buffer i ''name'' (dev_name d)) mm = Some (upd_at i (\<lambda>x. x\<lparr>dev_name := dev_name d\<rparr>) mm)"
    "device_line (line_buffer i ''address'' (dev_address d)) mm = Some (upd_at i (\<lambda>x. x\<lparr>dev_address := dev_address d\<rparr>) mm)"
    "device_line (line_buffer i ''protocol'' (if protocol d = MB_TCP then ''TCP'' else ''RTU'')) mm =
       Some (upd_at i (\<lambda>x. x\<lparr>protocol := protocol d\<rparr>) mm)"
    "device_line (line_buffer i ''RTU_Parity'' [rtu_parity d]) mm = Some (upd_at i (\<lambda>x. x\<lparr>rtu_parity := rtu_parity d\<rparr>) mm)"
proof -
  have f: "field_name ''name''" "field_name ''address''" "field_name ''protocol''" "field_name ''RTU_Parity''"
    by (simp_all add: starts_simps)
  have p: "plain ''TCP''" "plain ''RTU''" by (simp_all add: starts_simps)
  show "device_line (line_buffer i ''name'' (dev_name d)) mm = Some (upd_at i (\<lambda>x. x\<lparr>dev_name := dev_name d\<rparr>) mm)"
    using line_reads(1-3) [OF i(1) f(1), of "dev_name d"] d
    by (simp add: device_line_def starts_def config_ok_def upd_device_at i)
  show "device_line (line_buffer i ''address'' (dev_address d)) mm = Some (upd_at i (\<lambda>x. x\<lparr>dev_address := dev_address d\<rparr>) mm)"
    using line_reads(1-3) [OF i(1) f(2), of "dev_address d"] d
    by (simp add: device_line_def starts_def config_ok_def upd_device_at i)
  show "device_line (line_buffer i ''protocol'' (if protocol d = MB_TCP then ''TCP'' else ''RTU'')) mm =
       Some (upd_at i (\<lambda>x. x\<lparr>protocol := protocol d\<rparr>) mm)"
    using line_reads(1-3) [OF i(1) f(3) p(1)] line_reads(1-3) [OF i(1) f(3) p(2)] d
    by (auto simp add: device_line_def starts_def config_ok_def upd_device_at i)
  show "device_line (line_buffer i ''RTU_Parity'' [rtu_parity d]) mm = Some (upd_at i (\<lambda>x. x\<lparr>rtu_parity := rtu_parity d\<rparr>) mm)"
    using line_reads(1-3) [OF i(1) f(4), of "[rtu_parity d]"] d
    by (simp add: device_line_def starts_def config_ok_def upd_device_at i)
qed

lemma set_number_line:
  assumes "i < 256" "i < length (mb_devices mm)" "field_name f" "n < 2147483648" "n < 10 ^ k" "0 < k" "k < cap" "cap \<le> 100"
  shows "set_number (line_buffer i f (print_nat n)) cap (int i) g mm = Some (upd_at i (g (int n)) mm)"
  using number_line [of i f n k cap] assms by (simp add: set_number_def upd_device_at)

lemma number_reads:
  assumes "i < 256" "field_name f" "n < 10 ^ 10"
  shows "getDeviceNumber (line_buffer i f (print_nat n)) = Some (int i)"
    "getFunction (line_buffer i f (print_nat n)) = Some f"
proof -
  have "length (print_nat n) \<le> 10" using print_nat_length [of n 10] assms by simp
  then show "getDeviceNumber (line_buffer i f (print_nat n)) = Some (int i)"
    "getFunction (line_buffer i f (print_nat n)) = Some f"
    using line_reads(1,2) assms by simp_all
qed

lemma field_names:
  "field_name ''slave_id''" "field_name ''IP_Port''" "field_name ''RTU_Baud_Rate''" "field_name ''RTU_Data_Bits''"
  "field_name ''RTU_Stop_Bits''" "field_name ''Discrete_Inputs_Start''" "field_name ''Discrete_Inputs_Size''"
  "field_name ''Coils_Start''" "field_name ''Coils_Size''" "field_name ''Input_Registers_Start''"
  "field_name ''Input_Registers_Size''" "field_name ''Holding_Registers_Start''" "field_name ''Holding_Registers_Size''"
  by (simp_all add: starts_simps)

lemma setting_lines:
  assumes i: "i < 256" "i < length (mb_devices mm)" and d: "config_ok d"
  shows "device_line (line_buffer i ''slave_id'' (print_nat (unat (dev_id d)))) mm = Some (upd_at i (\<lambda>x. x\<lparr>dev_id := dev_id d\<rparr>) mm)"
    "device_line (line_buffer i ''IP_Port'' (print_nat (unat (ip_port d)))) mm = Some (upd_at i (\<lambda>x. x\<lparr>ip_port := ip_port d\<rparr>) mm)"
    "device_line (line_buffer i ''RTU_Baud_Rate'' (print_nat (unat (rtu_baud d)))) mm = Some (upd_at i (\<lambda>x. x\<lparr>rtu_baud := rtu_baud d\<rparr>) mm)"
    "device_line (line_buffer i ''RTU_Data_Bits'' (print_nat (unat (rtu_data_bit d)))) mm = Some (upd_at i (\<lambda>x. x\<lparr>rtu_data_bit := rtu_data_bit d\<rparr>) mm)"
    "device_line (line_buffer i ''RTU_Stop_Bits'' (print_nat (unat (rtu_stop_bit d)))) mm = Some (upd_at i (\<lambda>x. x\<lparr>rtu_stop_bit := rtu_stop_bit d\<rparr>) mm)"
proof -
  have b: "unat (dev_id d) < 10 ^ 3" "unat (ip_port d) < 10 ^ 5" "unat (rtu_baud d) < 10 ^ 9"
    "unat (rtu_data_bit d) < 10 ^ 5" "unat (rtu_stop_bit d) < 10 ^ 5"
    using order_less_le_trans [OF unat_u8_less, of "10 ^ 3" "dev_id d"]
      order_less_le_trans [OF unat_u16_less, of "10 ^ 5" "ip_port d"] d by (simp_all add: config_ok_def)
  note r = number_reads [OF i(1) field_names(1)] number_reads [OF i(1) field_names(2)] number_reads [OF i(1) field_names(3)]
    number_reads [OF i(1) field_names(4)] number_reads [OF i(1) field_names(5)]
  show "device_line (line_buffer i ''slave_id'' (print_nat (unat (dev_id d)))) mm = Some (upd_at i (\<lambda>x. x\<lparr>dev_id := dev_id d\<rparr>) mm)"
    using set_number_line [OF i field_names(1) _ b(1)] r(1,2) b(1) by (simp add: device_line_def starts_def)
  show "device_line (line_buffer i ''IP_Port'' (print_nat (unat (ip_port d)))) mm = Some (upd_at i (\<lambda>x. x\<lparr>ip_port := ip_port d\<rparr>) mm)"
    using set_number_line [OF i field_names(2) _ b(2)] r(3,4) b(2) by (simp add: device_line_def starts_def)
  show "device_line (line_buffer i ''RTU_Baud_Rate'' (print_nat (unat (rtu_baud d)))) mm = Some (upd_at i (\<lambda>x. x\<lparr>rtu_baud := rtu_baud d\<rparr>) mm)"
    using set_number_line [OF i field_names(3) _ b(3)] r(5,6) b(3) by (simp add: device_line_def starts_def)
  show "device_line (line_buffer i ''RTU_Data_Bits'' (print_nat (unat (rtu_data_bit d)))) mm = Some (upd_at i (\<lambda>x. x\<lparr>rtu_data_bit := rtu_data_bit d\<rparr>) mm)"
    using set_number_line [OF i field_names(4) _ b(4)] r(7,8) b(4) by (simp add: device_line_def starts_def)
  show "device_line (line_buffer i ''RTU_Stop_Bits'' (print_nat (unat (rtu_stop_bit d)))) mm = Some (upd_at i (\<lambda>x. x\<lparr>rtu_stop_bit := rtu_stop_bit d\<rparr>) mm)"
    using set_number_line [OF i field_names(5) _ b(5)] r(9,10) b(5) by (simp add: device_line_def starts_def)
qed

lemma range_line:
  assumes i: "i < 256" "i < length (mb_devices mm)" and f: "field_name f"
  shows "set_range (line_buffer i f (print_nat (unat (w :: u16)))) (int i) which ''_Start'' mm =
      Some (upd_at i (set_addr (\<lambda>a. a\<lparr>start_address := w\<rparr>) which) mm)"
    "set_range (line_buffer i f (print_nat (unat w))) (int i) which ''_Size'' mm =
      Some (upd_at i (set_addr (\<lambda>a. a\<lparr>num_regs := w\<rparr>) which) mm)"
proof -
  have b: "unat w < 10 ^ 5" by (rule order_less_le_trans [OF unat_u16_less]) simp
  show "set_range (line_buffer i f (print_nat (unat (w :: u16)))) (int i) which ''_Start'' mm =
      Some (upd_at i (set_addr (\<lambda>a. a\<lparr>start_address := w\<rparr>) which) mm)"
    "set_range (line_buffer i f (print_nat (unat w))) (int i) which ''_Size'' mm =
      Some (upd_at i (set_addr (\<lambda>a. a\<lparr>num_regs := w\<rparr>) which) mm)"
    using set_number_line [OF i f _ b, of 10] b by (simp_all add: set_range_def)
qed

lemma range_lines:
  assumes i: "i < 256" "i < length (mb_devices mm)"
  shows "device_line (line_buffer i ''Discrete_Inputs_Start'' (print_nat (unat (w :: u16)))) mm =
      Some (upd_at i (set_addr (\<lambda>a. a\<lparr>start_address := w\<rparr>) ''Discrete_Inputs'') mm)"
    "device_line (line_buffer i ''Discrete_Inputs_Size'' (print_nat (unat w))) mm =
      Some (upd_at i (set_addr (\<lambda>a. a\<lparr>num_regs := w\<rparr>) ''Discrete_Inputs'') mm)"
    "device_line (line_buffer i ''Coils_Start'' (print_nat (unat w))) mm =
      Some (upd_at i (set_addr (\<lambda>a. a\<lparr>start_address := w\<rparr>) ''Coils'') mm)"
    "device_line (line_buffer i ''Coils_Size'' (print_nat (unat w))) mm =
      Some (upd_at i (set_addr (\<lambda>a. a\<lparr>num_regs := w\<rparr>) ''Coils'') mm)"
    "device_line (line_buffer i ''Input_Registers_Start'' (print_nat (unat w))) mm =
      Some (upd_at i (set_addr (\<lambda>a. a\<lparr>start_address := w\<rparr>) ''Input_Registers'') mm)"
    "device_line (line_buffer i ''Input_Registers_Size'' (print_nat (unat w))) mm =
      Some (upd_at i (set_addr (\<lambda>a. a\<lparr>num_regs := w\<rparr>) ''Input_Registers'') mm)"
    "device_line (line_buffer i ''Holding_Registers_Start'' (print_nat (unat w))) mm =
      Some (upd_at i (set_addr (\<lambda>a. a\<lparr>start_address := w\<rparr>) ''Holding_Registers'') mm)"
    "device_line (line_buffer i ''Holding_Registers_Size'' (print_nat (unat w))) mm =
      Some (upd_at i (set_addr (\<lambda>a. a\<lparr>num_regs := w\<rparr>) ''Holding_Registers'') mm)"
proof -
  have b: "unat w < 10 ^ 10" by (rule order_less_le_trans [OF unat_u16_less]) simp
  note f = field_names(6-13)
  show "device_line (line_buffer i ''Discrete_Inputs_Start'' (print_nat (unat (w :: u16)))) mm =
      Some (upd_at i (set_addr (\<lambda>a. a\<lparr>start_address := w\<rparr>) ''Discrete_Inputs'') mm)"
    using range_line(1) [OF i f(1)] number_reads [OF i(1) f(1) b] by (simp add: device_line_def starts_def)
  show "device_line (line_buffer i ''Discrete_Inputs_Size'' (print_nat (unat w))) mm =
      Some (upd_at i (set_addr (\<lambda>a. a\<lparr>num_regs := w\<rparr>) ''Discrete_Inputs'') mm)"
    using range_line(2) [OF i f(2)] number_reads [OF i(1) f(2) b] by (simp add: device_line_def starts_def)
  show "device_line (line_buffer i ''Coils_Start'' (print_nat (unat w))) mm =
      Some (upd_at i (set_addr (\<lambda>a. a\<lparr>start_address := w\<rparr>) ''Coils'') mm)"
    using range_line(1) [OF i f(3)] number_reads [OF i(1) f(3) b] by (simp add: device_line_def starts_def)
  show "device_line (line_buffer i ''Coils_Size'' (print_nat (unat w))) mm =
      Some (upd_at i (set_addr (\<lambda>a. a\<lparr>num_regs := w\<rparr>) ''Coils'') mm)"
    using range_line(2) [OF i f(4)] number_reads [OF i(1) f(4) b] by (simp add: device_line_def starts_def)
  show "device_line (line_buffer i ''Input_Registers_Start'' (print_nat (unat w))) mm =
      Some (upd_at i (set_addr (\<lambda>a. a\<lparr>start_address := w\<rparr>) ''Input_Registers'') mm)"
    using range_line(1) [OF i f(5)] number_reads [OF i(1) f(5) b] by (simp add: device_line_def starts_def)
  show "device_line (line_buffer i ''Input_Registers_Size'' (print_nat (unat w))) mm =
      Some (upd_at i (set_addr (\<lambda>a. a\<lparr>num_regs := w\<rparr>) ''Input_Registers'') mm)"
    using range_line(2) [OF i f(6)] number_reads [OF i(1) f(6) b] by (simp add: device_line_def starts_def)
  show "device_line (line_buffer i ''Holding_Registers_Start'' (print_nat (unat w))) mm =
      Some (upd_at i (set_addr (\<lambda>a. a\<lparr>start_address := w\<rparr>) ''Holding_Registers'') mm)"
    using range_line(1) [OF i f(7)] number_reads [OF i(1) f(7) b] by (simp add: device_line_def starts_def)
  show "device_line (line_buffer i ''Holding_Registers_Size'' (print_nat (unat w))) mm =
      Some (upd_at i (set_addr (\<lambda>a. a\<lparr>num_regs := w\<rparr>) ''Holding_Registers'') mm)"
    using range_line(2) [OF i f(8)] number_reads [OF i(1) f(8) b] by (simp add: device_line_def starts_def)
qed

lemma upd_at_simps [simp]:
  "length (mb_devices (upd_at i g mm)) = length (mb_devices mm)"
  "i < length (mb_devices mm) \<Longrightarrow> upd_at i h (upd_at i g mm) = upd_at i (\<lambda>x. h (g x)) mm"
  by (simp_all add: upd_at_def)

definition configured :: "mb_device \<Rightarrow> mb_device \<Rightarrow> mb_device" where
  "configured d x = d\<lparr>mb_ctx := mb_ctx x, isConnected := isConnected x\<rparr>"

lemma param_names:
  assumes "config_ok d" "(f, v) \<in> set (device_params d)"
  shows "field_name f" "plain v" "length v < 100"
proof -
  have t: "field_name ''name''" "field_name ''address''" "field_name ''protocol''" "field_name ''RTU_Parity''"
    "plain ''TCP''" "plain ''RTU''"
    by (simp_all add: starts_simps)
  have n: "length (print_nat (unat w)) < 100" for w :: u16
    using print_nat_length [of "unat w" 5] order_less_le_trans [OF unat_u16_less, of "10 ^ 5" w] by simp
  have n8: "length (print_nat (unat w)) < 100" for w :: u8
    using print_nat_length [of "unat w" 3] order_less_le_trans [OF unat_u8_less, of "10 ^ 3" w] by simp
  have n9: "length (print_nat k) < 100" if "k < 1000000000" for k
    using print_nat_length [of k 9] that by simp
  show "field_name f" "plain v"
    using assms t field_names by (auto simp: device_params_def config_ok_def)
  show "length v < 100"
    using assms n n8 n9 [of "unat (rtu_baud d)"] n9 [of "unat (rtu_data_bit d)"] n9 [of "unat (rtu_stop_bit d)"]
    by (auto simp: device_params_def config_ok_def)
qed

lemma parse_device:
  assumes i: "i < 256" "i < length (mb_devices mm)" and d: "config_ok d"
  shows "parseConfig junk (device_lines i d @ rest) mm = parseConfig junk rest (upd_at i (configured d) mm)"
proof -
  have "config_line junk (param_line i f v) mm' = device_line (line_buffer i f v) mm'"
    if "(f, v) \<in> set (device_params d)" for f v mm'
    using line_reads(4) [OF i(1)] param_names [OF d that] by blast
  then have c: "\<forall>(f, v) \<in> set (device_params d). \<forall>mm'.
      config_line junk (param_line i f v) mm' = device_line (line_buffer i f v) mm'" by blast
  let ?all = "\<lambda>x. set_addr (\<lambda>a. a\<lparr>num_regs := num_regs (holding_registers d)\<rparr>) ''Holding_Registers''
     (set_addr (\<lambda>a. a\<lparr>start_address := start_address (holding_registers d)\<rparr>) ''Holding_Registers''
     (set_addr (\<lambda>a. a\<lparr>num_regs := num_regs (input_registers d)\<rparr>) ''Input_Registers''
     (set_addr (\<lambda>a. a\<lparr>start_address := start_address (input_registers d)\<rparr>) ''Input_Registers''
     (set_addr (\<lambda>a. a\<lparr>num_regs := num_regs (coils d)\<rparr>) ''Coils''
     (set_addr (\<lambda>a. a\<lparr>start_address := start_address (coils d)\<rparr>) ''Coils''
     (set_addr (\<lambda>a. a\<lparr>num_regs := num_regs (discrete_inputs d)\<rparr>) ''Discrete_Inputs''
     (set_addr (\<lambda>a. a\<lparr>start_address := start_address (discrete_inputs d)\<rparr>) ''Discrete_Inputs''
     (x\<lparr>dev_name := dev_name d, protocol := protocol d, dev_id := dev_id d, dev_address := dev_address d,
        ip_port := ip_port d, rtu_baud := rtu_baud d, rtu_parity := rtu_parity d, rtu_data_bit := rtu_data_bit d,
        rtu_stop_bit := rtu_stop_bit d\<rparr>))))))))"
  have "?all x = configured d x" for x
    by (cases x; cases d) (simp add: configured_def set_addr_def)
  then have e: "?all = configured d" by (rule ext)
  have "parseConfig junk (device_lines i d @ rest) mm = parseConfig junk rest (upd_at i ?all mm)"
    using c i unfolding device_lines_def device_params_def
    by (simp add: text_lines setting_lines range_lines d)
  then show ?thesis unfolding e .
qed

lemma parse_count:
  assumes "n < 256"
  shows "config_line junk (count_line n) mm = Some (mm\<lparr>num_devices := of_nat n, mb_devices := map junk [0..<n]\<rparr>)"
proof -
  have "length (print_nat n) \<le> 3" by (rule print_nat_length) (use assms in auto)
  then have l: "length (count_line n) < 1024" by (simp add: count_line_def)
  have "NUL \<notin> set (count_line n)" using print_nat_plain [of n] by (auto simp: count_line_def plain_def QUOTE_def)
  moreover obtain z where z: "strncpy 1024 (count_line n) = ''Num_Devices = '' @ QUOTE # print_nat n @ QUOTE # NUL # z"
    using strncpy_short [OF l] by (auto simp: count_line_def)
  ultimately have c: "c_string (strncpy 1024 (count_line n)) = Some (count_line n)"
    using c_string_append strncpy_short [OF l] by metis
  have "getData (strncpy 1024 (count_line n)) 5 (CHR 0x22) (CHR 0x22) = Some (print_nat n)"
    unfolding z by (rule getData_line) (use \<open>length (print_nat n) \<le> 3\<close> in \<open>simp_all add: QUOTE_def\<close>)
  then have "number_data (strncpy 1024 (count_line n)) 5 = Some (int n)"
    using assms by (simp add: number_data_def atoi_print)
  moreover have "unat (of_nat n :: u8) = n" using assms by (simp add: unat_of_nat)
  moreover have "1 < length (count_line n)" by (simp add: count_line_def)
  ultimately show ?thesis
    using z c by (simp add: config_line_def Let_def starts_def)
qed

lemma parse_devices:
  assumes "\<forall>d \<in> set ds. config_ok d" "length (mb_devices mm) = length ds" "length ds < 256" "k \<le> length ds"
  shows "parseConfig junk (concat (map (\<lambda>i. device_lines i (ds ! i)) [0..<k]) @ rest) mm = parseConfig junk rest
    (mm\<lparr>mb_devices := map (\<lambda>i. configured (ds ! i) (mb_devices mm ! i)) [0..<k] @ drop k (mb_devices mm)\<rparr>)"
  using assms(4)
proof (induction k arbitrary: rest)
  case (Suc k)
  have k: "k < length ds" using Suc.prems by simp
  let ?m = "mm\<lparr>mb_devices := map (\<lambda>i. configured (ds ! i) (mb_devices mm ! i)) [0..<k] @ drop k (mb_devices mm)\<rparr>"
  have "parseConfig junk (device_lines k (ds ! k) @ rest) ?m = parseConfig junk rest (upd_at k (configured (ds ! k)) ?m)"
    by (rule parse_device) (use k assms in auto)
  moreover have "upd_at k (configured (ds ! k)) ?m =
      mm\<lparr>mb_devices := map (\<lambda>i. configured (ds ! i) (mb_devices mm ! i)) [0..<Suc k] @ drop (Suc k) (mb_devices mm)\<rparr>"
    using k assms(2) by (simp add: upd_at_def nth_append list_update_append flip: Cons_nth_drop_Suc)
  ultimately show ?case using Suc.IH [of "device_lines k (ds ! k) @ rest"] k by simp
qed simp

text \<open>C17: A configuration printed in the format of the sample file is read back as it was, for up
  to 255 devices; only the context and the flag \<open>isConnected\<close> of a device are still what \<open>malloc\<close>
  left there.\<close>

theorem parse_printed_config:
  assumes "\<forall>d \<in> set ds. config_ok d" "length ds < 256"
  shows "parseConfig junk (config_lines ds) mm = Some (mm\<lparr>num_devices := of_nat (length ds),
     mb_devices := map (\<lambda>i. configured (ds ! i) (junk i)) [0..<length ds]\<rparr>)"
proof -
  let ?m = "mm\<lparr>num_devices := of_nat (length ds), mb_devices := map junk [0..<length ds]\<rparr>"
  have "parseConfig junk (concat (map (\<lambda>i. device_lines i (ds ! i)) [0..<length ds]) @ []) ?m = parseConfig junk []
    (?m\<lparr>mb_devices := map (\<lambda>i. configured (ds ! i) (mb_devices ?m ! i)) [0..<length ds] @ drop (length ds) (mb_devices ?m)\<rparr>)"
    by (rule parse_devices) (use assms in auto)
  then show ?thesis using parse_count [OF assms(2)] by (simp add: config_lines_def cong: map_cong)
qed

theorem parse_printed_config_witness:
  "parseConfig (\<lambda>i. demo_device True 0 0) (config_lines [demo_device False 8 4]) (demo_master []) =
     Some ((demo_master [])\<lparr>num_devices := 1, mb_devices := [demo_device True 8 4]\<rparr>)"
proof -
  have "parseConfig (\<lambda>i. demo_device True 0 0) (config_lines [demo_device False 8 4]) (demo_master []) =
    Some ((demo_master [])\<lparr>num_devices := of_nat (length [demo_device False 8 4]),
     mb_devices := map (\<lambda>i. configured ([demo_device False 8 4] ! i) (demo_device True 0 0)) [0..<length [demo_device False 8 4]]\<rparr>)"
    by (rule parse_printed_config) (simp_all add: config_ok_def starts_simps demo_master_simps MB_TCP_def)
  then show ?thesis by (simp add: configured_def demo_device_def)
qed

end
