(* ===== verification/Dnp3Server.thy ===== *)
theory Dnp3Server
  imports Complex_Main ModbusMap ModbusMaster
begin

text \<open>
  The DNP3 outstation \<open>src/core/dnp3.cpp\<close>: the commands of the master (\<open>CommandCallback\<close>), the
  update of the outstation's database (\<open>update_vals\<close>), the reader of \<open>dnp3.cfg\<close> and the pass of the
  server's loop. The protocol stack, opendnp3, decodes the commands and takes the updates; it is not
  modelled: a command is what the callback gets, an update is what the builder is told.
\<close>

unbundle bit_operations_syntax

section \<open>The commands\<close>

definition D_MIN_16B :: nat where "D_MIN_16B = 1024"
definition D_MAX_16B :: nat where "D_MAX_16B = 2047"
definition D_MIN_32B :: nat where "D_MIN_32B = 2048"
definition D_MAX_32B :: nat where "D_MAX_32B = 4095"
definition D_MIN_64B :: nat where "D_MIN_64B = 4096"
definition D_MAX_64B :: nat where "D_MAX_64B = 8191"

datatype control_code = LATCH_ON | LATCH_OFF | OTHER_CODE u8

datatype command_status = SUCCESS | NOT_SUPPORTED | OUT_OF_RANGE

text \<open>
  A floating-point value: a number, or an infinity or NaN. Its conversion to a signed integer of
  \<open>n\<close> bits cuts the fraction off; outside the range it is undefined.
\<close>

datatype floating = Number rat | Not_finite

definition truncate :: "rat \<Rightarrow> int" where
  "truncate q = (if 0 \<le> q then \<lfloor>q\<rfloor> else \<lceil>q\<rceil>)"

definition float_to_int :: "nat \<Rightarrow> floating \<Rightarrow> int option" where
  "float_to_int n v = (case v of
     Number q \<Rightarrow> if - (2 ^ (n - 1)) \<le> truncate q \<and> truncate q < 2 ^ (n - 1) then Some (truncate q) else None
   | Not_finite \<Rightarrow> None)"

datatype dnp3_command =
    CROB control_code
  | AnalogOutputInt16 u16
  | AnalogOutputInt32 c_int
  | AnalogOutputFloat32 floating
  | AnalogOutputDouble64 floating

text \<open>The selection of a command does not look at it.\<close>

definition Select :: "dnp3_command \<Rightarrow> u16 \<Rightarrow> command_status" where
  "Select command index = SUCCESS"

definition Operate_CROB :: "control_code \<Rightarrow> nat \<Rightarrow> plc_io \<Rightarrow> (plc_io \<times> command_status) option" where
  "Operate_CROB code index m =
     (if code = LATCH_ON \<or> code = LATCH_OFF then do {
        let crob_val = (if code = LATCH_ON then 1 else 0);
        m \<leftarrow> lock_buffer m;
        p \<leftarrow> ptr2 (bool_output m) (index div 8) (index mod 8);
        let m = (case p of Some c \<Rightarrow> set_u8 c crob_val m | None \<Rightarrow> m);
        Some (unlock_buffer m, SUCCESS) }
      else Some (m, NOT_SUPPORTED))"

text \<open>
  The second test is also reached with an index below 1024 whose output is not mapped; the
  difference \<open>index - MIN_16B_RANGE\<close> is then negative. The branch for an index above the range
  returns with the mutex locked.
\<close>

definition Operate_Int16 :: "u16 \<Rightarrow> nat \<Rightarrow> plc_io \<Rightarrow> (plc_io \<times> command_status) option" where
  "Operate_Int16 ao_val index m = do {
     m \<leftarrow> lock_buffer m;
     p \<leftarrow> (if index < D_MIN_16B then ptr1 (int_output m) index else Some None);
     (case p of
        Some c \<Rightarrow> Some (unlock_buffer (set_u16 c ao_val m), SUCCESS)
      | None \<Rightarrow> do {
          q \<leftarrow> (if index < D_MAX_16B
                then if D_MIN_16B \<le> index then ptr1 (int_memory m) (index - D_MIN_16B) else None
                else Some None);
          (case q of
             Some c \<Rightarrow> Some (unlock_buffer (set_u16 c ao_val m), SUCCESS)
           | None \<Rightarrow> if index > D_MAX_16B then Some (m, OUT_OF_RANGE)
                     else Some (unlock_buffer m, SUCCESS)) }) }"

definition Operate_Int32 :: "c_int \<Rightarrow> nat \<Rightarrow> plc_io \<Rightarrow> (plc_io \<times> command_status) option" where
  "Operate_Int32 ao_val index m =
     (if index < D_MIN_32B \<or> D_MAX_32B \<le> index then Some (m, OUT_OF_RANGE)
      else do {
        m \<leftarrow> lock_buffer m;
        p \<leftarrow> ptr1 (dint_memory m) (index - D_MIN_32B);
        let m = (case p of Some c \<Rightarrow> set_s32 c ao_val m | None \<Rightarrow> m);
        Some (unlock_buffer m, SUCCESS) })"

definition Operate_Float32 :: "floating \<Rightarrow> nat \<Rightarrow> plc_io \<Rightarrow> (plc_io \<times> command_status) option" where
  "Operate_Float32 ao_val index m =
     (if index < D_MIN_32B \<or> D_MAX_32B \<le> index then Some (m, OUT_OF_RANGE)
      else do {
        m \<leftarrow> lock_buffer m;
        p \<leftarrow> ptr1 (dint_memory m) (index - D_MIN_32B);
        m \<leftarrow> (case p of
            Some c \<Rightarrow> do { v \<leftarrow> float_to_int 32 ao_val; Some (set_s32 c (of_int v) m) }
          | None \<Rightarrow> Some m);
        Some (unlock_buffer m, SUCCESS) })"

definition Operate_Double64 :: "floating \<Rightarrow> nat \<Rightarrow> plc_io \<Rightarrow> (plc_io \<times> command_status) option" where
  "Operate_Double64 ao_val index m =
     (if index < D_MIN_64B \<or> D_MAX_64B \<le> index then Some (m, OUT_OF_RANGE)
      else do {
        m \<leftarrow> lock_buffer m;
        p \<leftarrow> ptr1 (lint_memory m) (index - D_MIN_64B);
        m \<leftarrow> (case p of
            Some c \<Rightarrow> do { v \<leftarrow> float_to_int 64 ao_val; Some (set_s64 c (of_int v) m) }
          | None \<Rightarrow> Some m);
        Some (unlock_buffer m, SUCCESS) })"

definition Operate :: "dnp3_command \<Rightarrow> u16 \<Rightarrow> plc_io \<Rightarrow> (plc_io \<times> command_status) option" where
  "Operate command index m = (case command of
     CROB code \<Rightarrow> Operate_CROB code (unat index) m
   | AnalogOutputInt16 v \<Rightarrow> Operate_Int16 v (unat index) m
   | AnalogOutputInt32 v \<Rightarrow> Operate_Int32 v (unat index) m
   | AnalogOutputFloat32 v \<Rightarrow> Operate_Float32 v (unat index) m
   | AnalogOutputDouble64 v \<Rightarrow> Operate_Double64 v (unat index) m)"

section \<open>Updating the outstation\<close>

datatype dnp3_update =
    Binary bool nat
  | BinaryOutputStatus bool nat
  | Analog int nat
  | AnalogOutputStatus int nat

text \<open>The first four loops dereference every pointer, the last three those that are not NULL.\<close>

definition upd_binary :: "plc_io \<Rightarrow> nat \<Rightarrow> dnp3_update list \<Rightarrow> dnp3_update list option" where
  "upd_binary m i us = do {
     p \<leftarrow> ptr2 (bool_input m) (i div 8) (i mod 8); c \<leftarrow> p; Some (us @ [Binary (u8_heap m c \<noteq> 0) i]) }"

definition upd_coil :: "plc_io \<Rightarrow> nat \<Rightarrow> dnp3_update list \<Rightarrow> dnp3_update list option" where
  "upd_coil m i us = do {
     p \<leftarrow> ptr2 (bool_output m) (i div 8) (i mod 8); c \<leftarrow> p; Some (us @ [BinaryOutputStatus (u8_heap m c \<noteq> 0) i]) }"

definition upd_analog :: "plc_io \<Rightarrow> nat \<Rightarrow> dnp3_update list \<Rightarrow> dnp3_update list option" where
  "upd_analog m i us = do {
     p \<leftarrow> ptr1 (int_input m) i; c \<leftarrow> p; Some (us @ [Analog (uint (u16_heap m c)) i]) }"

definition upd_output :: "plc_io \<Rightarrow> nat \<Rightarrow> dnp3_update list \<Rightarrow> dnp3_update list option" where
  "upd_output m i us = do {
     p \<leftarrow> ptr1 (int_output m) i; c \<leftarrow> p; Some (us @ [AnalogOutputStatus (uint (u16_heap m c)) i]) }"

definition upd_memory16 :: "plc_io \<Rightarrow> nat \<Rightarrow> dnp3_update list \<Rightarrow> dnp3_update list option" where
  "upd_memory16 m i us = do {
     p \<leftarrow> ptr1 (int_memory m) (i - D_MIN_16B);
     Some (case p of Some c \<Rightarrow> us @ [AnalogOutputStatus (uint (u16_heap m c)) i] | None \<Rightarrow> us) }"

definition upd_memory32 :: "plc_io \<Rightarrow> nat \<Rightarrow> dnp3_update list \<Rightarrow> dnp3_update list option" where
  "upd_memory32 m i us = do {
     p \<leftarrow> ptr1 (dint_memory m) (i - D_MIN_32B);
     Some (case p of Some c \<Rightarrow> us @ [AnalogOutputStatus (sint (s32_heap m c)) i] | None \<Rightarrow> us) }"

definition upd_memory64 :: "plc_io \<Rightarrow> nat \<Rightarrow> dnp3_update list \<Rightarrow> dnp3_update list option" where
  "upd_memory64 m i us = do {
     p \<leftarrow> ptr1 (lint_memory m) (i - D_MIN_64B);
     Some (case p of Some c \<Rightarrow> us @ [AnalogOutputStatus (sint (ucast (s64_heap m c) :: c_int)) i] | None \<Rightarrow> us) }"

definition update_16b :: "plc_io \<Rightarrow> dnp3_update list option" where
  "update_16b m = do {
     us \<leftarrow> for_range 1 799 (upd_binary m) [];
     us \<leftarrow> for_range 0 800 (upd_coil m) us;
     us \<leftarrow> for_range 0 1024 (upd_analog m) us;
     us \<leftarrow> for_range 0 D_MIN_16B (upd_output m) us;
     for_range D_MIN_16B (D_MAX_16B - D_MIN_16B) (upd_memory16 m) us }"

definition update_vals :: "plc_io \<Rightarrow> dnp3_update list option" where
  "update_vals m = do {
     us \<leftarrow> update_16b m;
     us \<leftarrow> for_range D_MIN_32B (D_MAX_32B - D_MIN_32B) (upd_memory32 m) us;
     for_range D_MIN_64B (min (D_MAX_64B - D_MIN_64B) BUFFER_SIZE) (upd_memory64 m) us }"

text \<open>One pass of the endless loop; the server calls \<open>mapUnusedIO\<close> once before it.\<close>

definition dnp3_pass :: "plc_io \<Rightarrow> (plc_io \<times> dnp3_update list) option" where
  "dnp3_pass m = do {
     m \<leftarrow> lock_buffer m;
     us \<leftarrow> update_vals m;
     Some (unlock_buffer m, us) }"

definition OPLC_CYCLE :: nat where "OPLC_CYCLE = 50000000"

fun dnp3_passes :: "nat \<Rightarrow> plc_io \<times> timespec \<Rightarrow> ((plc_io \<times> timespec) \<times> dnp3_update list list) option" where
  "dnp3_passes 0 st = Some (st, [])"
| "dnp3_passes (Suc n) (m, timer_start) = do {
     (m, us) \<leftarrow> dnp3_pass m;
     (st, uss) \<leftarrow> dnp3_passes n (m, sleep_until timer_start (int OPLC_CYCLE));
     Some (st, us # uss) }"

definition dnp3StartServer :: "nat \<Rightarrow> timespec \<Rightarrow> plc_io \<Rightarrow> ((plc_io \<times> timespec) \<times> dnp3_update list list) option" where
  "dnp3StartServer n clock m = do {
     m \<leftarrow> mapUnusedIO m;
     dnp3_passes n (m, clock) }"

section \<open>The configuration\<close>

text \<open>
  The settings \<open>parseDNP3Config\<close> can change; times are in milliseconds, \<open>None\<close> is
  \<open>TimeDuration::Max()\<close>. What opendnp3 starts from for a given size of the database is a parameter.
\<close>

record dnp3_config =
  LocalAddr :: u16
  RemoteAddr :: u16
  KeepAliveTimeout :: "int option"
  allowUnsolicited :: bool
  selectTimeout :: int
  maxControlsPerRequest :: u8
  maxRxFragSize :: c_int
  maxTxFragSize :: c_int
  eventBufferSize :: u16
  solConfirmTimeout :: int
  unsolConfirmTimeout :: int
  unsolRetryTimeout :: int

definition ltrim :: "string \<Rightarrow> string" where
  "ltrim s = dropWhile is_space s"

definition rtrim :: "string \<Rightarrow> string" where
  "rtrim s = rev (dropWhile is_space (rev s))"

definition trim :: "string \<Rightarrow> string" where
  "trim s = ltrim (rtrim s)"

text \<open>
  The first \<open>getline(iss, token, '=')\<close> of a line and its second one: when the first has come to the
  end of the line, the second fails and leaves the token as it is.
\<close>

definition first_token :: "string \<Rightarrow> string" where
  "first_token line = trim (takeWhile (\<lambda>c. c \<noteq> CHR ''='') line)"

definition second_token :: "string \<Rightarrow> string" where
  "second_token line = (case dropWhile (\<lambda>c. c \<noteq> CHR ''='') line of
     [] \<Rightarrow> first_token line
   | _ # rest \<Rightarrow> takeWhile (\<lambda>c. c \<noteq> CHR ''='') rest)"

definition is_comment :: "string \<Rightarrow> bool" where
  "is_comment line \<longleftrightarrow> line \<noteq> [] \<and> hd line = CHR ''#''"

text \<open>The size of the database: 10 when no line gives it.\<close>

fun create_config :: "string list \<Rightarrow> u16 option" where
  "create_config [] = Some 10"
| "create_config (line # lines) =
     (if is_comment line then create_config lines
      else if first_token line = ''database_size'' then map_option word_of_int (atoi (second_token line))
      else create_config lines)"

definition dnp3_line :: "string \<Rightarrow> dnp3_config \<Rightarrow> dnp3_config option" where
  "dnp3_line line config =
     (let token = first_token line; v = second_token line; num = atoi v in
      if is_comment line then Some config
      else if token = ''local_address'' then map_option (\<lambda>n. config\<lparr>LocalAddr := word_of_int n\<rparr>) num
      else if token = ''remote_address'' then map_option (\<lambda>n. config\<lparr>RemoteAddr := word_of_int n\<rparr>) num
      else if token = ''keep_alive_timeout'' then
        (if v = ''MAX'' then Some (config\<lparr>KeepAliveTimeout := None\<rparr>)
         else map_option (\<lambda>n. config\<lparr>KeepAliveTimeout := Some (1000 * n)\<rparr>) num)
      else if token = ''enable_unsolicited'' then Some (config\<lparr>allowUnsolicited := (v = ''True'')\<rparr>)
      else if token = ''select_timeout'' then map_option (\<lambda>n. config\<lparr>selectTimeout := 1000 * n\<rparr>) num
      else if token = ''max_controls_per_request'' then
        map_option (\<lambda>n. config\<lparr>maxControlsPerRequest := word_of_int n\<rparr>) num
      else if token = ''max_rx_frag_size'' then map_option (\<lambda>n. config\<lparr>maxRxFragSize := word_of_int n\<rparr>) num
      else if token = ''max_tx_frag_size'' then map_option (\<lambda>n. config\<lparr>maxTxFragSize := word_of_int n\<rparr>) num
      else if token = ''event_buffer_size'' then map_option (\<lambda>n. config\<lparr>eventBufferSize := word_of_int n\<rparr>) num
      else if token = ''sol_confirm_timeout'' then map_option (\<lambda>n. config\<lparr>solConfirmTimeout := n\<rparr>) num
      else if token = ''unsol_confirm_timeout'' then map_option (\<lambda>n. config\<lparr>unsolConfirmTimeout := n\<rparr>) num
      else if token = ''unsol_retry_timeout'' then map_option (\<lambda>n. config\<lparr>unsolRetryTimeout := n\<rparr>) num
      else Some config)"

fun dnp3_lines :: "string list \<Rightarrow> dnp3_config \<Rightarrow> dnp3_config option" where
  "dnp3_lines [] config = Some config"
| "dnp3_lines (line # lines) config = do { config \<leftarrow> dnp3_line line config; dnp3_lines lines config }"

definition parseDNP3Config :: "(u16 \<Rightarrow> dnp3_config) \<Rightarrow> string list \<Rightarrow> dnp3_config option" where
  "parseDNP3Config stack_config cfgfile = do {
     size \<leftarrow> create_config cfgfile;
     dnp3_lines cfgfile (stack_config size) }"

section \<open>What a command does\<close>

lemmas dnp3_consts = D_MIN_16B_def D_MAX_16B_def D_MIN_32B_def D_MAX_32B_def D_MIN_64B_def D_MAX_64B_def

lemmas operate_defs = Operate_CROB_def Operate_Int16_def Operate_Int32_def Operate_Float32_def Operate_Double64_def

text \<open>A 16-bit command in each part of the range.\<close>

lemma Operate_Int16_cases:
  assumes "\<not> bufferLock m"
  shows "i < 1024 \<Longrightarrow> int_output m i = Some c \<Longrightarrow> Operate_Int16 v i m = Some (set_u16 c v m, SUCCESS)"
    "i < 1024 \<Longrightarrow> int_output m i = None \<Longrightarrow> Operate_Int16 v i m = None"
    "1024 \<le> i \<Longrightarrow> i < 2047 \<Longrightarrow> int_memory m (i - 1024) = Some c \<Longrightarrow> Operate_Int16 v i m = Some (set_u16 c v m, SUCCESS)"
    "1024 \<le> i \<Longrightarrow> i < 2047 \<Longrightarrow> int_memory m (i - 1024) = None \<Longrightarrow> Operate_Int16 v i m = Some (m, SUCCESS)"
    "Operate_Int16 v 2047 m = Some (m, SUCCESS)"
    "2047 < i \<Longrightarrow> Operate_Int16 v i m = Some (m\<lparr>bufferLock := True\<rparr>, OUT_OF_RANGE)"
  using assms by (cases m; simp add: Operate_Int16_def dnp3_consts lock_buffer_def unlock_buffer_def set_u16_def)+

lemma operate_frame:
  assumes "\<not> bufferLock m" "Operate cmd index m = Some (m', st)"
  shows "tables m' = tables m" "bufferLock m' \<longleftrightarrow> (\<exists>v. cmd = AnalogOutputInt16 v) \<and> 2047 < unat index"
proof -
  have 16: "tables m' = tables m \<and> (bufferLock m' \<longleftrightarrow> 2047 < unat index)"
    if "Operate_Int16 v (unat index) m = Some (m', st)" for v
  proof -
    consider "unat index < 1024" | "1024 \<le> unat index" "unat index < 2047" | "unat index = 2047" | "2047 < unat index"
      by linarith
    then show ?thesis
    proof cases
      case 1
      then show ?thesis using that assms(1)
        by (cases "int_output m (unat index)") (auto simp: Operate_Int16_cases)
    next
      case 2
      then show ?thesis using that assms(1)
        by (cases "int_memory m (unat index - 1024)") (auto simp: Operate_Int16_cases)
    qed (use that assms(1) in \<open>auto simp: Operate_Int16_cases\<close>)
  qed
  have "tables m' = tables m \<and> (bufferLock m' \<longleftrightarrow> (\<exists>v. cmd = AnalogOutputInt16 v) \<and> 2047 < unat index)"
  proof (cases cmd)
    case (AnalogOutputInt16 v)
    then show ?thesis using 16 assms(2) by (simp add: Operate_def)
  qed (use assms in \<open>auto simp: Operate_def operate_defs lock_buffer_def unlock_buffer_def Let_def bind_eq_Some_conv
        split: if_splits option.splits\<close>)
  then show "tables m' = tables m" "bufferLock m' \<longleftrightarrow> (\<exists>v. cmd = AnalogOutputInt16 v) \<and> 2047 < unat index" by auto
qed

text \<open>The commands whose tests lead to the mutex.\<close>

definition reaches_buffer :: "dnp3_command \<Rightarrow> nat \<Rightarrow> bool" where
  "reaches_buffer command index \<longleftrightarrow> (case command of
     CROB code \<Rightarrow> code = LATCH_ON \<or> code = LATCH_OFF
   | AnalogOutputInt16 v \<Rightarrow> True
   | AnalogOutputInt32 v \<Rightarrow> D_MIN_32B \<le> index \<and> index < D_MAX_32B
   | AnalogOutputFloat32 v \<Rightarrow> D_MIN_32B \<le> index \<and> index < D_MAX_32B
   | AnalogOutputDouble64 v \<Rightarrow> D_MIN_64B \<le> index \<and> index < D_MAX_64B)"

lemma operate_locked:
  assumes "bufferLock m" "reaches_buffer command (unat index)"
  shows "Operate command index m = None"
  using assms by (cases command) (auto simp: reaches_buffer_def Operate_def operate_defs lock_buffer_def)

text \<open>C18: A command leaves the pointer tables alone and the mutex free, with one exception: a
  16-bit analog output with an index above 2047 is refused with the mutex still locked. From then
  on no command that gets as far as the mutex returns, nor does \<open>mapUnusedIO\<close>, with which a server
  starts, nor \<open>updateBuffersIn\<close> of the Modbus master: \<open>bufferLock\<close> can no longer be locked.\<close>

theorem dnp3_mutex_leak:
  assumes "\<not> bufferLock m" "Operate cmd index m = Some (m', st)"
  shows "tables m' = tables m \<and> (bufferLock m' \<longleftrightarrow> (\<exists>v. cmd = AnalogOutputInt16 v) \<and> 2047 < unat index) \<and>
    (bufferLock m' \<longrightarrow> st = OUT_OF_RANGE \<and> (\<forall>c k. reaches_buffer c (unat k) \<longrightarrow> Operate c k m' = None) \<and>
       mapUnusedIO m' = None \<and> mbm_updateBuffersIn mm m' = None \<and> lock_buffer m' = None)"
proof -
  have "st = OUT_OF_RANGE" if "bufferLock m'"
    using operate_frame [OF assms] that assms Operate_Int16_cases(6) [OF assms(1), of "unat index"]
    by (auto simp: Operate_def)
  moreover have "mapUnusedIO m' = None \<and> mbm_updateBuffersIn mm m' = None \<and> lock_buffer m' = None" if "bufferLock m'"
    using that by (simp add: mapUnusedIO_def mbm_updateBuffersIn_def lock_buffer_def Let_def)
  ultimately show ?thesis using operate_frame [OF assms] operate_locked by blast
qed

text \<open>The update of the 32-bit registers goes up to index 2046 of a table of 1024 pointers.\<close>

lemma update_memory32_out: "for_range D_MIN_32B (D_MAX_32B - D_MIN_32B) (upd_memory32 m) us = None"
  by (rule for_range_None [of _ 3072]) (simp_all add: dnp3_consts upd_memory32_def)

text \<open>Every update of the outstation reads past the end of \<open>dint_memory\<close>, whatever is mapped:
  the loop over the 32-bit registers has 2047 steps and the table has 1024 entries.\<close>

theorem dnp3_update_out_of_bounds: "update_vals m = None"
  by (cases "update_16b m") (simp_all add: update_vals_def update_memory32_out)

definition dnp3_demo :: plc_io where
  "dnp3_demo = \<lparr>bool_input = \<lambda>_ _. None, bool_output = \<lambda>_ _. None, byte_input = \<lambda>_. None, byte_output = \<lambda>_. None,
     int_input = \<lambda>_. None, int_output = (\<lambda>_. None)(3 := Some (Located ''x'')), int_memory = \<lambda>_. None,
     dint_memory = \<lambda>_. None, lint_memory = \<lambda>_. None, u8_heap = \<lambda>_. 0, u16_heap = \<lambda>_. 0, s32_heap = \<lambda>_. 0,
     s64_heap = \<lambda>_. 0, bufferLock = False\<rparr>"

theorem dnp3_mutex_leak_witness:
  "\<exists>m'. Operate (AnalogOutputInt16 7) 2048 dnp3_demo = Some (m', OUT_OF_RANGE) \<and> bufferLock m' \<and>
     Operate (CROB LATCH_ON) 0 m' = None \<and> Operate (AnalogOutputInt32 1) 2048 m' = None"
proof -
  have l: "\<not> bufferLock dnp3_demo" by (simp add: dnp3_demo_def)
  have r: "Operate (AnalogOutputInt16 7) 2048 dnp3_demo = Some (dnp3_demo\<lparr>bufferLock := True\<rparr>, OUT_OF_RANGE)"
    using Operate_Int16_cases(6) [OF l, of 2048] by (simp add: Operate_def)
  have "unat (2048 :: u16) = 2048" by simp
  then have "reaches_buffer (CROB LATCH_ON) (unat (0 :: u16))" "reaches_buffer (AnalogOutputInt32 1) (unat (2048 :: u16))"
    by (simp_all add: reaches_buffer_def dnp3_consts)
  then show ?thesis using dnp3_mutex_leak [OF l r] r by simp
qed

text \<open>Where the indices the tests let through leave the tables.\<close>

lemma operate_out_of_bounds:
  "\<not> bufferLock m \<Longrightarrow> 8192 \<le> unat index \<Longrightarrow> Operate (CROB LATCH_ON) index m = None"
  "\<not> bufferLock m \<Longrightarrow> unat index < 1024 \<Longrightarrow> int_output m (unat index) = None \<Longrightarrow>
     Operate (AnalogOutputInt16 v) index m = None"
  "\<not> bufferLock m \<Longrightarrow> 3072 \<le> unat index \<Longrightarrow> unat index < 4095 \<Longrightarrow> Operate (AnalogOutputInt32 w) index m = None"
  "\<not> bufferLock m \<Longrightarrow> 5120 \<le> unat index \<Longrightarrow> unat index < 8191 \<Longrightarrow> Operate (AnalogOutputDouble64 x) index m = None"
proof -
  show "\<not> bufferLock m \<Longrightarrow> 8192 \<le> unat index \<Longrightarrow> Operate (CROB LATCH_ON) index m = None"
    by (simp add: Operate_def Operate_CROB_def lock_buffer_def Let_def ptr2_def BUFFER_SIZE_def)
  show "\<not> bufferLock m \<Longrightarrow> unat index < 1024 \<Longrightarrow> int_output m (unat index) = None \<Longrightarrow>
     Operate (AnalogOutputInt16 v) index m = None"
    by (simp add: Operate_def Operate_Int16_cases)
  show "\<not> bufferLock m \<Longrightarrow> 3072 \<le> unat index \<Longrightarrow> unat index < 4095 \<Longrightarrow> Operate (AnalogOutputInt32 w) index m = None"
    by (simp add: Operate_def Operate_Int32_def lock_buffer_def dnp3_consts)
  show "\<not> bufferLock m \<Longrightarrow> 5120 \<le> unat index \<Longrightarrow> unat index < 8191 \<Longrightarrow> Operate (AnalogOutputDouble64 x) index m = None"
    by (simp add: Operate_def Operate_Double64_def lock_buffer_def dnp3_consts)
qed

text \<open>What the loops before that report: every mapped object of the 16-bit tables, in order.\<close>

lemma upd_binaries:
  assumes "\<And>i. 1 \<le> i \<Longrightarrow> i < 1 + n \<Longrightarrow> bit_ptr bool_input m i = Some (c i)" "1 + n \<le> 8192"
  shows "for_range 1 n (upd_binary m) us = Some (us @ map (\<lambda>i. Binary (u8_heap m (c i) \<noteq> 0) i) [1..<1 + n])"
  using assms
proof (induction n)
  case (Suc n)
  have "bool_input m (Suc n div 8) (Suc n mod 8) = Some (c (Suc n))" using Suc.prems(1) [of "Suc n"] by (simp add: bit_ptr_def)
  then show ?case using Suc by (simp add: for_range_Suc_right upd_binary_def del: for_range.simps(2))
qed simp

section \<open>What the configuration says\<close>

lemma takeWhile_eq_name:
  "CHR ''='' \<notin> set f \<Longrightarrow> takeWhile (\<lambda>c. c \<noteq> CHR ''='') (f @ CHR ''='' # v) = f"
  "CHR ''='' \<notin> set f \<Longrightarrow> dropWhile (\<lambda>c. c \<noteq> CHR ''='') (f @ CHR ''='' # v) = CHR ''='' # v"
  by (induction f) auto

lemma setting_tokens:
  assumes "CHR ''='' \<notin> set f" "CHR ''='' \<notin> set v"
  shows "first_token (f @ '' = '' @ v) = trim (f @ '' '')" "second_token (f @ '' = '' @ v) = CHR '' '' # v"
proof -
  have "CHR ''='' \<notin> set (f @ '' '')" using assms(1) by simp
  note t = takeWhile_eq_name [OF this, of "CHR '' '' # v"]
  show "first_token (f @ '' = '' @ v) = trim (f @ '' '')" using t(1) by (simp add: first_token_def)
  have "takeWhile (\<lambda>c. c \<noteq> CHR ''='') v = v" using assms(2) by (auto simp: takeWhile_eq_all_conv)
  then show "second_token (f @ '' = '' @ v) = CHR '' '' # v" using t(2) by (simp add: second_token_def)
qed

lemma atoi_blank: "atoi (CHR '' '' # s) = atoi s"
  by (simp add: atoi_def is_space_def)

text \<open>In the format of the sample file, with blanks around the equals sign, the numbers are read,
  but \<open>enable_unsolicited = True\<close> turns unsolicited reports off and \<open>keep_alive_timeout = MAX\<close>
  sets a timeout of 0: only the name of a setting is trimmed, its value is compared with its blank.\<close>

theorem dnp3_words_not_trimmed:
  assumes "n < 65536" "k < 65536"
  shows "parseDNP3Config stack [''local_address = '' @ print_nat k, ''database_size = '' @ print_nat n,
      ''keep_alive_timeout = MAX'', ''enable_unsolicited = True''] =
    Some ((stack (of_nat n))\<lparr>LocalAddr := of_nat k, KeepAliveTimeout := Some 0, allowUnsolicited := False\<rparr>)"
proof -
  have d: "CHR ''='' \<notin> set (print_nat j)" for j
    using print_nat_digits [of j] by (auto simp: is_digit_def)
  note t = setting_tokens [OF _ d, of "''database_size''"] setting_tokens [OF _ d, of "''local_address''"]
    setting_tokens [of "''keep_alive_timeout''" "''MAX''"] setting_tokens [of "''enable_unsolicited''" "''True''"]
  have "trim (''database_size'' @ '' '') = ''database_size''" "trim (''local_address'' @ '' '') = ''local_address''"
    "trim (''keep_alive_timeout'' @ '' '') = ''keep_alive_timeout''" "trim (''enable_unsolicited'' @ '' '') = ''enable_unsolicited''"
    by (simp_all add: trim_def ltrim_def rtrim_def is_space_def)
  note t = t [unfolded this, simplified]
  have m: "atoi '' MAX'' = Some 0" by (simp add: atoi_def is_space_def is_digit_def)
  have a: "atoi (CHR '' '' # print_nat n) = Some (int n)" "atoi (CHR '' '' # print_nat k) = Some (int k)"
    using assms by (simp_all add: atoi_blank atoi_print)
  show ?thesis
    unfolding parseDNP3Config_def by (simp add: is_comment_def t a m dnp3_line_def Let_def)
qed

theorem dnp3_words_not_trimmed_witness:
  "\<exists>config. parseDNP3Config (\<lambda>size. \<lparr>LocalAddr = 1024, RemoteAddr = 1, KeepAliveTimeout = Some 60000, allowUnsolicited = False,
       selectTimeout = 10000, maxControlsPerRequest = 16, maxRxFragSize = 2048, maxTxFragSize = 2048, eventBufferSize = 0,
       solConfirmTimeout = 5000, unsolConfirmTimeout = 5000, unsolRetryTimeout = 5000\<rparr>)
     [''local_address = '' @ print_nat 10, ''database_size = '' @ print_nat 10, ''keep_alive_timeout = MAX'', ''enable_unsolicited = True''] =
     Some config \<and> LocalAddr config = 10 \<and> \<not> allowUnsolicited config"
  using dnp3_words_not_trimmed [of 10 10 "\<lambda>size. \<lparr>LocalAddr = 1024, RemoteAddr = 1, KeepAliveTimeout = Some 60000, allowUnsolicited = False,
       selectTimeout = 10000, maxControlsPerRequest = 16, maxRxFragSize = 2048, maxTxFragSize = 2048, eventBufferSize = 0,
       solConfirmTimeout = 5000, unsolConfirmTimeout = 5000, unsolRetryTimeout = 5000\<rparr>"]
  by simp

end
