(* ===== verification/IecTime.thy ===== *)
theory IecTime
  imports MainLoop
begin

text \<open>
  Times, dates and BCD numbers of \<open>src/core/lib/iec_std_lib.h\<close>, the library every compiled program
  runs on: the normalisation and the arithmetic of \<open>IEC_TIMESPEC\<close>, the conversions between days
  and calendar dates with their loops, and the BCD conversions. A \<open>timespec\<close> has two fields of
  type \<open>long int\<close>, an \<open>int\<close> has 32 bits: an overflow of either has no result.
\<close>

unbundle bit_operations_syntax

section \<open>Signed integers\<close>

definition to_long :: "int \<Rightarrow> int option" where
  "to_long n = (if - (2 ^ 63) \<le> n \<and> n < 2 ^ 63 then Some n else None)"

definition to_c_int :: "int \<Rightarrow> int option" where
  "to_c_int n = (if - (2 ^ 31) \<le> n \<and> n < 2 ^ 31 then Some n else None)"

lemma to_long_in [simp]: "- (2 ^ 63) \<le> n \<Longrightarrow> n < 2 ^ 63 \<Longrightarrow> to_long n = Some n"
  by (simp add: to_long_def)

lemma to_c_int_in [simp]: "- (2 ^ 31) \<le> n \<Longrightarrow> n < 2 ^ 31 \<Longrightarrow> to_c_int n = Some n"
  by (simp add: to_c_int_def)

section \<open>Times\<close>

text \<open>\<open>__normalize_timespec\<close>: two independent corrections by one second.\<close>

definition normalize_timespec :: "timespec \<Rightarrow> timespec option" where
  "normalize_timespec ts = do {
     ts \<leftarrow> (if tv_nsec ts < - 1000000000 \<or> (tv_sec ts > 0 \<and> tv_nsec ts < 0)
            then do { s \<leftarrow> to_long (tv_sec ts - 1); Some (ts\<lparr>tv_sec := s, tv_nsec := tv_nsec ts + 1000000000\<rparr>) }
            else Some ts);
     (if tv_nsec ts > 1000000000 \<or> (tv_sec ts < 0 \<and> tv_nsec ts > 0)
      then do { s \<leftarrow> to_long (tv_sec ts + 1); Some (ts\<lparr>tv_sec := s, tv_nsec := tv_nsec ts - 1000000000\<rparr>) }
      else Some ts) }"

definition time_cmp :: "timespec \<Rightarrow> timespec \<Rightarrow> int option" where
  "time_cmp t1 t2 = (if tv_sec t2 = tv_sec t1 then to_long (tv_nsec t1 - tv_nsec t2)
     else to_long (tv_sec t1 - tv_sec t2))"

definition time_add :: "timespec \<Rightarrow> timespec \<Rightarrow> timespec option" where
  "time_add IN1 IN2 = do {
     s \<leftarrow> to_long (tv_sec IN1 + tv_sec IN2);
     n \<leftarrow> to_long (tv_nsec IN1 + tv_nsec IN2);
     normalize_timespec \<lparr>tv_sec = s, tv_nsec = n\<rparr> }"

definition time_sub :: "timespec \<Rightarrow> timespec \<Rightarrow> timespec option" where
  "time_sub IN1 IN2 = do {
     s \<leftarrow> to_long (tv_sec IN1 - tv_sec IN2);
     n \<leftarrow> to_long (tv_nsec IN1 - tv_nsec IN2);
     normalize_timespec \<lparr>tv_sec = s, tv_nsec = n\<rparr> }"

text \<open>\<open>LE_TIME\<close> and \<open>GE_TIME\<close> of two operands.\<close>

definition LE_TIME :: "timespec \<Rightarrow> timespec \<Rightarrow> bool option" where
  "LE_TIME a b = map_option (\<lambda>c. c \<le> 0) (time_cmp a b)"

definition GE_TIME :: "timespec \<Rightarrow> timespec \<Rightarrow> bool option" where
  "GE_TIME a b = map_option (\<lambda>c. c \<ge> 0) (time_cmp a b)"

definition zero_time :: timespec where
  "zero_time = \<lparr>tv_sec = 0, tv_nsec = 0\<rparr>"

section \<open>Dates\<close>

definition EPOCH_YEAR :: int where "EPOCH_YEAR = 1970"
definition SECONDS_PER_HOUR :: int where "SECONDS_PER_HOUR = 3600"
definition SECONDS_PER_DAY :: int where "SECONDS_PER_DAY = 86400"

definition isleap :: "int \<Rightarrow> bool" where
  "isleap year \<longleftrightarrow> year smod 4 = 0 \<and> (year smod 100 \<noteq> 0 \<or> year smod 400 = 0)"

definition mon_yday :: "bool \<Rightarrow> int list" where
  "mon_yday leap = (if leap then [0, 31, 60, 91, 121, 152, 182, 213, 244, 274, 305, 335, 366]
     else [0, 31, 59, 90, 120, 151, 181, 212, 243, 273, 304, 334, 365])"

definition year_days :: "int \<Rightarrow> int" where
  "year_days year = (if isleap year then 366 else 365)"

record tm =
  tm_sec :: int
  tm_min :: int
  tm_hour :: int
  tm_day :: int
  tm_mon :: int
  tm_year :: int

text \<open>The three loops of \<open>convert_seconds_to_date_and_time\<close>.\<close>

lemma year_days_pos: "0 < year_days y"
  by (simp add: year_days_def)

function years_up :: "int \<Rightarrow> int \<Rightarrow> (int \<times> int) option" where
  "years_up year days =
     (if year_days year \<le> days then do { y \<leftarrow> to_c_int (year + 1); years_up y (days - year_days year) }
      else Some (year, days))"
  by pat_completeness auto
termination
  by (relation "measure (\<lambda>(y, d). nat d)") (auto simp: year_days_def split: if_splits)

function years_down :: "int \<Rightarrow> int \<Rightarrow> (int \<times> int) option" where
  "years_down year days =
     (if days < 0 then do { y \<leftarrow> to_c_int (year - 1); years_down y (days + year_days y) }
      else Some (year, days))"
  by pat_completeness auto
termination
  by (relation "measure (\<lambda>(y, d). nat (- d))") (auto simp: year_days_def split: if_splits)

function months_up :: "int list \<Rightarrow> nat \<Rightarrow> int \<Rightarrow> nat option" where
  "months_up yday mon days =
     (if mon < length yday then if days > yday ! mon then months_up yday (mon + 1) days else Some mon else None)"
  by pat_completeness auto
termination
  by (relation "measure (\<lambda>(yd, mon, d). length yd - mon)") auto

declare years_up.simps [simp del] years_down.simps [simp del] months_up.simps [simp del]

definition convert_days_to_date :: "int \<Rightarrow> (int \<times> int \<times> int) option" where
  "convert_days_to_date days = do {
     (year, days) \<leftarrow> years_up EPOCH_YEAR days;
     (year, days) \<leftarrow> years_down year days;
     mon \<leftarrow> months_up (mon_yday (isleap year)) 1 days;
     Some (days - mon_yday (isleap year) ! (mon - 1) + 1, int mon, year) }"

definition convert_seconds_to_date_and_time :: "int \<Rightarrow> tm option" where
  "convert_seconds_to_date_and_time seconds = do {
     let days = seconds sdiv SECONDS_PER_DAY;
     let rem = seconds smod SECONDS_PER_DAY;
     let (rem, days) = (if rem < 0 then (rem + SECONDS_PER_DAY, days - 1) else (rem, days));
     let hour = rem sdiv SECONDS_PER_HOUR;
     let rem = rem smod SECONDS_PER_HOUR;
     (day, mon, year) \<leftarrow> convert_days_to_date days;
     Some \<lparr>tm_sec = rem smod 60, tm_min = rem sdiv 60, tm_hour = hour, tm_day = day, tm_mon = mon, tm_year = year\<rparr> }"

text \<open>
  \<open>__date_to_timespec\<close>. The error function only prints, so a month outside 1 to 12 indexes the
  table from outside; \<open>>>\<close> of a negative number rounds down. The seconds are computed in \<open>int\<close>.
\<close>

definition leap_days_before :: "int \<Rightarrow> int" where
  "leap_days_before year =
     (let a4 = year div 4 - (if year mod 4 = 0 then 1 else 0);
          b4 = EPOCH_YEAR div 4 - (if EPOCH_YEAR mod 4 = 0 then 1 else 0);
          a100 = a4 sdiv 25 - (if a4 smod 25 < 0 then 1 else 0);
          b100 = b4 sdiv 25 - (if b4 smod 25 < 0 then 1 else 0);
          a400 = a100 div 4;
          b400 = b100 div 4
      in (a4 - b4) - (a100 - b100) + (a400 - b400))"

definition date_to_timespec :: "int \<Rightarrow> int \<Rightarrow> int \<Rightarrow> timespec option" where
  "date_to_timespec day month year =
     (if 1 \<le> month \<and> month \<le> 12 then do {
        yday \<leftarrow> to_c_int (mon_yday (isleap year) ! nat (month - 1) + day);
        d \<leftarrow> to_c_int ((year - EPOCH_YEAR) * 365);
        d \<leftarrow> to_c_int (d + leap_days_before year);
        d \<leftarrow> to_c_int (d + yday);
        d \<leftarrow> to_c_int (d - 1);
        h \<leftarrow> to_c_int (d * 24);
        m \<leftarrow> to_c_int (h * 60);
        s \<leftarrow> to_c_int (m * 60);
        Some \<lparr>tv_sec = s, tv_nsec = 0\<rparr> }
      else None)"

text \<open>The two parts of a date and time.\<close>

definition date_and_time_to_time_of_day :: "timespec \<Rightarrow> timespec" where
  "date_and_time_to_time_of_day IN = IN\<lparr>tv_sec :=
     tv_sec IN smod SECONDS_PER_DAY + (if tv_sec IN < 0 then SECONDS_PER_DAY else 0)\<rparr>"

definition date_and_time_to_date :: "timespec \<Rightarrow> timespec option" where
  "date_and_time_to_date IN = do {
     s \<leftarrow> to_long (tv_sec IN - tv_sec IN smod SECONDS_PER_DAY);
     s \<leftarrow> to_long (s - (if tv_sec IN < 0 then SECONDS_PER_DAY else 0));
     Some \<lparr>tv_sec = s, tv_nsec = 0\<rparr> }"

section \<open>BCD\<close>

text \<open>The loops over \<open>uint64_t\<close> values; a shift by 64 or more has no result.\<close>

lemma unat_drop4: "unat (drop_bit 4 (w :: c_long)) = unat w div 16"
  by (simp only: unat_drop_bit_eq) (simp add: drop_bit_eq_div)

function test_bcd :: "c_long \<Rightarrow> bool" where
  "test_bcd IN = (if IN \<noteq> 0 then if 9 < IN AND 0xf then True else test_bcd (drop_bit 4 IN) else False)"
  by pat_completeness auto
termination
proof (relation "measure unat")
  fix IN :: c_long
  assume "IN \<noteq> 0"
  then have "0 < unat IN" by (simp add: unat_gt_0)
  then show "(drop_bit 4 IN, IN) \<in> measure unat" by (simp only: in_measure unat_drop4)
qed simp

function bcd_digits :: "c_long \<Rightarrow> c_long \<Rightarrow> c_long \<Rightarrow> c_long" where
  "bcd_digits IN res factor =
     (let IN = drop_bit 4 IN in
      if IN \<noteq> 0 then bcd_digits IN (res + (IN AND 0xf) * factor) (factor * 10) else res)"
  by pat_completeness auto
termination
proof (relation "measure (\<lambda>(IN, res, factor). unat IN)")
  fix IN res factor x :: c_long
  assume x: "x = drop_bit 4 IN" "x \<noteq> 0"
  then have "0 < unat x" by (simp add: unat_gt_0)
  moreover have "unat x = unat IN div 16" unfolding x(1) by (rule unat_drop4)
  ultimately have "unat x < unat IN" by linarith
  then show "((x, res + (x AND 0xf) * factor, factor * 10), (IN, res, factor)) \<in> measure (\<lambda>(IN, res, factor). unat IN)"
    by simp
qed simp

definition bcd_to_uint :: "c_long \<Rightarrow> c_long" where
  "bcd_to_uint IN = bcd_digits IN (IN AND 0xf) 10"

function uint_digits :: "c_long \<Rightarrow> c_long \<Rightarrow> nat \<Rightarrow> c_long option" where
  "uint_digits IN res shift =
     (let IN = IN div 10 in
      if IN \<noteq> 0 then if shift < 64 then uint_digits IN (res OR push_bit shift (IN mod 10)) (shift + 4) else None
      else Some res)"
  by pat_completeness auto
termination
proof (relation "measure (\<lambda>(IN, res, shift). unat IN)")
  fix IN res x :: c_long and shift :: nat
  assume x: "x = IN div 10" "x \<noteq> 0"
  then have "0 < unat x" by (simp add: unat_gt_0)
  moreover have "unat x = unat IN div 10" using x by (simp add: unat_div)
  ultimately have "unat x < unat IN" by linarith
  then show "((x, res OR push_bit shift (x mod 10), shift + 4), (IN, res, shift)) \<in> measure (\<lambda>(IN, res, shift). unat IN)"
    by simp
qed simp

definition uint_to_bcd :: "c_long \<Rightarrow> c_long option" where
  "uint_to_bcd IN = uint_digits IN (IN mod 10) 4"

declare test_bcd.simps [simp del] bcd_digits.simps [simp del] uint_digits.simps [simp del]

section \<open>Arithmetic on times\<close>

text \<open>A time of the running program: not negative, the nanoseconds below a second.\<close>

definition time_ok :: "timespec \<Rightarrow> bool" where
  "time_ok t \<longleftrightarrow> 0 \<le> tv_sec t \<and> tv_sec t < 2 ^ 40 \<and> 0 \<le> tv_nsec t \<and> tv_nsec t < 1000000000"

text \<open>What an addition may leave: also a full second of nanoseconds.\<close>

definition sum_ok :: "timespec \<Rightarrow> bool" where
  "sum_ok t \<longleftrightarrow> 0 \<le> tv_sec t \<and> tv_sec t < 2 ^ 42 \<and> 0 \<le> tv_nsec t \<and> tv_nsec t \<le> 1000000000"

lemma time_ok_sum: "time_ok t \<Longrightarrow> sum_ok t"
  by (simp add: time_ok_def sum_ok_def)

lemma time_add_ok:
  assumes "time_ok a" "time_ok b"
  shows "\<exists>r. time_add a b = Some r \<and> nanoseconds r = nanoseconds a + nanoseconds b \<and> sum_ok r \<and>
     (tv_nsec r = 1000000000 \<longleftrightarrow> tv_nsec a + tv_nsec b = 1000000000)"
  using assms by (simp add: time_ok_def sum_ok_def time_add_def normalize_timespec_def nanoseconds_def)

lemma time_sub_ok:
  assumes "time_ok a" "time_ok b" "nanoseconds b \<le> nanoseconds a"
  shows "\<exists>r. time_sub a b = Some r \<and> nanoseconds r = nanoseconds a - nanoseconds b \<and> time_ok r"
proof -
  have "tv_sec b < tv_sec a \<or> tv_sec b = tv_sec a \<and> tv_nsec b \<le> tv_nsec a"
    using assms by (simp add: time_ok_def nanoseconds_def) linarith
  then show ?thesis
    using assms by (auto simp: time_ok_def time_sub_def normalize_timespec_def nanoseconds_def)
qed

lemma LE_TIME_order:
  assumes "sum_ok a" "time_ok b"
  shows "LE_TIME a b = Some (nanoseconds a \<le> nanoseconds b)"
  using assms by (auto simp: LE_TIME_def time_cmp_def sum_ok_def time_ok_def nanoseconds_def)

text \<open>C20: Adding two normalised times, not negative and below \<open>2^40\<close> seconds, is exact, and the sum is normalised again unless the two
  fractions make up one second exactly: then the nanoseconds of the sum are \<open>10\<^sup>9\<close>. As the left operand
  of \<open>LE_TIME\<close> such a sum is still compared correctly, but \<open>GE_TIME\<close> finds it smaller than the equal
  normalised time.\<close>

theorem time_add_normal:
  assumes "time_ok a" "time_ok b" "time_ok c"
  shows "\<exists>r. time_add a b = Some r \<and> nanoseconds r = nanoseconds a + nanoseconds b \<and>
     (if tv_nsec a + tv_nsec b = 1000000000
      then r = \<lparr>tv_sec = tv_sec a + tv_sec b, tv_nsec = 1000000000\<rparr> \<and>
        GE_TIME r \<lparr>tv_sec = tv_sec a + tv_sec b + 1, tv_nsec = 0\<rparr> = Some False
      else 0 \<le> tv_nsec r \<and> tv_nsec r < 1000000000) \<and>
     LE_TIME r c = Some (nanoseconds a + nanoseconds b \<le> nanoseconds c)"
proof -
  obtain r where r: "time_add a b = Some r" "nanoseconds r = nanoseconds a + nanoseconds b" "sum_ok r"
      "tv_nsec r = 1000000000 \<longleftrightarrow> tv_nsec a + tv_nsec b = 1000000000"
    using time_add_ok [OF assms(1,2)] by blast
  have "r = \<lparr>tv_sec = tv_sec a + tv_sec b, tv_nsec = 1000000000\<rparr>" if "tv_nsec r = 1000000000"
    using that r(2,4) by (cases r) (simp add: nanoseconds_def)
  moreover have "GE_TIME \<lparr>tv_sec = tv_sec a + tv_sec b, tv_nsec = 1000000000\<rparr>
      \<lparr>tv_sec = tv_sec a + tv_sec b + 1, tv_nsec = 0\<rparr> = Some False"
    by (simp add: GE_TIME_def time_cmp_def)
  ultimately show ?thesis
    using r LE_TIME_order [OF r(3) assms(3)] by (auto simp: sum_ok_def)
qed

theorem time_add_normal_witness:
  "time_add \<lparr>tv_sec = 1, tv_nsec = 500000000\<rparr> \<lparr>tv_sec = 0, tv_nsec = 500000000\<rparr> = Some \<lparr>tv_sec = 1, tv_nsec = 1000000000\<rparr>"
  using time_add_normal [of "\<lparr>tv_sec = 1, tv_nsec = 500000000\<rparr>" "\<lparr>tv_sec = 0, tv_nsec = 500000000\<rparr>" zero_time]
  by (simp add: time_ok_def zero_time_def)

section \<open>Dates in both directions\<close>

definition year_start :: "int \<Rightarrow> int" where
  "year_start y = (y - EPOCH_YEAR) * 365 + leap_days_before y"

lemma div_step: "0 \<le> n \<Longrightarrow> 0 < k \<Longrightarrow> (n + 1) div k = n div k + (if (n + 1) mod k = 0 then 1 else (0 :: int))"
proof -
  assume "0 \<le> n" "0 < k"
  then obtain i j where "n = int i" "k = int j" by (metis nonneg_int_cases order_less_imp_le)
  then show ?thesis
    using div_Suc [of i j] by (auto simp flip: of_nat_Suc zdiv_int zmod_int simp add: add.commute split: if_splits)
qed

lemma leap_days_eq:
  assumes "1 \<le> y"
  shows "leap_days_before y = (y - 1) div 4 - (y - 1) div 100 + (y - 1) div 400 - 477"
proof -
  have a: "y div 4 - (if y mod 4 = 0 then 1 else 0) = (y - 1) div 4" by presburger
  have "0 \<le> (y - 1) div 4" using assms by simp
  then have s: "(y - 1) div 4 sdiv 25 = (y - 1) div 4 div 25" "\<not> (y - 1) div 4 smod 25 < 0"
    by (simp_all add: signed_divide_int_def signed_modulo_int_def sgn_if not_less)
  have d: "(y - 1) div 4 div 25 = (y - 1) div 100" "(y - 1) div 100 div 4 = (y - 1) div 400"
    by (simp_all flip: zdiv_zmult2_eq)
  show ?thesis
    unfolding leap_days_before_def EPOCH_YEAR_def Let_def a s(1) d using s(2)
    by (simp add: signed_divide_int_def signed_modulo_int_def d)
qed

lemma isleap_pos: "1 \<le> y \<Longrightarrow> isleap y \<longleftrightarrow> y mod 4 = 0 \<and> (y mod 100 \<noteq> 0 \<or> y mod 400 = 0)"
  by (simp add: isleap_def signed_modulo_int_def sgn_if)

lemma year_start_Suc:
  assumes "1 \<le> y"
  shows "year_start (y + 1) = year_start y + year_days y"
proof -
  have d: "y div k = (y - 1) div k + (if y mod k = 0 then 1 else 0)" if "0 < k" for k
    using div_step [of "y - 1" k] assms that by simp
  have m: "y mod 400 = 0 \<Longrightarrow> y mod 100 = 0" "y mod 100 = 0 \<Longrightarrow> y mod 4 = 0" by presburger+
  have e: "year_start (y + 1) = (y - 1969) * 365 + (y div 4 - y div 100 + y div 400 - 477)"
    "year_start y = (y - 1970) * 365 + ((y - 1) div 4 - (y - 1) div 100 + (y - 1) div 400 - 477)"
    using assms by (simp_all add: year_start_def leap_days_eq EPOCH_YEAR_def)
  have "year_start (y + 1) - year_start y = 365 + (if y mod 4 = 0 then 1 else 0) - (if y mod 100 = 0 then 1 else 0)
      + (if y mod 400 = 0 then 1 else 0)"
  proof -
    have g: "(y - 1969) * 365 + (q4' - q100' + q400' - 477) - ((y - 1970) * 365 + (q4 - q100 + q400 - 477)) =
        365 + a - b + c" if "q4' = q4 + a" "q100' = q100 + b" "q400' = q400 + c" for q4 q4' q100 q100' q400 q400' a b c :: int
      using that by simp
    show ?thesis unfolding e by (rule g; rule d; simp)
  qed
  then show ?thesis using m unfolding year_days_def isleap_pos [OF assms] by (auto split: if_splits)
qed

lemma year_start_mono: "1 \<le> y \<Longrightarrow> year_start y \<le> year_start (y + int n)"
proof (induction n)
  case (Suc n)
  then show ?case
    using year_start_Suc [of "y + int n"] year_days_pos [of "y + int n"] by (simp add: ac_simps)
qed simp

lemma year_start_le: "1 \<le> y \<Longrightarrow> y \<le> z \<Longrightarrow> year_start y \<le> year_start z"
  using year_start_mono [of y "nat (z - y)"] by simp

text \<open>The loop over the years finds the year whose days are left.\<close>

lemma years_up_finds:
  assumes "1 \<le> y" "y + int n < 2 ^ 31" "0 \<le> d" "d < year_days (y + int n)"
  shows "years_up y (year_start (y + int n) - year_start y + d) = Some (y + int n, d)"
  using assms
proof (induction n arbitrary: y)
  case 0
  then show ?case by (simp add: years_up.simps [of y])
next
  case (Suc n)
  have e: "y + int (Suc n) = (y + 1) + int n" by simp
  have "year_start (y + 1) \<le> year_start ((y + 1) + int n)" using Suc.prems(1) by (intro year_start_mono) simp
  then have "year_days y \<le> year_start (y + int (Suc n)) - year_start y + d"
    using year_start_Suc [OF Suc.prems(1)] Suc.prems(3) unfolding e by simp
  moreover have "years_up (y + 1) (year_start ((y + 1) + int n) - year_start (y + 1) + d) = Some ((y + 1) + int n, d)"
    using Suc.prems by (intro Suc.IH) (simp_all add: ac_simps)
  ultimately show ?case
    using Suc.prems year_start_Suc [OF Suc.prems(1)] unfolding e
    by (subst years_up.simps) (simp add: algebra_simps)
qed

text \<open>The loop over the months stops at the first entry that is not below the day.\<close>

lemma months_up_finds:
  assumes "m + n < length l" "\<And>k. m \<le> k \<Longrightarrow> k < m + n \<Longrightarrow> l ! k < d" "d \<le> l ! (m + n)"
  shows "months_up l m d = Some (m + n)"
  using assms
proof (induction n arbitrary: m)
  case 0
  then show ?case by (simp add: months_up.simps [of l m])
next
  case (Suc n)
  have "months_up l (Suc m) d = Some (Suc m + n)" using Suc.prems by (intro Suc.IH) auto
  then show ?case using Suc.prems by (subst months_up.simps) simp
qed

definition month_days :: "int \<Rightarrow> int \<Rightarrow> int" where
  "month_days year month = mon_yday (isleap year) ! nat month - mon_yday (isleap year) ! nat (month - 1)"

definition valid_date :: "int \<Rightarrow> int \<Rightarrow> int \<Rightarrow> bool" where
  "valid_date day month year \<longleftrightarrow> 1 \<le> month \<and> month \<le> 12 \<and> 1 \<le> day \<and> day \<le> month_days year month"

lemma mon_yday_mono:
  assumes "i < j" "j \<le> 12"
  shows "mon_yday leap ! i < mon_yday leap ! j"
proof -
  have "sorted_wrt (<) (mon_yday leap)" by (simp add: mon_yday_def)
  moreover have "length (mon_yday leap) = 13" by (simp add: mon_yday_def)
  ultimately show ?thesis using sorted_wrt_nth_less [of "(<)" "mon_yday leap" i j] assms by simp
qed

lemma mon_yday_ends: "mon_yday (isleap y) ! 0 = 0" "mon_yday (isleap y) ! 12 = year_days y"
  by (simp_all add: mon_yday_def year_days_def)

lemma length_mon_yday [simp]: "length (mon_yday leap) = 13"
  by (simp add: mon_yday_def)

lemma mon_yday_le: "i \<le> j \<Longrightarrow> j \<le> 12 \<Longrightarrow> mon_yday leap ! i \<le> mon_yday leap ! j"
  using mon_yday_mono [of i j leap] by (cases "i = j") auto

lemma convert_days_year:
  assumes "1970 \<le> y" "y < 2 ^ 31" "0 \<le> d" "d < year_days y" "months_up (mon_yday (isleap y)) 1 d = Some mon"
  shows "convert_days_to_date (year_start y + d) = Some (d - mon_yday (isleap y) ! (mon - 1) + 1, int mon, y)"
proof -
  have "year_start 1970 = 0" by (simp add: year_start_def leap_days_eq EPOCH_YEAR_def)
  then have "years_up EPOCH_YEAR (year_start y + d) = Some (y, d)"
    using years_up_finds [of 1970 "nat (y - 1970)" d] assms by (simp add: EPOCH_YEAR_def)
  moreover have "years_down y d = Some (y, d)" using assms(3) by (simp add: years_down.simps [of y])
  ultimately show ?thesis using assms(5) by (simp add: convert_days_to_date_def)
qed

lemma date_to_timespec_eq:
  assumes "1 \<le> month" "month \<le> 12" "1970 \<le> year" "year \<le> 100000" "1 \<le> day" "day \<le> 31"
  shows "date_to_timespec day month year =
    map_option (\<lambda>s. \<lparr>tv_sec = s, tv_nsec = 0\<rparr>)
      (to_c_int ((year_start year + mon_yday (isleap year) ! nat (month - 1) + day - 1) * 86400))"
proof -
  have y: "0 \<le> year_start year" "year_start year \<le> year_start 100000"
    using year_start_le [of 1970 year] year_start_le [of year 100000] assms(3,4)
    by (simp_all add: year_start_def [of 1970] leap_days_eq EPOCH_YEAR_def)
  have "year_start 100000 = 35804722" by (simp add: year_start_def leap_days_eq EPOCH_YEAR_def)
  let ?m = "mon_yday (isleap year) ! nat (month - 1)"
  have m: "0 \<le> ?m" "?m < 366"
  proof -
    have "nat (month - 1) < 12" using assms(1,2) by simp
    then show "0 \<le> ?m" "?m < 366"
      using mon_yday_le [of 0 "nat (month - 1)" "isleap year"] mon_yday_mono [of "nat (month - 1)" 12 "isleap year"]
        mon_yday_ends [of year] by (simp_all add: year_days_def split: if_splits)
  qed
  have l: "to_c_int ((year - EPOCH_YEAR) * 365) = Some ((year - EPOCH_YEAR) * 365)"
    using assms(3,4) by (simp add: EPOCH_YEAR_def)
  let ?d = "year_start year + ?m + day - 1"
  have d: "0 \<le> ?d" "?d < 40000000" using y m \<open>year_start 100000 = 35804722\<close> assms(5,6) by simp_all
  have "(do { h \<leftarrow> to_c_int (?d * 24); m \<leftarrow> to_c_int (h * 60); s \<leftarrow> to_c_int (m * 60); Some \<lparr>tv_sec = s, tv_nsec = 0\<rparr> }) =
     map_option (\<lambda>s. \<lparr>tv_sec = s, tv_nsec = 0\<rparr>) (to_c_int (?d * 86400))"
    using d by (auto simp: to_c_int_def mult.assoc)
  moreover have "(year - EPOCH_YEAR) * 365 + leap_days_before year = year_start year" by (simp add: year_start_def)
  ultimately show ?thesis
    using assms m y l \<open>year_start 100000 = 35804722\<close> unfolding date_to_timespec_def
    by (simp add: add.assoc)
qed

lemma month_days_le: "1 \<le> month \<Longrightarrow> month \<le> 12 \<Longrightarrow> month_days year month \<le> 31"
proof -
  assume "1 \<le> month" "month \<le> 12"
  then have "nat month \<in> {1..12}" by auto
  then have "nat month \<in> set [1..<13]" by simp
  then have "mon_yday leap ! nat month - mon_yday leap ! (nat month - 1) \<le> 31" for leap
    by (auto simp: mon_yday_def upt_rec)
  then show ?thesis using \<open>1 \<le> month\<close> by (simp add: month_days_def nat_diff_distrib)
qed

lemma convert_midnight:
  assumes "0 \<le> D" "convert_days_to_date D = Some (day, mon, year)"
  shows "convert_seconds_to_date_and_time (D * 86400) =
    Some \<lparr>tm_sec = 0, tm_min = 0, tm_hour = 0, tm_day = day, tm_mon = mon, tm_year = year\<rparr>"
proof -
  have "D * 86400 sdiv 86400 = D" "D * 86400 smod 86400 = 0"
    using assms(1) by (simp_all add: signed_divide_int_def signed_modulo_int_def sgn_if)
  then show ?thesis
    using assms(2) by (simp add: convert_seconds_to_date_and_time_def SECONDS_PER_DAY_def SECONDS_PER_HOUR_def Let_def)
qed

lemma months_up_day:
  fixes day :: int
  assumes M: "1 \<le> M" "M \<le> 12" and day: "1 \<le> day" "day \<le> mon_yday (isleap year) ! M - mon_yday (isleap year) ! (M - 1)"
  shows "months_up (mon_yday (isleap year)) 1 (mon_yday (isleap year) ! (M - 1) + day - 1) =
    Some (if day = 1 \<and> 1 < M then M - 1 else M)"
proof -
  let ?l = "mon_yday (isleap year)"
  let ?d = "?l ! (M - 1) + day - 1"
  define F where "F = (if day = 1 \<and> 1 < M then M - 1 else M)"
  have F: "1 \<le> F" "F \<le> 12" using M by (auto simp: F_def)
  have "months_up ?l 1 ?d = Some (1 + (F - 1))"
  proof (rule months_up_finds)
    show "1 + (F - 1) < length ?l" using F mon_yday_ends by simp
    show "?d \<le> ?l ! (1 + (F - 1))" using F M day by (auto simp: F_def)
    show "?l ! k < ?d" if "1 \<le> k" "k < 1 + (F - 1)" for k
    proof -
      have k: "k \<le> M - 1" "M - 1 \<le> 12" using that M by (simp_all add: F_def split: if_splits)
      show ?thesis
      proof (cases "day = 1")
        case True
        then have "k < M - 1" using that M by (simp add: F_def split: if_splits)
        then show ?thesis using mon_yday_mono [OF _ k(2)] True by simp
      next
        case False
        then show ?thesis using mon_yday_le [OF k, of "isleap year"] day(1) by simp
      qed
    qed
  qed
  then show ?thesis using F unfolding F_def [symmetric] by simp
qed

text \<open>The day of the year, and the seconds of a date.\<close>

lemma date_seconds:
  assumes "valid_date day (int M) year" "1970 \<le> year" "year \<le> 100000"
  defines "d \<equiv> mon_yday (isleap year) ! (M - 1) + day - 1"
  shows "1 \<le> M" "M \<le> 12" "1 \<le> day" "day \<le> mon_yday (isleap year) ! M - mon_yday (isleap year) ! (M - 1)"
    "0 \<le> d" "d < year_days year"
    "date_to_timespec day (int M) year =
      map_option (\<lambda>s. \<lparr>tv_sec = s, tv_nsec = 0\<rparr>) (to_c_int ((year_start year + d) * 86400))"
proof -
  show M: "1 \<le> M" "M \<le> 12" and day: "1 \<le> day" "day \<le> mon_yday (isleap year) ! M - mon_yday (isleap year) ! (M - 1)"
    using assms(1) by (auto simp: valid_date_def month_days_def nat_diff_distrib)
  have "day \<le> 31" using assms(1) month_days_le [of "int M" year] by (simp add: valid_date_def)
  then show "date_to_timespec day (int M) year =
      map_option (\<lambda>s. \<lparr>tv_sec = s, tv_nsec = 0\<rparr>) (to_c_int ((year_start year + d) * 86400))"
    using date_to_timespec_eq [of "int M" year day] M day(1) assms(2,3) by (simp add: d_def nat_diff_distrib algebra_simps)
  have "M - 1 \<le> 12" using M(2) by simp
  then show "0 \<le> d" "d < year_days year"
    using mon_yday_le [of 0 "M - 1" "isleap year"] mon_yday_le [of M 12 "isleap year"] M day mon_yday_ends [of year]
    by (simp_all add: d_def)
qed

text \<open>C21: From 1970 to 2037 every valid date is turned into seconds and back into itself, at
  midnight, with one exception: the first day of a month after January comes back as the day after
  the last of the month before, the 32nd of January for the 1st of February; 1 January comes back as
  itself. From 2039 on the
  seconds do not fit the \<open>int\<close> they are computed in.\<close>

theorem date_roundtrip:
  assumes "valid_date day month year" "1970 \<le> year" "year \<le> 100000"
  shows "(year \<le> 2037 \<longrightarrow> (\<exists>ts. date_to_timespec day month year = Some ts \<and> tv_nsec ts = 0 \<and>
      convert_seconds_to_date_and_time (tv_sec ts) =
        Some (if day = 1 \<and> 1 < month
          then \<lparr>tm_sec = 0, tm_min = 0, tm_hour = 0, tm_day = month_days year (month - 1) + 1, tm_mon = month - 1, tm_year = year\<rparr>
          else \<lparr>tm_sec = 0, tm_min = 0, tm_hour = 0, tm_day = day, tm_mon = month, tm_year = year\<rparr>))) \<and>
     (2039 \<le> year \<longrightarrow> date_to_timespec day month year = None)"
proof -
  obtain M where month: "month = int M" using assms(1) by (metis valid_date_def nonneg_int_cases order_trans zero_le_one)
  let ?d = "mon_yday (isleap year) ! (M - 1) + day - 1"
  note d = date_seconds [OF assms(1) [unfolded month] assms(2,3)]
  note b = d(5,6) and to = d(7) [folded month]
  have s: "0 \<le> year_start year" "1970 \<le> year"
    using year_start_le [of 1970 year] assms(2) by (simp_all add: year_start_def [of 1970] leap_days_eq EPOCH_YEAR_def)
  have "date_to_timespec day month year = None" if "2039 \<le> year"
  proof -
    have "year_start 2039 = 25202" by (simp add: year_start_def leap_days_eq EPOCH_YEAR_def)
    then have "25202 \<le> year_start year + ?d" using year_start_le [of 2039 year] that b(1) by simp
    then have "to_c_int ((year_start year + ?d) * 86400) = None" unfolding to_c_int_def by simp
    then show ?thesis unfolding to by simp
  qed
  moreover have "\<exists>ts. date_to_timespec day month year = Some ts \<and> tv_nsec ts = 0 \<and>
      convert_seconds_to_date_and_time (tv_sec ts) =
        Some (if day = 1 \<and> 1 < month
          then \<lparr>tm_sec = 0, tm_min = 0, tm_hour = 0, tm_day = month_days year (month - 1) + 1, tm_mon = month - 1, tm_year = year\<rparr>
          else \<lparr>tm_sec = 0, tm_min = 0, tm_hour = 0, tm_day = day, tm_mon = month, tm_year = year\<rparr>)"
    if y: "year \<le> 2037"
  proof -
    have "year_start 2038 = 24837" by (simp add: year_start_def leap_days_eq EPOCH_YEAR_def)
    then have "year_start year + year_days year \<le> 24837"
      using year_start_Suc [of year] year_start_le [of "year + 1" 2038] y assms(2) by simp
    then have ts: "date_to_timespec day month year = Some \<lparr>tv_sec = (year_start year + ?d) * 86400, tv_nsec = 0\<rparr>"
      unfolding to using b s by (simp add: to_c_int_def)
    define F where "F = (if day = 1 \<and> 1 < M then M - 1 else M)"
    have F: "1 \<le> F" "F \<le> 12" using d(1,2) by (auto simp: F_def)
    have c: "convert_days_to_date (year_start year + ?d) = Some (?d - mon_yday (isleap year) ! (F - 1) + 1, int F, year)"
      using convert_days_year [of year ?d F] months_up_day [OF d(1-4)] assms(2,3) b F unfolding F_def [symmetric] by simp
    have "0 \<le> year_start year + ?d" using s b by simp
    note conv = convert_midnight [OF this c]
    show ?thesis
    proof (cases "day = 1 \<and> 1 < month")
      case True
      then have "F = M - 1" "nat (month - 1) = M - 1" "nat (month - 1 - 1) = M - 1 - 1" using d(1,2) month by (simp_all add: F_def)
      then show ?thesis using True ts conv d(1,2) month by (simp add: month_days_def of_nat_diff)
    next
      case False
      then have "F = M" using d(1) month by (auto simp: F_def)
      then show ?thesis using False ts conv month by auto
    qed
  qed
  ultimately show ?thesis by blast
qed

theorem date_roundtrip_witness:
  "\<exists>ts. date_to_timespec 1 2 2018 = Some ts \<and> convert_seconds_to_date_and_time (tv_sec ts) =
     Some \<lparr>tm_sec = 0, tm_min = 0, tm_hour = 0, tm_day = 32, tm_mon = 1, tm_year = 2018\<rparr>"
proof -
  have m: "month_days 2018 1 = 31" "valid_date 1 2 2018"
    by (simp_all add: valid_date_def month_days_def mon_yday_def isleap_pos)
  show ?thesis using date_roundtrip [OF m(2)] m(1) by auto
qed

section \<open>Every conversion ends\<close>

lemma years_up_total:
  assumes "0 \<le> d" "0 \<le> y" "y + d < 2 ^ 31"
  shows "\<exists>y' d'. years_up y d = Some (y', d') \<and> 0 \<le> d' \<and> d' < year_days y' \<and> y \<le> y'"
  using assms
proof (induction y d rule: years_up.induct)
  case (1 y d)
  show ?case
  proof (cases "year_days y \<le> d")
    case True
    then have c: "to_c_int (y + 1) = Some (y + 1)" using 1(2-4) year_days_pos [of y] by simp
    have "\<exists>y' d'. years_up (y + 1) (d - year_days y) = Some (y', d') \<and> 0 \<le> d' \<and> d' < year_days y' \<and> y + 1 \<le> y'"
      by (rule 1(1)) (use True c 1(2-4) year_days_pos [of y] in auto)
    then show ?thesis using True c by (subst years_up.simps) auto
  qed (use 1(2) in \<open>auto simp: years_up.simps [of y]\<close>)
qed

lemma years_down_total:
  assumes "d < 0" "y \<le> 2 ^ 31 - 1" "- (2 ^ 31) \<le> y + d"
  shows "\<exists>y' d'. years_down y d = Some (y', d') \<and> 0 \<le> d' \<and> d' < year_days y'"
  using assms
proof (induction y d rule: years_down.induct)
  case (1 y d)
  have c: "to_c_int (y - 1) = Some (y - 1)" using 1(2-4) by simp
  show ?case
  proof (cases "d + year_days (y - 1) < 0")
    case True
    then have "\<exists>y' d'. years_down (y - 1) (d + year_days (y - 1)) = Some (y', d') \<and> 0 \<le> d' \<and> d' < year_days y'"
      using 1(2-4) c year_days_pos [of "y - 1"] by (intro 1(1)) auto
    then show ?thesis using c 1(2) by (subst years_down.simps) auto
  next
    case False
    then have "years_down (y - 1) (d + year_days (y - 1)) = Some (y - 1, d + year_days (y - 1))"
      by (simp add: years_down.simps [of "y - 1"])
    then show ?thesis using c 1(2) False by (subst years_down.simps) auto
  qed
qed

lemma months_up_total:
  assumes "0 \<le> d" "d < year_days y" "m \<le> 12"
  shows "\<exists>k. months_up (mon_yday (isleap y)) m d = Some k \<and> m \<le> k \<and> k \<le> 12 \<and> d \<le> mon_yday (isleap y) ! k \<and>
     (k = m \<or> mon_yday (isleap y) ! (k - 1) < d)"
  using assms(3)
proof (induction "12 - m" arbitrary: m)
  case 0
  then have "m = 12" by simp
  then show ?case using assms mon_yday_ends [of y] by (subst months_up.simps) auto
next
  case (Suc n)
  show ?case
  proof (cases "mon_yday (isleap y) ! m < d")
    case True
    have "\<exists>k. months_up (mon_yday (isleap y)) (Suc m) d = Some k \<and> Suc m \<le> k \<and> k \<le> 12 \<and> d \<le> mon_yday (isleap y) ! k \<and>
       (k = Suc m \<or> mon_yday (isleap y) ! (k - 1) < d)"
      using Suc.hyps(2) by (intro Suc.hyps(1)) auto
    then show ?thesis using True Suc.prems by (subst months_up.simps) auto
  next
    case False
    then show ?thesis using Suc.prems by (subst months_up.simps) auto
  qed
qed

text \<open>C22: The three loops of the conversion end for every number of days up to \<open>2\<^sup>31 - 1971\<close> in
  either direction, without an overflow of the year, and find a month of the year and a day from 1
  to 32.\<close>

theorem convert_days_returns:
  assumes "\<bar>days\<bar> \<le> 2 ^ 31 - 1971"
  shows "\<exists>day mon year. convert_days_to_date days = Some (day, mon, year) \<and> 1 \<le> mon \<and> mon \<le> 12 \<and> 1 \<le> day \<and> day \<le> 32"
proof -
  obtain y d where yd: "do { (year, days) \<leftarrow> years_up EPOCH_YEAR days; years_down year days } = Some (y, d)"
      "0 \<le> d" "d < year_days y"
  proof (cases "days < 0")
    case True
    then have "years_up EPOCH_YEAR days = Some (EPOCH_YEAR, days)"
      using year_days_pos [of EPOCH_YEAR] by (subst years_up.simps) simp
    then show ?thesis using that years_down_total [of days EPOCH_YEAR] True assms by (auto simp: EPOCH_YEAR_def)
  next
    case False
    then obtain y d where "years_up EPOCH_YEAR days = Some (y, d)" "0 \<le> d" "d < year_days y"
      using years_up_total [of days EPOCH_YEAR] assms by (auto simp: EPOCH_YEAR_def)
    then show ?thesis using that [of y d] by (simp add: years_down.simps [of y])
  qed
  obtain k where k: "months_up (mon_yday (isleap y)) 1 d = Some k" "1 \<le> k" "k \<le> 12" "d \<le> mon_yday (isleap y) ! k"
      "k = 1 \<or> mon_yday (isleap y) ! (k - 1) < d"
    using months_up_total [OF yd(2,3), of 1] by auto
  have c: "convert_days_to_date days = Some (d - mon_yday (isleap y) ! (k - 1) + 1, int k, y)"
    using yd(1) k(1) unfolding convert_days_to_date_def by (auto simp: bind_eq_Some_conv split: prod.splits)
  have "mon_yday (isleap y) ! (k - 1) \<le> d"
    using k(5) yd(2) mon_yday_ends(1) [of y] by auto
  moreover have "mon_yday (isleap y) ! k - mon_yday (isleap y) ! (k - 1) \<le> 31"
    using month_days_le [of "int k" y] k by (simp add: month_days_def nat_diff_distrib)
  ultimately show ?thesis using c k by auto
qed

theorem convert_days_returns_witness:
  "\<exists>day mon year. convert_days_to_date (- 700000) = Some (day, mon, year) \<and> 1 \<le> mon \<and> mon \<le> 12"
  using convert_days_returns [of "- 700000"] by auto

end
