(* ===== verification/IecStrings.thy ===== *)
theory IecStrings
  imports Complex_Main IecTime CString
begin

text \<open>
  The conversions between numbers, times and \<open>STRING\<close> of \<open>src/core/lib/iec_std_lib.h\<close>. A \<open>STRING\<close> is
  a length of type \<open>int8_t\<close> and an array of 126 bytes. What \<open>printf\<close> makes of a floating-point
  number and what \<open>atof\<close> reads are parameters, and so is the rounding of \<open>LREAL\<close> operations.
\<close>

unbundle bit_operations_syntax

definition STR_MAX_LEN :: nat where "STR_MAX_LEN = 126"

record iec_string =
  len :: int
  body :: "char list"

section \<open>To strings\<close>

text \<open>
  \<open>res.len = snprintf(res.body, STR_MAX_LEN, ...)\<close>: the text cut to 125 characters and a NUL, and its
  uncut length in an \<open>int8_t\<close>, which the next line limits to 126.
\<close>

definition snprintf_string :: "string \<Rightarrow> iec_string" where
  "snprintf_string s =
     (let n = sint (of_nat (length s) :: u8) in
      \<lparr>len = (if n > int STR_MAX_LEN then int STR_MAX_LEN else n), body = strncpy STR_MAX_LEN (take (STR_MAX_LEN - 1) s)\<rparr>)"

definition bool_to_string :: "bool \<Rightarrow> iec_string" where
  "bool_to_string IN = (if IN then \<lparr>len = 4, body = strncpy STR_MAX_LEN ''TRUE''\<rparr>
     else \<lparr>len = 5, body = strncpy STR_MAX_LEN ''FALSE''\<rparr>)"

definition hex_char :: "nat \<Rightarrow> char" where
  "hex_char d = (if d < 10 then char_of (d + 48) else char_of (d + 87))"

fun print_hex :: "nat \<Rightarrow> string" where
  "print_hex n = (if n < 16 then [hex_char n] else print_hex (n div 16) @ [hex_char (n mod 16)])"

declare print_hex.simps [simp del]

definition bit_to_string :: "c_long \<Rightarrow> iec_string" where
  "bit_to_string IN = snprintf_string (''16#'' @ print_hex (unat IN))"

definition sint_to_string :: "int \<Rightarrow> iec_string" where
  "sint_to_string IN = snprintf_string (print_int IN)"

definition uint_to_string :: "c_long \<Rightarrow> iec_string" where
  "uint_to_string IN = snprintf_string (print_nat (unat IN))"

definition real_to_string :: "('r \<Rightarrow> string) \<Rightarrow> 'r \<Rightarrow> iec_string" where
  "real_to_string fmt_10g IN = snprintf_string (fmt_10g IN)"

section \<open>From strings\<close>

text \<open>\<open>memcmp\<close> of the first characters, and \<open>toupper\<close> in the C locale.\<close>

definition to_upper :: "char \<Rightarrow> char" where
  "to_upper c = (if 97 \<le> (of_char c :: nat) \<and> (of_char c :: nat) \<le> 122 then char_of ((of_char c :: nat) - 32) else c)"

definition string_to_bool :: "iec_string \<Rightarrow> bool" where
  "string_to_bool IN =
     (if len IN = 1 then take 1 (body IN) = ''1''
      else let b = map to_upper (take (nat (len IN)) (body IN)) @ drop (nat (len IN)) (body IN)
        in len IN = 4 \<and> take 4 b = ''TRUE'')"

text \<open>
  \<open>(c - '0') << shift\<close> in \<open>int\<close>: it has no result when the shift is 32 or more or the value needs
  more than 32 bits.
\<close>

definition int_shl :: "nat \<Rightarrow> nat \<Rightarrow> c_int option" where
  "int_shl v shift = (if shift < 32 \<and> v * 2 ^ shift < 2 ^ 32 then Some (of_nat (v * 2 ^ shift)) else None)"

text \<open>The loops of \<open>__pstring_to_sint\<close> run from the last character to the first after the prefix.\<close>

fun bin_loop :: "char list \<Rightarrow> nat \<Rightarrow> c_long \<Rightarrow> c_long option" where
  "bin_loop [] shift res = Some res"
| "bin_loop (c # cs) shift res =
     (if shift < 64 then
        (if CHR ''0'' = c \<or> CHR ''1'' = c
         then do { v \<leftarrow> int_shl (digit_val c) shift; bin_loop cs (shift + 1) (res OR scast v) }
         else bin_loop cs shift res)
      else Some res)"

fun oct_loop :: "char list \<Rightarrow> nat \<Rightarrow> c_long \<Rightarrow> c_long option" where
  "oct_loop [] shift res = Some res"
| "oct_loop (c # cs) shift res =
     (if shift < 64 then
        (if is_digit c \<and> digit_val c \<le> 7
         then do { v \<leftarrow> int_shl (digit_val c) shift; oct_loop cs (shift + 3) (res OR scast v) }
         else oct_loop cs shift res)
      else Some res)"

definition hex_val :: "char \<Rightarrow> nat option" where
  "hex_val c =
     (let n = of_char c :: nat in
      if 48 \<le> n \<and> n \<le> 57 then Some (n - 48)
      else if 97 \<le> n \<and> n \<le> 102 then Some (n - 97 + 10)
      else if 65 \<le> n \<and> n \<le> 70 then Some (n - 65 + 10) else None)"

fun hex_loop :: "char list \<Rightarrow> nat \<Rightarrow> c_long \<Rightarrow> c_long" where
  "hex_loop [] shift res = res"
| "hex_loop (c # cs) shift res =
     (if shift < 64 then
        (case hex_val c of
           Some d \<Rightarrow> hex_loop cs (shift + 4) (res OR push_bit shift (of_nat d))
         | None \<Rightarrow> hex_loop cs shift res)
      else res)"

text \<open>\<open>c >= '.'\<close>: a letter or a dot resets the value read so far.\<close>

fun dec_loop :: "int \<Rightarrow> char list \<Rightarrow> int \<Rightarrow> nat \<Rightarrow> int \<Rightarrow> int option" where
  "dec_loop fac0 [] fac shift res = Some res"
| "dec_loop fac0 (c # cs) fac shift res =
     (if shift < 20 then
        (if is_digit c then do {
           p \<leftarrow> to_long (int (digit_val c) * fac);
           res \<leftarrow> to_long (res + p);
           fac \<leftarrow> to_long (fac * 10);
           dec_loop fac0 cs fac (shift + 1) res }
         else if 46 \<le> (of_char c :: nat) then dec_loop fac0 cs fac0 0 0
         else dec_loop fac0 cs fac shift res)
      else Some res)"

definition pstring_to_sint :: "iec_string \<Rightarrow> int option" where
  "pstring_to_sint IN =
     (let b = body IN; text = take (nat (len IN)) b in
      if b ! 0 = CHR ''2'' \<and> b ! 1 = CHR ''#'' then map_option sint (bin_loop (rev (drop 2 text)) 0 0)
      else if b ! 0 = CHR ''8'' \<and> b ! 1 = CHR ''#'' then map_option sint (oct_loop (rev (drop 2 text)) 0 0)
      else if b ! 0 = CHR ''1'' \<and> b ! 1 = CHR ''6'' \<and> b ! 2 = CHR ''#''
      then Some (sint (hex_loop (rev (drop 3 text)) 0 0))
      else let fac = (if b ! 0 = CHR ''-'' then -1 else 1) in dec_loop fac (rev text) fac 0 0)"

definition string_to_sint :: "iec_string \<Rightarrow> int option" where
  "string_to_sint IN = pstring_to_sint IN"

definition string_to_bit :: "iec_string \<Rightarrow> c_long option" where
  "string_to_bit IN = map_option of_int (pstring_to_sint IN)"

definition string_to_uint :: "iec_string \<Rightarrow> c_long option" where
  "string_to_uint IN = map_option of_int (pstring_to_sint IN)"

text \<open>
  The search for a dot: \<open>while (--l > 0 && body[l] != '.')\<close> ends at 0 when there is none behind the
  first character, and below 0 for an empty string.
\<close>

fun dot_down :: "char list \<Rightarrow> nat \<Rightarrow> nat" where
  "dot_down b 0 = 0"
| "dot_down b (Suc l) = (if b ! Suc l = CHR ''.'' then Suc l else dot_down b l)"

definition last_dot :: "iec_string \<Rightarrow> int" where
  "last_dot IN = (if len IN \<le> 0 then len IN - 1 else int (dot_down (body IN) (nat (len IN) - 1)))"

definition string_to_real :: "(char list \<Rightarrow> rat) \<Rightarrow> (int \<Rightarrow> rat) \<Rightarrow> iec_string \<Rightarrow> rat option" where
  "string_to_real atof to_lreal IN =
     (if last_dot IN \<noteq> 0 then Some (atof (body IN)) else map_option to_lreal (pstring_to_sint IN))"

section \<open>Rounding of reals\<close>

definition c_trunc :: "rat \<Rightarrow> int" where
  "c_trunc q = (if 0 \<le> q then \<lfloor>q\<rfloor> else \<lceil>q\<rceil>)"

definition real_round :: "rat \<Rightarrow> int option" where
  "real_round IN = do {
     n \<leftarrow> to_long (c_trunc IN);
     Some (if IN = of_int \<lfloor>IN\<rfloor> then n sdiv 2 * 2 else n) }"

definition preal_to_sint :: "(rat \<Rightarrow> rat) \<Rightarrow> rat \<Rightarrow> int option" where
  "preal_to_sint dbl IN = (if IN \<ge> 0 then real_round (dbl (IN + 1 / 2)) else real_round (dbl (IN - 1 / 2)))"

definition preal_to_uint :: "(rat \<Rightarrow> rat) \<Rightarrow> rat \<Rightarrow> int option" where
  "preal_to_uint dbl IN = (if IN \<ge> 0 then real_round (dbl (IN + 1 / 2)) else Some 0)"

definition real_to_sint :: "(rat \<Rightarrow> rat) \<Rightarrow> rat \<Rightarrow> int option" where
  "real_to_sint dbl IN = preal_to_sint dbl IN"

definition real_to_bit :: "(rat \<Rightarrow> rat) \<Rightarrow> rat \<Rightarrow> c_long option" where
  "real_to_bit dbl IN = map_option of_int (preal_to_uint dbl IN)"

definition real_to_uint :: "(rat \<Rightarrow> rat) \<Rightarrow> rat \<Rightarrow> c_long option" where
  "real_to_uint dbl IN = map_option of_int (preal_to_uint dbl IN)"

section \<open>Times and strings\<close>

definition int_to_time :: "int \<Rightarrow> timespec" where
  "int_to_time IN = \<lparr>tv_sec = IN, tv_nsec = 0\<rparr>"

definition real_to_time :: "(rat \<Rightarrow> rat) \<Rightarrow> rat \<Rightarrow> timespec option" where
  "real_to_time dbl IN = do {
     s \<leftarrow> to_long (c_trunc IN);
     n \<leftarrow> to_long (c_trunc (dbl (dbl (IN - dbl (of_int s)) * 1000000000)));
     Some \<lparr>tv_sec = s, tv_nsec = n\<rparr> }"

text \<open>
  In \<open>(long)(IN_val - (LINT)IN_val)*1000000000\<close> the conversion applies to the difference alone.
\<close>

definition string_to_time :: "(char list \<Rightarrow> rat) \<Rightarrow> (rat \<Rightarrow> rat) \<Rightarrow> iec_string \<Rightarrow> timespec option" where
  "string_to_time atof dbl IN =
     (if last_dot IN \<noteq> 0 then do {
        let IN_val = atof (body IN);
        s \<leftarrow> to_long (c_trunc IN_val);
        d \<leftarrow> to_long (c_trunc (dbl (IN_val - dbl (of_int s))));
        n \<leftarrow> to_long (d * 1000000000);
        Some \<lparr>tv_sec = s, tv_nsec = n\<rparr> }
      else do { s \<leftarrow> pstring_to_sint IN; Some \<lparr>tv_sec = s, tv_nsec = 0\<rparr> })"

definition time_to_int :: "timespec \<Rightarrow> int" where
  "time_to_int IN = tv_sec IN"

definition time_to_real :: "(rat \<Rightarrow> rat) \<Rightarrow> timespec \<Rightarrow> rat" where
  "time_to_real dbl IN = dbl (dbl (of_int (tv_sec IN)) + dbl (dbl (of_int (tv_nsec IN)) / 1000000000))"

text \<open>
  \<open>(int &)IN.tv_sec\<close> is the lower half of the seconds. \<open>fmt_ms\<close> is the text of the milliseconds,
  \<open>%g\<close> of \<open>tv_nsec / 1000000\<close>.
\<close>

definition time_text :: "(int \<Rightarrow> string) \<Rightarrow> timespec \<Rightarrow> string" where
  "time_text fmt_ms IN =
     (let secs = sint (of_int (tv_sec IN) :: c_int);
          days = secs sdiv SECONDS_PER_DAY; drem = secs smod SECONDS_PER_DAY;
          hours = drem sdiv SECONDS_PER_HOUR; hrem = drem smod SECONDS_PER_HOUR;
          minutes = hrem sdiv 60; mrem = hrem smod 60;
          d = ''T#'' @ print_int days @ ''d''; h = d @ print_int hours @ ''h''; m = h @ print_int minutes @ ''m'';
          s = m @ print_int mrem @ ''s''
      in if drem = 0 \<and> tv_nsec IN = 0 then d
         else if hrem = 0 \<and> tv_nsec IN = 0 then h
         else if mrem = 0 \<and> tv_nsec IN = 0 then m
         else if tv_nsec IN = 0 then s
         else s @ fmt_ms (tv_nsec IN) @ ''ms'')"

definition time_to_string :: "(int \<Rightarrow> string) \<Rightarrow> timespec \<Rightarrow> iec_string" where
  "time_to_string fmt_ms IN = snprintf_string (time_text fmt_ms IN)"

text \<open>\<open>%2.2d\<close>: at least two digits.\<close>

definition print_2d :: "int \<Rightarrow> string" where
  "print_2d n = (let w = print_nat (nat \<bar>n\<bar>); w = (if length w < 2 then CHR ''0'' # w else w)
     in if n < 0 then CHR ''-'' # w else w)"

definition date_to_string :: "timespec \<Rightarrow> iec_string option" where
  "date_to_string IN = do {
     t \<leftarrow> convert_seconds_to_date_and_time (tv_sec IN);
     Some (snprintf_string (''D#'' @ print_int (tm_year t) @ ''-'' @ print_2d (tm_mon t) @ ''-'' @ print_2d (tm_day t))) }"

text \<open>\<open>fmt_s sec nsec\<close> is the text \<open>%09.6f\<close> of the seconds with their fraction.\<close>

definition clock_text :: "(int \<Rightarrow> int \<Rightarrow> string) \<Rightarrow> tm \<Rightarrow> int \<Rightarrow> string" where
  "clock_text fmt_s t nsec = print_2d (tm_hour t) @ '':'' @ print_2d (tm_min t) @ '':'' @
     (if nsec = 0 then print_2d (tm_sec t) else fmt_s (tm_sec t) nsec)"

definition tod_to_string :: "(int \<Rightarrow> int \<Rightarrow> string) \<Rightarrow> timespec \<Rightarrow> iec_string option" where
  "tod_to_string fmt_s IN =
     (if tv_sec IN \<ge> SECONDS_PER_DAY then Some \<lparr>len = 9, body = strncpy STR_MAX_LEN ''TOD#ERROR''\<rparr>
      else do {
        t \<leftarrow> convert_seconds_to_date_and_time (tv_sec IN);
        Some (snprintf_string (''TOD#'' @ clock_text fmt_s t (tv_nsec IN))) })"

text \<open>\<open>__dt_to_string\<close> does not initialise its result: the bytes behind the NUL, here NUL too, are open.\<close>

definition dt_to_string :: "(int \<Rightarrow> int \<Rightarrow> string) \<Rightarrow> timespec \<Rightarrow> iec_string option" where
  "dt_to_string fmt_s IN = do {
     t \<leftarrow> convert_seconds_to_date_and_time (tv_sec IN);
     Some (snprintf_string (''DT#'' @ print_int (tm_year t) @ ''-'' @ print_2d (tm_mon t) @ ''-'' @ print_2d (tm_day t) @
       ''-'' @ clock_text fmt_s t (tv_nsec IN))) }"

section \<open>Times and reals\<close>

text \<open>
  \<open>__time_mul\<close> and \<open>__time_div\<close>. The nanoseconds of a product are multiplied in an \<open>int\<close>, and the
  initialiser truncates \<open>(long)ns.rem + (s_f - s) * 1000000000\<close>.
\<close>

definition time_mul :: "(rat \<Rightarrow> rat) \<Rightarrow> timespec \<Rightarrow> rat \<Rightarrow> timespec option" where
  "time_mul dbl IN1 IN2 = do {
     let s_f = dbl (dbl (of_int (tv_sec IN1)) * IN2);
     s \<leftarrow> to_long (c_trunc s_f);
     p \<leftarrow> to_c_int (c_trunc (dbl (dbl (of_int (tv_nsec IN1)) * IN2)));
     sec \<leftarrow> to_long (s + p sdiv 1000000000);
     nsec \<leftarrow> to_long (c_trunc (dbl (of_int (p smod 1000000000) + dbl (dbl (s_f - dbl (of_int s)) * 1000000000))));
     normalize_timespec \<lparr>tv_sec = sec, tv_nsec = nsec\<rparr> }"

definition time_div :: "(rat \<Rightarrow> rat) \<Rightarrow> timespec \<Rightarrow> rat \<Rightarrow> timespec option" where
  "time_div dbl IN1 IN2 =
     (if IN2 = 0 then None else do {
        let s_f = dbl (dbl (of_int (tv_sec IN1)) / IN2);
        s \<leftarrow> to_long (c_trunc s_f);
        nsec \<leftarrow> to_long (c_trunc (dbl (dbl (dbl (of_int (tv_nsec IN1)) / IN2) +
          dbl (dbl (s_f - dbl (of_int s)) * 1000000000))));
        normalize_timespec \<lparr>tv_sec = s, tv_nsec = nsec\<rparr> })"

section \<open>Literals\<close>

text \<open>
  The macros that build the times of literals compute in \<open>long double\<close>, whose rounding is the
  parameter \<open>f\<close>.
\<close>

definition split_seconds :: "(rat \<Rightarrow> rat) \<Rightarrow> rat \<Rightarrow> timespec option" where
  "split_seconds f secs = do {
     s \<leftarrow> to_long (c_trunc secs);
     n \<leftarrow> to_long (c_trunc (f (f (secs - f (of_int s)) * 1000000000)));
     Some \<lparr>tv_sec = s, tv_nsec = n\<rparr> }"

definition time_to_timespec :: "(rat \<Rightarrow> rat) \<Rightarrow> int \<Rightarrow> rat \<Rightarrow> rat \<Rightarrow> rat \<Rightarrow> rat \<Rightarrow> rat \<Rightarrow> timespec option" where
  "time_to_timespec f sign mseconds seconds minutes hours days =
     split_seconds f ((if sign \<ge> 0 then 1 else -1) *
       f (f (f (f (f (f (f (days * 24) + hours) * 60) + minutes) * 60) + seconds) + f (mseconds / 1000)))"

definition tod_to_timespec :: "(rat \<Rightarrow> rat) \<Rightarrow> rat \<Rightarrow> rat \<Rightarrow> rat \<Rightarrow> timespec option" where
  "tod_to_timespec f seconds minutes hours =
     split_seconds f (f (f (f (f (hours * 60) + minutes) * 60) + seconds))"

definition dt_to_timespec :: "(rat \<Rightarrow> rat) \<Rightarrow> rat \<Rightarrow> rat \<Rightarrow> rat \<Rightarrow> int \<Rightarrow> int \<Rightarrow> int \<Rightarrow> timespec option" where
  "dt_to_timespec f seconds minutes hours day month year = do {
     ts_date \<leftarrow> date_to_timespec day month year;
     ts \<leftarrow> tod_to_timespec f seconds minutes hours;
     s \<leftarrow> to_long (tv_sec ts + tv_sec ts_date);
     Some (ts\<lparr>tv_sec := s\<rparr>) }"

section \<open>Hexadecimal\<close>

lemma hex_val_char [simp]: "d < 16 \<Longrightarrow> hex_val (hex_char d) = Some d"
  by (auto simp: hex_val_def hex_char_def of_char_of Let_def)

lemma length_print_hex: "n < 16 ^ Suc k \<Longrightarrow> length (print_hex n) \<le> Suc k"
proof (induction n arbitrary: k rule: print_hex.induct)
  case (1 n)
  show ?case
  proof (cases "n < 16")
    case False
    then obtain j where k: "k = Suc j" using 1(2) by (cases k) auto
    have "n div 16 < 16 ^ Suc j" using 1(2) unfolding k by (simp add: less_mult_imp_div_less mult.commute)
    then show ?thesis using 1(1) [OF False] False k by (simp add: print_hex.simps [of n])
  qed (simp add: print_hex.simps [of n])
qed

text \<open>The digits of \<open>n\<close>, read from bit \<open>4 k\<close> on, add the bits of \<open>n\<close> there.\<close>

lemma of_nat_hex: "(of_nat (n mod 16) :: c_long) OR push_bit 4 (of_nat (n div 16)) = of_nat n"
proof -
  have "n mod 16 = take_bit 4 n" by (simp add: take_bit_eq_mod)
  then have "(of_nat (n mod 16) :: c_long) AND push_bit 4 (of_nat (n div 16)) = 0"
    by (intro bit_eqI) (auto simp: bit_simps)
  then have "(of_nat (n mod 16) :: c_long) OR push_bit 4 (of_nat (n div 16)) = of_nat (n mod 16) + push_bit 4 (of_nat (n div 16))"
    by (rule disjunctive_add_eq_or [symmetric])
  also have "\<dots> = of_nat (n mod 16 + n div 16 * 16)"
    unfolding push_bit_eq_mult of_nat_add of_nat_mult by simp
  finally show ?thesis by (simp only: mod_div_mult_eq)
qed

lemma hex_loop_print:
  "n < 16 ^ (16 - k) \<Longrightarrow> k < 16 \<Longrightarrow>
   hex_loop (rev (print_hex n)) (4 * k) res = res OR push_bit (4 * k) (of_nat n)"
proof (induction n arbitrary: k res rule: print_hex.induct)
  case (1 n)
  show ?case
  proof (cases "n < 16")
    case True
    then show ?thesis using 1(3) by (simp add: print_hex.simps [of n])
  next
    case False
    have k: "Suc k < 16"
    proof (rule ccontr)
      assume "\<not> Suc k < 16"
      then have "k = 15" using 1(3) by simp
      then show False using 1(2) False by simp
    qed
    then have "16 - k = Suc (16 - Suc k)" by simp
    then have q: "n div 16 < 16 ^ (16 - Suc k)"
      using 1(2) by (simp add: less_mult_imp_div_less mult.commute)
    have "hex_loop (rev (print_hex n)) (4 * k) res =
        hex_loop (rev (print_hex (n div 16))) (4 * Suc k) (res OR push_bit (4 * k) (of_nat (n mod 16)))"
      using False 1(3) by (simp add: print_hex.simps [of n] add.commute)
    also have "\<dots> = res OR (push_bit (4 * k) (of_nat (n mod 16)) OR push_bit (4 * Suc k) (of_nat (n div 16)))"
      using 1(1) [OF False q k] by (simp add: or.assoc)
    also have "push_bit (4 * k) (of_nat (n mod 16)) OR push_bit (4 * Suc k) (of_nat (n div 16)) =
        push_bit (4 * k) (of_nat (n mod 16) OR push_bit 4 (of_nat (n div 16) :: c_long))"
      by (simp add: push_bit_or push_bit_push_bit add.commute)
    finally show ?thesis by (simp only: of_nat_hex)
  qed
qed

lemma snprintf_small:
  assumes "length s < 126"
  shows "snprintf_string s = \<lparr>len = int (length s), body = s @ replicate (126 - length s) NUL\<rparr>"
proof -
  have "sint (of_nat (length s) :: u8) = int (length s)"
    using assms by (simp add: signed_of_nat signed_take_bit_int_eq_self)
  then show ?thesis using assms by (simp add: snprintf_string_def STR_MAX_LEN_def strncpy_def)
qed

text \<open>A bit string is read back from its text: what \<open>__bit_to_string\<close> prints, \<open>__string_to_bit\<close>
  converts to the same 64 bits, and so do the two conversions of \<open>BOOL\<close>.\<close>

theorem bit_string_roundtrip:
  "string_to_bit (bit_to_string w) = Some w \<and> string_to_bool (bool_to_string b) = b"
proof -
  let ?h = "print_hex (unat w)"
  have "unat w < 16 ^ Suc 15" using unsigned_less [of w] by simp
  then have h: "length ?h \<le> 16" by (rule order_trans [OF length_print_hex]) simp
  have eq: "bit_to_string w = \<lparr>len = int (length ?h) + 3, body = (''16#'' @ ?h) @ replicate (123 - length ?h) NUL\<rparr>"
    unfolding bit_to_string_def using h by (subst snprintf_small) simp_all
  let ?b = "(''16#'' @ ?h) @ replicate (123 - length ?h) NUL"
  have "?b ! 0 = CHR ''1''" "?b ! 1 = CHR ''6''" "?b ! 2 = CHR ''#''" by simp_all
  moreover have "nat (int (length ?h) + 3) = length (''16#'' @ ?h)" by simp
  then have "take (nat (int (length ?h) + 3)) ?b = ''16#'' @ ?h" by simp
  moreover have "hex_loop (rev ?h) 0 0 = w"
    using hex_loop_print [of "unat w" 0 0] unsigned_less [of w] by simp
  ultimately have "pstring_to_sint (bit_to_string w) = Some (sint w)"
    unfolding eq pstring_to_sint_def Let_def iec_string.simps by (simp del: take_append append.simps(2) append_assoc)
  then have "string_to_bit (bit_to_string w) = Some w" by (simp add: string_to_bit_def)
  moreover have "string_to_bool (bool_to_string b) = b"
    by (cases b) (simp_all add: string_to_bool_def bool_to_string_def strncpy_def to_upper_def STR_MAX_LEN_def of_char_of)
  ultimately show ?thesis by blast
qed

section \<open>Decimal\<close>

lemma length_print_nat: "n < 10 ^ Suc k \<Longrightarrow> length (print_nat n) \<le> Suc k"
proof (induction n arbitrary: k rule: print_nat.induct)
  case (1 n)
  show ?case
  proof (cases "n < 10")
    case False
    then obtain j where k: "k = Suc j" using 1(2) by (cases k) auto
    have "n div 10 < 10 ^ Suc j" using 1(2) unfolding k by (simp add: less_mult_imp_div_less mult.commute)
    then show ?thesis using 1(1) [OF False] False k by (simp add: print_nat.simps [of n])
  qed (simp add: print_nat.simps [of n])
qed

text \<open>One digit, the factor being the sign times \<open>10 ^ k\<close>.\<close>

lemma to_long_signed:
  assumes "s = 1 \<or> s = -1" "0 \<le> x"
  shows "x < 2 ^ 63 \<Longrightarrow> to_long (s * x) = Some (s * x)" "2 ^ 63 < x \<Longrightarrow> to_long (s * x) = None"
  using assms by (auto simp: to_long_def)

lemma dec_loop_digit:
  assumes k: "k \<le> 18" and d: "d < 10" and s: "s = 1 \<or> s = -1" and r: "0 \<le> r" "r < 10 ^ k"
  shows "dec_loop f (digit_char d # cs) (s * 10 ^ k) k (s * r) =
    (if k = 18 then None else dec_loop f cs (s * 10 ^ Suc k) (Suc k) (s * (r + int d * 10 ^ k)))"
proof -
  define P :: int where "P = 10 ^ k"
  define p where "p = int d * P"
  have P: "0 < P" "P \<le> 10 ^ 18" using k power_increasing [of k 18 "10 :: int"] by (simp_all add: P_def)
  have p: "0 \<le> p" "p \<le> 9 * P" using d P by (simp_all add: p_def)
  have r: "0 \<le> r" "r < P" using r by (simp_all add: P_def)
  have e: "int d * (s * 10 ^ k) = s * p" "s * r + s * p = s * (r + p)" "s * 10 ^ k * 10 = s * (10 * P)"
    by (simp_all add: p_def P_def algebra_simps)
  have "to_long (s * p) = Some (s * p)"
    using p P by (intro to_long_signed [OF s]) simp_all
  moreover have "to_long (s * (10 * P)) = None" if "k = 18"
    using that by (intro to_long_signed [OF s]) (simp_all add: P_def)
  moreover have "to_long (s * (r + p)) = Some (s * (r + p))" "to_long (s * (10 * P)) = Some (s * (10 * P))" if "k \<noteq> 18"
  proof -
    have "k \<le> 17" using that k by simp
    then have "P \<le> 10 ^ 17" using power_increasing [of k 17 "10 :: int"] by (simp add: P_def)
    then show "to_long (s * (r + p)) = Some (s * (r + p))" "to_long (s * (10 * P)) = Some (s * (10 * P))"
      using r p P by (auto intro!: to_long_signed [OF s])
  qed
  moreover have "dec_loop f (digit_char d # cs) (s * 10 ^ k) k (s * r) =
      do { q \<leftarrow> to_long (s * p); res \<leftarrow> to_long (s * r + q); fac \<leftarrow> to_long (s * (10 * P)); dec_loop f cs fac (k + 1) res }"
    using k d by (simp only: dec_loop.simps(2) is_digit_char digit_val_char e if_True) simp
  ultimately show ?thesis
    by (cases "k = 18"; cases "to_long (s * (r + p))") (simp_all add: e(2), simp_all add: P_def p_def)
qed

text \<open>A number of at most \<open>18 - k\<close> digits, and a longer one.\<close>

lemma rev_print_nat: "rev (print_nat n) = digit_char (n mod 10) # (if n < 10 then [] else rev (print_nat (n div 10)))"
  by (simp add: print_nat.simps [of n])

lemma dec_loop_number:
  assumes s: "s = 1 \<or> s = -1"
  shows "k \<le> 18 \<Longrightarrow> 0 \<le> r \<Longrightarrow> r < 10 ^ k \<Longrightarrow>
    (if n < 10 ^ (18 - k) \<and> k < 18
     then \<exists>k' \<le> 18. dec_loop f (rev (print_nat n) @ cs) (s * 10 ^ k) k (s * r) =
       dec_loop f cs (s * 10 ^ k') k' (s * (r + int n * 10 ^ k))
     else dec_loop f (rev (print_nat n) @ cs) (s * 10 ^ k) k (s * r) = None)"
proof (induction n arbitrary: k r rule: print_nat.induct)
  case (1 n)
  let ?d = "n mod 10" and ?r = "r + int (n mod 10) * 10 ^ k"
  have step: "dec_loop f (rev (print_nat n) @ cs) (s * 10 ^ k) k (s * r) =
      (if k = 18 then None else dec_loop f ((if n < 10 then [] else rev (print_nat (n div 10))) @ cs)
        (s * 10 ^ Suc k) (Suc k) (s * ?r))"
    unfolding rev_print_nat [of n] append_Cons using 1 s by (intro dec_loop_digit) simp_all
  have r: "0 \<le> ?r" "?r < 10 ^ Suc k"
  proof -
    have "int (n mod 10) * 10 ^ k \<le> 9 * 10 ^ k" by (intro mult_right_mono) simp_all
    then show "?r < 10 ^ Suc k" using 1(4) unfolding power_Suc by linarith
    show "0 \<le> ?r" using 1(3) by simp
  qed
  show ?case
  proof (cases "k = 18")
    case True
    then show ?thesis using step by simp
  next
    case False
    then have k: "Suc k \<le> 18" "18 - k = Suc (18 - Suc k)" using 1(2) by simp_all
    show ?thesis
    proof (cases "n < 10")
      case True
      then have "n < 10 ^ (18 - k)" using k(2) by (simp add: order_less_le_trans)
      moreover have "?r = r + int n * 10 ^ k" using True by simp
      ultimately show ?thesis using step True False k(1) 1(2) by (auto intro!: exI [of _ "Suc k"])
    next
      case big: False
      have n: "?r + int (n div 10) * 10 ^ Suc k = r + int n * 10 ^ k"
      proof -
        have "int n = int ?d + int (n div 10) * 10" by (metis mod_div_mult_eq of_nat_add of_nat_mult of_nat_numeral)
        then show ?thesis by (simp add: algebra_simps)
      qed
      have lt: "n < 10 ^ (18 - k) \<longleftrightarrow> n div 10 < 10 ^ (18 - Suc k)"
        unfolding k(2) by (simp add: div_less_iff_less_mult mult.commute)
      have "Suc k < 18" if "n < 10 ^ (18 - k)"
        using that big k by (cases "Suc k = 18") auto
      then show ?thesis
        using 1(1) [OF big k(1) r] step False big lt k(1) unfolding n by auto
    qed
  qed
qed

lemma print_nat_no_mark: "c \<in> set (print_nat n) \<Longrightarrow> c \<noteq> CHR ''#'' \<and> c \<noteq> CHR ''-''"
  using print_nat_digits [of n] by (auto simp: is_digit_def of_char_of)

lemma pstring_to_sint_decimal:
  assumes "body IN ! 1 \<noteq> CHR ''#''" "body IN ! 2 \<noteq> CHR ''#''"
  shows "pstring_to_sint IN = (let fac = (if body IN ! 0 = CHR ''-'' then -1 else 1)
    in dec_loop fac (rev (take (nat (len IN)) (body IN))) fac 0 0)"
  using assms by (simp add: pstring_to_sint_def Let_def)

text \<open>The text of a number, read with its sign as the factor.\<close>

lemma dec_loop_print:
  assumes "s = 1 \<or> s = -1" "cs = [] \<or> cs = ''-''"
  shows "dec_loop f (rev (print_nat n) @ cs) s 0 0 = (if n < 10 ^ 18 then Some (s * int n) else None)"
proof -
  have "dec_loop f cs a k b = Some b" for a k b
    using assms(2) by (auto simp: is_digit_def of_char_of)
  then show ?thesis
    using dec_loop_number [OF assms(1), of 0 0 n f cs] by (auto split: if_splits)
qed

lemma signed_text:
  assumes "\<bar>v\<bar> < 2 ^ 64"
  shows "length (print_int v) < 126" "print_int v = (if v < 0 then ''-'' else []) @ print_nat (nat \<bar>v\<bar>)"
    "i < length (print_int v) \<Longrightarrow> print_int v ! i \<noteq> CHR ''#''"
    "print_int v ! 0 = CHR ''-'' \<longleftrightarrow> v < 0"
proof -
  let ?n = "nat \<bar>v\<bar>"
  show t: "print_int v = (if v < 0 then ''-'' else []) @ print_nat ?n" by (simp add: print_int_def)
  have "?n < 10 ^ Suc 19" using assms by simp
  then show "length (print_int v) < 126" using length_print_nat unfolding t by fastforce
  show "print_int v ! i \<noteq> CHR ''#''" if "i < length (print_int v)"
    using nth_mem [OF that] print_nat_no_mark unfolding t by (auto split: if_splits)
  obtain c cs where c: "print_nat ?n = c # cs" using print_nat_nonempty by (meson neq_Nil_conv)
  then have "c \<noteq> CHR ''-''" using print_nat_no_mark [of c ?n] by simp
  then show "print_int v ! 0 = CHR ''-'' \<longleftrightarrow> v < 0" unfolding t c by simp
qed

text \<open>C19: \<open>__string_to_sint\<close> reads back what \<open>__sint_to_string\<close> printed exactly for the numbers of at
  most eighteen digits; for the longer ones its factor overflows after the nineteenth digit, in a
  signed multiplication.\<close>

theorem decimal_string_roundtrip:
  assumes "- (2 ^ 63) \<le> v" "v < 2 ^ 63"
  shows "string_to_sint (sint_to_string v) = (if \<bar>v\<bar> < 10 ^ 18 then Some v else None)"
proof -
  define s :: int where "s = (if v < 0 then -1 else 1)"
  have v: "\<bar>v\<bar> < 2 ^ 64" using assms by simp
  note t = signed_text [OF v]
  let ?b = "print_int v @ replicate (126 - length (print_int v)) NUL"
  have h: "?b ! i \<noteq> CHR ''#''" if "i < 126" for i
    using that t(1) t(3) [of i] by (simp add: nth_append)
  have "print_int v \<noteq> []" using print_nat_nonempty by (simp add: t(2))
  then have z: "?b ! 0 = CHR ''-'' \<longleftrightarrow> v < 0" using t(4) by (simp add: nth_append)
  have "string_to_sint (sint_to_string v) = dec_loop s (rev (print_int v)) s 0 0"
    unfolding string_to_sint_def sint_to_string_def snprintf_small [OF t(1)]
    using h [of 1] h [of 2] z by (subst pstring_to_sint_decimal) (simp_all add: Let_def s_def)
  also have "\<dots> = (if nat \<bar>v\<bar> < 10 ^ 18 then Some (s * int (nat \<bar>v\<bar>)) else None)"
    unfolding t(2) rev_append by (intro dec_loop_print) (simp_all add: s_def)
  finally show ?thesis by (auto simp: s_def)
qed

theorem decimal_string_roundtrip_witness:
  "string_to_sint (sint_to_string (-407)) = Some (-407) \<and> string_to_sint (sint_to_string 1000000000000000000) = None"
  using decimal_string_roundtrip [of "-407"] decimal_string_roundtrip [of 1000000000000000000] by simp

text \<open>\<open>__string_to_time\<close> drops the fraction of the seconds it is written for: the conversion in
  \<open>(long)(IN_val - (LINT)IN_val)*1000000000\<close> applies to the difference, which is less than one second,
  so the nanoseconds of the result are always 0. The hypotheses say that the whole and the fractional
  part of an \<open>LREAL\<close> are \<open>LREAL\<close> numbers.\<close>

theorem string_to_time_whole_seconds:
  assumes "atof (body IN) = v" "dbl (of_int (c_trunc v)) = of_int (c_trunc v)"
    and "dbl (v - of_int (c_trunc v)) = v - of_int (c_trunc v)"
    and "string_to_time atof dbl IN = Some t"
  shows "tv_nsec t = 0"
proof -
  have "c_trunc (q - of_int (c_trunc q)) = 0" for q
    by (auto simp: c_trunc_def floor_eq_iff ceiling_eq_iff; linarith)
  then show ?thesis using assms by (auto simp: string_to_time_def Let_def to_long_def split: if_splits Option.bind_splits)
qed

text \<open>A number exactly between two integers is rounded to the even one.\<close>

theorem real_to_sint_half_even:
  assumes "dbl (of_int n + 1) = of_int n + 1" "0 \<le> n" "n < 2 ^ 62"
  shows "real_to_sint dbl (of_int n + 1 / 2) = Some (if even n then n else n + 1)"
proof -
  have "of_int n + 1 / 2 + 1 / 2 = (of_int (n + 1) :: rat)" by simp
  then have "real_to_sint dbl (of_int n + 1 / 2) = real_round (of_int (n + 1))"
    using assms by (simp add: real_to_sint_def preal_to_sint_def add.commute)
  also have "\<dots> = Some ((n + 1) sdiv 2 * 2)"
    using assms by (simp add: real_round_def c_trunc_def to_long_def del: of_int_add)
  finally show ?thesis using assms by (simp add: signed_divide_int_def) presburger
qed

text \<open>
  A literal is less than a nanosecond away from its value, on the side of zero, and the two parts of
  the time do not have opposite signs, where the \<open>long double\<close> operations are exact.
\<close>

lemma c_trunc_near:
  "0 \<le> q \<Longrightarrow> of_int (c_trunc q) \<le> q \<and> q < of_int (c_trunc q) + 1 \<and> 0 \<le> c_trunc q"
  "q \<le> 0 \<Longrightarrow> q \<le> of_int (c_trunc q) \<and> of_int (c_trunc q) - 1 < q \<and> c_trunc q \<le> 0"
  unfolding c_trunc_def using of_int_floor_le [of q] le_of_int_ceiling [of q] by (auto; linarith)+

theorem split_seconds_near:
  assumes f: "f (of_int (c_trunc q)) = of_int (c_trunc q)" "f (q - of_int (c_trunc q)) = q - of_int (c_trunc q)"
      "f ((q - of_int (c_trunc q)) * 1000000000) = (q - of_int (c_trunc q)) * 1000000000"
    and t: "split_seconds f q = Some t"
  defines "v \<equiv> of_int (tv_sec t) + of_int (tv_nsec t) / (1000000000 :: rat)"
  shows "\<bar>v\<bar> \<le> \<bar>q\<bar>" "\<bar>q - v\<bar> < 1 / 1000000000" "0 \<le> tv_sec t \<and> 0 \<le> tv_nsec t \<or> tv_sec t \<le> 0 \<and> tv_nsec t \<le> 0"
proof -
  define d where "d = q - of_int (c_trunc q)"
  define e where "e = d * 1000000000"
  have "t = \<lparr>tv_sec = c_trunc q, tv_nsec = c_trunc e\<rparr>"
    using t f by (auto simp: split_seconds_def to_long_def d_def e_def split: if_splits)
  then have v: "v = of_int (c_trunc q) + of_int (c_trunc e) / 1000000000" "tv_sec t = c_trunc q" "tv_nsec t = c_trunc e"
    by (simp_all add: v_def)
  have q: "q = of_int (c_trunc q) + e / 1000000000" by (simp add: e_def d_def field_simps)
  consider "0 \<le> q" | "q \<le> 0" by linarith
  then have "\<bar>v\<bar> \<le> \<bar>q\<bar> \<and> \<bar>q - v\<bar> < 1 / 1000000000 \<and>
      (0 \<le> tv_sec t \<and> 0 \<le> tv_nsec t \<or> tv_sec t \<le> 0 \<and> tv_nsec t \<le> 0)"
  proof cases
    case 1
    then have "0 \<le> e" using c_trunc_near(1) [of q] by (simp add: e_def d_def)
    then show ?thesis using c_trunc_near(1) [of q] c_trunc_near(1) [of e] 1 q unfolding v by (simp add: field_simps)
  next
    case 2
    then have "e \<le> 0" using c_trunc_near(2) [of q] by (simp add: e_def d_def)
    then show ?thesis using c_trunc_near(2) [of q] c_trunc_near(2) [of e] 2 q unfolding v by (simp add: field_simps)
  qed
  then show "\<bar>v\<bar> \<le> \<bar>q\<bar>" "\<bar>q - v\<bar> < 1 / 1000000000" "0 \<le> tv_sec t \<and> 0 \<le> tv_nsec t \<or> tv_sec t \<le> 0 \<and> tv_nsec t \<le> 0"
    by blast+
qed

end
