(* ===== verification/IecBlocks.thy ===== *)
theory IecBlocks
  imports IecTime
begin

text \<open>
  The function blocks of \<open>src/core/lib/iec_std_FB.h\<close>, which the programs of the PLC are built from:
  edge detectors, bistables, counters, timers, the real-time clock and the semaphore, with the
  variables and access macros of \<open>accessor.h\<close>. A block is a record of variables; its body is a
  function from the block to the block. A \<open>BOOL\<close> is only ever tested, so it is a \<open>bool\<close>. The blocks
  that compute with \<open>REAL\<close> numbers are in \<open>IecReals\<close>.
\<close>

unbundle bit_operations_syntax

section \<open>Variables\<close>

record 'a iec_var =
  iec_value :: 'a
  iec_flags :: u8

definition IEC_FORCE_FLAG :: u8 where "IEC_FORCE_FLAG = 0x02"
definition IEC_RETAIN_FLAG :: u8 where "IEC_RETAIN_FLAG = 0x04"

definition INIT_VAR :: "'a iec_var \<Rightarrow> 'a \<Rightarrow> bool \<Rightarrow> 'a iec_var" where
  "INIT_VAR v initial retained =
     \<lparr>iec_value = initial, iec_flags = iec_flags v OR (if retained then IEC_RETAIN_FLAG else 0)\<rparr>"

abbreviation GET_VAR :: "'a iec_var \<Rightarrow> 'a" where
  "GET_VAR v \<equiv> iec_value v"

definition SET_VAR :: "'a iec_var \<Rightarrow> 'a \<Rightarrow> 'a iec_var" where
  "SET_VAR v x = (if iec_flags v AND IEC_FORCE_FLAG \<noteq> 0 then v else v\<lparr>iec_value := x\<rparr>)"

definition unforced :: "'a iec_var \<Rightarrow> bool" where
  "unforced v \<longleftrightarrow> iec_flags v AND IEC_FORCE_FLAG = 0"

lemma SET_VAR_unforced [simp]:
  "unforced v \<Longrightarrow> GET_VAR (SET_VAR v x) = x" "unforced (SET_VAR v x) = unforced v"
  by (simp_all add: SET_VAR_def unforced_def)

section \<open>Edges and bistables\<close>

text \<open>Every block has \<open>EN\<close> and \<open>ENO\<close>; a body that is not enabled only clears \<open>ENO\<close>.\<close>

record trig =
  T_EN :: "bool iec_var"
  T_ENO :: "bool iec_var"
  CLK :: "bool iec_var"
  TQ :: "bool iec_var"
  M :: "bool iec_var"

definition R_TRIG_init :: "bool \<Rightarrow> trig \<Rightarrow> trig" where
  "R_TRIG_init retain d = d\<lparr>T_EN := INIT_VAR (T_EN d) True retain, T_ENO := INIT_VAR (T_ENO d) True retain,
     CLK := INIT_VAR (CLK d) False retain,
     TQ := INIT_VAR (TQ d) False retain, M := INIT_VAR (M d) False True\<rparr>"

definition R_TRIG_body :: "trig \<Rightarrow> trig" where
  "R_TRIG_body d = (let d = d\<lparr>T_ENO := SET_VAR (T_ENO d) (GET_VAR (T_EN d))\<rparr> in if \<not> GET_VAR (T_EN d) then d else
     let d = d\<lparr>TQ := SET_VAR (TQ d) (GET_VAR (CLK d) \<and> \<not> GET_VAR (M d))\<rparr>
     in d\<lparr>M := SET_VAR (M d) (GET_VAR (CLK d))\<rparr>)"

definition F_TRIG_init :: "bool \<Rightarrow> trig \<Rightarrow> trig" where
  "F_TRIG_init retain d = d\<lparr>T_EN := INIT_VAR (T_EN d) True retain, T_ENO := INIT_VAR (T_ENO d) True retain,
     CLK := INIT_VAR (CLK d) False retain,
     TQ := INIT_VAR (TQ d) False retain, M := INIT_VAR (M d) False True\<rparr>"

definition F_TRIG_body :: "trig \<Rightarrow> trig" where
  "F_TRIG_body d = (let d = d\<lparr>T_ENO := SET_VAR (T_ENO d) (GET_VAR (T_EN d))\<rparr> in if \<not> GET_VAR (T_EN d) then d else
     let d = d\<lparr>TQ := SET_VAR (TQ d) (\<not> GET_VAR (CLK d) \<and> \<not> GET_VAR (M d))\<rparr>
     in d\<lparr>M := SET_VAR (M d) (\<not> GET_VAR (CLK d))\<rparr>)"

record SR =
  SR_EN :: "bool iec_var"
  SR_ENO :: "bool iec_var"
  S1 :: "bool iec_var"
  SR_R :: "bool iec_var"
  SR_Q1 :: "bool iec_var"

definition SR_init :: "bool \<Rightarrow> SR \<Rightarrow> SR" where
  "SR_init retain d = d\<lparr>SR_EN := INIT_VAR (SR_EN d) True retain, SR_ENO := INIT_VAR (SR_ENO d) True retain,
     S1 := INIT_VAR (S1 d) False retain,
     SR_R := INIT_VAR (SR_R d) False retain, SR_Q1 := INIT_VAR (SR_Q1 d) False retain\<rparr>"

definition SR_body :: "SR \<Rightarrow> SR" where
  "SR_body d = (let d = d\<lparr>SR_ENO := SET_VAR (SR_ENO d) (GET_VAR (SR_EN d))\<rparr> in if \<not> GET_VAR (SR_EN d) then d else
     d\<lparr>SR_Q1 := SET_VAR (SR_Q1 d) (GET_VAR (S1 d) \<or> (\<not> GET_VAR (SR_R d) \<and> GET_VAR (SR_Q1 d)))\<rparr>)"

record RS =
  RS_EN :: "bool iec_var"
  RS_ENO :: "bool iec_var"
  RS_S :: "bool iec_var"
  R1 :: "bool iec_var"
  RS_Q1 :: "bool iec_var"

definition RS_init :: "bool \<Rightarrow> RS \<Rightarrow> RS" where
  "RS_init retain d = d\<lparr>RS_EN := INIT_VAR (RS_EN d) True retain, RS_ENO := INIT_VAR (RS_ENO d) True retain,
     RS_S := INIT_VAR (RS_S d) False retain,
     R1 := INIT_VAR (R1 d) False retain, RS_Q1 := INIT_VAR (RS_Q1 d) False retain\<rparr>"

definition RS_body :: "RS \<Rightarrow> RS" where
  "RS_body d = (let d = d\<lparr>RS_ENO := SET_VAR (RS_ENO d) (GET_VAR (RS_EN d))\<rparr> in if \<not> GET_VAR (RS_EN d) then d else
     d\<lparr>RS_Q1 := SET_VAR (RS_Q1 d) (\<not> GET_VAR (R1 d) \<and> (GET_VAR (RS_S d) \<or> GET_VAR (RS_Q1 d)))\<rparr>)"

section \<open>Counters\<close>

text \<open>
  The counters of the five integer types differ in the type and so in the comparison only:
  \<open>lt\<close> is \<open><\<close> of that type.
\<close>

record 'n CTU =
  CTU_EN :: "bool iec_var"
  CTU_ENO :: "bool iec_var"
  CTU_CU :: "bool iec_var"
  CTU_R :: "bool iec_var"
  CTU_PV :: "'n iec_var"
  CTU_Q :: "bool iec_var"
  CTU_CV :: "'n iec_var"
  CTU_CU_T :: trig

definition ctu_init :: "bool \<Rightarrow> 'n::len word CTU \<Rightarrow> 'n word CTU" where
  "ctu_init retain d = d\<lparr>CTU_EN := INIT_VAR (CTU_EN d) True retain, CTU_ENO := INIT_VAR (CTU_ENO d) True retain,
     CTU_CU := INIT_VAR (CTU_CU d) False retain,
     CTU_R := INIT_VAR (CTU_R d) False retain, CTU_PV := INIT_VAR (CTU_PV d) 0 retain,
     CTU_Q := INIT_VAR (CTU_Q d) False retain, CTU_CV := INIT_VAR (CTU_CV d) 0 retain,
     CTU_CU_T := R_TRIG_init retain (CTU_CU_T d)\<rparr>"

definition ctu_body :: "('n::len word \<Rightarrow> 'n word \<Rightarrow> bool) \<Rightarrow> 'n word CTU \<Rightarrow> 'n word CTU" where
  "ctu_body lt d = (let d = d\<lparr>CTU_ENO := SET_VAR (CTU_ENO d) (GET_VAR (CTU_EN d))\<rparr> in if \<not> GET_VAR (CTU_EN d) then d else
     let d = d\<lparr>CTU_CU_T := (CTU_CU_T d)\<lparr>CLK := SET_VAR (CLK (CTU_CU_T d)) (GET_VAR (CTU_CU d))\<rparr>\<rparr>;
         d = d\<lparr>CTU_CU_T := R_TRIG_body (CTU_CU_T d)\<rparr>;
         d = (if GET_VAR (CTU_R d) then d\<lparr>CTU_CV := SET_VAR (CTU_CV d) 0\<rparr>
              else if GET_VAR (TQ (CTU_CU_T d)) \<and> lt (GET_VAR (CTU_CV d)) (GET_VAR (CTU_PV d))
              then d\<lparr>CTU_CV := SET_VAR (CTU_CV d) (GET_VAR (CTU_CV d) + 1)\<rparr> else d)
     in d\<lparr>CTU_Q := SET_VAR (CTU_Q d) (\<not> lt (GET_VAR (CTU_CV d)) (GET_VAR (CTU_PV d)))\<rparr>)"

record 'n CTD =
  CTD_EN :: "bool iec_var"
  CTD_ENO :: "bool iec_var"
  CTD_CD :: "bool iec_var"
  CTD_LD :: "bool iec_var"
  CTD_PV :: "'n iec_var"
  CTD_Q :: "bool iec_var"
  CTD_CV :: "'n iec_var"
  CTD_CD_T :: trig

definition ctd_init :: "bool \<Rightarrow> 'n::len word CTD \<Rightarrow> 'n word CTD" where
  "ctd_init retain d = d\<lparr>CTD_EN := INIT_VAR (CTD_EN d) True retain, CTD_ENO := INIT_VAR (CTD_ENO d) True retain,
     CTD_CD := INIT_VAR (CTD_CD d) False retain,
     CTD_LD := INIT_VAR (CTD_LD d) False retain, CTD_PV := INIT_VAR (CTD_PV d) 0 retain,
     CTD_Q := INIT_VAR (CTD_Q d) False retain, CTD_CV := INIT_VAR (CTD_CV d) 0 retain,
     CTD_CD_T := R_TRIG_init retain (CTD_CD_T d)\<rparr>"

definition ctd_body :: "('n::len word \<Rightarrow> 'n word \<Rightarrow> bool) \<Rightarrow> 'n word CTD \<Rightarrow> 'n word CTD" where
  "ctd_body lt d = (let d = d\<lparr>CTD_ENO := SET_VAR (CTD_ENO d) (GET_VAR (CTD_EN d))\<rparr> in if \<not> GET_VAR (CTD_EN d) then d else
     let d = d\<lparr>CTD_CD_T := (CTD_CD_T d)\<lparr>CLK := SET_VAR (CLK (CTD_CD_T d)) (GET_VAR (CTD_CD d))\<rparr>\<rparr>;
         d = d\<lparr>CTD_CD_T := R_TRIG_body (CTD_CD_T d)\<rparr>;
         d = (if GET_VAR (CTD_LD d) then d\<lparr>CTD_CV := SET_VAR (CTD_CV d) (GET_VAR (CTD_PV d))\<rparr>
              else if GET_VAR (TQ (CTD_CD_T d)) \<and> lt 0 (GET_VAR (CTD_CV d))
              then d\<lparr>CTD_CV := SET_VAR (CTD_CV d) (GET_VAR (CTD_CV d) - 1)\<rparr> else d)
     in d\<lparr>CTD_Q := SET_VAR (CTD_Q d) (\<not> lt 0 (GET_VAR (CTD_CV d)))\<rparr>)"

record 'n CTUD =
  CTUD_EN :: "bool iec_var"
  CTUD_ENO :: "bool iec_var"
  CTUD_CU :: "bool iec_var"
  CTUD_CD :: "bool iec_var"
  CTUD_R :: "bool iec_var"
  CTUD_LD :: "bool iec_var"
  CTUD_PV :: "'n iec_var"
  CTUD_QU :: "bool iec_var"
  CTUD_QD :: "bool iec_var"
  CTUD_CV :: "'n iec_var"
  CTUD_CD_T :: trig
  CTUD_CU_T :: trig

definition ctud_init :: "bool \<Rightarrow> 'n::len word CTUD \<Rightarrow> 'n word CTUD" where
  "ctud_init retain d = d\<lparr>CTUD_EN := INIT_VAR (CTUD_EN d) True retain, CTUD_ENO := INIT_VAR (CTUD_ENO d) True retain,
     CTUD_CU := INIT_VAR (CTUD_CU d) False retain,
     CTUD_CD := INIT_VAR (CTUD_CD d) False retain, CTUD_R := INIT_VAR (CTUD_R d) False retain,
     CTUD_LD := INIT_VAR (CTUD_LD d) False retain, CTUD_PV := INIT_VAR (CTUD_PV d) 0 retain,
     CTUD_QU := INIT_VAR (CTUD_QU d) False retain, CTUD_QD := INIT_VAR (CTUD_QD d) False retain,
     CTUD_CV := INIT_VAR (CTUD_CV d) 0 retain,
     CTUD_CD_T := R_TRIG_init retain (CTUD_CD_T d), CTUD_CU_T := R_TRIG_init retain (CTUD_CU_T d)\<rparr>"

definition ctud_body :: "('n::len word \<Rightarrow> 'n word \<Rightarrow> bool) \<Rightarrow> 'n word CTUD \<Rightarrow> 'n word CTUD" where
  "ctud_body lt d = (let d = d\<lparr>CTUD_ENO := SET_VAR (CTUD_ENO d) (GET_VAR (CTUD_EN d))\<rparr> in if \<not> GET_VAR (CTUD_EN d) then d else
     let d = d\<lparr>CTUD_CD_T := (CTUD_CD_T d)\<lparr>CLK := SET_VAR (CLK (CTUD_CD_T d)) (GET_VAR (CTUD_CD d))\<rparr>\<rparr>;
         d = d\<lparr>CTUD_CD_T := R_TRIG_body (CTUD_CD_T d)\<rparr>;
         d = d\<lparr>CTUD_CU_T := (CTUD_CU_T d)\<lparr>CLK := SET_VAR (CLK (CTUD_CU_T d)) (GET_VAR (CTUD_CU d))\<rparr>\<rparr>;
         d = d\<lparr>CTUD_CU_T := R_TRIG_body (CTUD_CU_T d)\<rparr>;
         d = (if GET_VAR (CTUD_R d) then d\<lparr>CTUD_CV := SET_VAR (CTUD_CV d) 0\<rparr>
              else if GET_VAR (CTUD_LD d) then d\<lparr>CTUD_CV := SET_VAR (CTUD_CV d) (GET_VAR (CTUD_PV d))\<rparr>
              else if \<not> (GET_VAR (TQ (CTUD_CU_T d)) \<and> GET_VAR (TQ (CTUD_CD_T d)))
              then (if GET_VAR (TQ (CTUD_CU_T d)) \<and> lt (GET_VAR (CTUD_CV d)) (GET_VAR (CTUD_PV d))
                    then d\<lparr>CTUD_CV := SET_VAR (CTUD_CV d) (GET_VAR (CTUD_CV d) + 1)\<rparr>
                    else if GET_VAR (TQ (CTUD_CD_T d)) \<and> lt 0 (GET_VAR (CTUD_CV d))
                    then d\<lparr>CTUD_CV := SET_VAR (CTUD_CV d) (GET_VAR (CTUD_CV d) - 1)\<rparr> else d)
              else d);
         d = d\<lparr>CTUD_QU := SET_VAR (CTUD_QU d) (\<not> lt (GET_VAR (CTUD_CV d)) (GET_VAR (CTUD_PV d)))\<rparr>
     in d\<lparr>CTUD_QD := SET_VAR (CTUD_QD d) (\<not> lt 0 (GET_VAR (CTUD_CV d)))\<rparr>)"

text \<open>The five types.\<close>

definition CTU_init :: "bool \<Rightarrow> 16 word CTU \<Rightarrow> 16 word CTU" where "CTU_init = ctu_init"
definition CTU_body :: "16 word CTU \<Rightarrow> 16 word CTU" where "CTU_body = ctu_body word_sless"
definition CTU_DINT_init :: "bool \<Rightarrow> 32 word CTU \<Rightarrow> 32 word CTU" where "CTU_DINT_init = ctu_init"
definition CTU_DINT_body :: "32 word CTU \<Rightarrow> 32 word CTU" where "CTU_DINT_body = ctu_body word_sless"
definition CTU_LINT_init :: "bool \<Rightarrow> 64 word CTU \<Rightarrow> 64 word CTU" where "CTU_LINT_init = ctu_init"
definition CTU_LINT_body :: "64 word CTU \<Rightarrow> 64 word CTU" where "CTU_LINT_body = ctu_body word_sless"
definition CTU_UDINT_init :: "bool \<Rightarrow> 32 word CTU \<Rightarrow> 32 word CTU" where "CTU_UDINT_init = ctu_init"
definition CTU_UDINT_body :: "32 word CTU \<Rightarrow> 32 word CTU" where "CTU_UDINT_body = ctu_body (<)"
definition CTU_ULINT_init :: "bool \<Rightarrow> 64 word CTU \<Rightarrow> 64 word CTU" where "CTU_ULINT_init = ctu_init"
definition CTU_ULINT_body :: "64 word CTU \<Rightarrow> 64 word CTU" where "CTU_ULINT_body = ctu_body (<)"

definition CTD_init :: "bool \<Rightarrow> 16 word CTD \<Rightarrow> 16 word CTD" where "CTD_init = ctd_init"
definition CTD_body :: "16 word CTD \<Rightarrow> 16 word CTD" where "CTD_body = ctd_body word_sless"
definition CTD_DINT_init :: "bool \<Rightarrow> 32 word CTD \<Rightarrow> 32 word CTD" where "CTD_DINT_init = ctd_init"
definition CTD_DINT_body :: "32 word CTD \<Rightarrow> 32 word CTD" where "CTD_DINT_body = ctd_body word_sless"
definition CTD_LINT_init :: "bool \<Rightarrow> 64 word CTD \<Rightarrow> 64 word CTD" where "CTD_LINT_init = ctd_init"
definition CTD_LINT_body :: "64 word CTD \<Rightarrow> 64 word CTD" where "CTD_LINT_body = ctd_body word_sless"
definition CTD_UDINT_init :: "bool \<Rightarrow> 32 word CTD \<Rightarrow> 32 word CTD" where "CTD_UDINT_init = ctd_init"
definition CTD_UDINT_body :: "32 word CTD \<Rightarrow> 32 word CTD" where "CTD_UDINT_body = ctd_body (<)"
definition CTD_ULINT_init :: "bool \<Rightarrow> 64 word CTD \<Rightarrow> 64 word CTD" where "CTD_ULINT_init = ctd_init"
definition CTD_ULINT_body :: "64 word CTD \<Rightarrow> 64 word CTD" where "CTD_ULINT_body = ctd_body (<)"

definition CTUD_init :: "bool \<Rightarrow> 16 word CTUD \<Rightarrow> 16 word CTUD" where "CTUD_init = ctud_init"
definition CTUD_body :: "16 word CTUD \<Rightarrow> 16 word CTUD" where "CTUD_body = ctud_body word_sless"
definition CTUD_DINT_init :: "bool \<Rightarrow> 32 word CTUD \<Rightarrow> 32 word CTUD" where "CTUD_DINT_init = ctud_init"
definition CTUD_DINT_body :: "32 word CTUD \<Rightarrow> 32 word CTUD" where "CTUD_DINT_body = ctud_body word_sless"
definition CTUD_LINT_init :: "bool \<Rightarrow> 64 word CTUD \<Rightarrow> 64 word CTUD" where "CTUD_LINT_init = ctud_init"
definition CTUD_LINT_body :: "64 word CTUD \<Rightarrow> 64 word CTUD" where "CTUD_LINT_body = ctud_body word_sless"
definition CTUD_UDINT_init :: "bool \<Rightarrow> 32 word CTUD \<Rightarrow> 32 word CTUD" where "CTUD_UDINT_init = ctud_init"
definition CTUD_UDINT_body :: "32 word CTUD \<Rightarrow> 32 word CTUD" where "CTUD_UDINT_body = ctud_body (<)"
definition CTUD_ULINT_init :: "bool \<Rightarrow> 64 word CTUD \<Rightarrow> 64 word CTUD" where "CTUD_ULINT_init = ctud_init"
definition CTUD_ULINT_body :: "64 word CTUD \<Rightarrow> 64 word CTUD" where "CTUD_ULINT_body = ctud_body (<)"

section \<open>Timers, clock and semaphore\<close>

text \<open>\<open>TP\<close>, \<open>TON\<close> and \<open>TOF\<close> are the same structure. \<open>now\<close> is the global \<open>__CURRENT_TIME\<close>.\<close>

record timer_fb =
  TIMER_EN :: "bool iec_var"
  TIMER_ENO :: "bool iec_var"
  IN :: "bool iec_var"
  PT :: "timespec iec_var"
  Q :: "bool iec_var"
  ET :: "timespec iec_var"
  STATE :: "8 word iec_var"
  PREV_IN :: "bool iec_var"
  CURRENT_TIME :: "timespec iec_var"
  START_TIME :: "timespec iec_var"

definition timer_init :: "bool \<Rightarrow> timer_fb \<Rightarrow> timer_fb" where
  "timer_init retain d = d\<lparr>TIMER_EN := INIT_VAR (TIMER_EN d) True retain, TIMER_ENO := INIT_VAR (TIMER_ENO d) True retain,
     IN := INIT_VAR (IN d) False retain, PT := INIT_VAR (PT d) zero_time retain,
     Q := INIT_VAR (Q d) False retain, ET := INIT_VAR (ET d) zero_time retain, STATE := INIT_VAR (STATE d) 0 retain,
     PREV_IN := INIT_VAR (PREV_IN d) False retain, CURRENT_TIME := INIT_VAR (CURRENT_TIME d) zero_time retain,
     START_TIME := INIT_VAR (START_TIME d) zero_time retain\<rparr>"

definition TP_init :: "bool \<Rightarrow> timer_fb \<Rightarrow> timer_fb" where "TP_init = timer_init"
definition TON_init :: "bool \<Rightarrow> timer_fb \<Rightarrow> timer_fb" where "TON_init = timer_init"
definition TOF_init :: "bool \<Rightarrow> timer_fb \<Rightarrow> timer_fb" where "TOF_init = timer_init"

text \<open>\<open>LE_TIME(__time_add(START_TIME, PT), CURRENT_TIME)\<close> and the elapsed time.\<close>

definition expired :: "timer_fb \<Rightarrow> bool option" where
  "expired d = do { t \<leftarrow> time_add (GET_VAR (START_TIME d)) (GET_VAR (PT d)); LE_TIME t (GET_VAR (CURRENT_TIME d)) }"

definition elapsed :: "timer_fb \<Rightarrow> timespec option" where
  "elapsed d = time_sub (GET_VAR (CURRENT_TIME d)) (GET_VAR (START_TIME d))"

definition TP_body :: "timespec \<Rightarrow> timer_fb \<Rightarrow> timer_fb option" where
  "TP_body now d = (let d = d\<lparr>TIMER_ENO := SET_VAR (TIMER_ENO d) (GET_VAR (TIMER_EN d))\<rparr> in if \<not> GET_VAR (TIMER_EN d) then Some d else do {
     let d = d\<lparr>CURRENT_TIME := SET_VAR (CURRENT_TIME d) now\<rparr>;
     d \<leftarrow> (if GET_VAR (STATE d) = 0 \<and> \<not> GET_VAR (PREV_IN d) \<and> GET_VAR (IN d)
           then Some (d\<lparr>STATE := SET_VAR (STATE d) 1, Q := SET_VAR (Q d) True,
                        START_TIME := SET_VAR (START_TIME d) (GET_VAR (CURRENT_TIME d))\<rparr>)
           else if GET_VAR (STATE d) = 1 then do {
             b \<leftarrow> expired d;
             if b then Some (d\<lparr>STATE := SET_VAR (STATE d) 2, Q := SET_VAR (Q d) False, ET := SET_VAR (ET d) (GET_VAR (PT d))\<rparr>)
             else do { t \<leftarrow> elapsed d; Some (d\<lparr>ET := SET_VAR (ET d) t\<rparr>) } }
           else Some d);
     let d = (if GET_VAR (STATE d) = 2 \<and> \<not> GET_VAR (IN d)
              then d\<lparr>ET := SET_VAR (ET d) zero_time, STATE := SET_VAR (STATE d) 0\<rparr> else d);
     Some (d\<lparr>PREV_IN := SET_VAR (PREV_IN d) (GET_VAR (IN d))\<rparr>) })"

definition TON_body :: "timespec \<Rightarrow> timer_fb \<Rightarrow> timer_fb option" where
  "TON_body now d = (let d = d\<lparr>TIMER_ENO := SET_VAR (TIMER_ENO d) (GET_VAR (TIMER_EN d))\<rparr> in if \<not> GET_VAR (TIMER_EN d) then Some d else do {
     let d = d\<lparr>CURRENT_TIME := SET_VAR (CURRENT_TIME d) now\<rparr>;
     d \<leftarrow> (if GET_VAR (STATE d) = 0 \<and> \<not> GET_VAR (PREV_IN d) \<and> GET_VAR (IN d)
           then Some (d\<lparr>STATE := SET_VAR (STATE d) 1, Q := SET_VAR (Q d) False,
                        START_TIME := SET_VAR (START_TIME d) (GET_VAR (CURRENT_TIME d))\<rparr>)
           else if \<not> GET_VAR (IN d)
           then Some (d\<lparr>ET := SET_VAR (ET d) zero_time, Q := SET_VAR (Q d) False, STATE := SET_VAR (STATE d) 0\<rparr>)
           else if GET_VAR (STATE d) = 1 then do {
             b \<leftarrow> expired d;
             if b then Some (d\<lparr>STATE := SET_VAR (STATE d) 2, Q := SET_VAR (Q d) True, ET := SET_VAR (ET d) (GET_VAR (PT d))\<rparr>)
             else do { t \<leftarrow> elapsed d; Some (d\<lparr>ET := SET_VAR (ET d) t\<rparr>) } }
           else Some d);
     Some (d\<lparr>PREV_IN := SET_VAR (PREV_IN d) (GET_VAR (IN d))\<rparr>) })"

definition TOF_body :: "timespec \<Rightarrow> timer_fb \<Rightarrow> timer_fb option" where
  "TOF_body now d = (let d = d\<lparr>TIMER_ENO := SET_VAR (TIMER_ENO d) (GET_VAR (TIMER_EN d))\<rparr> in if \<not> GET_VAR (TIMER_EN d) then Some d else do {
     let d = d\<lparr>CURRENT_TIME := SET_VAR (CURRENT_TIME d) now\<rparr>;
     d \<leftarrow> (if GET_VAR (STATE d) = 0 \<and> GET_VAR (PREV_IN d) \<and> \<not> GET_VAR (IN d)
           then Some (d\<lparr>STATE := SET_VAR (STATE d) 1,
                        START_TIME := SET_VAR (START_TIME d) (GET_VAR (CURRENT_TIME d))\<rparr>)
           else if GET_VAR (IN d)
           then Some (d\<lparr>ET := SET_VAR (ET d) zero_time, STATE := SET_VAR (STATE d) 0\<rparr>)
           else if GET_VAR (STATE d) = 1 then do {
             b \<leftarrow> expired d;
             if b then Some (d\<lparr>STATE := SET_VAR (STATE d) 2, ET := SET_VAR (ET d) (GET_VAR (PT d))\<rparr>)
             else do { t \<leftarrow> elapsed d; Some (d\<lparr>ET := SET_VAR (ET d) t\<rparr>) } }
           else Some d);
     let d = d\<lparr>Q := SET_VAR (Q d) (GET_VAR (IN d) \<or> GET_VAR (STATE d) = 1)\<rparr>;
     Some (d\<lparr>PREV_IN := SET_VAR (PREV_IN d) (GET_VAR (IN d))\<rparr>) })"

record RTC =
  RTC_EN :: "bool iec_var"
  RTC_ENO :: "bool iec_var"
  RTC_IN :: "bool iec_var"
  PDT :: "timespec iec_var"
  RTC_Q :: "bool iec_var"
  CDT :: "timespec iec_var"
  RTC_PREV_IN :: "bool iec_var"
  OFFSET :: "timespec iec_var"
  RTC_CURRENT_TIME :: "timespec iec_var"

text \<open>\<open>__dt_to_timespec(0, 0, 0, 1, 1, 1970)\<close> is 0.\<close>

definition RTC_init :: "bool \<Rightarrow> RTC \<Rightarrow> RTC" where
  "RTC_init retain d = d\<lparr>RTC_EN := INIT_VAR (RTC_EN d) True retain, RTC_ENO := INIT_VAR (RTC_ENO d) True retain,
     RTC_IN := INIT_VAR (RTC_IN d) False retain,
     PDT := INIT_VAR (PDT d) zero_time retain, RTC_Q := INIT_VAR (RTC_Q d) False retain,
     CDT := INIT_VAR (CDT d) zero_time retain, RTC_PREV_IN := INIT_VAR (RTC_PREV_IN d) False retain,
     OFFSET := INIT_VAR (OFFSET d) zero_time retain, RTC_CURRENT_TIME := INIT_VAR (RTC_CURRENT_TIME d) zero_time retain\<rparr>"

definition RTC_body :: "timespec \<Rightarrow> RTC \<Rightarrow> RTC option" where
  "RTC_body now d = (let d = d\<lparr>RTC_ENO := SET_VAR (RTC_ENO d) (GET_VAR (RTC_EN d))\<rparr> in if \<not> GET_VAR (RTC_EN d) then Some d else do {
     let d = d\<lparr>RTC_CURRENT_TIME := SET_VAR (RTC_CURRENT_TIME d) now\<rparr>;
     d \<leftarrow> (if GET_VAR (RTC_IN d) then do {
             d \<leftarrow> (if \<not> GET_VAR (RTC_PREV_IN d) then do {
                     t \<leftarrow> time_sub (GET_VAR (PDT d)) (GET_VAR (RTC_CURRENT_TIME d));
                     Some (d\<lparr>OFFSET := SET_VAR (OFFSET d) t\<rparr>) }
                   else Some d);
             t \<leftarrow> time_add (GET_VAR (RTC_CURRENT_TIME d)) (GET_VAR (OFFSET d));
             Some (d\<lparr>CDT := SET_VAR (CDT d) t\<rparr>) }
           else Some (d\<lparr>CDT := SET_VAR (CDT d) (GET_VAR (RTC_CURRENT_TIME d))\<rparr>));
     let d = d\<lparr>RTC_Q := SET_VAR (RTC_Q d) (GET_VAR (RTC_IN d))\<rparr>;
     Some (d\<lparr>RTC_PREV_IN := SET_VAR (RTC_PREV_IN d) (GET_VAR (RTC_IN d))\<rparr>) })"

record SEMA =
  SEMA_EN :: "bool iec_var"
  SEMA_ENO :: "bool iec_var"
  CLAIM :: "bool iec_var"
  RELEASE :: "bool iec_var"
  BUSY :: "bool iec_var"
  Q_INTERNAL :: "bool iec_var"

definition SEMA_init :: "bool \<Rightarrow> SEMA \<Rightarrow> SEMA" where
  "SEMA_init retain d = d\<lparr>SEMA_EN := INIT_VAR (SEMA_EN d) True retain, SEMA_ENO := INIT_VAR (SEMA_ENO d) True retain,
     CLAIM := INIT_VAR (CLAIM d) False retain,
     RELEASE := INIT_VAR (RELEASE d) False retain, BUSY := INIT_VAR (BUSY d) False retain,
     Q_INTERNAL := INIT_VAR (Q_INTERNAL d) False retain\<rparr>"

definition SEMA_body :: "SEMA \<Rightarrow> SEMA" where
  "SEMA_body d = (let d = d\<lparr>SEMA_ENO := SET_VAR (SEMA_ENO d) (GET_VAR (SEMA_EN d))\<rparr> in if \<not> GET_VAR (SEMA_EN d) then d else
     let d = d\<lparr>Q_INTERNAL := SET_VAR (Q_INTERNAL d) (GET_VAR (CLAIM d) \<or> (GET_VAR (Q_INTERNAL d) \<and> \<not> GET_VAR (RELEASE d)))\<rparr>
     in d\<lparr>BUSY := SET_VAR (BUSY d) (GET_VAR (Q_INTERNAL d))\<rparr>)"

section \<open>Counting\<close>

text \<open>
  What the counters need of their type: a reading of its values as integers that agrees with its
  comparison and, where the comparison allows a step, with the step. The signed and the unsigned
  words provide it.
\<close>

locale counter_type =
  fixes lt :: "'n::len word \<Rightarrow> 'n word \<Rightarrow> bool" and num :: "'n word \<Rightarrow> int"
  assumes lt_num: "lt a b \<longleftrightarrow> num a < num b"
    and num_zero: "num 0 = 0"
    and num_succ: "lt a b \<Longrightarrow> num (a + 1) = num a + 1"
    and num_pred: "lt 0 a \<Longrightarrow> num (a - 1) = num a - 1"

lemma uint_succ:
  assumes "(a :: 'n::len word) < b"
  shows "uint (a + 1) = uint a + 1"
proof -
  have "uint a < uint b" "uint b < 2 ^ LENGTH('n)" using assms uint_lt2p [of b] by (simp_all add: word_less_def)
  then have "uint a + 1 < 2 ^ LENGTH('n)" by linarith
  then show ?thesis by (simp add: uint_word_ariths)
qed

lemma sint_in_range:
  "- (2 ^ (LENGTH('n) - 1)) \<le> k \<Longrightarrow> k < 2 ^ (LENGTH('n) - 1) \<Longrightarrow> sint (of_int k :: 'n::len word) = k"
  by (simp add: signed_of_int signed_take_bit_int_eq_self)

lemma sint_succ:
  assumes "sint (a :: 'n::len word) < sint (b :: 'n word)"
  shows "sint (a + 1) = sint a + 1"
proof -
  have "a + 1 = of_int (sint a + 1)" by simp
  then show ?thesis using sint_in_range [of "sint a + 1", where 'n = 'n] assms sint_ge [of a] sint_lt [of b] by simp
qed

lemma sint_pred:
  assumes "0 < sint (a :: 'n::len word)"
  shows "sint (a - 1) = sint a - 1"
proof -
  have "a - 1 = of_int (sint a - 1)" by simp
  then show ?thesis using sint_in_range [of "sint a - 1", where 'n = 'n] assms sint_lt [of a] by simp
qed

interpretation unsigned_counter: counter_type "(<)" uint
proof
  fix a b :: "'n::len word"
  show "a < b \<longleftrightarrow> uint a < uint b" by (simp add: word_less_def)
  show "uint (0 :: 'n word) = 0" by simp
  show "uint (a + 1) = uint a + 1" if "a < b" by (rule uint_succ [OF that])
  show "uint (a - 1) = uint a - 1" if "0 < a"
    using that by (metis Word.dec_less_imp_less_eq diff_self uint_minus_simple_alt unsigned_1)
qed

interpretation signed_counter: counter_type word_sless sint
  by unfold_locales (auto simp: word_sless_alt intro: sint_succ sint_pred)

text \<open>A block as a program uses it: enabled and with no variable forced.\<close>

definition trig_ok :: "trig \<Rightarrow> bool" where
  "trig_ok d \<longleftrightarrow> GET_VAR (T_EN d) \<and> unforced (T_ENO d) \<and> unforced (CLK d) \<and> unforced (TQ d) \<and> unforced (M d)"

definition ctu_ok :: "'n word CTU \<Rightarrow> bool" where
  "ctu_ok d \<longleftrightarrow> GET_VAR (CTU_EN d) \<and> unforced (CTU_ENO d) \<and> unforced (CTU_CU d) \<and> unforced (CTU_Q d) \<and>
     unforced (CTU_CV d) \<and> unforced (CTU_R d) \<and> trig_ok (CTU_CU_T d)"

lemma R_TRIG_body_ok:
  "trig_ok d \<Longrightarrow> trig_ok (R_TRIG_body d)"
  "trig_ok d \<Longrightarrow> GET_VAR (TQ (R_TRIG_body d)) \<longleftrightarrow> GET_VAR (CLK d) \<and> \<not> GET_VAR (M d)"
  "trig_ok d \<Longrightarrow> GET_VAR (M (R_TRIG_body d)) = GET_VAR (CLK d)"
  by (simp_all add: trig_ok_def R_TRIG_body_def Let_def)

lemma trig_ok_CLK: "trig_ok d \<Longrightarrow> trig_ok (d\<lparr>CLK := SET_VAR (CLK d) c\<rparr>)"
  by (simp add: trig_ok_def)

text \<open>One scan of a counter: the program sets the inputs and runs the body.\<close>

definition ctu_scan :: "('n word CTU \<Rightarrow> 'n word CTU) \<Rightarrow> bool \<times> bool \<Rightarrow> 'n word CTU \<Rightarrow> 'n word CTU" where
  "ctu_scan body inp d = body (d\<lparr>CTU_CU := SET_VAR (CTU_CU d) (fst inp), CTU_R := SET_VAR (CTU_R d) (snd inp)\<rparr>)"

text \<open>The reference: the last input and the count, an integer.\<close>

definition count_step :: "int \<Rightarrow> bool \<times> bool \<Rightarrow> bool \<times> int \<Rightarrow> bool \<times> int" where
  "count_step pv inp st = (case (inp, st) of ((cu, r), (prev, n)) \<Rightarrow>
     (cu, if r then 0 else if cu \<and> \<not> prev \<and> n < pv then n + 1 else n))"

context counter_type
begin

lemma ctu_step:
  assumes "ctu_ok d"
  shows "ctu_ok (ctu_scan (ctu_body lt) inp d)"
    "(GET_VAR (M (CTU_CU_T (ctu_scan (ctu_body lt) inp d))), num (GET_VAR (CTU_CV (ctu_scan (ctu_body lt) inp d)))) =
      count_step (num (GET_VAR (CTU_PV d))) inp (GET_VAR (M (CTU_CU_T d)), num (GET_VAR (CTU_CV d)))"
    "GET_VAR (CTU_PV (ctu_scan (ctu_body lt) inp d)) = GET_VAR (CTU_PV d)"
    "GET_VAR (CTU_Q (ctu_scan (ctu_body lt) inp d)) \<longleftrightarrow>
      num (GET_VAR (CTU_PV d)) \<le> num (GET_VAR (CTU_CV (ctu_scan (ctu_body lt) inp d)))"
proof -
  obtain cu r where i: "inp = (cu, r)" by (cases inp)
  let ?t = "(CTU_CU_T d)\<lparr>CLK := SET_VAR (CLK (CTU_CU_T d)) cu\<rparr>"
  have t0: "trig_ok ?t"
    using assms by (intro trig_ok_CLK) (simp add: ctu_ok_def)
  have t: "trig_ok (R_TRIG_body ?t)" "GET_VAR (TQ (R_TRIG_body ?t)) \<longleftrightarrow> cu \<and> \<not> GET_VAR (M (CTU_CU_T d))"
    "GET_VAR (M (R_TRIG_body ?t)) = cu"
    using R_TRIG_body_ok [OF t0] assms by (simp_all add: ctu_ok_def trig_ok_def)
  note defs = i ctu_scan_def ctu_body_def Let_def ctu_ok_def
  show "ctu_ok (ctu_scan (ctu_body lt) inp d)" using assms t by (cases cu; cases r) (simp_all add: defs)
  show "(GET_VAR (M (CTU_CU_T (ctu_scan (ctu_body lt) inp d))), num (GET_VAR (CTU_CV (ctu_scan (ctu_body lt) inp d)))) =
      count_step (num (GET_VAR (CTU_PV d))) inp (GET_VAR (M (CTU_CU_T d)), num (GET_VAR (CTU_CV d)))"
    using assms t num_succ [of "GET_VAR (CTU_CV d)" "GET_VAR (CTU_PV d)"] lt_num num_zero by (cases cu; cases r) (simp_all add: defs count_step_def)
  show "GET_VAR (CTU_PV (ctu_scan (ctu_body lt) inp d)) = GET_VAR (CTU_PV d)" using assms by (simp add: defs)
  show "GET_VAR (CTU_Q (ctu_scan (ctu_body lt) inp d)) \<longleftrightarrow>
      num (GET_VAR (CTU_PV d)) \<le> num (GET_VAR (CTU_CV (ctu_scan (ctu_body lt) inp d)))"
    using assms lt_num by (simp add: defs not_less)
qed

lemma ctu_scans:
  assumes "ctu_ok d"
  shows "ctu_ok (fold (ctu_scan (ctu_body lt)) inps d) \<and>
    (GET_VAR (M (CTU_CU_T (fold (ctu_scan (ctu_body lt)) inps d))), num (GET_VAR (CTU_CV (fold (ctu_scan (ctu_body lt)) inps d)))) =
      fold (count_step (num (GET_VAR (CTU_PV d)))) inps (GET_VAR (M (CTU_CU_T d)), num (GET_VAR (CTU_CV d))) \<and>
    GET_VAR (CTU_PV (fold (ctu_scan (ctu_body lt)) inps d)) = GET_VAR (CTU_PV d)"
  using assms by (induction inps arbitrary: d) (simp_all add: ctu_step)


text \<open>Without a reset the counter counts the rising edges of its input and stops at \<open>PV\<close>.\<close>

lemma count_edges:
  "n \<le> pv \<Longrightarrow> fold (count_step pv) (map (\<lambda>cu. (cu, False)) cus) (prev, n) =
     (last (prev # cus), min pv (n + int (length (filter (\<lambda>(a, b). \<not> a \<and> b) (zip (prev # cus) cus)))))"
  by (induction cus arbitrary: prev n) (auto simp: count_step_def)

end

definition rising_edges :: "bool \<Rightarrow> bool list \<Rightarrow> nat" where
  "rising_edges prev cus = length (filter (\<lambda>(a, b). \<not> a \<and> b) (zip (prev # cus) cus))"

text \<open>C26: Over any number of scans a \<open>CTU\<close> that is not reset adds the rising edges of \<open>CU\<close>, the
  input of the scan before the first one being what its edge detector remembers, and stops at
  \<open>PV\<close>; with any resets it follows the reference on integers.\<close>

theorem CTU_counts:
  assumes "ctu_ok d" "sint (GET_VAR (CTU_CV d)) \<le> sint (GET_VAR (CTU_PV d))"
  shows "sint (GET_VAR (CTU_CV (fold (ctu_scan CTU_body) (map (\<lambda>cu. (cu, False)) cus) d))) =
      min (sint (GET_VAR (CTU_PV d))) (sint (GET_VAR (CTU_CV d)) + int (rising_edges (GET_VAR (M (CTU_CU_T d))) cus)) \<and>
    (GET_VAR (M (CTU_CU_T (fold (ctu_scan CTU_body) inps d))), sint (GET_VAR (CTU_CV (fold (ctu_scan CTU_body) inps d)))) =
      fold (count_step (sint (GET_VAR (CTU_PV d)))) inps (GET_VAR (M (CTU_CU_T d)), sint (GET_VAR (CTU_CV d)))"
  using signed_counter.ctu_scans [OF assms(1), of "map (\<lambda>cu. (cu, False)) cus"]
    signed_counter.ctu_scans [OF assms(1), of inps] signed_counter.count_edges [OF assms(2), of cus "GET_VAR (M (CTU_CU_T d))"]
  by (simp add: CTU_body_def rising_edges_def)

definition demo_var :: "'a \<Rightarrow> 'a iec_var" where
  "demo_var x = \<lparr>iec_value = x, iec_flags = 0\<rparr>"

definition demo_trig :: trig where
  "demo_trig = \<lparr>T_EN = demo_var True, T_ENO = demo_var True, CLK = demo_var False, TQ = demo_var False, M = demo_var False\<rparr>"

definition demo_ctu :: "16 word \<Rightarrow> 16 word CTU" where
  "demo_ctu pv = \<lparr>CTU_EN = demo_var True, CTU_ENO = demo_var True, CTU_CU = demo_var False, CTU_R = demo_var False,
     CTU_PV = demo_var pv, CTU_Q = demo_var False, CTU_CV = demo_var 0, CTU_CU_T = demo_trig\<rparr>"

theorem CTU_counts_witness:
  "sint (GET_VAR (CTU_CV (fold (ctu_scan CTU_body) (map (\<lambda>cu. (cu, False)) [True, True, False, True, False, True]) (demo_ctu 2)))) = 2"
proof -
  have ok: "ctu_ok (demo_ctu 2)" by (simp add: ctu_ok_def demo_ctu_def demo_trig_def trig_ok_def demo_var_def unforced_def)
  have l: "sint (GET_VAR (CTU_CV (demo_ctu 2))) \<le> sint (GET_VAR (CTU_PV (demo_ctu 2)))"
    by (simp add: demo_ctu_def demo_var_def)
  have r: "rising_edges (GET_VAR (M (CTU_CU_T (demo_ctu 2)))) [True, True, False, True, False, True] = 3"
    by (simp add: rising_edges_def demo_ctu_def demo_trig_def demo_var_def)
  have v: "sint (GET_VAR (CTU_PV (demo_ctu 2))) = 2" "sint (GET_VAR (CTU_CV (demo_ctu 2))) = 0"
    by (simp_all add: demo_ctu_def demo_var_def)
  show ?thesis
    using CTU_counts [OF ok l, of "[True, True, False, True, False, True]" "[]"] unfolding r v by simp
qed

section \<open>The on-delay timer\<close>

text \<open>
  The reference: it remembers since when the input is on, in nanoseconds. The scan in which the
  input comes on only starts the time; from then on the output is on when \<open>PT\<close> is over.
\<close>

definition ton_next :: "bool \<Rightarrow> int \<Rightarrow> int option \<Rightarrow> int option" where
  "ton_next inp now since = (if inp then Some (case since of None \<Rightarrow> now | Some s \<Rightarrow> s) else None)"

definition ton_out :: "int \<Rightarrow> bool \<Rightarrow> int \<Rightarrow> int option \<Rightarrow> bool \<times> int" where
  "ton_out pt inp now since = (case since of
     Some s \<Rightarrow> if inp then (pt \<le> now - s, min pt (now - s)) else (False, 0)
   | None \<Rightarrow> (False, 0))"

fun ton_spec :: "int \<Rightarrow> (bool \<times> timespec) list \<Rightarrow> int option \<Rightarrow> (bool \<times> int) list" where
  "ton_spec pt [] since = []"
| "ton_spec pt ((inp, now) # scans) since =
     ton_out pt inp (nanoseconds now) since # ton_spec pt scans (ton_next inp (nanoseconds now) since)"

definition timer_scan :: "(timespec \<Rightarrow> timer_fb \<Rightarrow> timer_fb option) \<Rightarrow> bool \<Rightarrow> timespec \<Rightarrow> timer_fb \<Rightarrow> timer_fb option" where
  "timer_scan body inp now d = body now (d\<lparr>IN := SET_VAR (IN d) inp\<rparr>)"

fun timer_run :: "(timespec \<Rightarrow> timer_fb \<Rightarrow> timer_fb option) \<Rightarrow> (bool \<times> timespec) list \<Rightarrow> timer_fb \<Rightarrow> (bool \<times> timespec) list option" where
  "timer_run body [] d = Some []"
| "timer_run body ((inp, now) # scans) d = do {
     d \<leftarrow> timer_scan body inp now d;
     outs \<leftarrow> timer_run body scans d;
     Some ((GET_VAR (Q d), GET_VAR (ET d)) # outs) }"

definition timer_ok :: "timer_fb \<Rightarrow> bool" where
  "timer_ok d \<longleftrightarrow> GET_VAR (TIMER_EN d) \<and> unforced (TIMER_ENO d) \<and> unforced (IN d) \<and> unforced (Q d) \<and> unforced (ET d) \<and>
     unforced (STATE d) \<and> unforced (PREV_IN d) \<and> unforced (CURRENT_TIME d) \<and> unforced (START_TIME d)"

definition ton_rel :: "timespec \<Rightarrow> int \<Rightarrow> timer_fb \<Rightarrow> int option \<Rightarrow> bool" where
  "ton_rel pt now d since \<longleftrightarrow> timer_ok d \<and> GET_VAR (PT d) = pt \<and> GET_VAR (PREV_IN d) = (since \<noteq> None) \<and>
     (case since of
        None \<Rightarrow> GET_VAR (STATE d) = 0 \<and> GET_VAR (ET d) = zero_time
      | Some s \<Rightarrow> time_ok (GET_VAR (START_TIME d)) \<and> nanoseconds (GET_VAR (START_TIME d)) = s \<and> s \<le> now \<and>
          (GET_VAR (STATE d) = 1 \<and> \<not> GET_VAR (Q d) \<or> GET_VAR (STATE d) = 2 \<and> GET_VAR (Q d) \<and> GET_VAR (ET d) = pt \<and> nanoseconds pt \<le> now - s))"

lemma TON_step:
  assumes rel: "ton_rel pt now0 d since" and now: "time_ok now" "now0 \<le> nanoseconds now" and pt: "time_ok pt"
  shows "\<exists>d'. timer_scan TON_body inp now d = Some d' \<and> ton_rel pt (nanoseconds now) d' (ton_next inp (nanoseconds now) since) \<and>
     (GET_VAR (Q d'), nanoseconds (GET_VAR (ET d'))) = ton_out (nanoseconds pt) inp (nanoseconds now) since"
proof -
  have z: "nanoseconds zero_time = 0" by (simp add: zero_time_def nanoseconds_def)
  note defs = timer_scan_def TON_body_def Let_def ton_rel_def timer_ok_def ton_next_def ton_out_def
  show ?thesis
  proof (cases since)
    case None
    then show ?thesis using rel now z by (cases inp) (simp_all add: defs)
  next
    case (Some s)
    let ?st = "GET_VAR (START_TIME d)"
    have st: "time_ok ?st" "nanoseconds ?st = s" "s \<le> nanoseconds now" "GET_VAR (PT d) = pt"
      using rel now(2) Some by (simp_all add: ton_rel_def)
    obtain r where r: "time_add ?st pt = Some r" "nanoseconds r = s + nanoseconds pt" "sum_ok r"
      using time_add_ok [OF st(1) pt] st(2) by auto
    have le: "LE_TIME r now = Some (nanoseconds pt \<le> nanoseconds now - s)"
      using LE_TIME_order [OF r(3) now(1)] r(2) by (simp add: le_diff_eq add.commute)
    obtain e where e: "time_sub now ?st = Some e" "nanoseconds e = nanoseconds now - s"
      using time_sub_ok [OF now(1) st(1)] st(2,3) by auto
    show ?thesis
      using rel now st r(1) le e Some z
      by (cases inp; cases "GET_VAR (STATE d) = 1"; cases "nanoseconds pt \<le> nanoseconds now - s")
        (auto simp: defs expired_def elapsed_def)
  qed
qed

text \<open>C25: \<open>TON\<close> is an on-delay: started fresh and run over any inputs, at times that do not run
  backwards, it never fails and shows in every scan the output and the elapsed time of the
  reference, to the nanosecond.\<close>

theorem TON_refines_on_delay:
  assumes "timer_ok d" "GET_VAR (STATE d) = 0" "\<not> GET_VAR (PREV_IN d)" "GET_VAR (ET d) = zero_time"
    and "time_ok (GET_VAR (PT d))" "list_all (\<lambda>(inp, now). time_ok now) scans"
    and "sorted (map (\<lambda>(inp, now). nanoseconds now) scans)"
  shows "\<exists>outs. timer_run TON_body scans d = Some outs \<and>
     map (\<lambda>(q, et). (q, nanoseconds et)) outs = ton_spec (nanoseconds (GET_VAR (PT d))) scans None"
proof -
  have run: "\<exists>outs. timer_run TON_body scans d = Some outs \<and>
      map (\<lambda>(q, et). (q, nanoseconds et)) outs = ton_spec (nanoseconds pt) scans since"
    if "ton_rel pt now0 d since" "time_ok pt" "list_all (\<lambda>(inp, now). time_ok now) scans"
      "sorted (now0 # map (\<lambda>(inp, now). nanoseconds now) scans)" for pt now0 d since scans
    using that
  proof (induction scans arbitrary: now0 d since)
    case (Cons a scans)
    obtain inp now where a: "a = (inp, now)" by (cases a)
    obtain d' where d': "timer_scan TON_body inp now d = Some d'"
        "ton_rel pt (nanoseconds now) d' (ton_next inp (nanoseconds now) since)"
        "(GET_VAR (Q d'), nanoseconds (GET_VAR (ET d'))) = ton_out (nanoseconds pt) inp (nanoseconds now) since"
      using TON_step [of pt now0 d since now inp] Cons.prems a by auto
    then show ?case using Cons.IH [OF d'(2)] Cons.prems a by auto
  qed simp
  have "ton_rel (GET_VAR (PT d)) (case scans of [] \<Rightarrow> 0 | (inp, now) # _ \<Rightarrow> nanoseconds now) d None"
    using assms by (simp add: ton_rel_def)
  then show ?thesis by (rule run) (use assms in \<open>auto split: list.splits\<close>)
qed

definition demo_timer :: "timespec \<Rightarrow> timer_fb" where
  "demo_timer pt = \<lparr>TIMER_EN = demo_var True, TIMER_ENO = demo_var True, IN = demo_var False, PT = demo_var pt,
     Q = demo_var False, ET = demo_var zero_time, STATE = demo_var 0, PREV_IN = demo_var False,
     CURRENT_TIME = demo_var zero_time, START_TIME = demo_var zero_time\<rparr>"

theorem TON_refines_on_delay_witness:
  "\<exists>outs. timer_run TON_body [(True, \<lparr>tv_sec = 5, tv_nsec = 0\<rparr>), (True, \<lparr>tv_sec = 5, tv_nsec = 400000000\<rparr>),
       (True, \<lparr>tv_sec = 5, tv_nsec = 500000000\<rparr>), (False, \<lparr>tv_sec = 6, tv_nsec = 0\<rparr>)]
      (demo_timer \<lparr>tv_sec = 0, tv_nsec = 500000000\<rparr>) = Some outs \<and>
     map (\<lambda>(q, et). (q, nanoseconds et)) outs = [(False, 0), (False, 400000000), (True, 500000000), (False, 0)]"
  using TON_refines_on_delay [of "demo_timer \<lparr>tv_sec = 0, tv_nsec = 500000000\<rparr>"
    "[(True, \<lparr>tv_sec = 5, tv_nsec = 0\<rparr>), (True, \<lparr>tv_sec = 5, tv_nsec = 400000000\<rparr>),
       (True, \<lparr>tv_sec = 5, tv_nsec = 500000000\<rparr>), (False, \<lparr>tv_sec = 6, tv_nsec = 0\<rparr>)]"]
  by (simp add: timer_ok_def demo_timer_def demo_var_def unforced_def time_ok_def nanoseconds_def ton_out_def ton_next_def)

end
