(* ===== verification/Floats.thy ===== *)
theory Floats
  imports Complex_Main "HOL-Library.Log_Nat"
begin

text \<open>
  The numbers of type \<open>float\<close> and \<open>double\<close> of C, the \<open>REAL\<close> and \<open>LREAL\<close> of the PLC, on a machine
  with the arithmetic of IEEE 754: a precision, a largest exponent, gradual underflow, rounding to
  the nearest number and to the even one in a tie, signed zeros, infinities and NaN. A finite number
  is the rational number it stands for. The lemmas: rounding is monotone, keeps numbers that can be
  represented and is off by at most half a unit in the last place.
\<close>

section \<open>Rounding\<close>

definition round_half_even :: "rat \<Rightarrow> int" where
  "round_half_even x =
     (let f = \<lfloor>x\<rfloor>; d = x - of_int f in if d < 1 / 2 \<or> (d = 1 / 2 \<and> even f) then f else f + 1)"

definition floor_log2 :: "rat \<Rightarrow> int" where
  "floor_log2 q = (let (n, d) = quotient_of q; k = bitlen n - bitlen d in if 2 powi k \<le> q then k else k - 1)"

text \<open>The exponent of the last place of a number, with \<open>p\<close> bits and the largest exponent \<open>emax\<close>.\<close>

definition ulp_exp :: "nat \<Rightarrow> int \<Rightarrow> rat \<Rightarrow> int" where
  "ulp_exp p emax q = max (floor_log2 \<bar>q\<bar> - int p + 1) (2 - emax - int p)"

definition rnd :: "nat \<Rightarrow> int \<Rightarrow> rat \<Rightarrow> rat" where
  "rnd p emax q = (let u = 2 powi (ulp_exp p emax q) in of_int (round_half_even (q / u)) * u)"

lemma round_half_even_int [simp]: "round_half_even (of_int n) = n"
  by (simp add: round_half_even_def)

lemma round_half_even_mono:
  assumes "x \<le> y"
  shows "round_half_even x \<le> round_half_even y"
proof (cases "\<lfloor>x\<rfloor> = \<lfloor>y\<rfloor>")
  case True
  then show ?thesis using assms unfolding round_half_even_def Let_def by (auto split: if_splits)
next
  case False
  then have "\<lfloor>x\<rfloor> + 1 \<le> \<lfloor>y\<rfloor>" using floor_mono [OF assms] by simp
  moreover have "round_half_even x \<le> \<lfloor>x\<rfloor> + 1" "\<lfloor>y\<rfloor> \<le> round_half_even y"
    by (simp_all add: round_half_even_def Let_def)
  ultimately show ?thesis by linarith
qed

lemma round_half_even_error: "\<bar>of_int (round_half_even x) - x\<bar> \<le> 1 / 2"
  unfolding round_half_even_def Let_def using of_int_floor_le [of x] floor_correct [of x]
  by (auto split: if_splits simp: abs_le_iff)

lemma round_half_even_minus: "round_half_even (- x) = - round_half_even x"
proof (cases "x = of_int \<lfloor>x\<rfloor>")
  case True
  then show ?thesis by (metis of_int_minus round_half_even_int)
next
  case False
  then have "of_int \<lfloor>x\<rfloor> < x" "x < of_int \<lfloor>x\<rfloor> + 1" using floor_correct [of x] by linarith+
  then have "\<lfloor>- x\<rfloor> = - \<lfloor>x\<rfloor> - 1" by (simp add: floor_eq_iff)
  then show ?thesis by (auto simp: round_half_even_def Let_def)
qed

section \<open>The binary exponent\<close>

lemma powi_less_iff [simp]: "(2 :: rat) powi i < 2 powi j \<longleftrightarrow> i < j" "(2 :: rat) powi i \<le> 2 powi j \<longleftrightarrow> i \<le> j"
  by (metis linorder_not_less one_less_numeral_iff power_int_strict_increasing semiring_norm(76)
      power_int_increasing less_imp_le one_le_numeral)+

lemma floor_log2_bounds:
  assumes "0 < q"
  shows "2 powi floor_log2 q \<le> q" "q < 2 powi (floor_log2 q + 1)"
proof -
  obtain n d where nd: "quotient_of q = (n, d)" by fastforce
  then have d: "0 < d" using quotient_of_denom_pos by blast
  have q: "q = of_int n / of_int d" using nd by (rule quotient_of_div)
  then have n: "0 < n" using assms d by (simp add: zero_less_divide_iff)
  have b: "(2 :: rat) powi (bitlen x - 1) \<le> of_int x \<and> of_int x < (2 :: rat) powi bitlen x" if "0 < x" for x
  proof -
    have "1 \<le> bitlen x" using that by (metis bitlen_eq_zero_iff bitlen_nonneg linorder_not_le zle_iff_zadd int_one_le_iff_zero_less order_le_less)
    then show ?thesis using bitlen_bounds [OF that]
      by (simp add: power_int_def)
  qed
  let ?k = "bitlen n - bitlen d"
  have "q \<le> of_int n / 2 powi (bitlen d - 1)" "of_int n / 2 powi bitlen d < q"
    unfolding q using b [OF d] n d by (simp_all add: divide_strict_left_mono divide_left_mono)
  moreover have "of_int n / 2 powi (bitlen d - 1) < (2 :: rat) powi bitlen n / 2 powi (bitlen d - 1)"
    "(2 :: rat) powi (bitlen n - 1) / 2 powi bitlen d \<le> of_int n / 2 powi bitlen d"
    using b [OF n] by (simp_all add: divide_strict_right_mono divide_right_mono)
  moreover have "(2 :: rat) powi bitlen n / 2 powi (bitlen d - 1) = 2 powi (?k + 1)"
    "(2 :: rat) powi (bitlen n - 1) / 2 powi bitlen d = 2 powi (?k - 1)"
    by (simp_all flip: power_int_diff add: algebra_simps)
  ultimately have k: "2 powi (?k - 1) < q" "q < 2 powi (?k + 1)" by linarith+
  show "2 powi floor_log2 q \<le> q" "q < 2 powi (floor_log2 q + 1)"
    using k nd by (auto simp: floor_log2_def Let_def split: if_splits)
qed

lemma floor_log2_unique:
  assumes "2 powi k \<le> q" "q < 2 powi (k + 1)"
  shows "floor_log2 q = k"
proof -
  have "0 < q" using assms(1) by (rule order_less_le_trans [rotated]) simp
  then have "(2 :: rat) powi k < 2 powi (floor_log2 q + 1)" "(2 :: rat) powi floor_log2 q < 2 powi (k + 1)"
    using floor_log2_bounds [of q] assms by linarith+
  then show ?thesis by simp
qed

section \<open>Laws of rounding\<close>

text \<open>Rounding does not cross a multiple of the last place.\<close>

lemma rnd_grid:
  assumes "u = ulp_exp p emax q"
  shows "q \<le> of_int m * 2 powi u \<Longrightarrow> rnd p emax q \<le> of_int m * 2 powi u"
    "of_int m * 2 powi u \<le> q \<Longrightarrow> of_int m * 2 powi u \<le> rnd p emax q"
proof -
  have u: "(0 :: rat) < 2 powi u" by simp
  have r: "rnd p emax q = of_int (round_half_even (q / 2 powi u)) * 2 powi u"
    by (simp add: rnd_def Let_def assms)
  show "rnd p emax q \<le> of_int m * 2 powi u" if "q \<le> of_int m * 2 powi u"
    using round_half_even_mono [of "q / 2 powi u" "of_int m"] that u unfolding r by (simp add: pos_divide_le_eq)
  show "of_int m * 2 powi u \<le> rnd p emax q" if "of_int m * 2 powi u \<le> q"
    using round_half_even_mono [of "of_int m" "q / 2 powi u"] that u unfolding r by (simp add: pos_le_divide_eq)
qed

lemma rnd_0 [simp]: "rnd p emax 0 = 0"
  using round_half_even_int [of 0] by (simp add: rnd_def Let_def)

lemma rnd_minus: "rnd p emax (- q) = - rnd p emax q"
  by (simp add: rnd_def Let_def ulp_exp_def round_half_even_minus)

lemma rnd_error: "\<bar>rnd p emax q - q\<bar> \<le> 2 powi ulp_exp p emax q / 2"
proof -
  let ?u = "(2 :: rat) powi ulp_exp p emax q"
  have "rnd p emax q - q = (of_int (round_half_even (q / ?u)) - q / ?u) * ?u"
    by (simp add: rnd_def Let_def left_diff_distrib)
  then have "\<bar>rnd p emax q - q\<bar> = \<bar>of_int (round_half_even (q / ?u)) - q / ?u\<bar> * ?u"
    by (simp add: abs_mult)
  also have "\<dots> \<le> 1 / 2 * ?u" by (intro mult_right_mono round_half_even_error) simp
  finally show ?thesis by simp
qed

lemma rnd_multiple:
  assumes "q = of_int m * 2 powi e" "ulp_exp p emax q \<le> e"
  shows "rnd p emax q = q"
proof -
  let ?u = "ulp_exp p emax q"
  have "(2 :: rat) powi e = 2 ^ nat (e - ?u) * 2 powi ?u"
    using assms(2) by (simp flip: power_int_nonneg_exp power_int_add)
  then have "q = of_int (m * 2 ^ nat (e - ?u)) * 2 powi ?u" unfolding assms(1) by simp
  then show ?thesis by (metis antisym order_refl rnd_grid)
qed

text \<open>Numbers of at most \<open>p\<close> bits are kept.\<close>

lemma rnd_keeps:
  assumes q: "q = of_int m * 2 powi e" and m: "\<bar>m\<bar> < 2 ^ p" and e: "2 - emax - int p \<le> e"
  shows "rnd p emax q = q"
proof (cases "m = 0")
  case False
  then have "0 < \<bar>q\<bar>" by (simp add: q)
  then have "2 powi floor_log2 \<bar>q\<bar> \<le> \<bar>q\<bar>" by (rule floor_log2_bounds)
  also have "\<bar>q\<bar> = of_int \<bar>m\<bar> * 2 powi e" by (simp add: q abs_mult)
  also have "\<dots> < 2 ^ p * 2 powi e"
    using m by (intro mult_strict_right_mono) (metis of_int_less_iff of_int_numeral of_int_power, simp)
  also have "\<dots> = 2 powi (int p + e)" by (simp add: power_int_add)
  finally have "floor_log2 \<bar>q\<bar> < int p + e" by simp
  then show ?thesis using e by (intro rnd_multiple [OF q]) (simp add: ulp_exp_def)
qed (simp add: q)

lemma rnd_int:
  assumes "\<bar>n\<bar> < 2 ^ p" "2 \<le> emax + int p"
  shows "rnd p emax (of_int n) = of_int n"
  using rnd_keeps [of "of_int n" n 0 p emax] assms by simp

lemma rnd_mono_pos:
  assumes "0 < a" "a \<le> b" "0 < p"
  shows "rnd p emax a \<le> rnd p emax b"
proof -
  let ?u = "ulp_exp p emax a" and ?v = "ulp_exp p emax b"
  have "2 powi floor_log2 a \<le> a" "b < 2 powi (floor_log2 b + 1)"
    using assms floor_log2_bounds [of a] floor_log2_bounds [of b] by simp_all
  then have "(2 :: rat) powi floor_log2 a < 2 powi (floor_log2 b + 1)" using assms by linarith
  then have fl: "floor_log2 a \<le> floor_log2 b" by simp
  have ab: "\<bar>a\<bar> = a" "\<bar>b\<bar> = b" using assms by simp_all
  have "?u = ?v \<or> (?u < ?v \<and> floor_log2 a < floor_log2 b \<and> ?v = floor_log2 b - int p + 1)"
    using fl unfolding ulp_exp_def ab by linarith
  then consider "?u = ?v" | "?u < ?v" "floor_log2 a < floor_log2 b" "?v = floor_log2 b - int p + 1" by blast
  then show ?thesis
  proof cases
    case 1
    then show ?thesis using assms
      by (simp add: rnd_def Let_def round_half_even_mono divide_right_mono)
  next
    case 2
    define B :: rat where "B = 2 powi floor_log2 b"
    have B: "B = of_int (2 ^ nat (floor_log2 b - k)) * 2 powi k" if "k \<le> floor_log2 b" for k
      using that unfolding B_def by (simp flip: power_int_nonneg_exp power_int_add)
    have "a < 2 powi (floor_log2 a + 1)" using floor_log2_bounds [of a] assms by simp
    also have "\<dots> \<le> B" using 2(2) by (simp add: B_def)
    finally have "rnd p emax a \<le> B"
      using rnd_grid(1) [OF refl, where q = a and p = p and emax = emax and m = "2 ^ nat (floor_log2 b - ?u)"]
        B [of ?u] 2 assms(3) by simp
    moreover have "B \<le> b" using floor_log2_bounds [of b] assms by (simp add: B_def)
    then have "B \<le> rnd p emax b"
      using rnd_grid(2) [OF refl, where q = b and p = p and emax = emax and m = "2 ^ nat (floor_log2 b - ?v)"]
        B [of ?v] 2 assms(3) by simp
    ultimately show ?thesis by linarith
  qed
qed

lemma rnd_nonneg: "0 \<le> q \<Longrightarrow> 0 \<le> rnd p emax q"
  using rnd_grid(2) [of _ p emax q 0] by simp

lemma rnd_mono:
  assumes "a \<le> b" "0 < p"
  shows "rnd p emax a \<le> rnd p emax b"
proof -
  consider "0 < a" | "b < 0" | "a \<le> 0" "0 \<le> b" by linarith
  then show ?thesis
  proof cases
    case 2
    then have "rnd p emax (- b) \<le> rnd p emax (- a)" using assms by (intro rnd_mono_pos) simp_all
    then show ?thesis by (simp add: rnd_minus)
  next
    case 3
    then show ?thesis using rnd_nonneg [of "- a" p emax] rnd_nonneg [of b p emax] by (simp add: rnd_minus)
  qed (use assms in \<open>simp add: rnd_mono_pos\<close>)
qed

section \<open>Numbers and operations\<close>

text \<open>The flag of a zero or an infinity is its sign.\<close>

datatype fp = NaN | Inf bool | Zero bool | Fin rat

text \<open>The number nearest to \<open>q\<close>; a zero gets the sign \<open>s\<close>.\<close>

definition fp_of :: "nat \<Rightarrow> int \<Rightarrow> bool \<Rightarrow> rat \<Rightarrow> fp" where
  "fp_of p emax s q =
     (let r = rnd p emax q in
      if r = 0 then Zero s else if 2 powi (emax + 1) \<le> \<bar>r\<bar> then Inf (r < 0) else Fin r)"

type_synonym rounding = "bool \<Rightarrow> rat \<Rightarrow> fp"

definition FLOAT :: rounding where "FLOAT = fp_of 24 127"
definition DOUBLE :: rounding where "DOUBLE = fp_of 53 1023"

fun fp_val :: "fp \<Rightarrow> rat" where
  "fp_val (Fin q) = q"
| "fp_val _ = 0"

fun fp_neg :: "fp \<Rightarrow> bool" where
  "fp_neg (Fin q) = (q < 0)"
| "fp_neg (Zero s) = s"
| "fp_neg (Inf s) = s"
| "fp_neg NaN = False"

fun fp_finite :: "fp \<Rightarrow> bool" where
  "fp_finite (Fin q) = True"
| "fp_finite (Zero s) = True"
| "fp_finite _ = False"

fun fp_minus :: "fp \<Rightarrow> fp" where
  "fp_minus NaN = NaN"
| "fp_minus (Inf s) = Inf (\<not> s)"
| "fp_minus (Zero s) = Zero (\<not> s)"
| "fp_minus (Fin q) = Fin (- q)"

fun fp_add :: "rounding \<Rightarrow> fp \<Rightarrow> fp \<Rightarrow> fp" where
  "fp_add R NaN y = NaN"
| "fp_add R x NaN = NaN"
| "fp_add R (Inf s) (Inf t) = (if s = t then Inf s else NaN)"
| "fp_add R (Inf s) y = Inf s"
| "fp_add R x (Inf t) = Inf t"
| "fp_add R x y = (let q = fp_val x + fp_val y in if q = 0 then Zero (fp_neg x \<and> fp_neg y) else R (q < 0) q)"

definition fp_sub :: "rounding \<Rightarrow> fp \<Rightarrow> fp \<Rightarrow> fp" where
  "fp_sub R x y = fp_add R x (fp_minus y)"

fun fp_mul :: "rounding \<Rightarrow> fp \<Rightarrow> fp \<Rightarrow> fp" where
  "fp_mul R NaN y = NaN"
| "fp_mul R x NaN = NaN"
| "fp_mul R (Inf s) (Zero t) = NaN"
| "fp_mul R (Zero s) (Inf t) = NaN"
| "fp_mul R (Inf s) y = Inf (s \<noteq> fp_neg y)"
| "fp_mul R x (Inf t) = Inf (fp_neg x \<noteq> t)"
| "fp_mul R (Zero s) y = Zero (s \<noteq> fp_neg y)"
| "fp_mul R x (Zero t) = Zero (fp_neg x \<noteq> t)"
| "fp_mul R (Fin a) (Fin b) = R (a * b < 0) (a * b)"

fun fp_div :: "rounding \<Rightarrow> fp \<Rightarrow> fp \<Rightarrow> fp" where
  "fp_div R NaN y = NaN"
| "fp_div R x NaN = NaN"
| "fp_div R (Inf s) (Inf t) = NaN"
| "fp_div R (Zero s) (Zero t) = NaN"
| "fp_div R (Inf s) y = Inf (s \<noteq> fp_neg y)"
| "fp_div R x (Inf t) = Zero (fp_neg x \<noteq> t)"
| "fp_div R x (Zero t) = Inf (fp_neg x \<noteq> t)"
| "fp_div R (Zero s) y = Zero (s \<noteq> fp_neg y)"
| "fp_div R (Fin a) (Fin b) = R (a / b < 0) (a / b)"

fun fp_less :: "fp \<Rightarrow> fp \<Rightarrow> bool" where
  "fp_less NaN y = False"
| "fp_less x NaN = False"
| "fp_less (Inf s) (Inf t) = (s \<and> \<not> t)"
| "fp_less (Inf s) y = s"
| "fp_less x (Inf t) = (\<not> t)"
| "fp_less x y = (fp_val x < fp_val y)"

text \<open>Conversions: from an integer, and from \<open>double\<close> to \<open>float\<close>; \<open>float\<close> to \<open>double\<close> is exact.\<close>

definition fp_of_int :: "rounding \<Rightarrow> int \<Rightarrow> fp" where
  "fp_of_int R n = (if n = 0 then Zero False else R (n < 0) (of_int n))"

fun to_float :: "fp \<Rightarrow> fp" where
  "to_float (Fin q) = FLOAT (q < 0) q"
| "to_float x = x"

lemma fp_of_int_exact:
  assumes "\<bar>n\<bar> < 2 ^ p" "n \<noteq> 0" "int p \<le> emax + 1" "2 \<le> emax + int p"
  shows "fp_of p emax s (of_int n) = Fin (of_int n)"
proof -
  have "(2 :: rat) ^ p = 2 powi int p" by simp
  also have "\<dots> \<le> 2 powi (emax + 1)" using assms(3) by (simp del: power_int_of_nat)
  finally have "of_int \<bar>n\<bar> < (2 :: rat) powi (emax + 1)"
    using assms(1) by (metis of_int_less_iff of_int_numeral of_int_power order_less_le_trans)
  then show ?thesis using rnd_int [of n p emax] assms by (simp add: fp_of_def)
qed

lemma FLOAT_int: "\<bar>n\<bar> < 2 ^ 24 \<Longrightarrow> n \<noteq> 0 \<Longrightarrow> FLOAT s (of_int n) = Fin (of_int n)"
  unfolding FLOAT_def by (rule fp_of_int_exact) simp_all

lemma DOUBLE_int: "\<bar>n\<bar> < 2 ^ 53 \<Longrightarrow> n \<noteq> 0 \<Longrightarrow> DOUBLE s (of_int n) = Fin (of_int n)"
  unfolding DOUBLE_def by (rule fp_of_int_exact) simp_all

text \<open>The first integer that is not a \<open>float\<close> is rounded down.\<close>

lemma FLOAT_16777216: "FLOAT s 16777216 = Fin 16777216"
proof -
  have "rnd 24 127 16777216 = 16777216" by (rule rnd_keeps [of _ 1 24]) simp_all
  then show ?thesis by (simp add: FLOAT_def fp_of_def)
qed

lemma FLOAT_16777217: "FLOAT s 16777217 = Fin 16777216"
proof -
  have "floor_log2 16777217 = 24" by (rule floor_log2_unique) simp_all
  moreover have "\<lfloor>16777217 / 2 :: rat\<rfloor> = 8388608" by (simp add: floor_eq_iff)
  ultimately have "rnd 24 127 16777217 = 16777216"
    by (simp add: rnd_def ulp_exp_def Let_def round_half_even_def)
  then show ?thesis by (simp add: FLOAT_def fp_of_def)
qed

text \<open>Comparison of a sum and a difference with a third number.\<close>

lemma fp_less_trans: "fp_less x y \<Longrightarrow> fp_less y z \<Longrightarrow> fp_less x z"
  by (cases x; cases y; cases z) auto

lemma fp_of_mono:
  assumes "a \<le> b" "0 < p"
  shows "\<not> fp_less (fp_of p emax s b) (fp_of p emax t a)"
proof -
  have m: "rnd p emax a \<le> rnd p emax b" using assms by (rule rnd_mono)
  have "0 < (2 :: rat) powi (emax + 1)" by simp
  then show ?thesis using m by (auto simp: fp_of_def Let_def abs_if split: if_splits)
qed

end
