(* ===== verification/IecReals.thy ===== *)
theory IecReals
  imports IecBlocks Floats
begin

text \<open>
  The function blocks of \<open>src/core/lib/iec_std_FB.h\<close> on \<open>REAL\<close> numbers: derivative, hysteresis,
  integral, the PID controller made of them, and the ramp. A \<open>REAL\<close> is a \<open>float\<close>, and C computes in
  \<open>float\<close> unless an operand is a \<open>double\<close>; no operations are fused.
\<close>

section \<open>The blocks\<close>

definition time_to_lreal :: "timespec \<Rightarrow> fp" where
  "time_to_lreal t =
     fp_add DOUBLE (fp_of_int DOUBLE (tv_sec t)) (fp_div DOUBLE (fp_of_int DOUBLE (tv_nsec t)) (Fin 1000000000))"

definition TIME_TO_REAL :: "timespec \<Rightarrow> fp" where
  "TIME_TO_REAL t = to_float (time_to_lreal t)"

record DERIVATIVE =
  D_EN :: "bool iec_var"
  D_ENO :: "bool iec_var"
  D_RUN :: "bool iec_var"
  D_XIN :: "fp iec_var"
  D_CYCLE :: "timespec iec_var"
  D_XOUT :: "fp iec_var"
  D_X1 :: "fp iec_var"
  D_X2 :: "fp iec_var"
  D_X3 :: "fp iec_var"

definition DERIVATIVE_init :: "bool \<Rightarrow> DERIVATIVE \<Rightarrow> DERIVATIVE" where
  "DERIVATIVE_init retain d = d\<lparr>D_EN := INIT_VAR (D_EN d) True retain, D_ENO := INIT_VAR (D_ENO d) True retain,
     D_RUN := INIT_VAR (D_RUN d) False retain, D_XIN := INIT_VAR (D_XIN d) (Zero False) retain,
     D_CYCLE := INIT_VAR (D_CYCLE d) zero_time retain, D_XOUT := INIT_VAR (D_XOUT d) (Zero False) retain,
     D_X1 := INIT_VAR (D_X1 d) (Zero False) retain, D_X2 := INIT_VAR (D_X2 d) (Zero False) retain,
     D_X3 := INIT_VAR (D_X3 d) (Zero False) retain\<rparr>"

text \<open>\<open>((3.0 * (XIN - X3) + X1) - X2) / (10.0 * CYCLE)\<close>: the constants make it a \<open>double\<close>.\<close>

definition derivative_of :: "fp \<Rightarrow> fp \<Rightarrow> fp \<Rightarrow> fp \<Rightarrow> fp \<Rightarrow> fp" where
  "derivative_of xin x1 x2 x3 cycle =
     to_float (fp_div DOUBLE
       (fp_sub DOUBLE (fp_add DOUBLE (fp_mul DOUBLE (Fin 3) (fp_sub FLOAT xin x3)) x1) x2)
       (fp_mul DOUBLE (Fin 10) cycle))"

definition DERIVATIVE_body :: "DERIVATIVE \<Rightarrow> DERIVATIVE" where
  "DERIVATIVE_body d = (let d = d\<lparr>D_ENO := SET_VAR (D_ENO d) (GET_VAR (D_EN d))\<rparr> in if \<not> GET_VAR (D_EN d) then d else
     if GET_VAR (D_RUN d)
     then let d = d\<lparr>D_XOUT := SET_VAR (D_XOUT d) (derivative_of (GET_VAR (D_XIN d)) (GET_VAR (D_X1 d))
                     (GET_VAR (D_X2 d)) (GET_VAR (D_X3 d)) (TIME_TO_REAL (GET_VAR (D_CYCLE d))))\<rparr>;
              d = d\<lparr>D_X3 := SET_VAR (D_X3 d) (GET_VAR (D_X2 d))\<rparr>;
              d = d\<lparr>D_X2 := SET_VAR (D_X2 d) (GET_VAR (D_X1 d))\<rparr>
          in d\<lparr>D_X1 := SET_VAR (D_X1 d) (GET_VAR (D_XIN d))\<rparr>
     else d\<lparr>D_XOUT := SET_VAR (D_XOUT d) (Zero False), D_X1 := SET_VAR (D_X1 d) (GET_VAR (D_XIN d)),
            D_X2 := SET_VAR (D_X2 d) (GET_VAR (D_XIN d)), D_X3 := SET_VAR (D_X3 d) (GET_VAR (D_XIN d))\<rparr>)"

record HYSTERESIS =
  H_EN :: "bool iec_var"
  H_ENO :: "bool iec_var"
  XIN1 :: "fp iec_var"
  XIN2 :: "fp iec_var"
  EPS :: "fp iec_var"
  H_Q :: "bool iec_var"

definition HYSTERESIS_init :: "bool \<Rightarrow> HYSTERESIS \<Rightarrow> HYSTERESIS" where
  "HYSTERESIS_init retain d = d\<lparr>H_EN := INIT_VAR (H_EN d) True retain, H_ENO := INIT_VAR (H_ENO d) True retain,
     XIN1 := INIT_VAR (XIN1 d) (Zero False) retain, XIN2 := INIT_VAR (XIN2 d) (Zero False) retain,
     EPS := INIT_VAR (EPS d) (Zero False) retain, H_Q := INIT_VAR (H_Q d) False retain\<rparr>"

definition HYSTERESIS_body :: "HYSTERESIS \<Rightarrow> HYSTERESIS" where
  "HYSTERESIS_body d = (let d = d\<lparr>H_ENO := SET_VAR (H_ENO d) (GET_VAR (H_EN d))\<rparr> in if \<not> GET_VAR (H_EN d) then d else
     if GET_VAR (H_Q d)
     then (if fp_less (GET_VAR (XIN1 d)) (fp_sub FLOAT (GET_VAR (XIN2 d)) (GET_VAR (EPS d)))
           then d\<lparr>H_Q := SET_VAR (H_Q d) False\<rparr> else d)
     else if fp_less (fp_add FLOAT (GET_VAR (XIN2 d)) (GET_VAR (EPS d))) (GET_VAR (XIN1 d))
     then d\<lparr>H_Q := SET_VAR (H_Q d) True\<rparr> else d)"

record INTEGRAL =
  I_EN :: "bool iec_var"
  I_ENO :: "bool iec_var"
  I_RUN :: "bool iec_var"
  I_R1 :: "bool iec_var"
  I_XIN :: "fp iec_var"
  I_X0 :: "fp iec_var"
  I_CYCLE :: "timespec iec_var"
  I_Q :: "bool iec_var"
  I_XOUT :: "fp iec_var"

definition INTEGRAL_init :: "bool \<Rightarrow> INTEGRAL \<Rightarrow> INTEGRAL" where
  "INTEGRAL_init retain d = d\<lparr>I_EN := INIT_VAR (I_EN d) True retain, I_ENO := INIT_VAR (I_ENO d) True retain,
     I_RUN := INIT_VAR (I_RUN d) False retain, I_R1 := INIT_VAR (I_R1 d) False retain,
     I_XIN := INIT_VAR (I_XIN d) (Zero False) retain, I_X0 := INIT_VAR (I_X0 d) (Zero False) retain,
     I_CYCLE := INIT_VAR (I_CYCLE d) zero_time retain, I_Q := INIT_VAR (I_Q d) False retain,
     I_XOUT := INIT_VAR (I_XOUT d) (Zero False) retain\<rparr>"

definition INTEGRAL_body :: "INTEGRAL \<Rightarrow> INTEGRAL" where
  "INTEGRAL_body d = (let d = d\<lparr>I_ENO := SET_VAR (I_ENO d) (GET_VAR (I_EN d))\<rparr> in if \<not> GET_VAR (I_EN d) then d else
     let d = d\<lparr>I_Q := SET_VAR (I_Q d) (\<not> GET_VAR (I_R1 d))\<rparr>
     in if GET_VAR (I_R1 d) then d\<lparr>I_XOUT := SET_VAR (I_XOUT d) (GET_VAR (I_X0 d))\<rparr>
        else if GET_VAR (I_RUN d)
        then d\<lparr>I_XOUT := SET_VAR (I_XOUT d) (fp_add FLOAT (GET_VAR (I_XOUT d))
               (fp_mul FLOAT (GET_VAR (I_XIN d)) (TIME_TO_REAL (GET_VAR (I_CYCLE d)))))\<rparr>
        else d)"

record PID =
  P_EN :: "bool iec_var"
  P_ENO :: "bool iec_var"
  AUTO :: "bool iec_var"
  P_PV :: "fp iec_var"
  SP :: "fp iec_var"
  P_X0 :: "fp iec_var"
  KP :: "fp iec_var"
  P_TR :: "fp iec_var"
  TD :: "fp iec_var"
  P_CYCLE :: "timespec iec_var"
  P_XOUT :: "fp iec_var"
  ERROR :: "fp iec_var"
  ITERM :: INTEGRAL
  DTERM :: DERIVATIVE

definition PID_init :: "bool \<Rightarrow> PID \<Rightarrow> PID" where
  "PID_init retain d = d\<lparr>P_EN := INIT_VAR (P_EN d) True retain, P_ENO := INIT_VAR (P_ENO d) True retain,
     AUTO := INIT_VAR (AUTO d) False retain, P_PV := INIT_VAR (P_PV d) (Zero False) retain,
     SP := INIT_VAR (SP d) (Zero False) retain, P_X0 := INIT_VAR (P_X0 d) (Zero False) retain,
     KP := INIT_VAR (KP d) (Zero False) retain, P_TR := INIT_VAR (P_TR d) (Zero False) retain,
     TD := INIT_VAR (TD d) (Zero False) retain, P_CYCLE := INIT_VAR (P_CYCLE d) zero_time retain,
     P_XOUT := INIT_VAR (P_XOUT d) (Zero False) retain, ERROR := INIT_VAR (ERROR d) (Zero False) retain,
     ITERM := INTEGRAL_init retain (ITERM d), DTERM := DERIVATIVE_init retain (DTERM d)\<rparr>"

text \<open>\<open>KP * ((ERROR + ITERM.XOUT / TR) + DTERM.XOUT * TD)\<close>.\<close>

definition pid_sum :: "fp \<Rightarrow> fp \<Rightarrow> fp \<Rightarrow> fp \<Rightarrow> fp \<Rightarrow> fp \<Rightarrow> fp" where
  "pid_sum kp err i tr d td =
     fp_mul FLOAT kp (fp_add FLOAT (fp_add FLOAT err (fp_div FLOAT i tr)) (fp_mul FLOAT d td))"

definition PID_body :: "PID \<Rightarrow> PID" where
  "PID_body d = (let d = d\<lparr>P_ENO := SET_VAR (P_ENO d) (GET_VAR (P_EN d))\<rparr> in if \<not> GET_VAR (P_EN d) then d else
     let d = d\<lparr>ERROR := SET_VAR (ERROR d) (fp_sub FLOAT (GET_VAR (P_PV d)) (GET_VAR (SP d)))\<rparr>;
         i = ITERM d;
         i = i\<lparr>I_RUN := SET_VAR (I_RUN i) (GET_VAR (AUTO d)), I_R1 := SET_VAR (I_R1 i) (\<not> GET_VAR (AUTO d)),
               I_XIN := SET_VAR (I_XIN i) (GET_VAR (ERROR d)),
               I_X0 := SET_VAR (I_X0 i) (fp_mul FLOAT (GET_VAR (P_TR d)) (fp_sub FLOAT (GET_VAR (P_X0 d)) (GET_VAR (ERROR d)))),
               I_CYCLE := SET_VAR (I_CYCLE i) (GET_VAR (P_CYCLE d))\<rparr>;
         d = d\<lparr>ITERM := INTEGRAL_body i\<rparr>;
         t = DTERM d;
         t = t\<lparr>D_RUN := SET_VAR (D_RUN t) (GET_VAR (AUTO d)), D_XIN := SET_VAR (D_XIN t) (GET_VAR (ERROR d)),
               D_CYCLE := SET_VAR (D_CYCLE t) (GET_VAR (P_CYCLE d))\<rparr>;
         d = d\<lparr>DTERM := DERIVATIVE_body t\<rparr>
     in d\<lparr>P_XOUT := SET_VAR (P_XOUT d) (pid_sum (GET_VAR (KP d)) (GET_VAR (ERROR d)) (GET_VAR (I_XOUT (ITERM d)))
            (GET_VAR (P_TR d)) (GET_VAR (D_XOUT (DTERM d))) (GET_VAR (TD d)))\<rparr>)"

record RAMP =
  RA_EN :: "bool iec_var"
  RA_ENO :: "bool iec_var"
  RA_RUN :: "bool iec_var"
  RA_X0 :: "fp iec_var"
  RA_X1 :: "fp iec_var"
  RA_TR :: "timespec iec_var"
  RA_CYCLE :: "timespec iec_var"
  RA_BUSY :: "bool iec_var"
  RA_XOUT :: "fp iec_var"
  RA_XI :: "fp iec_var"
  RA_T :: "timespec iec_var"

definition RAMP_init :: "bool \<Rightarrow> RAMP \<Rightarrow> RAMP" where
  "RAMP_init retain d = d\<lparr>RA_EN := INIT_VAR (RA_EN d) True retain, RA_ENO := INIT_VAR (RA_ENO d) True retain,
     RA_RUN := INIT_VAR (RA_RUN d) False retain, RA_X0 := INIT_VAR (RA_X0 d) (Zero False) retain,
     RA_X1 := INIT_VAR (RA_X1 d) (Zero False) retain, RA_TR := INIT_VAR (RA_TR d) zero_time retain,
     RA_CYCLE := INIT_VAR (RA_CYCLE d) zero_time retain, RA_BUSY := INIT_VAR (RA_BUSY d) False retain,
     RA_XOUT := INIT_VAR (RA_XOUT d) (Zero False) retain, RA_XI := INIT_VAR (RA_XI d) (Zero False) retain,
     RA_T := INIT_VAR (RA_T d) zero_time retain\<rparr>"

text \<open>\<open>XI + (((X1 - XI) * T) / TR)\<close>.\<close>

definition ramp_point :: "fp \<Rightarrow> fp \<Rightarrow> fp \<Rightarrow> fp \<Rightarrow> fp" where
  "ramp_point xi x1 t tr = fp_add FLOAT xi (fp_div FLOAT (fp_mul FLOAT (fp_sub FLOAT x1 xi) t) tr)"

definition RAMP_body :: "RAMP \<Rightarrow> RAMP option" where
  "RAMP_body d = (let d = d\<lparr>RA_ENO := SET_VAR (RA_ENO d) (GET_VAR (RA_EN d))\<rparr> in if \<not> GET_VAR (RA_EN d) then Some d else
     let d = d\<lparr>RA_BUSY := SET_VAR (RA_BUSY d) (GET_VAR (RA_RUN d))\<rparr>
     in if GET_VAR (RA_RUN d) then do {
          b \<leftarrow> GE_TIME (GET_VAR (RA_T d)) (GET_VAR (RA_TR d));
          (if b then Some (d\<lparr>RA_BUSY := SET_VAR (RA_BUSY d) False, RA_XOUT := SET_VAR (RA_XOUT d) (GET_VAR (RA_X1 d))\<rparr>)
           else do {
             let d = d\<lparr>RA_XOUT := SET_VAR (RA_XOUT d) (ramp_point (GET_VAR (RA_XI d)) (GET_VAR (RA_X1 d))
                         (TIME_TO_REAL (GET_VAR (RA_T d))) (TIME_TO_REAL (GET_VAR (RA_TR d))))\<rparr>;
             t \<leftarrow> time_add (GET_VAR (RA_T d)) (GET_VAR (RA_CYCLE d));
             Some (d\<lparr>RA_T := SET_VAR (RA_T d) t\<rparr>) }) }
        else Some (d\<lparr>RA_XOUT := SET_VAR (RA_XOUT d) (GET_VAR (RA_X0 d)), RA_XI := SET_VAR (RA_XI d) (GET_VAR (RA_X0 d)),
                     RA_T := SET_VAR (RA_T d) zero_time\<rparr>))"

section \<open>Hysteresis\<close>

text \<open>A sum of finite numbers, a difference below it.\<close>

lemma fp_add_finite:
  assumes "fp_finite x" "fp_finite y"
  shows "\<exists>s. fp_add FLOAT x y = fp_of 24 127 s (fp_val x + fp_val y)"
  using assms by (cases x; cases y) (auto simp: FLOAT_def fp_of_def Let_def)

lemma hysteresis_band:
  assumes "fp_finite a" "fp_finite e" "0 \<le> fp_val e"
  shows "\<not> fp_less (fp_add FLOAT a e) (fp_sub FLOAT a e)"
proof -
  have e: "fp_finite (fp_minus e)" "fp_val (fp_minus e) = - fp_val e" using assms(2) by (cases e; simp)+
  obtain s t where "fp_add FLOAT a e = fp_of 24 127 s (fp_val a + fp_val e)"
      "fp_sub FLOAT a e = fp_of 24 127 t (fp_val a - fp_val e)"
    using fp_add_finite [OF assms(1,2)] fp_add_finite [OF assms(1) e(1)] by (auto simp: fp_sub_def e)
  then show ?thesis using assms(3) by (simp add: fp_of_mono)
qed

definition hyst_scan :: "fp \<Rightarrow> HYSTERESIS \<Rightarrow> HYSTERESIS" where
  "hyst_scan x d = HYSTERESIS_body (d\<lparr>XIN1 := SET_VAR (XIN1 d) x\<rparr>)"

definition hyst_ok :: "fp \<Rightarrow> fp \<Rightarrow> HYSTERESIS \<Rightarrow> bool" where
  "hyst_ok a e d \<longleftrightarrow> GET_VAR (H_EN d) \<and> unforced (XIN1 d) \<and> unforced (H_Q d) \<and>
     GET_VAR (XIN2 d) = a \<and> GET_VAR (EPS d) = e"

lemma hyst_scan_step:
  assumes "hyst_ok a e d"
  shows "hyst_ok a e (hyst_scan x d) \<and> GET_VAR (H_Q (hyst_scan x d)) =
    (if GET_VAR (H_Q d) then \<not> fp_less x (fp_sub FLOAT a e) else fp_less (fp_add FLOAT a e) x)"
  using assms by (simp add: hyst_ok_def hyst_scan_def HYSTERESIS_body_def Let_def)

text \<open>C24: With a finite band, \<open>HYSTERESIS\<close> remembers the last input that left the band: the output is
  set if that input was above \<open>XIN2 + EPS\<close>, cleared if it was below \<open>XIN2 - EPS\<close>, and is as it was if
  no input left the band, NaN inputs among them.\<close>

theorem HYSTERESIS_last_crossing:
  assumes "hyst_ok a e d" "fp_finite a" "fp_finite e" "0 \<le> fp_val e"
  shows "GET_VAR (H_Q (fold hyst_scan xs d)) =
    (let lo = fp_sub FLOAT a e; hi = fp_add FLOAT a e; out = filter (\<lambda>x. fp_less x lo \<or> fp_less hi x) xs
     in if out = [] then GET_VAR (H_Q d) else fp_less hi (last out))"
  using assms(1)
proof (induction xs rule: rev_induct)
  case Nil
  then show ?case by simp
next
  case (snoc x xs)
  let ?d = "fold hyst_scan xs d" and ?lo = "fp_sub FLOAT a e" and ?hi = "fp_add FLOAT a e"
  have "hyst_ok a e ?d" using snoc.prems
    by (induction xs arbitrary: d) (simp_all add: hyst_scan_step)
  then have step: "GET_VAR (H_Q (fold hyst_scan (xs @ [x]) d)) =
      (if GET_VAR (H_Q ?d) then \<not> fp_less x ?lo else fp_less ?hi x)"
    by (simp add: hyst_scan_step)
  have excl: "\<not> (fp_less ?hi x \<and> fp_less x ?lo)"
    using fp_less_trans hysteresis_band [OF assms(2-4)] by blast
  consider "fp_less ?hi x" | "fp_less x ?lo" "\<not> fp_less ?hi x" | "\<not> fp_less x ?lo" "\<not> fp_less ?hi x" by blast
  then show ?case
  proof cases
    case 1
    then show ?thesis unfolding step using excl by (simp add: Let_def)
  next
    case 2
    then show ?thesis unfolding step by (simp add: Let_def)
  next
    case 3
    then show ?thesis unfolding step using snoc.IH [OF snoc.prems] by (simp add: Let_def)
  qed
qed

definition demo_hysteresis :: HYSTERESIS where
  "demo_hysteresis = \<lparr>H_EN = demo_var True, H_ENO = demo_var True, XIN1 = demo_var (Zero False),
     XIN2 = demo_var (Fin 10), EPS = demo_var (Fin 2), H_Q = demo_var False\<rparr>"

theorem HYSTERESIS_last_crossing_witness:
  "GET_VAR (H_Q (fold hyst_scan [Fin 13, Fin 9, NaN] demo_hysteresis))"
proof -
  have f: "FLOAT s 12 = Fin 12" "FLOAT s 8 = Fin 8" for s
    using FLOAT_int [of 12 s] FLOAT_int [of 8 s] by simp_all
  have "hyst_ok (Fin 10) (Fin 2) demo_hysteresis"
    by (simp add: hyst_ok_def demo_hysteresis_def demo_var_def unforced_def)
  from HYSTERESIS_last_crossing [OF this, of "[Fin 13, Fin 9, NaN]"]
  show ?thesis by (simp add: Let_def fp_sub_def f)
qed

section \<open>Integral\<close>

lemma TIME_TO_REAL_1: "TIME_TO_REAL \<lparr>tv_sec = 1, tv_nsec = 0\<rparr> = Fin 1"
proof -
  have "DOUBLE s 1 = Fin 1" "FLOAT s 1 = Fin 1" for s
    using DOUBLE_int [of 1 s] FLOAT_int [of 1 s] by simp_all
  then show ?thesis by (simp add: TIME_TO_REAL_def time_to_lreal_def fp_of_int_def)
qed

text \<open>The numbers \<open>0, 1, 2, ...\<close> that a \<open>float\<close> counts.\<close>

definition float_count :: "nat \<Rightarrow> fp" where
  "float_count n = (if n = 0 then Zero False else Fin (of_nat (min n (2 ^ 24))))"

lemma FLOAT_Suc: "n < 2 ^ 24 \<Longrightarrow> FLOAT s (of_nat (Suc n)) = Fin (of_nat (Suc n))"
proof (cases "n = 2 ^ 24 - 1")
  case True
  then have "of_nat (Suc n) = (16777216 :: rat)" by simp
  then show ?thesis by (simp only: FLOAT_16777216)
next
  case False
  assume "n < 2 ^ 24"
  then have "\<bar>int (Suc n)\<bar> < 2 ^ 24" using False by simp
  then show ?thesis using FLOAT_int [of "int (Suc n)" s] by (simp only: of_int_of_nat_eq)
qed

lemma float_count_add: "fp_add FLOAT (float_count n) (Fin 1) = float_count (Suc n)"
proof (cases "n < 2 ^ 24")
  case True
  have s: "of_nat n + 1 = (of_nat (Suc n) :: rat)" by simp
  have "fp_add FLOAT (float_count n) (Fin 1) = FLOAT (of_nat n + 1 < (0 :: rat)) (of_nat n + 1)"
    using True by (cases "n = 0") (auto simp: float_count_def Let_def min_def)
  then show ?thesis unfolding s FLOAT_Suc [OF True] using True by (simp add: float_count_def)
next
  case False
  then have "min n (2 ^ 24) = 16777216" "min (Suc n) (2 ^ 24) = 16777216" "n \<noteq> 0" by simp_all
  then show ?thesis by (simp add: float_count_def Let_def FLOAT_16777217)
qed

text \<open>The integral of a constant 1 over cycles of one second counts the seconds exactly, up to
  \<open>2^24\<close>, and then stands still: 1 more is less than half of the last place of a \<open>float\<close>.\<close>

theorem INTEGRAL_stalls:
  assumes "GET_VAR (I_EN d)" "GET_VAR (I_RUN d)" "\<not> GET_VAR (I_R1 d)" "unforced (I_XOUT d)"
    and "GET_VAR (I_XIN d) = Fin 1" "GET_VAR (I_CYCLE d) = \<lparr>tv_sec = 1, tv_nsec = 0\<rparr>" "GET_VAR (I_XOUT d) = Zero False"
  shows "GET_VAR (I_XOUT ((INTEGRAL_body ^^ n) d)) = (if n = 0 then Zero False else Fin (of_nat (min n (2 ^ 24))))"
proof -
  have one: "fp_mul FLOAT (Fin 1) (Fin 1) = Fin 1" using FLOAT_int [of 1] by simp
  have "let d' = (INTEGRAL_body ^^ n) d in GET_VAR (I_EN d') \<and> GET_VAR (I_RUN d') \<and> \<not> GET_VAR (I_R1 d') \<and>
      unforced (I_XOUT d') \<and> GET_VAR (I_XIN d') = Fin 1 \<and> GET_VAR (I_CYCLE d') = \<lparr>tv_sec = 1, tv_nsec = 0\<rparr> \<and>
      GET_VAR (I_XOUT d') = float_count n"
  proof (induction n)
    case 0
    then show ?case using assms by (simp add: float_count_def)
  next
    case (Suc n)
    then show ?case by (simp add: INTEGRAL_body_def Let_def TIME_TO_REAL_1 one float_count_add del: fp_mul.simps)
  qed
  then show ?thesis by (simp add: Let_def float_count_def)
qed

definition demo_integral :: INTEGRAL where
  "demo_integral = \<lparr>I_EN = demo_var True, I_ENO = demo_var True, I_RUN = demo_var True, I_R1 = demo_var False,
     I_XIN = demo_var (Fin 1), I_X0 = demo_var (Zero False), I_CYCLE = demo_var \<lparr>tv_sec = 1, tv_nsec = 0\<rparr>,
     I_Q = demo_var True, I_XOUT = demo_var (Zero False)\<rparr>"

theorem INTEGRAL_stalls_witness:
  "GET_VAR (I_XOUT ((INTEGRAL_body ^^ 20000000) demo_integral)) = Fin 16777216"
proof -
  have "GET_VAR (I_XOUT ((INTEGRAL_body ^^ 20000000) demo_integral)) =
      (if 20000000 = (0 :: nat) then Zero False else Fin (of_nat (min 20000000 (2 ^ 24))))"
    by (rule INTEGRAL_stalls) (simp_all add: demo_integral_def demo_var_def unforced_def)
  then show ?thesis by simp
qed

section \<open>PID\<close>

lemma fp_not_finite:
  "\<not> fp_finite (fp_div R x (Zero s))"
  "\<not> fp_finite x \<or> \<not> fp_finite y \<Longrightarrow> \<not> fp_finite (fp_add R x y)"
  "\<not> fp_finite x \<or> \<not> fp_finite y \<Longrightarrow> \<not> fp_finite (fp_mul R x y)"
  by (cases x; cases y; simp)+

text \<open>A controller with the initial values of \<open>PID_init\<close>.\<close>

definition demo_pid :: PID where
  "demo_pid = PID_init False \<lparr>P_EN = demo_var False, P_ENO = demo_var False, AUTO = demo_var False, P_PV = demo_var NaN,
     SP = demo_var NaN, P_X0 = demo_var NaN, KP = demo_var NaN, P_TR = demo_var NaN, TD = demo_var NaN,
     P_CYCLE = demo_var zero_time, P_XOUT = demo_var NaN, ERROR = demo_var NaN,
     ITERM = \<lparr>I_EN = demo_var False, I_ENO = demo_var False, I_RUN = demo_var False, I_R1 = demo_var False,
       I_XIN = demo_var NaN, I_X0 = demo_var NaN, I_CYCLE = demo_var zero_time, I_Q = demo_var False, I_XOUT = demo_var NaN\<rparr>,
     DTERM = \<lparr>D_EN = demo_var False, D_ENO = demo_var False, D_RUN = demo_var False, D_XIN = demo_var NaN,
       D_CYCLE = demo_var zero_time, D_XOUT = demo_var NaN, D_X1 = demo_var NaN, D_X2 = demo_var NaN, D_X3 = demo_var NaN\<rparr>\<rparr>"

text \<open>A \<open>PID\<close> whose reset time is 0, as it is initialised, has no finite output, in automatic and in
  manual mode and whatever its other inputs: \<open>ITERM.XOUT\<close> is divided by the reset time.\<close>

theorem PID_zero_reset_time:
  assumes "GET_VAR (P_EN d)" "unforced (P_XOUT d)" "GET_VAR (P_TR d) = Zero s"
  shows "\<not> fp_finite (GET_VAR (P_XOUT (PID_body d)))"
  using assms by (simp add: PID_body_def Let_def pid_sum_def fp_not_finite)

theorem PID_zero_reset_time_witness:
  "\<not> fp_finite (GET_VAR (P_XOUT (PID_body (demo_pid\<lparr>KP := demo_var (Fin 2), P_PV := demo_var (Fin 20)\<rparr>))))"
  by (rule PID_zero_reset_time [where s = False]) (simp_all add: demo_pid_def PID_init_def INIT_VAR_def demo_var_def unforced_def)

section \<open>Ramp\<close>

fun ramp_passes :: "nat \<Rightarrow> RAMP \<Rightarrow> RAMP option" where
  "ramp_passes 0 d = Some d"
| "ramp_passes (Suc n) d = do { d \<leftarrow> ramp_passes n d; RAMP_body d }"

lemma time_add_sum:
  assumes "sum_ok a" "time_ok b" "nanoseconds a \<le> nanoseconds c" "time_ok c"
  shows "\<exists>r. time_add a b = Some r \<and> nanoseconds r = nanoseconds a + nanoseconds b \<and> sum_ok r"
  using assms by (auto simp: time_ok_def sum_ok_def time_add_def normalize_timespec_def nanoseconds_def)

lemma GE_TIME_order:
  assumes "sum_ok a" "time_ok b"
  shows "\<exists>r. GE_TIME a b = Some r \<and> (r \<longrightarrow> nanoseconds b \<le> nanoseconds a) \<and> (nanoseconds b < nanoseconds a \<longrightarrow> r)"
  using assms by (auto simp: GE_TIME_def time_cmp_def sum_ok_def time_ok_def nanoseconds_def)

text \<open>A running ramp, whose parameters stay as they are.\<close>

definition ramp_runs :: "fp \<Rightarrow> fp \<Rightarrow> timespec \<Rightarrow> timespec \<Rightarrow> RAMP \<Rightarrow> bool" where
  "ramp_runs xi x1 tr cycle d \<longleftrightarrow> GET_VAR (RA_EN d) \<and> GET_VAR (RA_RUN d) \<and> unforced (RA_BUSY d) \<and>
     unforced (RA_XOUT d) \<and> unforced (RA_T d) \<and> GET_VAR (RA_XI d) = xi \<and> GET_VAR (RA_X1 d) = x1 \<and>
     GET_VAR (RA_TR d) = tr \<and> GET_VAR (RA_CYCLE d) = cycle"

lemma ramp_step:
  assumes "ramp_runs xi x1 tr cycle d" "sum_ok (GET_VAR (RA_T d))" "time_ok tr" "time_ok cycle"
  shows "\<exists>d' b. RAMP_body d = Some d' \<and> ramp_runs xi x1 tr cycle d' \<and> sum_ok (GET_VAR (RA_T d')) \<and>
    GE_TIME (GET_VAR (RA_T d)) tr = Some b \<and> GET_VAR (RA_BUSY d') = (\<not> b) \<and>
    (if b then nanoseconds tr \<le> nanoseconds (GET_VAR (RA_T d)) \<and> GET_VAR (RA_XOUT d') = x1 \<and> GET_VAR (RA_T d') = GET_VAR (RA_T d)
     else nanoseconds (GET_VAR (RA_T d)) \<le> nanoseconds tr \<and>
       GET_VAR (RA_XOUT d') = ramp_point xi x1 (TIME_TO_REAL (GET_VAR (RA_T d))) (TIME_TO_REAL tr) \<and>
       nanoseconds (GET_VAR (RA_T d')) = nanoseconds (GET_VAR (RA_T d)) + nanoseconds cycle)"
proof -
  obtain b where b: "GE_TIME (GET_VAR (RA_T d)) tr = Some b" "b \<longrightarrow> nanoseconds tr \<le> nanoseconds (GET_VAR (RA_T d))"
      "nanoseconds tr < nanoseconds (GET_VAR (RA_T d)) \<longrightarrow> b"
    using GE_TIME_order [OF assms(2,3)] by blast
  show ?thesis
  proof (cases b)
    case True
    then show ?thesis using b assms by (simp add: ramp_runs_def RAMP_body_def Let_def) (rule exI, assumption)
  next
    case False
    then have le: "nanoseconds (GET_VAR (RA_T d)) \<le> nanoseconds tr" using b by linarith
    obtain t where "time_add (GET_VAR (RA_T d)) cycle = Some t"
        "nanoseconds t = nanoseconds (GET_VAR (RA_T d)) + nanoseconds cycle" "sum_ok t"
      using time_add_sum [OF assms(2,4) le assms(3)] by blast
    then show ?thesis using False b(1) le assms by (simp add: ramp_runs_def RAMP_body_def Let_def) (rule exI, assumption)
  qed
qed

text \<open>C23: A ramp in steps of \<open>CYCLE\<close> is on the line from \<open>XI\<close> to \<open>X1\<close> at every pass before its time, at
  \<open>X1\<close> and no longer busy at every pass after it; it always ends. In the pass at exactly \<open>TR\<close> either may
  hold, as an added time of a full second of nanoseconds counts as smaller.\<close>

theorem RAMP_ends:
  assumes "ramp_runs xi x1 tr cycle d" "GET_VAR (RA_T d) = zero_time" "time_ok tr" "time_ok cycle" "0 < nanoseconds cycle"
  shows "\<exists>d'. ramp_passes (Suc k) d = Some d' \<and>
    (int k * nanoseconds cycle < nanoseconds tr \<longrightarrow> GET_VAR (RA_BUSY d') \<and>
      (\<exists>t. nanoseconds t = int k * nanoseconds cycle \<and>
        GET_VAR (RA_XOUT d') = ramp_point xi x1 (TIME_TO_REAL t) (TIME_TO_REAL tr))) \<and>
    (nanoseconds tr < int k * nanoseconds cycle \<longrightarrow> \<not> GET_VAR (RA_BUSY d') \<and> GET_VAR (RA_XOUT d') = x1)"
proof -
  let ?c = "nanoseconds cycle" and ?T = "\<lambda>d. GET_VAR (RA_T d)"
  have inv: "\<exists>d'. ramp_passes k d = Some d' \<and> ramp_runs xi x1 tr cycle d' \<and> sum_ok (?T d') \<and>
      (nanoseconds (?T d') = int k * ?c \<or> GE_TIME (?T d') tr = Some True \<and> nanoseconds (?T d') < int k * ?c)" for k
  proof (induction k)
    case 0
    then show ?case using assms by (simp add: zero_time_def sum_ok_def nanoseconds_def)
  next
    case (Suc k)
    then obtain d1 where d1: "ramp_passes k d = Some d1" "ramp_runs xi x1 tr cycle d1" "sum_ok (?T d1)"
      "nanoseconds (?T d1) = int k * ?c \<or> GE_TIME (?T d1) tr = Some True \<and> nanoseconds (?T d1) < int k * ?c" by blast
    have "int (Suc k) * ?c = int k * ?c + ?c" by (simp add: distrib_right)
    then show ?case using ramp_step [OF d1(2,3) assms(3,4)] d1 assms(5) by (auto split: if_splits)
  qed
  obtain d1 where d1: "ramp_passes k d = Some d1" "ramp_runs xi x1 tr cycle d1" "sum_ok (?T d1)"
      "nanoseconds (?T d1) = int k * ?c \<or> GE_TIME (?T d1) tr = Some True \<and> nanoseconds (?T d1) < int k * ?c"
    using inv [of k] by blast
  obtain d' b where d': "RAMP_body d1 = Some d'" "GE_TIME (?T d1) tr = Some b" "GET_VAR (RA_BUSY d') = (\<not> b)"
    "if b then nanoseconds tr \<le> nanoseconds (?T d1) \<and> GET_VAR (RA_XOUT d') = x1 \<and> ?T d' = ?T d1
     else nanoseconds (?T d1) \<le> nanoseconds tr \<and>
       GET_VAR (RA_XOUT d') = ramp_point xi x1 (TIME_TO_REAL (?T d1)) (TIME_TO_REAL tr) \<and>
       nanoseconds (?T d') = nanoseconds (?T d1) + ?c"
    using ramp_step [OF d1(2,3) assms(3,4)] by blast
  show ?thesis using d1 d' by (cases b) auto
qed

definition demo_ramp :: RAMP where
  "demo_ramp = \<lparr>RA_EN = demo_var True, RA_ENO = demo_var True, RA_RUN = demo_var True, RA_X0 = demo_var (Zero False),
     RA_X1 = demo_var (Fin 5), RA_TR = demo_var \<lparr>tv_sec = 10, tv_nsec = 0\<rparr>,
     RA_CYCLE = demo_var \<lparr>tv_sec = 0, tv_nsec = 20000000\<rparr>, RA_BUSY = demo_var False,
     RA_XOUT = demo_var (Zero False), RA_XI = demo_var (Zero False), RA_T = demo_var zero_time\<rparr>"

theorem RAMP_ends_witness:
  "\<exists>d'. ramp_passes 502 demo_ramp = Some d' \<and> \<not> GET_VAR (RA_BUSY d') \<and> GET_VAR (RA_XOUT d') = Fin 5"
proof -
  have r: "ramp_runs (Zero False) (Fin 5) \<lparr>tv_sec = 10, tv_nsec = 0\<rparr> \<lparr>tv_sec = 0, tv_nsec = 20000000\<rparr> demo_ramp"
    "GET_VAR (RA_T demo_ramp) = zero_time"
    by (simp_all add: ramp_runs_def demo_ramp_def demo_var_def unforced_def)
  obtain d' where "ramp_passes (Suc 501) demo_ramp = Some d'" "\<not> GET_VAR (RA_BUSY d')" "GET_VAR (RA_XOUT d') = Fin 5"
    using RAMP_ends [OF r, of 501] by (auto simp: time_ok_def nanoseconds_def simp del: ramp_passes.simps)
  moreover have "Suc 501 = 502" by simp
  ultimately show ?thesis by metis
qed

end
