(* ===== verification/IecFunctions.thy ===== *)
theory IecFunctions
  imports IecStrings IecReals
begin

text \<open>
  The standard functions of \<open>src/core/lib/iec_std_functions.h\<close> on numbers, bit strings and times:
  the functions its macros generate for every elementary type. An integer type of the PLC is a value
  of \<open>ity\<close>, its numbers are integers in range, and the arithmetic of C on them is written out: the
  promotion of small types to \<open>int\<close>, the conversion of a result, wrap-around of unsigned and no result
  for an overflow of signed types. A function returns its result and the value of \<open>ENO\<close>.
\<close>

unbundle bit_operations_syntax

section \<open>Integer types\<close>

datatype ity = IEC_SINT | IEC_INT | IEC_DINT | IEC_LINT | IEC_USINT | IEC_UINT | IEC_UDINT | IEC_ULINT | IEC_BYTE | IEC_WORD | IEC_DWORD | IEC_LWORD

fun ity_bits :: "ity \<Rightarrow> nat" where
  "ity_bits IEC_SINT = 8" | "ity_bits IEC_USINT = 8" | "ity_bits IEC_BYTE = 8"
| "ity_bits IEC_INT = 16" | "ity_bits IEC_UINT = 16" | "ity_bits IEC_WORD = 16"
| "ity_bits IEC_DINT = 32" | "ity_bits IEC_UDINT = 32" | "ity_bits IEC_DWORD = 32"
| "ity_bits IEC_LINT = 64" | "ity_bits IEC_ULINT = 64" | "ity_bits IEC_LWORD = 64"

fun ity_signed :: "ity \<Rightarrow> bool" where
  "ity_signed IEC_SINT = True" | "ity_signed IEC_INT = True" | "ity_signed IEC_DINT = True" | "ity_signed IEC_LINT = True"
| "ity_signed _ = False"

definition in_type :: "ity \<Rightarrow> int \<Rightarrow> bool" where
  "in_type t n = (if ity_signed t then - (2 ^ (ity_bits t - 1)) \<le> n \<and> n < 2 ^ (ity_bits t - 1)
     else 0 \<le> n \<and> n < 2 ^ ity_bits t)"

text \<open>The conversion to a type, and an operation of a type of at least the width of \<open>int\<close>.\<close>

definition conv :: "ity \<Rightarrow> int \<Rightarrow> int" where
  "conv t n = (if ity_signed t then (n + 2 ^ (ity_bits t - 1)) mod 2 ^ ity_bits t - 2 ^ (ity_bits t - 1)
     else n mod 2 ^ ity_bits t)"

definition arith :: "ity \<Rightarrow> int \<Rightarrow> int option" where
  "arith t n = (if ity_signed t then (if in_type t n then Some n else None) else Some (n mod 2 ^ ity_bits t))"

definition promote :: "ity \<Rightarrow> ity" where
  "promote t = (if ity_bits t < 32 then IEC_DINT else t)"

fun va_type :: "ity \<Rightarrow> ity" where
  "va_type IEC_SINT = IEC_DINT" | "va_type IEC_INT = IEC_DINT" | "va_type IEC_DINT = IEC_DINT" | "va_type IEC_LINT = IEC_LINT"
| "va_type IEC_USINT = IEC_UDINT" | "va_type IEC_UINT = IEC_UDINT" | "va_type IEC_UDINT = IEC_UDINT" | "va_type IEC_ULINT = IEC_ULINT"
| "va_type IEC_BYTE = IEC_DWORD" | "va_type IEC_WORD = IEC_DWORD" | "va_type IEC_DWORD = IEC_DWORD" | "va_type IEC_LWORD = IEC_LWORD"

section \<open>EN and ENO\<close>

text \<open>\<open>init\<close> is the initial value of the type, returned when the function is not enabled.\<close>

definition TEST_EN_COND :: "bool \<Rightarrow> bool \<Rightarrow> 'a \<Rightarrow> 'a option \<Rightarrow> ('a \<times> bool) option" where
  "TEST_EN_COND EN c init r = (if \<not> EN \<or> c then Some (init, False) else map_option (\<lambda>x. (x, True)) r)"

definition TEST_EN :: "bool \<Rightarrow> 'a \<Rightarrow> 'a option \<Rightarrow> ('a \<times> bool) option" where
  "TEST_EN EN init r = (if \<not> EN then Some (init, False) else map_option (\<lambda>x. (x, True)) r)"

section \<open>Numbers\<close>

text \<open>The functions of one \<open>REAL\<close>; the function of the mathematical library is the parameter.\<close>

definition numeric :: "(fp \<Rightarrow> fp) \<Rightarrow> bool \<Rightarrow> fp \<Rightarrow> (fp \<times> bool) option" where
  "numeric FUNC EN op = TEST_EN EN (Zero False) (Some (FUNC op))"

definition ABS_int :: "ity \<Rightarrow> bool \<Rightarrow> int \<Rightarrow> (int \<times> bool) option" where
  "ABS_int t EN op = TEST_EN EN 0
     (if ity_signed t \<and> op < 0 then map_option (conv t) (arith (promote t) (- op)) else Some op)"

definition ABS_real :: "bool \<Rightarrow> fp \<Rightarrow> (fp \<times> bool) option" where
  "ABS_real EN op = TEST_EN EN (Zero False) (Some (if fp_less op (Zero False) then fp_minus op else op))"

text \<open>The functions with any number of operands: \<open>op1\<close>, and the list that \<open>va_arg\<close> reads.\<close>

fun arith_loop :: "('a \<Rightarrow> 'b \<Rightarrow> 'a option) \<Rightarrow> 'a \<Rightarrow> 'b list \<Rightarrow> 'a option" where
  "arith_loop step op1 [] = Some op1"
| "arith_loop step op1 (x # xs) = do { r \<leftarrow> step op1 x; arith_loop step r xs }"

definition arith_expand :: "('a \<Rightarrow> 'b \<Rightarrow> 'a option) \<Rightarrow> 'a \<Rightarrow> bool \<Rightarrow> 'a \<Rightarrow> 'b list \<Rightarrow> ('a \<times> bool) option" where
  "arith_expand step init EN op1 xs = TEST_EN EN init (arith_loop step op1 xs)"

definition int_step :: "(int \<Rightarrow> int \<Rightarrow> int) \<Rightarrow> ity \<Rightarrow> int \<Rightarrow> int \<Rightarrow> int option" where
  "int_step f t a b = map_option (conv t) (arith (va_type t) (f a b))"

definition ADD_int :: "ity \<Rightarrow> bool \<Rightarrow> int \<Rightarrow> int list \<Rightarrow> (int \<times> bool) option" where
  "ADD_int t = arith_expand (int_step (+) t) 0"

definition MUL_int :: "ity \<Rightarrow> bool \<Rightarrow> int \<Rightarrow> int list \<Rightarrow> (int \<times> bool) option" where
  "MUL_int t = arith_expand (int_step (*) t) 0"

text \<open>The other operands of a \<open>REAL\<close> sum are \<open>LREAL\<close>.\<close>

definition ADD_REAL :: "bool \<Rightarrow> fp \<Rightarrow> fp list \<Rightarrow> (fp \<times> bool) option" where
  "ADD_REAL = arith_expand (\<lambda>a b. Some (to_float (fp_add DOUBLE a b))) (Zero False)"

definition ADD_LREAL :: "bool \<Rightarrow> fp \<Rightarrow> fp list \<Rightarrow> (fp \<times> bool) option" where
  "ADD_LREAL = arith_expand (\<lambda>a b. Some (fp_add DOUBLE a b)) (Zero False)"

definition MUL_REAL :: "bool \<Rightarrow> fp \<Rightarrow> fp list \<Rightarrow> (fp \<times> bool) option" where
  "MUL_REAL = arith_expand (\<lambda>a b. Some (to_float (fp_mul DOUBLE a b))) (Zero False)"

definition MUL_LREAL :: "bool \<Rightarrow> fp \<Rightarrow> fp list \<Rightarrow> (fp \<times> bool) option" where
  "MUL_LREAL = arith_expand (\<lambda>a b. Some (fp_mul DOUBLE a b)) (Zero False)"

definition SUB_int :: "ity \<Rightarrow> bool \<Rightarrow> int \<Rightarrow> int \<Rightarrow> (int \<times> bool) option" where
  "SUB_int t EN op1 op2 = TEST_EN EN 0 (map_option (conv t) (arith (promote t) (op1 - op2)))"

definition SUB_real :: "rounding \<Rightarrow> bool \<Rightarrow> fp \<Rightarrow> fp \<Rightarrow> (fp \<times> bool) option" where
  "SUB_real R EN op1 op2 = TEST_EN EN (Zero False) (Some (fp_sub R op1 op2))"

definition DIV_int :: "ity \<Rightarrow> bool \<Rightarrow> int \<Rightarrow> int \<Rightarrow> (int \<times> bool) option" where
  "DIV_int t EN op1 op2 = TEST_EN_COND EN (op2 = 0) 0 (map_option (conv t) (arith (promote t) (op1 sdiv op2)))"

definition fp_is_zero :: "fp \<Rightarrow> bool" where
  "fp_is_zero x = (case x of Zero s \<Rightarrow> True | _ \<Rightarrow> False)"

definition DIV_real :: "rounding \<Rightarrow> bool \<Rightarrow> fp \<Rightarrow> fp \<Rightarrow> (fp \<times> bool) option" where
  "DIV_real R EN op1 op2 = TEST_EN_COND EN (fp_is_zero op2) (Zero False) (Some (fp_div R op1 op2))"

text \<open>A remainder has no result when its quotient overflows.\<close>

definition MOD_int :: "ity \<Rightarrow> bool \<Rightarrow> int \<Rightarrow> int \<Rightarrow> (int \<times> bool) option" where
  "MOD_int t EN op1 op2 = TEST_EN EN 0
     (if op2 = 0 then Some 0
      else do { q \<leftarrow> arith (promote t) (op1 sdiv op2); Some (conv t (op1 smod op2)) })"

definition EXPT_real :: "(fp \<Rightarrow> fp \<Rightarrow> fp) \<Rightarrow> (fp \<Rightarrow> fp) \<Rightarrow> bool \<Rightarrow> fp \<Rightarrow> fp \<Rightarrow> (fp \<times> bool) option" where
  "EXPT_real pow to EN IN1 IN2 = TEST_EN EN (Zero False) (Some (to (pow IN1 IN2)))"

definition MOVE_any :: "'a \<Rightarrow> bool \<Rightarrow> 'a \<Rightarrow> ('a \<times> bool) option" where
  "MOVE_any init EN op1 = TEST_EN EN init (Some op1)"

section \<open>Conversions\<close>

definition convert_type :: "('a \<Rightarrow> 'b option) \<Rightarrow> 'b \<Rightarrow> bool \<Rightarrow> 'a \<Rightarrow> ('b \<times> bool) option" where
  "convert_type oper init EN op = TEST_EN EN init (oper op)"

definition INT_TO_BOOL :: "bool \<Rightarrow> int \<Rightarrow> (bool \<times> bool) option" where
  "INT_TO_BOOL EN op = TEST_EN EN False (Some (op \<noteq> 0))"

definition TIME_TO_BOOL :: "bool \<Rightarrow> timespec \<Rightarrow> (bool \<times> bool) option" where
  "TIME_TO_BOOL EN op = TEST_EN EN False (Some (\<not> (tv_sec op = 0 \<and> tv_nsec op = 0)))"

definition INT_TO_INT :: "ity \<Rightarrow> bool \<Rightarrow> int \<Rightarrow> (int \<times> bool) option" where
  "INT_TO_INT t = convert_type (\<lambda>n. Some (conv t n)) 0"

definition INT_TO_TIME :: "bool \<Rightarrow> int \<Rightarrow> (timespec \<times> bool) option" where
  "INT_TO_TIME = convert_type (\<lambda>n. Some (int_to_time (conv IEC_LINT n))) zero_time"

definition TIME_TO_INT :: "ity \<Rightarrow> bool \<Rightarrow> timespec \<Rightarrow> (int \<times> bool) option" where
  "TIME_TO_INT t = convert_type (\<lambda>x. Some (conv t (time_to_int x))) 0"

definition UINT_TO_BCD :: "ity \<Rightarrow> bool \<Rightarrow> int \<Rightarrow> (int \<times> bool) option" where
  "UINT_TO_BCD t EN op = TEST_EN EN 0 (map_option (\<lambda>w. conv t (uint w)) (uint_to_bcd (of_int op)))"

definition BCD_TO_UINT :: "ity \<Rightarrow> bool \<Rightarrow> int \<Rightarrow> (int \<times> bool) option" where
  "BCD_TO_UINT t EN op = TEST_EN_COND EN (test_bcd (of_int op)) 0 (Some (conv t (uint (bcd_to_uint (of_int op)))))"

section \<open>Bit strings\<close>

text \<open>
  Shifts by a negative number or by the width of the promoted type or more have no result; neither
  has a left shift of an \<open>int\<close> that does not fit 32 bits.
\<close>

definition shl :: "ity \<Rightarrow> int \<Rightarrow> int \<Rightarrow> int option" where
  "shl t v n =
     (let p = promote t in
      if n < 0 \<or> n \<ge> int (ity_bits p) then None
      else if ity_signed p then (if v * 2 ^ nat n < 2 ^ ity_bits p then Some (v * 2 ^ nat n) else None)
      else Some (v * 2 ^ nat n mod 2 ^ ity_bits p))"

definition shr :: "ity \<Rightarrow> int \<Rightarrow> int \<Rightarrow> int option" where
  "shr t v n = (if n < 0 \<or> n \<ge> int (ity_bits (promote t)) then None else Some (v div 2 ^ nat n))"

definition SHL_BOOL :: "bool \<Rightarrow> bool \<Rightarrow> int \<Rightarrow> (bool \<times> bool) option" where
  "SHL_BOOL EN X N = TEST_EN EN False (Some (if N = 0 then X else False))"

definition SHL_nbit :: "ity \<Rightarrow> bool \<Rightarrow> int \<Rightarrow> int \<Rightarrow> (int \<times> bool) option" where
  "SHL_nbit t EN X N = TEST_EN EN 0 (map_option (conv t) (shl t X N))"

definition SHR_BOOL :: "bool \<Rightarrow> bool \<Rightarrow> int \<Rightarrow> (bool \<times> bool) option" where
  "SHR_BOOL EN X N = TEST_EN EN False (Some (if N = 0 then X else False))"

definition SHR_nbit :: "ity \<Rightarrow> bool \<Rightarrow> int \<Rightarrow> int \<Rightarrow> (int \<times> bool) option" where
  "SHR_nbit t EN X N = TEST_EN EN 0 (map_option (conv t) (shr t X N))"

definition ROR_BOOL :: "bool \<Rightarrow> bool \<Rightarrow> int \<Rightarrow> (bool \<times> bool) option" where
  "ROR_BOOL EN X N = TEST_EN EN False (Some X)"

text \<open>\<open>N %= 8*sizeof\<close> is computed in \<open>size_t\<close>, which a negative \<open>N\<close> is converted to.\<close>

definition ROR_nbit :: "ity \<Rightarrow> bool \<Rightarrow> int \<Rightarrow> int \<Rightarrow> (int \<times> bool) option" where
  "ROR_nbit t EN X N = TEST_EN EN 0
     (let w = int (ity_bits t); N = N mod w
      in do { a \<leftarrow> shr t X N; b \<leftarrow> shl t X (w - N); Some (conv t (a OR b)) })"

definition ROL_BOOL :: "bool \<Rightarrow> bool \<Rightarrow> int \<Rightarrow> (bool \<times> bool) option" where
  "ROL_BOOL EN X N = TEST_EN EN False (Some X)"

definition ROL_nbit :: "ity \<Rightarrow> bool \<Rightarrow> int \<Rightarrow> int \<Rightarrow> (int \<times> bool) option" where
  "ROL_nbit t EN X N = TEST_EN EN 0
     (let w = int (ity_bits t); N = N mod w
      in do { a \<leftarrow> shl t X N; b \<leftarrow> shr t X (w - N); Some (conv t (a OR b)) })"

definition AND_BOOL :: "bool \<Rightarrow> bool \<Rightarrow> bool list \<Rightarrow> (bool \<times> bool) option" where
  "AND_BOOL = arith_expand (\<lambda>a b. Some (a \<and> b)) False"

definition AND_nbit :: "ity \<Rightarrow> bool \<Rightarrow> int \<Rightarrow> int list \<Rightarrow> (int \<times> bool) option" where
  "AND_nbit t = arith_expand (int_step (AND) t) 0"

definition OR_BOOL :: "bool \<Rightarrow> bool \<Rightarrow> bool list \<Rightarrow> (bool \<times> bool) option" where
  "OR_BOOL = arith_expand (\<lambda>a b. Some (a \<or> b)) False"

definition OR_nbit :: "ity \<Rightarrow> bool \<Rightarrow> int \<Rightarrow> int list \<Rightarrow> (int \<times> bool) option" where
  "OR_nbit t = arith_expand (int_step (OR) t) 0"

definition XOR_BOOL :: "bool \<Rightarrow> bool \<Rightarrow> bool list \<Rightarrow> (bool \<times> bool) option" where
  "XOR_BOOL = arith_expand (\<lambda>a tmp. Some ((a \<and> \<not> tmp) \<or> (\<not> a \<and> tmp))) False"

definition XOR_nbit :: "ity \<Rightarrow> bool \<Rightarrow> int \<Rightarrow> int list \<Rightarrow> (int \<times> bool) option" where
  "XOR_nbit t = arith_expand (int_step (XOR) t) 0"

definition NOT_BOOL :: "bool \<Rightarrow> bool \<Rightarrow> (bool \<times> bool) option" where
  "NOT_BOOL EN op1 = TEST_EN EN False (Some (\<not> op1))"

definition NOT_nbit :: "ity \<Rightarrow> bool \<Rightarrow> int \<Rightarrow> (int \<times> bool) option" where
  "NOT_nbit t EN op1 = TEST_EN EN 0 (Some (conv t (NOT op1)))"

section \<open>Selection and comparison\<close>

definition SEL_any :: "'a \<Rightarrow> bool \<Rightarrow> bool \<Rightarrow> 'a \<Rightarrow> 'a \<Rightarrow> ('a \<times> bool) option" where
  "SEL_any init EN G op0 op1 = TEST_EN EN init (Some (if G then op1 else op0))"

text \<open>\<open>MAX\<close> and \<open>MIN\<close>: \<open>cond op1 tmp\<close> is \<open>op1 < tmp\<close> or \<open>op1 > tmp\<close> of the type, for times by \<open>__time_cmp\<close>.\<close>

definition extrem :: "('a \<Rightarrow> 'a \<Rightarrow> bool option) \<Rightarrow> 'a \<Rightarrow> bool \<Rightarrow> 'a \<Rightarrow> 'a list \<Rightarrow> ('a \<times> bool) option" where
  "extrem cond = arith_expand (\<lambda>op1 tmp. do { c \<leftarrow> cond op1 tmp; Some (if c then tmp else op1) })"

definition MAX_int :: "bool \<Rightarrow> int \<Rightarrow> int list \<Rightarrow> (int \<times> bool) option" where
  "MAX_int = extrem (\<lambda>a b. Some (a < b)) 0"

definition MIN_int :: "bool \<Rightarrow> int \<Rightarrow> int list \<Rightarrow> (int \<times> bool) option" where
  "MIN_int = extrem (\<lambda>a b. Some (a > b)) 0"

definition MAX_real :: "bool \<Rightarrow> fp \<Rightarrow> fp list \<Rightarrow> (fp \<times> bool) option" where
  "MAX_real = extrem (\<lambda>a b. Some (fp_less a b)) (Zero False)"

definition MIN_real :: "bool \<Rightarrow> fp \<Rightarrow> fp list \<Rightarrow> (fp \<times> bool) option" where
  "MIN_real = extrem (\<lambda>a b. Some (fp_less b a)) (Zero False)"

definition MAX_TIME :: "bool \<Rightarrow> timespec \<Rightarrow> timespec list \<Rightarrow> (timespec \<times> bool) option" where
  "MAX_TIME = extrem (\<lambda>a b. map_option (\<lambda>c. c < 0) (time_cmp a b)) zero_time"

definition MIN_TIME :: "bool \<Rightarrow> timespec \<Rightarrow> timespec list \<Rightarrow> (timespec \<times> bool) option" where
  "MIN_TIME = extrem (\<lambda>a b. map_option (\<lambda>c. c > 0) (time_cmp a b)) zero_time"

text \<open>\<open>gt\<close> and \<open>lt\<close> of the type; the second comparison is only made when the first holds.\<close>

definition limit :: "('a \<Rightarrow> 'a \<Rightarrow> bool option) \<Rightarrow> ('a \<Rightarrow> 'a \<Rightarrow> bool option) \<Rightarrow> 'a \<Rightarrow> bool \<Rightarrow> 'a \<Rightarrow> 'a \<Rightarrow> 'a \<Rightarrow> ('a \<times> bool) option" where
  "limit gt lt init EN MN X MX = TEST_EN EN init
     (do { g \<leftarrow> gt X MN; (if g then do { l \<leftarrow> lt X MX; Some (if l then X else MX) } else Some MN) })"

definition LIMIT_int :: "bool \<Rightarrow> int \<Rightarrow> int \<Rightarrow> int \<Rightarrow> (int \<times> bool) option" where
  "LIMIT_int = limit (\<lambda>a b. Some (a > b)) (\<lambda>a b. Some (a < b)) 0"

definition LIMIT_real :: "bool \<Rightarrow> fp \<Rightarrow> fp \<Rightarrow> fp \<Rightarrow> (fp \<times> bool) option" where
  "LIMIT_real = limit (\<lambda>a b. Some (fp_less b a)) (\<lambda>a b. Some (fp_less a b)) (Zero False)"

definition LIMIT_TIME :: "bool \<Rightarrow> timespec \<Rightarrow> timespec \<Rightarrow> timespec \<Rightarrow> (timespec \<times> bool) option" where
  "LIMIT_TIME = limit (\<lambda>a b. map_option (\<lambda>c. c > 0) (time_cmp a b)) (\<lambda>a b. map_option (\<lambda>c. c < 0) (time_cmp a b)) zero_time"

fun mux_loop :: "int \<Rightarrow> int \<Rightarrow> 'a list \<Rightarrow> 'a \<Rightarrow> 'a" where
  "mux_loop K i [] tmp = tmp"
| "mux_loop K i (x # xs) tmp = (if K = i then x else mux_loop K (i + 1) xs tmp)"

definition MUX_any :: "'a \<Rightarrow> bool \<Rightarrow> int \<Rightarrow> 'a list \<Rightarrow> ('a \<times> bool) option" where
  "MUX_any init EN K xs = TEST_EN_COND EN (K \<ge> int (length xs)) init (Some (mux_loop K 0 xs init))"

text \<open>The comparisons of any number of operands.\<close>

fun compare_loop :: "('a \<Rightarrow> 'a \<Rightarrow> bool option) \<Rightarrow> 'a \<Rightarrow> 'a list \<Rightarrow> bool option" where
  "compare_loop test op1 [] = Some True"
| "compare_loop test op1 (x # xs) = do { c \<leftarrow> test op1 x; (if c then compare_loop test x xs else Some False) }"

definition compare_any :: "('a \<Rightarrow> 'a \<Rightarrow> bool option) \<Rightarrow> bool \<Rightarrow> 'a \<Rightarrow> 'a list \<Rightarrow> (bool \<times> bool) option" where
  "compare_any test EN op1 xs = TEST_EN EN False (compare_loop test op1 xs)"

definition compare_num :: "(int \<Rightarrow> int \<Rightarrow> bool) \<Rightarrow> bool \<Rightarrow> int \<Rightarrow> int list \<Rightarrow> (bool \<times> bool) option" where
  "compare_num TEST = compare_any (\<lambda>a b. Some (TEST a b))"

definition compare_real :: "(fp \<Rightarrow> fp \<Rightarrow> bool) \<Rightarrow> bool \<Rightarrow> fp \<Rightarrow> fp list \<Rightarrow> (bool \<times> bool) option" where
  "compare_real TEST = compare_any (\<lambda>a b. Some (TEST a b))"

definition compare_time :: "(int \<Rightarrow> int \<Rightarrow> bool) \<Rightarrow> bool \<Rightarrow> timespec \<Rightarrow> timespec list \<Rightarrow> (bool \<times> bool) option" where
  "compare_time TEST = compare_any (\<lambda>a b. map_option (\<lambda>c. TEST c 0) (time_cmp a b))"

definition NE_num :: "bool \<Rightarrow> int \<Rightarrow> int \<Rightarrow> (bool \<times> bool) option" where
  "NE_num EN op1 op2 = TEST_EN EN False (Some (op1 \<noteq> op2))"

definition NE_time :: "bool \<Rightarrow> timespec \<Rightarrow> timespec \<Rightarrow> (bool \<times> bool) option" where
  "NE_time EN op1 op2 = TEST_EN EN False (map_option (\<lambda>c. c \<noteq> 0) (time_cmp op1 op2))"

section \<open>Times\<close>

text \<open>\<open>ADD_TIME\<close>, \<open>ADD_TOD_TIME\<close>, \<open>ADD_DT_TIME\<close> and \<open>CONCAT_DATE_TOD\<close>; the six subtractions.\<close>

definition ADD_time :: "bool \<Rightarrow> timespec \<Rightarrow> timespec \<Rightarrow> (timespec \<times> bool) option" where
  "ADD_time EN IN1 IN2 = TEST_EN EN zero_time (time_add IN1 IN2)"

definition SUB_time :: "bool \<Rightarrow> timespec \<Rightarrow> timespec \<Rightarrow> (timespec \<times> bool) option" where
  "SUB_time EN IN1 IN2 = TEST_EN EN zero_time (time_sub IN1 IN2)"

definition MULTIME :: "(rat \<Rightarrow> rat) \<Rightarrow> bool \<Rightarrow> timespec \<Rightarrow> rat \<Rightarrow> (timespec \<times> bool) option" where
  "MULTIME dbl EN IN1 IN2 = TEST_EN EN zero_time (time_mul dbl IN1 IN2)"

definition DIVTIME :: "(rat \<Rightarrow> rat) \<Rightarrow> bool \<Rightarrow> timespec \<Rightarrow> rat \<Rightarrow> (timespec \<times> bool) option" where
  "DIVTIME dbl EN IN1 IN2 = TEST_EN EN zero_time (time_div dbl IN1 IN2)"

section \<open>Types and conversions\<close>

lemma ity_bits_pos [simp]: "0 < ity_bits t" "8 \<le> ity_bits t" "ity_bits t \<le> 64"
  by (cases t; simp)+

lemma conv_in_type [simp]: "in_type t n \<Longrightarrow> conv t n = n"
  by (cases t) (auto simp: in_type_def conv_def)

lemma in_type_conv [simp]: "in_type t (conv t n)"
  by (cases t) (auto simp: in_type_def conv_def)

text \<open>A converted operand may be converted before or after an addition.\<close>

lemma conv_mod: "conv t n mod 2 ^ ity_bits t = n mod 2 ^ ity_bits t"
  unfolding conv_def by (simp add: mod_simps)

lemma conv_cong: "a mod 2 ^ ity_bits t = b mod 2 ^ ity_bits t \<Longrightarrow> conv t a = conv t b"
  unfolding conv_def by (metis mod_add_left_eq)

lemma conv_add: "conv t (conv t a + b) = conv t (a + b)"
  by (rule conv_cong) (metis conv_mod mod_add_left_eq)

section \<open>Sums and quotients\<close>

definition overflows :: "ity \<Rightarrow> bool" where
  "overflows t \<longleftrightarrow> t = IEC_DINT \<or> t = IEC_LINT"

lemma int_step_add:
  assumes "in_type t a" "in_type t b"
  shows "int_step (+) t a b = (if overflows t \<and> \<not> in_type t (a + b) then None else Some (conv t (a + b)))"
proof -
  have "arith (va_type t) (a + b) = Some (a + b) \<or> (\<not> ity_signed t \<and> arith (va_type t) (a + b) = Some ((a + b) mod 2 ^ ity_bits (va_type t)))"
    if "\<not> (overflows t \<and> \<not> in_type t (a + b))"
    using assms that by (cases t) (auto simp: arith_def in_type_def overflows_def)
  moreover have "conv t ((a + b) mod 2 ^ ity_bits (va_type t)) = conv t (a + b)"
  proof (rule conv_cong)
    have "2 ^ ity_bits t dvd (2 :: int) ^ ity_bits (va_type t)" by (cases t) (simp_all add: le_imp_power_dvd)
    then show "(a + b) mod 2 ^ ity_bits (va_type t) mod 2 ^ ity_bits t = (a + b) mod 2 ^ ity_bits t" by (rule mod_mod_cancel)
  qed
  moreover have "arith (va_type t) (a + b) = None" if "overflows t" "\<not> in_type t (a + b)"
    using that by (auto simp: overflows_def arith_def)
  ultimately show ?thesis by (auto simp: int_step_def)
qed

text \<open>\<open>ADD\<close> of any number of operands is their sum, wrapped at the width of the type, except that for
  \<open>DINT\<close> and \<open>LINT\<close> it has no result as soon as a partial sum overflows.\<close>

theorem ADD_sums:
  assumes "in_type t op1" "list_all (in_type t) xs"
  shows "ADD_int t True op1 xs =
    (if overflows t \<and> \<not> list_all (\<lambda>k. in_type t (op1 + sum_list (take k xs))) [0 ..< Suc (length xs)] then None
     else Some (conv t (op1 + sum_list xs), True))"
proof -
  let ?ok = "\<lambda>a xs. list_all (\<lambda>k. in_type t (a + sum_list (take k xs))) [0 ..< Suc (length xs)]"
  have cons: "?ok a (x # xs) \<longleftrightarrow> in_type t a \<and> ?ok (a + x) xs" for a x xs
    unfolding list_all_iff set_upt by (simp add: Ball_def All_less_Suc2 add.assoc del: upt_Suc)
  have "arith_loop (int_step (+) t) a xs =
      (if overflows t \<and> \<not> ?ok a xs then None else Some (conv t (a + sum_list xs)))"
    if "in_type t a" "list_all (in_type t) xs" for a
    using that
  proof (induction xs arbitrary: a)
    case Nil
    then show ?case by simp
  next
    case (Cons x xs)
    then have x: "in_type t x" "list_all (in_type t) xs" by simp_all
    show ?case
    proof (cases "overflows t \<and> \<not> in_type t (a + x)")
      case True
      moreover have "\<not> ?ok (a + x) xs" using True by (simp add: upt_conv_Cons del: upt_Suc)
      ultimately show ?thesis using int_step_add [OF Cons.prems(1) x(1)] cons [of a x xs] by simp
    next
      case False
      have "conv t (a + x) + sum_list (take k xs) = a + x + sum_list (take k xs)" if "overflows t" for k
        using that False by simp
      moreover have "conv t (conv t (a + x) + sum_list xs) = conv t (a + sum_list (x # xs))"
        by (simp add: conv_add add.assoc)
      ultimately show ?thesis
        using int_step_add [OF Cons.prems(1) x(1)] False Cons.IH [OF in_type_conv x(2), of "a + x"] cons [of a x xs] Cons.prems(1)
        by (auto simp del: upt_Suc)
    qed
  qed
  then show ?thesis using assms by (simp add: ADD_int_def arith_expand_def TEST_EN_def)
qed

theorem ADD_sums_witness:
  "ADD_int IEC_USINT True 200 [100, 7] = Some (51, True) \<and> ADD_int IEC_DINT True 2147483647 [1, -5] = None"
proof -
  have "in_type IEC_USINT 200" "list_all (in_type IEC_USINT) [100, 7]" by (simp_all add: in_type_def)
  from ADD_sums [OF this] have "ADD_int IEC_USINT True 200 [100, 7] = Some (51, True)"
    by (simp add: overflows_def conv_def)
  moreover have "in_type IEC_DINT 2147483647" "list_all (in_type IEC_DINT) [1, -5]" by (simp_all add: in_type_def)
  from ADD_sums [OF this] have "ADD_int IEC_DINT True 2147483647 [1, -5] = None"
    by (simp add: overflows_def in_type_def upt_rec)
  ultimately show ?thesis by blast
qed

lemma smod_between: "min 0 a \<le> a smod b \<and> a smod b \<le> max 0 (a :: int)"
proof (cases "b = 0")
  case False
  then have "\<bar>a\<bar> mod \<bar>b\<bar> \<le> \<bar>a\<bar>" "0 \<le> \<bar>a\<bar> mod \<bar>b\<bar>" by (simp_all add: zmod_le_nonneg_dividend)
  then show ?thesis by (cases a "0 :: int" rule: linorder_cases) (simp_all add: smod_int_alt_def)
qed simp

lemma smod_less: "b \<noteq> 0 \<Longrightarrow> \<bar>a smod b\<bar> < \<bar>b :: int\<bar>"
  by (cases a "0 :: int" rule: linorder_cases) (simp_all add: smod_int_alt_def)

text \<open>\<open>DIV\<close> truncates and \<open>MOD\<close> gives the remainder with the sign of the dividend. Division by 0 gives
  0, with \<open>ENO\<close> cleared by \<open>DIV\<close> and set by \<open>MOD\<close>; the least \<open>DINT\<close> or \<open>LINT\<close> by -1 has no result.\<close>

theorem DIV_MOD:
  assumes "in_type t a" "in_type t b"
  shows "if b = 0 then DIV_int t True a b = Some (0, False) \<and> MOD_int t True a b = Some (0, True)
    else if in_type (promote t) (a sdiv b)
    then \<exists>r. DIV_int t True a b = Some (conv t (a sdiv b), True) \<and> MOD_int t True a b = Some (r, True) \<and>
      a = b * (a sdiv b) + r \<and> \<bar>r\<bar> < \<bar>b\<bar>
    else DIV_int t True a b = None \<and> MOD_int t True a b = None"
proof -
  have "a = b * (a sdiv b) + a smod b" by (simp add: mult_sdiv_smod_eq)
  moreover have "in_type t (a smod b)"
    using assms(1) smod_between [of a b] by (auto simp: in_type_def split: if_splits)
  moreover have "arith (promote t) (a sdiv b) = (if in_type (promote t) (a sdiv b) then Some (a sdiv b) else None)"
    if "b \<noteq> 0"
  proof (cases "ity_signed (promote t)")
    case False
    then have "\<not> ity_signed t" "promote t = t" by (cases t; simp add: promote_def)+
    then have "0 \<le> a sdiv b" "a sdiv b \<le> a" "in_type t a"
      using assms sdiv_int_range [of a b]
      by (auto simp: in_type_def signed_divide_int_def sgn_if pos_imp_zdiv_nonneg_iff)
    then show ?thesis using False \<open>promote t = t\<close> by (simp add: arith_def in_type_def)
  qed (simp add: arith_def)
  ultimately show ?thesis
    using smod_less [of b a] by (auto simp: DIV_int_def MOD_int_def TEST_EN_def TEST_EN_COND_def)
qed

section \<open>Rotation\<close>

lemma rotate_right:
  fixes w :: "'a::len word"
  assumes "N = nat (n mod int LENGTH('a))"
  shows "take_bit LENGTH('a) (drop_bit N (uint w) OR push_bit (LENGTH('a) - N) (uint w)) = uint (word_roti n w)"
proof (rule bit_eqI)
  fix i
  have N: "N < LENGTH('a)" using assms by (simp add: nat_less_iff)
  have "int i + n = int (i + N) + int LENGTH('a) * (n div int LENGTH('a))"
    using assms by (simp add: mult_div_mod_eq)
  then have "(int i + n) mod int LENGTH('a) = int (i + N) mod int LENGTH('a)" by (simp only: mod_mult_self2)
  then have "nat ((int i + n) mod int LENGTH('a)) = (i + N) mod LENGTH('a)" by (metis nat_int of_nat_mod)
  moreover have "i < LENGTH('a) \<Longrightarrow> (i + N) mod LENGTH('a) = (if i + N < LENGTH('a) then i + N else i + N - LENGTH('a))"
    using N by (simp add: le_mod_geq)
  ultimately show "bit (take_bit LENGTH('a) (drop_bit N (uint w) OR push_bit (LENGTH('a) - N) (uint w))) i = bit (uint (word_roti n w)) i"
    using N by (auto simp: bit_simps bit_uint_iff add.commute simp del: word_roti_eq_word_rotr_word_rotl
        split: if_splits dest: bit_imp_le_length)
qed

lemma conv_unsigned: "\<not> ity_signed t \<Longrightarrow> conv t n = take_bit (ity_bits t) n"
  by (simp add: conv_def take_bit_eq_mod)

lemma unsigned_promote:
  assumes "\<not> ity_signed t"
  shows "ity_bits t < 32 \<Longrightarrow> promote t = IEC_DINT \<and> ity_bits t \<le> 16" "32 \<le> ity_bits t \<Longrightarrow> promote t = t"
  using assms by (cases t; simp add: promote_def)+

lemma shr_bits:
  assumes "k < ity_bits t \<or> (ity_bits t < 32 \<and> k \<le> ity_bits t)" "\<not> ity_signed t"
  shows "shr t v (int k) = Some (drop_bit k v)"
  using assms unsigned_promote [OF assms(2)] by (cases "ity_bits t < 32") (auto simp: shr_def drop_bit_eq_div)

lemma shl_bits:
  assumes "k < ity_bits t \<or> (ity_bits t < 32 \<and> k \<le> ity_bits t)" "\<not> ity_signed t" "in_type t v"
  shows "\<exists>b. shl t v (int k) = Some b \<and> take_bit (ity_bits t) b = take_bit (ity_bits t) (push_bit k v)"
proof (cases "ity_bits t < 32")
  case True
  then have p: "promote t = IEC_DINT" "ity_bits t \<le> 16" "k \<le> 16" using unsigned_promote [OF assms(2)] assms(1) by auto
  have "(2 :: int) ^ k \<le> 2 ^ 16" using p(3) by (intro power_increasing) simp_all
  moreover have "0 \<le> v" "v < 2 ^ 16"
    using assms(2,3) p(2) power_increasing [of "ity_bits t" 16 "2 :: int"] by (auto simp: in_type_def)
  ultimately have "v * 2 ^ k \<le> v * 2 ^ 16" "v * 2 ^ 16 < 2 ^ 32" by (simp_all add: mult_left_mono)
  then show ?thesis using p by (simp add: shl_def Let_def push_bit_eq_mult)
next
  case False
  then have "promote t = t" using unsigned_promote [OF assms(2)] by simp
  then show ?thesis using False assms by (simp add: shl_def Let_def push_bit_eq_mult take_bit_eq_mod)
qed

lemma rotate_left:
  fixes w :: "'a::len word"
  assumes "N = nat (n mod int LENGTH('a))"
  shows "take_bit LENGTH('a) (drop_bit (LENGTH('a) - N) (uint w) OR push_bit N (uint w)) = uint (word_roti (- n) w)"
proof (cases "N = 0")
  case True
  then have "n mod int LENGTH('a) = 0" using assms pos_mod_sign [of "int LENGTH('a)" n] by (simp add: order_antisym)
  then have "(- n) mod int LENGTH('a) = 0" by (simp add: mod_eq_0_iff_dvd)
  then have "0 = nat ((- n) mod int LENGTH('a))" by simp
  moreover have "drop_bit LENGTH('a) (uint w) = 0" using unsigned_less [of w] by (simp add: drop_bit_eq_div)
  ultimately show ?thesis using rotate_right [of 0 "- n" w] True
    by (simp add: take_bit_push_bit del: word_roti_eq_word_rotr_word_rotl)
next
  case False
  have N: "n mod int LENGTH('a) = int N" "N < LENGTH('a)" using assms by (simp_all add: nat_less_iff)
  then have "(- n) mod int LENGTH('a) = int (LENGTH('a) - N)" using False by (simp add: zmod_zminus1_eq_if)
  then have "LENGTH('a) - N = nat ((- n) mod int LENGTH('a))" by simp
  from rotate_right [OF this, of w] show ?thesis using N by (simp only: diff_diff_cancel less_imp_le)
qed

text \<open>C31: \<open>ROR\<close> and \<open>ROL\<close> rotate a bit string by any number of places, negative ones the other way,
  except that a \<open>DWORD\<close> or \<open>LWORD\<close> rotated by a multiple of its width is shifted by its width, which C
  gives no meaning.\<close>

theorem ROR_ROL_rotate:
  fixes w :: "'a::len word"
  assumes "LENGTH('a) = ity_bits t" "\<not> ity_signed t"
  shows "if 32 \<le> ity_bits t \<and> n mod int (ity_bits t) = 0
    then ROR_nbit t True (uint w) n = None \<and> ROL_nbit t True (uint w) n = None
    else ROR_nbit t True (uint w) n = Some (uint (word_roti n w), True) \<and>
      ROL_nbit t True (uint w) n = Some (uint (word_roti (- n) w), True)"
proof -
  let ?W = "ity_bits t"
  define N where "N = nat (n mod int ?W)"
  have N: "n mod int ?W = int N" "N < ?W" by (simp_all add: N_def nat_less_iff)
  have w: "in_type t (uint w)" using assms unsigned_less [of w] by (simp add: in_type_def)
  have i: "int ?W - int N = int (?W - N)" using N by simp
  show ?thesis
  proof (cases "32 \<le> ?W \<and> N = 0")
    case True
    then have "shl t (uint w) (int ?W) = None" "shr t (uint w) (int ?W) = None"
      using unsigned_promote [OF assms(2)] by (simp_all add: shl_def shr_def Let_def)
    then show ?thesis using True N by (auto simp: ROR_nbit_def ROL_nbit_def TEST_EN_def Let_def split: Option.bind_splits)
  next
    case False
    have "N < ?W \<or> ?W < 32 \<and> N \<le> ?W" "?W - N < ?W \<or> ?W < 32 \<and> ?W - N \<le> ?W" using N False by auto
    note k = this
    obtain b where b: "shl t (uint w) (int (?W - N)) = Some b" "take_bit ?W b = take_bit ?W (push_bit (?W - N) (uint w))"
      using shl_bits [OF k(2) assms(2) w] by blast
    obtain c where c: "shl t (uint w) (int N) = Some c" "take_bit ?W c = take_bit ?W (push_bit N (uint w))"
      using shl_bits [OF k(1) assms(2) w] by blast
    have "ROR_nbit t True (uint w) n = Some (take_bit ?W (drop_bit N (uint w) OR push_bit (?W - N) (uint w)), True)"
      unfolding ROR_nbit_def TEST_EN_def Let_def N(1) i shr_bits [OF k(1) assms(2)] b(1)
      by (simp only: bind.bind_lunit conv_unsigned [OF assms(2)] take_bit_or b(2) not_True_eq_False if_False option.map)
    also have "\<dots> = Some (uint (word_roti n w), True)"
      using rotate_right [of N n w] assms(1) by (simp only: N_def)
    finally have r: "ROR_nbit t True (uint w) n = Some (uint (word_roti n w), True)" .
    have "ROL_nbit t True (uint w) n = Some (take_bit ?W (drop_bit (?W - N) (uint w) OR push_bit N (uint w)), True)"
      unfolding ROL_nbit_def TEST_EN_def Let_def N(1) i shr_bits [OF k(2) assms(2)] c(1)
      by (simp only: bind.bind_lunit conv_unsigned [OF assms(2)] take_bit_or c(2) or.commute not_True_eq_False if_False option.map)
    also have "\<dots> = Some (uint (word_roti (- n) w), True)"
      using rotate_left [of N n w] assms(1) by (simp only: N_def)
    finally show ?thesis using r False N by auto
  qed
qed

theorem ROR_ROL_rotate_witness:
  "ROL_nbit IEC_BYTE True 129 1 = Some (3, True) \<and> ROR_nbit IEC_DWORD True 1 32 = None"
proof -
  have "uint (word_roti (- 1) (129 :: 8 word)) = 3"
    using rotate_right [of 7 "- 1" "129 :: 8 word"]
    by (simp add: drop_bit_eq_div push_bit_eq_mult take_bit_eq_mod del: word_roti_eq_word_rotr_word_rotl)
  then have "ROL_nbit IEC_BYTE True 129 1 = Some (3, True)"
    using ROR_ROL_rotate [where w = "129 :: 8 word" and t = IEC_BYTE and n = 1] by (simp del: word_roti_eq_word_rotr_word_rotl)
  moreover have "ROR_nbit IEC_DWORD True 1 32 = None"
    using ROR_ROL_rotate [where w = "1 :: 32 word" and t = IEC_DWORD and n = 32] by simp
  ultimately show ?thesis by blast
qed

section \<open>Comparison chains and limits\<close>

text \<open>A comparison of several operands holds exactly when they are sorted: every operand before every
  later one, for \<open>GT\<close>, \<open>GE\<close>, \<open>EQ\<close>, \<open>LE\<close> and \<open>LT\<close> alike.\<close>

theorem compare_num_sorted:
  assumes "transp TEST"
  shows "compare_num TEST True op1 xs = Some (sorted_wrt TEST (op1 # xs), True)"
proof -
  have "compare_loop (\<lambda>a b. Some (TEST a b)) a xs = Some (successively TEST (a # xs))" for a
    by (induction xs arbitrary: a) simp_all
  then show ?thesis using assms successively_iff_sorted_wrt_strong [of "op1 # xs" TEST]
    by (auto simp: compare_num_def compare_any_def TEST_EN_def successively_conv_sorted_wrt)
qed

theorem compare_num_sorted_witness:
  "compare_num (>) True 9 [5, 2] = Some (True, True) \<and> compare_num (>) True 9 [2, 5] = Some (False, True)"
proof -
  have t: "transp ((>) :: int \<Rightarrow> int \<Rightarrow> bool)" by (auto intro: transpI)
  show ?thesis unfolding compare_num_sorted [OF t] by simp
qed

text \<open>\<open>LIMIT\<close> clamps its input, \<open>MAX\<close> and \<open>MIN\<close> are the extrema of all their operands, and \<open>MUX\<close> selects
  the \<open>K\<close>-th one; a negative \<open>K\<close> gives the initial value, with \<open>ENO\<close> set.\<close>

theorem selections:
  "MN \<le> MX \<Longrightarrow> LIMIT_int True MN X MX = Some (max MN (min X MX), True)"
  "MAX_int True a xs = Some (Max (set (a # xs)), True)"
  "MIN_int True a xs = Some (Min (set (a # xs)), True)"
  "MUX_any init True K ys = (if K < 0 then Some (init, True)
     else if K < int (length ys) then Some (ys ! nat K, True) else Some (init, False))"
proof -
  show "LIMIT_int True MN X MX = Some (max MN (min X MX), True)" if "MN \<le> MX"
    using that by (simp add: LIMIT_int_def limit_def TEST_EN_def)
  have "arith_loop (\<lambda>op1 tmp. Some (op1 < tmp) \<bind> (\<lambda>c. Some (if c then tmp else op1))) a xs = Some (fold max xs a)" for a
    by (induction xs arbitrary: a) (simp_all add: max_def)
  then show "MAX_int True a xs = Some (Max (set (a # xs)), True)"
    unfolding Max.set_eq_fold by (simp add: MAX_int_def extrem_def arith_expand_def TEST_EN_def)
  have "arith_loop (\<lambda>op1 tmp. Some (op1 > tmp) \<bind> (\<lambda>c. Some (if c then tmp else op1))) a xs = Some (fold min xs a)" for a
    by (induction xs arbitrary: a) (simp_all add: min_def)
  then show "MIN_int True a xs = Some (Min (set (a # xs)), True)"
    unfolding Min.set_eq_fold by (simp add: MIN_int_def extrem_def arith_expand_def TEST_EN_def)
  have "mux_loop K i ys init = (if i \<le> K \<and> K < i + int (length ys) then ys ! nat (K - i) else init)" for i
    by (induction ys arbitrary: i) (auto simp: nth_Cons' nat_eq_iff intro!: arg_cong2 [where f = nth])
  from this [of 0] show "MUX_any init True K ys = (if K < 0 then Some (init, True)
     else if K < int (length ys) then Some (ys ! nat K, True) else Some (init, False))"
    by (auto simp: MUX_any_def TEST_EN_COND_def)
qed

section \<open>BCD\<close>

text \<open>The number whose hexadecimal digits are the decimal digits of \<open>n\<close>.\<close>

fun bcd :: "nat \<Rightarrow> nat" where
  "bcd n = (if n < 10 then n else n mod 10 + 16 * bcd (n div 10))"

declare bcd.simps [simp del]

lemma bcd_digit: "bcd n mod 16 = n mod 10" "bcd n div 16 = bcd (n div 10)"
  by (simp_all add: bcd.simps [of n] bcd.simps [of 0] div_add1_eq)

lemma bcd_zero: "bcd n = 0 \<longleftrightarrow> n = 0"
proof (induction n rule: bcd.induct)
  case (1 n)
  then show ?case by (cases "n < 10") (auto simp: bcd.simps [of n])
qed

lemma bcd_less: "n < 10 ^ k \<Longrightarrow> bcd n < 16 ^ k"
proof (induction k arbitrary: n)
  case 0
  then show ?case by (simp add: bcd.simps)
next
  case (Suc k)
  then have "n div 10 < 10 ^ k" by (simp add: less_mult_imp_div_less mult.commute)
  then have "bcd n div 16 < 16 ^ k" using Suc.IH by (simp add: bcd_digit)
  then show ?case by (simp add: div_less_iff_less_mult mult.commute)
qed

lemma word_of_unat: "unat (w :: 'a::len word) = m \<Longrightarrow> w = of_nat m"
  by auto

text \<open>One digit less, in words of 64 bits.\<close>

lemma bcd_word:
  assumes "bcd n < 2 ^ 64"
  shows "unat (of_nat (bcd n) :: c_long) = bcd n" "(of_nat (bcd n) :: c_long) AND 15 = of_nat (n mod 10)"
    "drop_bit 4 (of_nat (bcd n) :: c_long) = of_nat (bcd (n div 10))" "(of_nat (bcd n) :: c_long) = 0 \<longleftrightarrow> n = 0"
proof -
  show u: "unat (of_nat (bcd n) :: c_long) = bcd n" using assms by (simp add: unat_of_nat)
  have "(of_nat (bcd n) :: c_long) AND 15 = take_bit 4 (of_nat (bcd n))" by (simp add: take_bit_eq_mask mask_numeral)
  moreover have "unat (take_bit 4 (of_nat (bcd n) :: c_long)) = n mod 10"
    by (simp only: unsigned_take_bit_eq u) (simp add: take_bit_eq_mod bcd_digit)
  ultimately show "(of_nat (bcd n) :: c_long) AND 15 = of_nat (n mod 10)" by (metis word_of_unat)
  have "unat (drop_bit 4 (of_nat (bcd n) :: c_long)) = bcd (n div 10)" by (simp only: unat_drop4 u bcd_digit)
  then show "drop_bit 4 (of_nat (bcd n) :: c_long) = of_nat (bcd (n div 10))" by (metis word_of_unat)
  show "(of_nat (bcd n) :: c_long) = 0 \<longleftrightarrow> n = 0" using u bcd_zero by (metis unat_eq_zero)
qed

lemma bcd_div_less: "bcd n < 2 ^ 64 \<Longrightarrow> bcd (n div 10) < 2 ^ 64"
  using bcd_digit(2) [of n] by (metis div_le_dividend le_less_trans)

lemma test_bcd_digits: "bcd n < 2 ^ 64 \<Longrightarrow> \<not> test_bcd (of_nat (bcd n))"
proof (induction n rule: bcd.induct)
  case (1 n)
  have d: "\<not> (9 :: c_long) < of_nat (n mod 10)" by (simp add: word_less_nat_alt unat_of_nat)
  have r: "n \<noteq> 0 \<Longrightarrow> \<not> test_bcd (of_nat (bcd (n div 10)))"
    using 1 bcd_div_less by (cases "n < 10") (auto simp: bcd.simps [of 0] test_bcd.simps [of 0])
  show ?case using d r bcd_word [OF 1(2)] by (subst test_bcd.simps) (simp del: bcd.simps)
qed

lemma bcd_digits_sum: "bcd n < 2 ^ 64 \<Longrightarrow> bcd_digits (of_nat (bcd n)) res factor = res + of_nat (n div 10) * factor"
proof (induction n arbitrary: res factor rule: bcd.induct)
  case (1 n)
  show ?case
  proof (cases "n < 10")
    case True
    then show ?thesis using bcd_word [OF 1(2)] by (subst bcd_digits.simps) (simp add: Let_def bcd.simps [of 0])
  next
    case False
    let ?q = "n div 10"
    have q: "bcd ?q < 2 ^ 64" using 1(2) by (rule bcd_div_less)
    have "of_nat ?q = (of_nat (?q mod 10) + 10 * of_nat (?q div 10) :: c_long)"
      by (metis mod_mult_div_eq of_nat_add of_nat_mult of_nat_numeral)
    then have e: "res + of_nat (?q mod 10) * factor + of_nat (?q div 10) * (factor * 10) = res + of_nat ?q * factor"
      by (simp add: algebra_simps)
    have "bcd_digits (of_nat (bcd n)) res factor = bcd_digits (of_nat (bcd ?q)) (res + of_nat (?q mod 10) * factor) (factor * 10)"
      using False bcd_word [OF 1(2)] bcd_word [OF q] by (subst bcd_digits.simps) (simp add: Let_def div_eq_0_iff)
    then show ?thesis using 1(1) [OF False q] e by simp
  qed
qed

text \<open>The other direction writes the digits from bit \<open>4 k\<close> on, as long as they fit 64 bits.\<close>

lemma of_nat_bcd:
  "push_bit s (of_nat (n mod 10) :: c_long) OR push_bit (s + 4) (of_nat (bcd (n div 10))) = push_bit s (of_nat (bcd n))"
  using of_nat_hex [of "bcd n"] unfolding bcd_digit by (metis push_bit_or push_bit_push_bit)

lemma of_nat_digit:
  assumes "n < 2 ^ 64"
  shows "(of_nat n :: c_long) div 10 = of_nat (n div 10)" "(of_nat n :: c_long) mod 10 = of_nat (n mod 10)"
    "(of_nat n :: c_long) = 0 \<longleftrightarrow> n = 0"
proof -
  have u: "unat (of_nat n :: c_long) = n" using assms by (simp add: unat_of_nat)
  show "(of_nat n :: c_long) div 10 = of_nat (n div 10)" by (rule word_of_unat) (simp add: unat_div u)
  show "(of_nat n :: c_long) mod 10 = of_nat (n mod 10)" by (rule word_of_unat) (simp add: unat_mod u)
  show "(of_nat n :: c_long) = 0 \<longleftrightarrow> n = 0" using u by (metis unat_eq_zero)
qed

lemma uint_digits_bcd:
  "n < 2 ^ 64 \<Longrightarrow> k \<le> 16 \<Longrightarrow> uint_digits (of_nat n) res (4 * k) =
    (if n div 10 < 10 ^ (16 - k) then Some (res OR push_bit (4 * k) (of_nat (bcd (n div 10)))) else None)"
proof (induction n arbitrary: k res rule: bcd.induct)
  case (1 n)
  let ?q = "n div 10"
  have q: "?q < 2 ^ 64" using 1(2) by linarith
  show ?case
  proof (cases "?q = 0")
    case True
    then show ?thesis using 1(2) of_nat_digit [OF 1(2)]
      by (subst uint_digits.simps) (simp add: Let_def bcd.simps [of 0])
  next
    case False
    then have step: "uint_digits (of_nat n) res (4 * k) =
        (if k < 16 then uint_digits (of_nat ?q) (res OR push_bit (4 * k) (of_nat (?q mod 10))) (4 * Suc k) else None)"
      using of_nat_digit [OF 1(2)] of_nat_digit [OF q] by (subst uint_digits.simps) (simp add: Let_def add.commute)
    show ?thesis
    proof (cases "k < 16")
      case True
      then have k: "16 - k = Suc (16 - Suc k)" by simp
      have lt: "?q < 10 ^ (16 - k) \<longleftrightarrow> ?q div 10 < 10 ^ (16 - Suc k)"
        unfolding k by (simp add: div_less_iff_less_mult mult.commute)
      have "\<not> n < 10" using False by simp
      from 1(1) [OF this q, of "Suc k"] True show ?thesis
        unfolding step lt by (simp add: or.assoc of_nat_bcd [of "4 * k", simplified add.commute] flip: of_nat_bcd [of "4 * k" ?q])
    next
      case big: False
      then have "k = 16" using 1(3) by simp
      then show ?thesis unfolding step using False by simp
    qed
  qed
qed

text \<open>An unsigned number with at most as many decimal digits as the bit string has hexadecimal ones is
  converted to BCD and back without loss. Of a larger one the leading digits are lost, and from \<open>10^16\<close>
  on the conversion shifts by 64 bits, which has no result.\<close>

theorem BCD_roundtrip:
  assumes "\<not> ity_signed t" "0 \<le> n" "n < 2 ^ 64" "in_type t' n"
  shows "if n < 10 ^ (ity_bits t div 4)
    then \<exists>b. UINT_TO_BCD t True n = Some (b, True) \<and> BCD_TO_UINT t' True b = Some (n, True)
    else if n < 10 ^ 16 then UINT_TO_BCD t True n = Some (int (bcd (nat n)) mod 2 ^ ity_bits t, True)
    else UINT_TO_BCD t True n = None"
proof -
  define m where "m = nat n"
  have n: "n = int m" "m < 2 ^ 64" using assms by (simp_all add: m_def)
  have "uint_to_bcd (of_int n) = (if m < 10 ^ 16 then Some (of_nat (bcd m)) else None)"
  proof -
    have "m div 10 < 10 ^ (16 - 1) \<longleftrightarrow> m < 10 ^ 16" by (simp add: div_less_iff_less_mult)
    then show ?thesis
      using uint_digits_bcd [of m 1 "of_nat (m mod 10)"] n(2) of_nat_digit [OF n(2)] of_nat_bcd [of 0 m]
      by (simp add: uint_to_bcd_def n(1))
  qed
  moreover have "uint (of_nat (bcd m) :: c_long) = int (bcd m)" if "m < 10 ^ 16"
    using bcd_less [OF that] by (simp add: uint_nat unat_of_nat)
  ultimately have to: "UINT_TO_BCD t True n = (if m < 10 ^ 16 then Some (conv t (int (bcd m)), True) else None)"
    by (simp add: UINT_TO_BCD_def TEST_EN_def)
  have d: "ity_bits t div 4 \<le> 16" "4 * (ity_bits t div 4) = ity_bits t" by (cases t; simp)+
  show ?thesis
  proof (cases "n < 10 ^ (ity_bits t div 4)")
    case True
    then have m: "m < 10 ^ (ity_bits t div 4)" using n(1) by (metis of_nat_less_iff of_nat_numeral of_nat_power)
    have "bcd m < 16 ^ (ity_bits t div 4)" using m by (rule bcd_less)
    also have "\<dots> = 2 ^ (4 * (ity_bits t div 4))" by (simp only: power_mult) simp
    also have "\<dots> = 2 ^ ity_bits t" by (simp only: d(2))
    finally have c: "conv t (int (bcd m)) = int (bcd m)" using assms(1)
      by (simp add: conv_def)
    have "m < 10 ^ 16" using m by (rule order_less_le_trans) (use d(1) in \<open>intro power_increasing, simp_all\<close>)
    then have b: "bcd m < 2 ^ 64" using bcd_less [of m 16] by simp
    have "bcd_to_uint (of_nat (bcd m)) = of_nat m"
    proof -
      have "of_nat (m mod 10) + of_nat (m div 10) * 10 = (of_nat m :: c_long)"
        by (metis mod_div_mult_eq of_nat_add of_nat_mult of_nat_numeral)
      then show ?thesis unfolding bcd_to_uint_def bcd_digits_sum [OF b] by (simp add: bcd_word [OF b])
    qed
    moreover have "uint (of_nat m :: c_long) = n" using n by (simp add: uint_nat unat_of_nat)
    ultimately have "BCD_TO_UINT t' True (int (bcd m)) = Some (n, True)"
      using test_bcd_digits [OF b] assms(4) by (simp add: BCD_TO_UINT_def TEST_EN_COND_def)
    then show ?thesis using True to c \<open>m < 10 ^ 16\<close> by simp
  next
    case False
    moreover have "n < 10 ^ 16 \<longleftrightarrow> m < 10 ^ 16" unfolding n(1) by (metis of_nat_less_iff of_nat_numeral of_nat_power)
    ultimately show ?thesis unfolding to m_def [symmetric] using assms(1) by (simp only: conv_def if_False if_cancel split: if_split) simp
  qed
qed

theorem BCD_roundtrip_witness:
  "\<exists>b. UINT_TO_BCD IEC_BYTE True 59 = Some (b, True) \<and> BCD_TO_UINT IEC_USINT True b = Some (59, True)"
  using BCD_roundtrip [of IEC_BYTE 59 IEC_USINT] by (simp add: in_type_def)

end
