(* ===== verification/IecStringFunctions.thy ===== *)
theory IecStringFunctions
  imports IecFunctions
begin

text \<open>
  The functions on \<open>STRING\<close> of \<open>src/core/lib/iec_std_functions.h\<close>. Lengths are of type \<open>int8_t\<close>,
  which positions of the other integer types are cast to; every \<open>memcpy\<close> must stay in its arrays.
\<close>

section \<open>The functions\<close>

text \<open>\<open>memcpy(&dst[d], &src[s], n)\<close>: a negative \<open>n\<close> is a huge \<open>size_t\<close>.\<close>

definition copy_chars :: "char list \<Rightarrow> int \<Rightarrow> char list \<Rightarrow> int \<Rightarrow> int \<Rightarrow> char list option" where
  "copy_chars dst d src s n =
     (if 0 \<le> n \<and> 0 \<le> d \<and> 0 \<le> s \<and> d + n \<le> int (length dst) \<and> s + n \<le> int (length src)
      then Some (take (nat d) dst @ take (nat n) (drop (nat s) src) @ drop (nat (d + n)) dst) else None)"

definition INIT_STRING :: iec_string where
  "INIT_STRING = \<lparr>len = 0, body = replicate STR_MAX_LEN NUL\<rparr>"

definition strlen_t :: "int \<Rightarrow> int" where
  "strlen_t = conv IEC_SINT"

definition LEN_STRING :: "ity \<Rightarrow> bool \<Rightarrow> iec_string \<Rightarrow> (int \<times> bool) option" where
  "LEN_STRING t EN s = TEST_EN EN 0 (Some (conv t (len s)))"

definition LEFT_STRING :: "ity \<Rightarrow> bool \<Rightarrow> iec_string \<Rightarrow> int \<Rightarrow> (iec_string \<times> bool) option" where
  "LEFT_STRING t EN s L = TEST_EN_COND EN (L < 0) INIT_STRING
     (let L = (if L < conv t (len s) then L else conv t (len s))
      in do { b \<leftarrow> copy_chars (body INIT_STRING) 0 (body s) 0 L; Some \<lparr>len = strlen_t L, body = b\<rparr> })"

definition RIGHT_STRING :: "ity \<Rightarrow> bool \<Rightarrow> iec_string \<Rightarrow> int \<Rightarrow> (iec_string \<times> bool) option" where
  "RIGHT_STRING t EN s L = TEST_EN_COND EN (L < 0) INIT_STRING
     (let L = (if L < conv t (len s) then L else conv t (len s))
      in do { b \<leftarrow> copy_chars (body INIT_STRING) 0 (body s) (conv t (len s) - L) L; Some \<lparr>len = strlen_t L, body = b\<rparr> })"

definition MID_STRING :: "ity \<Rightarrow> bool \<Rightarrow> iec_string \<Rightarrow> int \<Rightarrow> int \<Rightarrow> (iec_string \<times> bool) option" where
  "MID_STRING t EN s L P = TEST_EN_COND EN (L < 0 \<or> P < 0) INIT_STRING
     (if P \<le> conv t (len s) then do {
        let P = conv t (P - 1);
        e \<leftarrow> arith (promote t) (L + P);
        r \<leftarrow> arith (promote t) (conv t (len s) - P);
        let L = (if e \<le> conv t (len s) then L else conv t r);
        b \<leftarrow> copy_chars (body INIT_STRING) 0 (body s) P L;
        Some \<lparr>len = strlen_t L, body = b\<rparr> }
      else Some INIT_STRING)"

fun concat_loop :: "char list \<Rightarrow> int \<Rightarrow> iec_string list \<Rightarrow> (char list \<times> int) option" where
  "concat_loop res charcount [] = Some (res, charcount)"
| "concat_loop res charcount (tmp # ts) =
     (if charcount < int STR_MAX_LEN
      then let charrem = int STR_MAX_LEN - charcount; to_write = (if len tmp > charrem then charrem else len tmp)
        in do { res \<leftarrow> copy_chars res charcount (body tmp) 0 to_write; concat_loop res (charcount + to_write) ts }
      else Some (res, charcount))"

definition CONCAT_STRING :: "bool \<Rightarrow> iec_string list \<Rightarrow> (iec_string \<times> bool) option" where
  "CONCAT_STRING EN ts = TEST_EN EN INIT_STRING
     (do { (b, charcount) \<leftarrow> concat_loop (body INIT_STRING) 0 ts; Some \<lparr>len = charcount, body = b\<rparr> })"

definition insert_string :: "iec_string \<Rightarrow> iec_string \<Rightarrow> int \<Rightarrow> iec_string option" where
  "insert_string IN1 IN2 P = do {
     let to_copy = (if P > len IN1 then len IN1 else P);
     b \<leftarrow> copy_chars (body INIT_STRING) 0 (body IN1) 0 to_copy;
     let P = to_copy; let l = to_copy;
     let to_copy = (if len IN2 + l > int STR_MAX_LEN then int STR_MAX_LEN - l else len IN2);
     b \<leftarrow> copy_chars b l (body IN2) 0 to_copy;
     let l = strlen_t (l + to_copy);
     let to_copy = (if len IN1 - P < int STR_MAX_LEN - l then len IN1 - P else int STR_MAX_LEN - l);
     b \<leftarrow> copy_chars b l (body IN1) P to_copy;
     Some \<lparr>len = strlen_t (l + to_copy), body = b\<rparr> }"

definition INSERT_STRING :: "bool \<Rightarrow> iec_string \<Rightarrow> iec_string \<Rightarrow> int \<Rightarrow> (iec_string \<times> bool) option" where
  "INSERT_STRING EN str1 str2 P = TEST_EN_COND EN (P < 0) INIT_STRING (insert_string str1 str2 (strlen_t P))"

definition delete_string :: "iec_string \<Rightarrow> int \<Rightarrow> int \<Rightarrow> iec_string option" where
  "delete_string s L P = do {
     let to_copy = strlen_t (if P > len s then len s else P - 1);
     b \<leftarrow> copy_chars (body INIT_STRING) 0 (body s) 0 to_copy;
     let P = to_copy; let l = to_copy;
     (if len s > P + L then do {
        let to_copy = strlen_t (len s - P - L);
        b \<leftarrow> copy_chars b l (body s) (P + L) to_copy;
        Some \<lparr>len = strlen_t (l + to_copy), body = b\<rparr> }
      else Some \<lparr>len = l, body = b\<rparr>) }"

definition DELETE_STRING :: "bool \<Rightarrow> iec_string \<Rightarrow> int \<Rightarrow> int \<Rightarrow> (iec_string \<times> bool) option" where
  "DELETE_STRING EN str L P = TEST_EN_COND EN (L < 0 \<or> P < 0) INIT_STRING (delete_string str (strlen_t L) (strlen_t P))"

definition replace_string :: "iec_string \<Rightarrow> iec_string \<Rightarrow> int \<Rightarrow> int \<Rightarrow> iec_string option" where
  "replace_string IN1 IN2 L P = do {
     let to_copy = strlen_t (if P > len IN1 then len IN1 else P - 1);
     b \<leftarrow> copy_chars (body INIT_STRING) 0 (body IN1) 0 to_copy;
     let P = to_copy; let l = to_copy;
     let to_copy = (if len IN2 < L then len IN2 else L);
     let to_copy = (if to_copy + l > int STR_MAX_LEN then strlen_t (int STR_MAX_LEN - l) else to_copy);
     b \<leftarrow> copy_chars b l (body IN2) 0 to_copy;
     let l = strlen_t (l + to_copy);
     let P = strlen_t (P + L);
     (if l < int STR_MAX_LEN \<and> P < len IN1 then do {
        let to_copy = strlen_t (len IN1 - P);
        b \<leftarrow> copy_chars b l (body IN1) P to_copy;
        Some \<lparr>len = strlen_t (l + to_copy), body = b\<rparr> }
      else Some \<lparr>len = l, body = b\<rparr>) }"

definition REPLACE_STRING :: "bool \<Rightarrow> iec_string \<Rightarrow> iec_string \<Rightarrow> int \<Rightarrow> int \<Rightarrow> (iec_string \<times> bool) option" where
  "REPLACE_STRING EN str1 str2 L P = TEST_EN_COND EN (L < 0 \<or> P < 0) INIT_STRING
     (replace_string str1 str2 (strlen_t L) (strlen_t P))"

text \<open>\<open>FIND\<close>: \<open>count1\<close> and \<open>count2\<close> when the loop ends; an access behind an array has no result.\<close>

function pfind_loop :: "char list \<Rightarrow> nat \<Rightarrow> char list \<Rightarrow> nat \<Rightarrow> nat \<Rightarrow> nat \<Rightarrow> (nat \<times> nat) option" where
  "pfind_loop b1 len1 b2 len2 count1 count2 =
     (if count1 + count2 < len1 \<and> count2 < len2
      then if length b1 \<le> count1 + count2 \<or> length b2 \<le> count2 then None
        else if b1 ! (count1 + count2) \<noteq> b2 ! count2 then pfind_loop b1 len1 b2 len2 (count1 + (count2 + 1)) 0
        else pfind_loop b1 len1 b2 len2 count1 (count2 + 1)
      else Some (count1, count2))"
  by pat_completeness auto
termination
  by (relation "measure (\<lambda>(b1, len1, b2, len2, count1, count2). len1 - (count1 + count2))") auto

declare pfind_loop.simps [simp del]

definition pfind :: "iec_string \<Rightarrow> iec_string \<Rightarrow> int option" where
  "pfind IN1 IN2 = do {
     (count1, count2) \<leftarrow> pfind_loop (body IN1) (nat (len IN1)) (body IN2) (nat (len IN2)) 0 0;
     Some (strlen_t (if int count2 = len IN2 - 1 then 0 else int count1 + 1)) }"

definition FIND_STRING :: "ity \<Rightarrow> bool \<Rightarrow> iec_string \<Rightarrow> iec_string \<Rightarrow> (int \<times> bool) option" where
  "FIND_STRING t EN str1 str2 = TEST_EN EN 0 (map_option (conv t) (pfind str1 str2))"

text \<open>\<open>__STR_CMP\<close> is \<open>memcmp\<close> over the shorter length.\<close>

fun memcmp :: "char list \<Rightarrow> char list \<Rightarrow> int" where
  "memcmp (a # as) (b # bs) = (if a = b then memcmp as bs else of_char a - of_char b)"
| "memcmp _ _ = 0"

definition STR_CMP :: "iec_string \<Rightarrow> iec_string \<Rightarrow> int option" where
  "STR_CMP str1 str2 =
     (let n = (if len str1 < len str2 then len str1 else len str2)
      in if n < 0 \<or> int (length (body str1)) < n \<or> int (length (body str2)) < n then None
         else Some (memcmp (take (nat n) (body str1)) (take (nat n) (body str2))))"

definition MAX_STRING :: "bool \<Rightarrow> iec_string \<Rightarrow> iec_string list \<Rightarrow> (iec_string \<times> bool) option" where
  "MAX_STRING = extrem (\<lambda>a b. map_option (\<lambda>c. c < 0) (STR_CMP a b)) INIT_STRING"

definition MIN_STRING :: "bool \<Rightarrow> iec_string \<Rightarrow> iec_string list \<Rightarrow> (iec_string \<times> bool) option" where
  "MIN_STRING = extrem (\<lambda>a b. map_option (\<lambda>c. c > 0) (STR_CMP a b)) INIT_STRING"

definition LIMIT_STRING :: "bool \<Rightarrow> iec_string \<Rightarrow> iec_string \<Rightarrow> iec_string \<Rightarrow> (iec_string \<times> bool) option" where
  "LIMIT_STRING = limit (\<lambda>a b. map_option (\<lambda>c. c > 0) (STR_CMP a b)) (\<lambda>a b. map_option (\<lambda>c. c < 0) (STR_CMP a b)) INIT_STRING"

definition compare_string :: "(int \<Rightarrow> int \<Rightarrow> bool) \<Rightarrow> bool \<Rightarrow> iec_string \<Rightarrow> iec_string list \<Rightarrow> (bool \<times> bool) option" where
  "compare_string TEST = compare_any (\<lambda>a b. map_option (\<lambda>c. TEST c 0) (STR_CMP a b))"

definition NE_string :: "bool \<Rightarrow> iec_string \<Rightarrow> iec_string \<Rightarrow> (bool \<times> bool) option" where
  "NE_string EN op1 op2 = TEST_EN EN False (map_option (\<lambda>c. c \<noteq> 0) (STR_CMP op1 op2))"

section \<open>Conversions of reals, dates and strings\<close>

text \<open>
  The uses of \<open>__convert_type\<close> on the types above. A conversion of a real has no result when its
  integer is out of range; \<open>TRUNC\<close> is the conversion of C. \<open>R\<close> is the type of a real, \<open>atof\<close> and the
  formats of \<open>printf\<close> are parameters as for the conversions of \<open>iec_std_lib.h\<close>.
\<close>

definition lreal :: "rat \<Rightarrow> rat" where
  "lreal = rnd 53 1023"

definition INT_TO_REAL :: "rounding \<Rightarrow> bool \<Rightarrow> int \<Rightarrow> (fp \<times> bool) option" where
  "INT_TO_REAL R = convert_type (\<lambda>n. Some (fp_of_int R n)) (Zero False)"

definition REAL_TO_BIT :: "ity \<Rightarrow> bool \<Rightarrow> fp \<Rightarrow> (int \<times> bool) option" where
  "REAL_TO_BIT t = convert_type (\<lambda>x. if fp_finite x then map_option (\<lambda>w. conv t (uint w)) (real_to_bit lreal (fp_val x))
     else if x = Inf False then None else Some 0) 0"

definition REAL_TO_SINT :: "ity \<Rightarrow> bool \<Rightarrow> fp \<Rightarrow> (int \<times> bool) option" where
  "REAL_TO_SINT t = convert_type (\<lambda>x. if fp_finite x then map_option (conv t) (real_to_sint lreal (fp_val x)) else None) 0"

definition REAL_TO_UINT :: "ity \<Rightarrow> bool \<Rightarrow> fp \<Rightarrow> (int \<times> bool) option" where
  "REAL_TO_UINT t = convert_type (\<lambda>x. if fp_finite x then map_option (\<lambda>w. conv t (uint w)) (real_to_uint lreal (fp_val x))
     else if x = Inf False then None else Some 0) 0"

definition LREAL_TO_REAL :: "bool \<Rightarrow> fp \<Rightarrow> (fp \<times> bool) option" where
  "LREAL_TO_REAL = convert_type (\<lambda>x. Some (to_float x)) (Zero False)"

definition REAL_TO_TIME :: "bool \<Rightarrow> fp \<Rightarrow> (timespec \<times> bool) option" where
  "REAL_TO_TIME = convert_type (\<lambda>x. if fp_finite x then real_to_time lreal (fp_val x) else None) zero_time"

definition TIME_TO_LREAL :: "bool \<Rightarrow> timespec \<Rightarrow> (fp \<times> bool) option" where
  "TIME_TO_LREAL = convert_type (\<lambda>t. Some (time_to_lreal t)) (Zero False)"

definition TRUNC_int :: "ity \<Rightarrow> bool \<Rightarrow> fp \<Rightarrow> (int \<times> bool) option" where
  "TRUNC_int t = convert_type (\<lambda>x. if fp_finite x \<and> in_type t (c_trunc (fp_val x)) then Some (c_trunc (fp_val x)) else None) 0"

definition DT_TO_DATE :: "bool \<Rightarrow> timespec \<Rightarrow> (timespec \<times> bool) option" where
  "DT_TO_DATE = convert_type date_and_time_to_date zero_time"

definition DT_TO_TOD :: "bool \<Rightarrow> timespec \<Rightarrow> (timespec \<times> bool) option" where
  "DT_TO_TOD = convert_type (\<lambda>t. Some (date_and_time_to_time_of_day t)) zero_time"

definition BOOL_TO_STRING :: "bool \<Rightarrow> bool \<Rightarrow> (iec_string \<times> bool) option" where
  "BOOL_TO_STRING = convert_type (\<lambda>b. Some (bool_to_string b)) INIT_STRING"

definition BIT_TO_STRING :: "bool \<Rightarrow> int \<Rightarrow> (iec_string \<times> bool) option" where
  "BIT_TO_STRING = convert_type (\<lambda>n. Some (bit_to_string (of_int n))) INIT_STRING"

definition SINT_TO_STRING :: "bool \<Rightarrow> int \<Rightarrow> (iec_string \<times> bool) option" where
  "SINT_TO_STRING = convert_type (\<lambda>n. Some (sint_to_string n)) INIT_STRING"

definition UINT_TO_STRING :: "bool \<Rightarrow> int \<Rightarrow> (iec_string \<times> bool) option" where
  "UINT_TO_STRING = convert_type (\<lambda>n. Some (uint_to_string (of_int n))) INIT_STRING"

definition REAL_TO_STRING :: "(fp \<Rightarrow> string) \<Rightarrow> bool \<Rightarrow> fp \<Rightarrow> (iec_string \<times> bool) option" where
  "REAL_TO_STRING fmt_10g = convert_type (\<lambda>x. Some (real_to_string fmt_10g x)) INIT_STRING"

definition DATE_TO_STRING :: "bool \<Rightarrow> timespec \<Rightarrow> (iec_string \<times> bool) option" where
  "DATE_TO_STRING = convert_type date_to_string INIT_STRING"

definition DT_TO_STRING :: "(int \<Rightarrow> int \<Rightarrow> string) \<Rightarrow> bool \<Rightarrow> timespec \<Rightarrow> (iec_string \<times> bool) option" where
  "DT_TO_STRING fmt_s = convert_type (dt_to_string fmt_s) INIT_STRING"

definition TOD_TO_STRING :: "(int \<Rightarrow> int \<Rightarrow> string) \<Rightarrow> bool \<Rightarrow> timespec \<Rightarrow> (iec_string \<times> bool) option" where
  "TOD_TO_STRING fmt_s = convert_type (tod_to_string fmt_s) INIT_STRING"

definition TIME_TO_STRING :: "(int \<Rightarrow> string) \<Rightarrow> bool \<Rightarrow> timespec \<Rightarrow> (iec_string \<times> bool) option" where
  "TIME_TO_STRING fmt_ms = convert_type (\<lambda>t. Some (time_to_string fmt_ms t)) INIT_STRING"

definition STRING_TO_BOOL :: "bool \<Rightarrow> iec_string \<Rightarrow> (bool \<times> bool) option" where
  "STRING_TO_BOOL = convert_type (\<lambda>s. Some (string_to_bool s)) False"

definition STRING_TO_BIT :: "ity \<Rightarrow> bool \<Rightarrow> iec_string \<Rightarrow> (int \<times> bool) option" where
  "STRING_TO_BIT t = convert_type (\<lambda>s. map_option (\<lambda>w. conv t (uint w)) (string_to_bit s)) 0"

definition STRING_TO_SINT :: "ity \<Rightarrow> bool \<Rightarrow> iec_string \<Rightarrow> (int \<times> bool) option" where
  "STRING_TO_SINT t = convert_type (\<lambda>s. map_option (conv t) (string_to_sint s)) 0"

definition STRING_TO_UINT :: "ity \<Rightarrow> bool \<Rightarrow> iec_string \<Rightarrow> (int \<times> bool) option" where
  "STRING_TO_UINT t = convert_type (\<lambda>s. map_option (\<lambda>w. conv t (uint w)) (string_to_uint s)) 0"

definition STRING_TO_REAL :: "(char list \<Rightarrow> rat) \<Rightarrow> rounding \<Rightarrow> bool \<Rightarrow> iec_string \<Rightarrow> (fp \<times> bool) option" where
  "STRING_TO_REAL atof R = convert_type (\<lambda>s. map_option (\<lambda>q. R (q < 0) q) (string_to_real atof (\<lambda>n. lreal (of_int n)) s)) (Zero False)"

definition STRING_TO_TIME :: "(char list \<Rightarrow> rat) \<Rightarrow> bool \<Rightarrow> iec_string \<Rightarrow> (timespec \<times> bool) option" where
  "STRING_TO_TIME atof = convert_type (string_to_time atof lreal) zero_time"

section \<open>Texts\<close>

text \<open>A well-formed string and the characters it stands for.\<close>

definition string_ok :: "iec_string \<Rightarrow> bool" where
  "string_ok s \<longleftrightarrow> length (body s) = 126 \<and> 0 \<le> len s \<and> len s \<le> 126"

definition chars :: "iec_string \<Rightarrow> char list" where
  "chars s = take (nat (len s)) (body s)"

definition mk_string :: "char list \<Rightarrow> iec_string" where
  "mk_string cs = \<lparr>len = int (length cs), body = cs @ replicate (126 - length cs) NUL\<rparr>"

lemma mk_string [simp]:
  assumes "length cs \<le> 126"
  shows "string_ok (mk_string cs)" "chars (mk_string cs) = cs" "len (mk_string cs) = int (length cs)"
  using assms by (simp_all add: mk_string_def string_ok_def chars_def)

lemma length_chars: "string_ok s \<Longrightarrow> int (length (chars s)) = len s"
  by (auto simp: string_ok_def chars_def)

lemma strlen_t_id [simp]: "- 128 \<le> n \<Longrightarrow> n < 128 \<Longrightarrow> strlen_t n = n"
  unfolding strlen_t_def by (rule conv_in_type) (simp add: in_type_def)

lemma take_same_length: "length (take i xs) = length (take j xs) \<Longrightarrow> take i xs = take j xs"
  by (cases "i \<le> j") (auto simp: min_def split: if_splits)

text \<open>An array whose first characters are \<open>xs\<close>, extended by characters of a string.\<close>

definition holds :: "char list \<Rightarrow> char list \<Rightarrow> bool" where
  "holds b xs \<longleftrightarrow> length b = 126 \<and> length xs \<le> 126 \<and> take (length xs) b = xs"

lemma holds_init [simp]: "holds (body INIT_STRING) []"
  by (simp add: holds_def INIT_STRING_def STR_MAX_LEN_def)

lemma holds_copy:
  assumes b: "holds b xs" "d = int (length xs)" and s: "string_ok s" "0 \<le> i" "0 \<le> n" "i + n \<le> len s" "d + n \<le> 126"
  shows "\<exists>b'. copy_chars b d (body s) i n = Some b' \<and> holds b' (xs @ take (nat n) (drop (nat i) (chars s)))"
proof -
  have l: "nat n \<le> nat (len s) - nat i" "nat i \<le> nat (len s)" "length (body s) = 126" "nat (len s) \<le> 126"
    using s by (simp_all add: string_ok_def) linarith+
  have "take (nat n) (drop (nat i) (chars s)) = take (nat n) (drop (nat i) (body s))"
    using l by (simp add: chars_def drop_take min_def)
  moreover have "copy_chars b d (body s) i n =
      Some (take (length xs) b @ take (nat n) (drop (nat i) (body s)) @ drop (length xs + nat n) b)"
    using b s l by (simp add: copy_chars_def holds_def string_ok_def nat_add_distrib)
  moreover have "min (126 - nat i) (nat n) = nat n" "length xs + nat n \<le> 126" using l b s by linarith+
  ultimately show ?thesis using b s l
    by (simp add: holds_def)
qed

lemma chars_holds: "holds b xs \<Longrightarrow> n = int (length xs) \<Longrightarrow> string_ok \<lparr>len = n, body = b\<rparr> \<and> chars \<lparr>len = n, body = b\<rparr> = xs"
  by (simp add: holds_def string_ok_def chars_def)

section \<open>Insertion and deletion\<close>

lemma insert_string_chars:
  assumes a: "string_ok a" and b: "string_ok b" and P: "0 \<le> P" "P < 128"
  shows "\<exists>r. insert_string a b P = Some r \<and> string_ok r \<and>
    chars r = take 126 (take (nat P) (chars a) @ chars b @ drop (nat P) (chars a))"
proof -
  define p where "p = (if P > len a then len a else P)"
  define n where "n = (if len b + p > int STR_MAX_LEN then int STR_MAX_LEN - p else len b)"
  define m where "m = (if len a - p < int STR_MAX_LEN - strlen_t (p + n) then len a - p else int STR_MAX_LEN - strlen_t (p + n))"
  have l: "0 \<le> len a" "len a \<le> 126" "0 \<le> len b" "len b \<le> 126" "int (length (chars a)) = len a" "int (length (chars b)) = len b"
    using a b by (simp_all add: string_ok_def length_chars)
  then have p: "0 \<le> p" "p \<le> len a" "0 \<le> n" "n \<le> len b" "p + n \<le> 126"
    using P by (auto simp: p_def n_def STR_MAX_LEN_def)
  have pn: "strlen_t (p + n) = p + n" using p by simp
  have m: "0 \<le> m" "p + m \<le> len a" "p + n + m \<le> 126" "strlen_t (p + n + m) = p + n + m"
    using p l unfolding m_def pn by (auto simp: STR_MAX_LEN_def)
  note p = p m
  let ?x = "take (nat p) (chars a)" and ?y = "take (nat n) (chars b)" and ?z = "take (nat m) (drop (nat p) (chars a))"
  obtain b1 where b1: "copy_chars (body INIT_STRING) 0 (body a) 0 p = Some b1" "holds b1 ?x"
    using holds_copy [OF holds_init, of 0 a 0 p] a p l by auto
  have x: "p = int (length ?x)" using p l by simp
  obtain b2 where b2: "copy_chars b1 p (body b) 0 n = Some b2" "holds b2 (?x @ ?y)"
    using holds_copy [OF b1(2) x b, of 0 n] p by auto
  have y: "p + n = int (length (?x @ ?y))" using p l by simp
  obtain b3 where b3: "copy_chars b2 (p + n) (body a) p m = Some b3" "holds b3 ((?x @ ?y) @ ?z)"
    using holds_copy [OF b2(2) y a, of p m] p by auto
  have z: "p + n + m = int (length ((?x @ ?y) @ ?z))" using p l by simp
  have "insert_string a b P = Some \<lparr>len = p + n + m, body = b3\<rparr>"
    unfolding insert_string_def Let_def p_def [symmetric] b1(1) bind.bind_lunit n_def [symmetric] b2(1)
      pn m_def [unfolded pn, symmetric] b3(1) m(4) ..
  moreover have "take 126 (take (nat P) (chars a) @ chars b @ drop (nat P) (chars a)) = (?x @ ?y) @ ?z"
  proof -
    have e: "take (nat P) (chars a) = ?x" "drop (nat P) (chars a) = drop (nat p) (chars a)" "length ?x = nat p"
      using P l by (auto simp: p_def)
    have "length ?y = length (take (126 - nat p) (chars b))" using p l by (auto simp: n_def STR_MAX_LEN_def)
    then have y: "take (126 - nat p) (chars b) = ?y" by (metis take_same_length)
    have "length ?z = length (take (126 - (nat p + length (chars b))) (drop (nat p) (chars a)))"
      using p l unfolding m_def pn by (auto simp: n_def STR_MAX_LEN_def)
    then have z: "take (126 - (nat p + length (chars b))) (drop (nat p) (chars a)) = ?z"
      by (metis take_same_length)
    have "take 126 ?x = ?x" using p by (intro take_all) (simp add: e(3))
    then show ?thesis unfolding e(1,2) by (simp only: take_append e(3) y z append_assoc diff_diff_left)
  qed
  ultimately show ?thesis using chars_holds [OF b3(2) z] by simp
qed

lemma delete_string_chars:
  assumes a: "string_ok a" and P: "1 \<le> P" "P < 128" and L: "0 \<le> L" "L < 128"
  shows "\<exists>r. delete_string a L P = Some r \<and> string_ok r \<and>
    chars r = (if P \<le> len a then take (nat P - 1) (chars a) @ drop (nat P - 1 + nat L) (chars a) else chars a)"
proof -
  define p where "p = (if P > len a then len a else P - 1)"
  have nat1: "nat (P - 1) = nat P - 1" by simp
  have l: "0 \<le> len a" "len a \<le> 126" "int (length (chars a)) = len a" using a by (simp_all add: string_ok_def length_chars)
  then have p: "0 \<le> p" "p \<le> len a" "p \<le> 126" using P by (auto simp: p_def)
  let ?x = "take (nat p) (chars a)"
  obtain b1 where b1: "copy_chars (body INIT_STRING) 0 (body a) 0 p = Some b1" "holds b1 ?x"
    using holds_copy [OF holds_init, of 0 a 0 p] a p l by auto
  have x: "p = int (length ?x)" using p l by simp
  show ?thesis
  proof (cases "p + L < len a")
    case True
    define n where "n = len a - p - L"
    have n: "0 \<le> n" "p + n \<le> 126" "n < 128" using True p l L by (simp_all add: n_def)
    let ?y = "take (nat n) (drop (nat (p + L)) (chars a))"
    obtain b2 where b2: "copy_chars b1 p (body a) (p + L) n = Some b2" "holds b2 (?x @ ?y)"
      using holds_copy [OF b1(2) x a, of "p + L" n] p L n by (auto simp: n_def)
    have y: "p + n = int (length (?x @ ?y))" using p l L True by (simp add: n_def)
    have "delete_string a L P = Some \<lparr>len = p + n, body = b2\<rparr>"
      using b1(1) b2(1) True p n unfolding delete_string_def
      by (simp add: p_def [symmetric] n_def [symmetric] Let_def)
    moreover have "?y = drop (nat (p + L)) (chars a)" using l p L by (simp add: n_def)
    ultimately show ?thesis using chars_holds [OF b2(2) y] P L True by (auto simp: p_def nat_add_distrib nat_diff_distrib)
  next
    case False
    then have "delete_string a L P = Some \<lparr>len = p, body = b1\<rparr>"
      using b1(1) p unfolding delete_string_def by (simp add: p_def [symmetric] Let_def)
    then show ?thesis using chars_holds [OF b1(2) x] P L l False nat1 by (auto simp: p_def)
  qed
qed

text \<open>C30: Deleting what was inserted gives the text back, when both fit a string together. A deletion at
  position 0 is not refused, and copies \<open>-1\<close> characters.\<close>

theorem INSERT_DELETE_roundtrip:
  assumes "string_ok a" "string_ok b" "0 \<le> P" "P \<le> len a" "len a + len b \<le> 126"
  shows "\<exists>r a'. INSERT_STRING True a b P = Some (r, True) \<and>
    chars r = take (nat P) (chars a) @ chars b @ drop (nat P) (chars a) \<and>
    DELETE_STRING True r (len b) (P + 1) = Some (a', True) \<and> chars a' = chars a \<and>
    DELETE_STRING True r (len b) 0 = None"
proof -
  have l: "0 \<le> len a" "len a \<le> 126" "0 \<le> len b" "int (length (chars a)) = len a" "int (length (chars b)) = len b"
    using assms by (simp_all add: string_ok_def length_chars)
  obtain r where r: "insert_string a b P = Some r" "string_ok r"
      "chars r = take 126 (take (nat P) (chars a) @ chars b @ drop (nat P) (chars a))"
    using insert_string_chars [OF assms(1,2,3)] assms(4) l by auto
  have c: "chars r = take (nat P) (chars a) @ chars b @ drop (nat P) (chars a)"
    unfolding r(3) using assms l by (intro take_all) simp
  have lr: "len r = len a + len b" using length_chars [OF r(2)] c assms l by simp
  obtain a' where a': "delete_string r (len b) (P + 1) = Some a'"
      "chars a' = (if P + 1 \<le> len r then take (nat (P + 1) - 1) (chars r) @ drop (nat (P + 1) - 1 + nat (len b)) (chars r) else chars r)"
    using delete_string_chars [OF r(2), of "P + 1" "len b"] assms l by auto
  have "chars b = []" "drop (nat P) (chars a) = []" if "\<not> P + 1 \<le> len r"
  proof -
    have "len b = 0" "P = len a" using that assms l lr by linarith+
    then show "chars b = []" "drop (nat P) (chars a) = []" using l by simp_all
  qed
  then have "chars a' = chars a"
    unfolding a'(2) c using assms l lr by (auto simp: nat_add_distrib)
  moreover have "delete_string r (len b) 0 = None"
    using r(2) by (simp add: delete_string_def string_ok_def copy_chars_def Let_def)
  ultimately show ?thesis using r(1) a'(1) c assms l
    by (simp add: INSERT_STRING_def DELETE_STRING_def TEST_EN_COND_def)
qed

theorem INSERT_DELETE_roundtrip_witness:
  "\<exists>r a'. INSERT_STRING True (mk_string ''abcd'') (mk_string ''xy'') 2 = Some (r, True) \<and> chars r = ''abxycd'' \<and>
     DELETE_STRING True r 2 3 = Some (a', True) \<and> chars a' = ''abcd''"
  using INSERT_DELETE_roundtrip [of "mk_string ''abcd''" "mk_string ''xy''" 2] by auto

section \<open>Replacement\<close>

text \<open>\<open>REPLACE\<close> of \<open>L\<close> characters puts at most \<open>L\<close> characters of the new text, not all of it, and only
  works while the end of the replaced part is at most 127: beyond, the position \<open>P += L\<close> of type
  \<open>int8_t\<close> is negative and the copy starts in front of the array.\<close>

theorem REPLACE_ends:
  assumes a: "string_ok a" and b: "string_ok b" and P: "1 \<le> P" "P \<le> len a" and L: "0 \<le> L" "L < 128"
  shows "if P - 1 + L < 128
    then \<exists>r. REPLACE_STRING True a b L P = Some (r, True) \<and>
      chars r = take (nat P - 1) (chars a) @ take (min (nat L) (126 - (nat P - 1))) (chars b) @ drop (nat P - 1 + nat L) (chars a)
    else P - 1 + min L (len b) < 126 \<longrightarrow> REPLACE_STRING True a b L P = None"
proof -
  define p where "p = P - 1"
  define n where "n = min (min (len b) L) (126 - p)"
  have l: "0 \<le> len a" "len a \<le> 126" "0 \<le> len b" "len b \<le> 126" "int (length (chars a)) = len a" "int (length (chars b)) = len b"
    using a b by (simp_all add: string_ok_def length_chars)
  have p: "0 \<le> p" "p < len a" "p + n \<le> 126" "0 \<le> n" "n \<le> len b" "nat p = nat P - 1" "p \<le> 126" "n \<le> L"
    using P l L by (simp_all add: p_def n_def)
  let ?x = "take (nat p) (chars a)" and ?y = "take (nat n) (chars b)"
  obtain b1 where b1: "copy_chars (body INIT_STRING) 0 (body a) 0 p = Some b1" "holds b1 ?x"
    using holds_copy [OF holds_init, of 0 a 0 p] a p l by auto
  have x: "p = int (length ?x)" using p l by simp
  obtain b2 where b2: "copy_chars b1 p (body b) 0 n = Some b2" "holds b2 (?x @ ?y)"
    using holds_copy [OF b1(2) x b, of 0 n] p by auto
  have y: "p + n = int (length (?x @ ?y))" using p l by simp
  have c1: "strlen_t (if P > len a then len a else P - 1) = p" using P p l by (simp add: p_def)
  have c2: "(if (if len b < L then len b else L) + p > int STR_MAX_LEN then strlen_t (int STR_MAX_LEN - p)
      else (if len b < L then len b else L)) = n"
    using p l L by (auto simp: n_def STR_MAX_LEN_def min_def)
  have c3: "strlen_t (p + n) = p + n" using p by simp
  have r: "replace_string a b L P = (let q = strlen_t (p + L) in
     (if p + n < int STR_MAX_LEN \<and> q < len a then do {
        let to_copy = strlen_t (len a - q);
        b \<leftarrow> copy_chars b2 (p + n) (body a) q to_copy;
        Some \<lparr>len = strlen_t (p + n + to_copy), body = b\<rparr> }
      else Some \<lparr>len = p + n, body = b2\<rparr>))"
    unfolding replace_string_def Let_def c1 b1(1) bind.bind_lunit c2 b2(1) c3 ..
  have R: "REPLACE_STRING True a b L P = map_option (\<lambda>x. (x, True)) (replace_string a b L P)"
    using P L l by (simp add: REPLACE_STRING_def TEST_EN_COND_def)
  have n: "?y = take (min (nat L) (126 - (nat P - 1))) (chars b)"
  proof -
    have "nat n = min (length (chars b)) (min (nat L) (126 - nat p))" using l p(1) L n_def by linarith
    then show ?thesis unfolding p(6) [symmetric] by (intro take_same_length) simp
  qed
  show ?thesis
  proof (cases "p + L < 128")
    case small: True
    then have q: "strlen_t (p + L) = p + L" using p L by simp
    show ?thesis
    proof (cases "p + n < 126 \<and> p + L < len a")
      case True
      define m where "m = len a - (p + L)"
      have m: "0 \<le> m" "p + n + m \<le> 126" "strlen_t m = m" "strlen_t (p + n + m) = p + n + m"
        using True p l L by (simp_all add: m_def)
      let ?z = "take (nat m) (drop (nat (p + L)) (chars a))"
      obtain b3 where b3: "copy_chars b2 (p + n) (body a) (p + L) m = Some b3" "holds b3 ((?x @ ?y) @ ?z)"
        using holds_copy [OF b2(2) y a, of "p + L" m] p L m by (auto simp: m_def)
      have "nat m \<le> length (chars a) - nat (p + L)" using l p(1) L m(1) m_def by linarith
      then have "length ?z = nat m" by simp
      then have z: "p + n + m = int (length ((?x @ ?y) @ ?z))" using y m(1) by simp
      have "?z = drop (nat P - 1 + nat L) (chars a)" using p l L P by (simp add: m_def p_def nat_add_distrib nat_diff_distrib)
      moreover have "replace_string a b L P = Some \<lparr>len = p + n + m, body = b3\<rparr>"
        unfolding r Let_def q using True b3(1) m by (simp add: m_def [symmetric] STR_MAX_LEN_def)
      ultimately show ?thesis using chars_holds [OF b3(2) z] n p small by (simp add: R p_def)
    next
      case False
      then have "len a \<le> p + L" using p(8) l(2) by linarith
      then have "length (chars a) \<le> nat P - 1 + nat L" using l(5) p(1,6) L(1) by linarith
      then have "drop (nat P - 1 + nat L) (chars a) = []" by simp
      moreover have "replace_string a b L P = Some \<lparr>len = p + n, body = b2\<rparr>"
        unfolding r Let_def q using False by (auto simp: STR_MAX_LEN_def)
      ultimately show ?thesis using chars_holds [OF b2(2) y] n p small by (simp add: R p_def)
    qed
  next
    case False
    then have q: "strlen_t (p + L) = p + L - 256"
    proof -
      have "128 \<le> p + L" "p + L < 384" using False p l L by simp_all
      then have "(p + L - 128) mod 256 = p + L - 128" by (intro mod_pos_pos_trivial) linarith+
      then have "(p + L + 128) mod 256 = p + L - 128" using minus_mod_self2 [of "p + L + 128" 256] by simp
      then show ?thesis by (simp add: strlen_t_def conv_def)
    qed
    have "replace_string a b L P = None" if "p + n < 126"
      unfolding r Let_def q using that p L l by (simp add: copy_chars_def STR_MAX_LEN_def)
    then show ?thesis using False p l by (auto simp: R p_def n_def)
  qed
qed

theorem REPLACE_ends_witness:
  "(\<exists>r. REPLACE_STRING True (mk_string ''abcdef'') (mk_string ''xyz'') 2 3 = Some (r, True) \<and> chars r = ''abxyef'') \<and>
   REPLACE_STRING True (mk_string (replicate 100 CHR ''a'')) (mk_string ''xyz'') 100 50 = None"
proof
  have "\<exists>r. REPLACE_STRING True (mk_string ''abcdef'') (mk_string ''xyz'') 2 3 = Some (r, True) \<and>
      chars r = take (nat 3 - 1) ''abcdef'' @ take (min (nat 2) (126 - (nat 3 - 1))) ''xyz'' @ drop (nat 3 - 1 + nat 2) ''abcdef''"
    using REPLACE_ends [of "mk_string ''abcdef''" "mk_string ''xyz''" 3 2] by simp
  then show "\<exists>r. REPLACE_STRING True (mk_string ''abcdef'') (mk_string ''xyz'') 2 3 = Some (r, True) \<and> chars r = ''abxyef''"
    by simp
  let ?a = "replicate 100 CHR ''a''"
  have "string_ok (mk_string ?a)" "len (mk_string ?a) = 100" by simp_all
  then show "REPLACE_STRING True (mk_string ?a) (mk_string ''xyz'') 100 50 = None"
    using REPLACE_ends [of "mk_string ?a" "mk_string ''xyz''" 50 100] by simp
qed

section \<open>Comparison and search\<close>

lemma memcmp_eq: "length as = length bs \<Longrightarrow> memcmp as bs = 0 \<longleftrightarrow> as = bs"
  by (induction as bs rule: memcmp.induct) (auto simp: of_char_eq_iff)

text \<open>Two strings are equal for \<open>EQ\<close>, and different for \<open>NE\<close>, by the characters of the shorter one alone:
  a string equals each of its prefixes and the empty string equals every string.\<close>

theorem EQ_STRING_prefix:
  assumes "string_ok a" "string_ok b"
  shows "compare_string (=) True a [b] =
      Some (take (min (length (chars a)) (length (chars b))) (chars a) = take (min (length (chars a)) (length (chars b))) (chars b), True) \<and>
    NE_string True a b =
      Some (take (min (length (chars a)) (length (chars b))) (chars a) \<noteq> take (min (length (chars a)) (length (chars b))) (chars b), True)"
proof -
  define n where "n = (if len a < len b then len a else len b)"
  have l: "0 \<le> n" "n \<le> len a" "n \<le> len b" "len a \<le> 126" "len b \<le> 126" "length (body a) = 126" "length (body b) = 126"
    using assms by (auto simp: string_ok_def n_def)
  have nn: "min (length (chars a)) (length (chars b)) = nat n" using assms by (auto simp: n_def chars_def string_ok_def)
  have t: "take (nat n) (body a) = take (nat n) (chars a)" "take (nat n) (body b) = take (nat n) (chars b)"
    using l by (simp_all add: chars_def min_def)
  have "STR_CMP a b = Some (memcmp (take (nat n) (chars a)) (take (nat n) (chars b)))"
    unfolding STR_CMP_def Let_def n_def [symmetric] t using l by simp
  moreover have "memcmp (take (nat n) (chars a)) (take (nat n) (chars b)) = 0 \<longleftrightarrow> take (nat n) (chars a) = take (nat n) (chars b)"
    using nn by (intro memcmp_eq) simp
  ultimately show ?thesis
    by (simp add: compare_string_def compare_any_def NE_string_def TEST_EN_def nn)
qed

theorem EQ_STRING_prefix_witness:
  "compare_string (=) True (mk_string ''STOP'') [mk_string ''STOPPED''] = Some (True, True)"
  using EQ_STRING_prefix [of "mk_string ''STOP''" "mk_string ''STOPPED''"] by simp

text \<open>The search for a character that is followed by nothing, or does not occur.\<close>

lemma pfind_first:
  assumes "length b1 = 126" "n \<le> 126" "length b2 = 126" "b2 ! 0 = c" "1 \<le> m" "m = 1 \<or> c \<notin> set (take n b1)"
  shows "k \<le> n \<Longrightarrow> pfind_loop b1 n b2 m k 0 =
    (if c \<in> set (drop k (take n b1)) then Some (k + length (takeWhile (\<lambda>x. x \<noteq> c) (drop k (take n b1))), 1) else Some (n, 0))"
proof (induction "n - k" arbitrary: k)
  case 0
  then show ?case by (subst pfind_loop.simps) simp
next
  case (Suc j)
  then have k: "k < n" by simp
  then have d: "drop k (take n b1) = b1 ! k # drop (Suc k) (take n b1)"
    using assms by (subst Cons_nth_drop_Suc [symmetric]) simp_all
  show ?case
  proof (cases "b1 ! k = c")
    case True
    then have "m = 1" using assms(6) k assms(1,2) by (auto simp: in_set_conv_nth)
    then have "pfind_loop b1 n b2 m k 0 = pfind_loop b1 n b2 m k 1"
      using True k assms by (subst pfind_loop.simps) simp
    also have "\<dots> = Some (k, 1)" using \<open>m = 1\<close> by (subst pfind_loop.simps) simp
    finally show ?thesis unfolding d using True by simp
  next
    case False
    then have "pfind_loop b1 n b2 m k 0 = pfind_loop b1 n b2 m (Suc k) 0"
      using k assms by (subst pfind_loop.simps) auto
    then show ?thesis unfolding d using Suc.hyps(1) [of "Suc k"] Suc.hyps(2) k False by auto
  qed
qed

text \<open>\<open>FIND\<close> gives the position of a character, or 0 when it does not occur. For a longer text, when not even
  its first character occurs, it gives one more than the length instead of 0.\<close>

theorem FIND_first_character:
  assumes "string_ok a" "string_ok b" "chars b = c # cs" "cs = [] \<or> c \<notin> set (chars a)"
  shows "FIND_STRING t True a b =
    Some (if c \<in> set (chars a) then int (length (takeWhile (\<lambda>x. x \<noteq> c) (chars a))) + 1
      else if cs = [] then 0 else len a + 1, True)"
proof -
  let ?n = "nat (len a)" and ?m = "nat (len b)"
  have l: "length (body a) = 126" "length (body b) = 126" "?n \<le> 126" "len a \<le> 126" "0 \<le> len a" "0 \<le> len b"
    using assms by (auto simp: string_ok_def)
  have m: "?m = Suc (length cs)" using assms(3) length_chars [OF assms(2)] by simp
  have c: "body b ! 0 = c" using assms(3) m by (cases "body b") (auto simp: chars_def)
  have a: "take ?n (body a) = chars a" by (simp add: chars_def)
  let ?k = "length (takeWhile (\<lambda>x. x \<noteq> c) (chars a))"
  have "pfind_loop (body a) ?n (body b) ?m 0 0 = (if c \<in> set (chars a) then Some (?k, 1) else Some (?n, 0))"
    using pfind_first [of "body a" ?n "body b" c ?m 0] l c m assms(4) by (auto simp: a)
  moreover have "?k \<le> 126" using length_takeWhile_le [of "\<lambda>x. x \<noteq> c" "chars a"] l by (simp add: chars_def)
  moreover have "conv t i = i" if "0 \<le> i" "i \<le> 127" for i
    using that by (intro conv_in_type) (cases t; simp add: in_type_def)
  moreover have "strlen_t (len a + 1) = len a + 1" by (rule strlen_t_id) (use l in linarith)+
  ultimately show ?thesis
    using assms(3,4) m l by (auto simp: FIND_STRING_def TEST_EN_def pfind_def)
qed

theorem FIND_first_character_witness:
  "FIND_STRING IEC_INT True (mk_string ''pump'') (mk_string ''m'') = Some (3, True) \<and>
   FIND_STRING IEC_INT True (mk_string ''pump'') (mk_string ''valve'') = Some (5, True)"
  using FIND_first_character [of "mk_string ''pump''" "mk_string ''m''" "CHR ''m''" "[]" IEC_INT]
    FIND_first_character [of "mk_string ''pump''" "mk_string ''valve''" "CHR ''v''" "''alve''" IEC_INT] by simp

text \<open>A partial match is not looked for again inside itself.\<close>

lemma FIND_misses_overlap: "FIND_STRING IEC_INT True (mk_string ''aab'') (mk_string ''ab'') = Some (4, True)"
  by (simp add: FIND_STRING_def TEST_EN_def pfind_def mk_string_def pfind_loop.simps strlen_t_def conv_def)

section \<open>Parts and concatenation\<close>

lemma conv_len [simp]: "string_ok s \<Longrightarrow> conv t (len s) = len s"
  by (rule conv_in_type) (cases t; simp add: in_type_def string_ok_def)

lemma mod_wrap: "(0::int) < m \<Longrightarrow> m \<le> x \<Longrightarrow> x mod m \<le> x - m"
  using zmod_le_nonneg_dividend [of "x - m" m] by simp

lemma copy_part:
  assumes "string_ok s" "0 \<le> i" "0 \<le> n" "i + n \<le> len s"
  shows "\<exists>b. copy_chars (body INIT_STRING) 0 (body s) i n = Some b \<and> string_ok \<lparr>len = strlen_t n, body = b\<rparr> \<and>
    chars \<lparr>len = strlen_t n, body = b\<rparr> = take (nat n) (drop (nat i) (chars s))"
proof -
  have n: "n \<le> 126" "int (length (chars s)) = len s" using assms length_chars by (auto simp: string_ok_def)
  obtain b where b: "copy_chars (body INIT_STRING) 0 (body s) i n = Some b" "holds b (take (nat n) (drop (nat i) (chars s)))"
    using holds_copy [OF holds_init, of 0 s i n] assms n by auto
  have "n = int (length (take (nat n) (drop (nat i) (chars s))))" using n assms by simp
  moreover have "strlen_t n = n" using n assms by simp
  ultimately show ?thesis using b chars_holds [OF b(2)] by simp
qed

text \<open>\<open>LEFT\<close> and \<open>RIGHT\<close> are total on well-formed strings.\<close>

theorem LEFT_RIGHT:
  assumes "string_ok s" "0 \<le> L"
  shows "\<exists>r. LEFT_STRING t True s L = Some (r, True) \<and> chars r = take (nat L) (chars s)"
    "\<exists>r. RIGHT_STRING t True s L = Some (r, True) \<and> chars r = drop (length (chars s) - nat L) (chars s)"
proof -
  let ?L = "if L < len s then L else len s"
  have l: "int (length (chars s)) = len s" "0 \<le> len s" using assms length_chars by (auto simp: string_ok_def)
  then have L: "0 \<le> ?L" "?L \<le> len s" using assms by simp_all
  obtain b where b: "copy_chars (body INIT_STRING) 0 (body s) 0 ?L = Some b" "chars \<lparr>len = strlen_t ?L, body = b\<rparr> = take (nat ?L) (chars s)"
    using copy_part [OF assms(1), of 0 ?L] L by auto
  have "take (nat ?L) (chars s) = take (nat L) (chars s)" using l assms(2) by (intro take_same_length) auto
  then show "\<exists>r. LEFT_STRING t True s L = Some (r, True) \<and> chars r = take (nat L) (chars s)"
    using b(2) assms(2) unfolding LEFT_STRING_def TEST_EN_COND_def Let_def conv_len [OF assms(1)] b(1) bind.bind_lunit by simp
  obtain c where c: "copy_chars (body INIT_STRING) 0 (body s) (len s - ?L) ?L = Some c"
      "chars \<lparr>len = strlen_t ?L, body = c\<rparr> = take (nat ?L) (drop (nat (len s - ?L)) (chars s))"
    using copy_part [OF assms(1), of "len s - ?L" ?L] L by auto
  have d: "nat (len s - ?L) = length (chars s) - nat L" "length (chars s) - (length (chars s) - nat L) \<le> nat ?L"
    using l assms(2) by auto
  have "take (nat ?L) (drop (nat (len s - ?L)) (chars s)) = drop (length (chars s) - nat L) (chars s)"
    unfolding d(1) using d(2) by (intro take_all) simp
  then show "\<exists>r. RIGHT_STRING t True s L = Some (r, True) \<and> chars r = drop (length (chars s) - nat L) (chars s)"
    using c(2) assms(2) unfolding RIGHT_STRING_def TEST_EN_COND_def Let_def conv_len [OF assms(1)] c(1) bind.bind_lunit by simp
qed

text \<open>\<open>MID\<close> gives the part of the text when its end can be computed in the type of its arguments. A
  position of 0 is not refused and reads outside the array, and a length near the maximum of the type
  wraps past the check and copies beyond both arrays.\<close>

theorem MID_part:
  assumes s: "string_ok s" and L: "in_type t L" "0 \<le> L" and P: "in_type t P" "0 \<le> P"
  shows "if P = 0 then MID_STRING t True s L P = None
    else if len s < P then MID_STRING t True s L P = Some (INIT_STRING, True)
    else if in_type (promote t) (L + P - 1)
    then \<exists>r. MID_STRING t True s L P = Some (r, True) \<and> chars r = take (nat L) (drop (nat P - 1) (chars s))
    else MID_STRING t True s L P = None"
proof -
  have l: "int (length (chars s)) = len s" "0 \<le> len s" "len s \<le> 126" "length (body s) = 126"
    using s length_chars by (auto simp: string_ok_def)
  have M: "MID_STRING t True s L P = map_option (\<lambda>x. (x, True))
     (if P \<le> len s then do {
        e \<leftarrow> arith (promote t) (L + conv t (P - 1));
        r \<leftarrow> arith (promote t) (len s - conv t (P - 1));
        let L = (if e \<le> len s then L else conv t r);
        b \<leftarrow> copy_chars (body INIT_STRING) 0 (body s) (conv t (P - 1)) L;
        Some \<lparr>len = strlen_t L, body = b\<rparr> }
      else Some INIT_STRING)"
    using assms by (simp add: MID_STRING_def TEST_EN_COND_def Let_def)
  show ?thesis
  proof (cases "P = 0")
    case True
    have "conv t (- 1) < 0 \<or> 126 < conv t (- 1)" by (cases t) (simp_all add: conv_def)
    then have "copy_chars (body INIT_STRING) 0 (body s) (conv t (- 1)) n = None" for n
      using l by (auto simp: copy_chars_def)
    then show ?thesis unfolding M using True
      by (cases "arith (promote t) (L + conv t (- 1))"; cases "arith (promote t) (len s - conv t (- 1))") (simp_all add: l(2))
  next
    case False
    then have c: "conv t (P - 1) = P - 1" using P by (intro conv_in_type) (auto simp: in_type_def split: if_splits)
    show ?thesis
    proof (cases "len s < P")
      case True
      then show ?thesis using False by (simp add: M)
    next
      case small: False
      have r: "arith (promote t) (len s - (P - 1)) = Some (len s - (P - 1))" "conv t (len s - (P - 1)) = len s - (P - 1)"
        using small l False P(2) by (cases t; simp add: arith_def promote_def in_type_def conv_def)+
      show ?thesis
      proof (cases "in_type (promote t) (L + P - 1)")
        case True
        then have e: "arith (promote t) (L + (P - 1)) = Some (L + (P - 1))" by (auto simp: arith_def in_type_def)
        define n where "n = (if L + (P - 1) \<le> len s then L else len s - (P - 1))"
        have n: "0 \<le> n" "P - 1 + n \<le> len s" using small L False P by (auto simp: n_def)
        obtain b where b: "copy_chars (body INIT_STRING) 0 (body s) (P - 1) n = Some b"
            "chars \<lparr>len = strlen_t n, body = b\<rparr> = take (nat n) (drop (nat (P - 1)) (chars s))"
          using copy_part [OF s, of "P - 1" n] n False P by auto
        have "take (nat n) (drop (nat (P - 1)) (chars s)) = take (nat L) (drop (nat (P - 1)) (chars s))"
          using l L by (intro take_same_length) (auto simp: n_def)
        moreover have "nat (P - 1) = nat P - 1" by simp
        moreover have "MID_STRING t True s L P = Some (\<lparr>len = strlen_t n, body = b\<rparr>, True)"
          unfolding M c e r bind.bind_lunit Let_def n_def [symmetric] b(1) using small by simp
        ultimately show ?thesis using False small True b(2) by simp
      next
        case big: False
        have "e \<le> len s \<and> 126 < L" if "arith (promote t) (L + (P - 1)) = Some e" for e
          using that big L P False small l mod_wrap [of 4294967296 "L + (P - 1)"] mod_wrap [of 18446744073709551616 "L + (P - 1)"]
          by (cases t) (simp_all add: arith_def promote_def in_type_def split: if_splits)
        then have "arith (promote t) (L + (P - 1)) \<bind> (\<lambda>e. copy_chars (body INIT_STRING) 0 (body s) (P - 1) (if e \<le> len s then L else n)) = None" for n
          using l False P by (cases "arith (promote t) (L + (P - 1))") (auto simp: copy_chars_def)
        then show ?thesis using False small big
          unfolding M c r bind.bind_lunit Let_def by (cases "arith (promote t) (L + (P - 1))") auto
      qed
    qed
  qed
qed

theorem MID_part_witness:
  "(\<exists>r. MID_STRING IEC_INT True (mk_string ''abcdef'') 2 3 = Some (r, True) \<and> chars r = ''cd'') \<and>
   MID_STRING IEC_INT True (mk_string ''abcdef'') 2 0 = None \<and>
   MID_STRING IEC_UDINT True (mk_string ''abcdef'') 4294967295 2 = None"
proof -
  have i: "in_type IEC_INT 2" "in_type IEC_INT 3" "in_type IEC_INT 0" "in_type IEC_UDINT 4294967295" "in_type IEC_UDINT 2"
    by (simp_all add: in_type_def)
  show ?thesis
    using MID_part [of "mk_string ''abcdef''", OF _ i(1) _ i(2)] MID_part [of "mk_string ''abcdef''", OF _ i(1) _ i(3)]
      MID_part [of "mk_string ''abcdef''", OF _ i(4) _ i(5)]
    by (simp add: promote_def in_type_def)
qed

end
