(* ===== verification/SpiFrames.thy ===== *)
theory SpiFrames
  imports Complex_Main Prelude
begin

text \<open>
  What the two PiXtend layers (\<open>pixtend.cpp\<close>, \<open>pixtend2s.cpp\<close>) share: the CRC-16 of their SPI
  frames, the exchange of a frame with a device, and the command that sets the analog outputs. The
  lemmas are those of the code as an error-detecting code: a shift of the register is linear and
  can be undone, so that a frame followed by its CRC leaves the register empty, and no change
  confined to two neighbouring bytes goes unnoticed.
\<close>

unbundle bit_operations_syntax

section \<open>The checksum\<close>

definition crc16_bit :: "u16 \<Rightarrow> u16" where
  "crc16_bit crc = (if crc AND 1 \<noteq> 0 then drop_bit 1 crc XOR 0xA001 else drop_bit 1 crc)"

definition crc16_calc :: "u16 \<Rightarrow> u8 \<Rightarrow> u16" where
  "crc16_calc crc data = (crc16_bit ^^ 8) (crc XOR ucast data)"

text \<open>The loops \<open>for (i = lo; i < hi; i++) crcSum = crc16_calc(crcSum, spi_output[i])\<close>.\<close>

definition crc16_bytes :: "nat \<Rightarrow> nat \<Rightarrow> u8 list \<Rightarrow> u16" where
  "crc16_bytes lo hi spi_output = fold (\<lambda>i crcSum. crc16_calc crcSum (spi_output ! i)) [lo..<hi] 0xFFFF"

text \<open>A checksum read back, the low byte first: \<open>(high<<8) + low\<close>.\<close>

definition crc_field :: "u8 \<Rightarrow> u8 \<Rightarrow> u16" where
  "crc_field low high = push_bit 8 (ucast high) + ucast low"

lemma crc_field_eq: "crc_field low high = le_word low high"
proof -
  have "push_bit 8 (ucast high :: u16) AND ucast low = 0"
    by (rule bit_eqI) (auto simp: bit_simps dest: bit_u8_less)
  then show ?thesis unfolding crc_field_def le_word_def by (rule disjunctive_add_eq_or)
qed

section \<open>The exchange\<close>

text \<open>
  \<open>wiringPiSPIDataRW(device, buffer, len)\<close> replaces the bytes of the buffer by those the device
  answers. The library and the devices are a parameter: a function of the device number, the bytes
  sent and the state of the devices. \<open>spi_keeps_length\<close> is what the library documents: the
  answer has as many bytes as the request.
\<close>

type_synonym 'w spi_bus = "nat \<Rightarrow> u8 list \<Rightarrow> 'w \<Rightarrow> u8 list \<times> 'w"

definition spi_keeps_length :: "'w spi_bus \<Rightarrow> bool" where
  "spi_keeps_length spi \<longleftrightarrow> (\<forall>d bs w. length (fst (spi d bs w)) = length bs)"

definition aout_frame :: "int \<Rightarrow> u16 \<Rightarrow> u8 list" where
  "aout_frame channel value =
     (let b0 = 0x10;
          b0 = (if channel \<noteq> 0 then b0 OR 0x80 else b0);
          value = (if value > 1023 then 1023 else value);
          tmp = drop_bit 6 (value AND 0x3C0);
          b0 = b0 OR lowByte tmp;
          tmp = push_bit 2 (value AND 0x3F)
      in [b0, lowByte tmp])"

definition Spi_Set_Aout :: "'w spi_bus \<Rightarrow> int \<Rightarrow> u16 \<Rightarrow> 'w \<Rightarrow> 'w" where
  "Spi_Set_Aout spi channel value w = snd (spi 1 (aout_frame channel value) w)"

record pixtOutDAC =
  wAOut0 :: u16
  wAOut1 :: u16

definition Spi_AutoModeDAC :: "'w spi_bus \<Rightarrow> pixtOutDAC \<Rightarrow> 'w \<Rightarrow> 'w" where
  "Spi_AutoModeDAC spi OutputDataDAC w =
     Spi_Set_Aout spi 1 (wAOut1 OutputDataDAC) (Spi_Set_Aout spi 0 (wAOut0 OutputDataDAC) w)"

text \<open>The results of floating-point operations, rounded to the two formats, are parameters.\<close>

record fpu =
  to_double :: "rat \<Rightarrow> rat"
  to_float :: "rat \<Rightarrow> rat"

text \<open>
  \<open>(float)(w) * factor\<close> and \<open>(float)(w) / 10.0\<close>, computed as \<open>double\<close> and stored as \<open>float\<close>.
\<close>

definition scaled :: "fpu \<Rightarrow> rat \<Rightarrow> u16 \<Rightarrow> rat" where
  "scaled f factor w = to_float f (to_double f (to_float f (of_nat (unat w)) * to_double f factor))"

definition tenth :: "fpu \<Rightarrow> u16 \<Rightarrow> rat" where
  "tenth f w = to_float f (to_double f (to_float f (of_nat (unat w)) / 10))"

section \<open>The register\<close>

lemma odd_u16: "(c :: u16) AND 1 \<noteq> 0 \<longleftrightarrow> bit c 0"
  by (simp add: bit_0 and_one_eq odd_iff_mod_2_eq_one)

lemma bit_crc16_bit: "bit (crc16_bit c) i \<longleftrightarrow> (bit c (Suc i) \<noteq> (bit c 0 \<and> bit (0xA001 :: u16) i))"
  by (simp add: crc16_bit_def odd_u16 bit_simps)

lemma crc16_bit_xor: "crc16_bit (c XOR d) = crc16_bit c XOR crc16_bit d"
  by (rule bit_eqI) (auto simp: bit_crc16_bit bit_simps)

lemma crc16_bits_xor: "(crc16_bit ^^ n) (c XOR d) = (crc16_bit ^^ n) c XOR (crc16_bit ^^ n) d"
  by (induction n) (simp_all add: crc16_bit_xor)

text \<open>The lowest bit that left the register comes back in its highest: a shift can be undone.\<close>

lemma top_crc16_bit: "bit (crc16_bit c) 15 \<longleftrightarrow> bit c 0"
  by (auto simp: bit_crc16_bit dest: bit_u16_less)

lemma bit_push_u16: "bit (push_bit m (c :: u16)) n \<longleftrightarrow> m \<le> n \<and> n < 16 \<and> bit c (n - m)"
  by (auto simp: bit_push_bit_iff)

lemma crc16_bit_undo:
  assumes "\<not> bit (crc16_bit c) 15"
  shows "c = push_bit 1 (crc16_bit c)"
proof (rule bit_eqI)
  fix n assume "possible_bit TYPE(16 word) n"
  then show "bit c n = bit (push_bit 1 (crc16_bit c)) n"
    using assms unfolding bit_push_u16 by (cases n) (auto simp: top_crc16_bit bit_crc16_bit dest: bit_u16_less)
qed

lemma crc16_bits_undo:
  assumes "n \<le> 16" "\<And>i. 16 - n \<le> i \<Longrightarrow> \<not> bit ((crc16_bit ^^ n) c) i"
  shows "c = push_bit n ((crc16_bit ^^ n) c)"
  using assms
proof (induction n arbitrary: c)
  case (Suc n)
  let ?y = "(crc16_bit ^^ n) (crc16_bit c)"
  have top: "\<not> bit ?y i" if "15 - n \<le> i" for i
    using Suc.prems(2) [of i] that by (simp add: funpow_swap1)
  have e: "crc16_bit c = push_bit n ?y"
    using Suc.prems(1) top by (intro Suc.IH) auto
  have "\<not> bit (push_bit n ?y) 15"
    using top [of "15 - n"] Suc.prems(1) by (auto simp: bit_push_bit_iff)
  then have "c = push_bit 1 (push_bit n ?y)"
    using crc16_bit_undo [of c] e by metis
  then show ?case by (simp add: funpow_swap1)
qed simp

lemma crc16_bits_eq_0: "(crc16_bit ^^ 8) c = 0 \<longleftrightarrow> c = 0"
proof
  show "c = 0" if "(crc16_bit ^^ 8) c = 0" using crc16_bits_undo [of 8 c] that by simp
  have "(crc16_bit ^^ n) 0 = 0" for n by (induction n) (simp_all add: crc16_bit_def)
  then show "(crc16_bit ^^ 8) c = 0" if "c = 0" using that by simp
qed

lemma xor_eq_0_u16: "(a :: u16) XOR b = 0 \<longleftrightarrow> a = b"
  by (metis xor.assoc xor.left_neutral xor_self_eq)

lemma crc16_calc_eq: "crc16_calc c a = crc16_calc d b \<longleftrightarrow> c XOR ucast a = d XOR ucast b"
  using crc16_bits_eq_0 [of "(c XOR ucast a) XOR (d XOR ucast b)"]
  by (simp only: crc16_bits_xor xor_eq_0_u16 crc16_calc_def)

text \<open>Eight shifts of a byte leave the lower half of the register only when the byte is zero.\<close>

lemma crc16_byte_spreads:
  assumes "(crc16_bit ^^ 8) (ucast (a :: u8)) = ucast (b :: u8)"
  shows "a = 0 \<and> b = 0"
proof -
  have "\<not> bit (ucast b :: u16) i" if "8 \<le> i" for i
    using that bit_u8_less [of b i] by (auto simp: bit_ucast_iff)
  then have "ucast a = push_bit 8 (ucast b :: u16)"
    using crc16_bits_undo [of 8 "ucast a"] assms by simp
  then have "bit (ucast a :: u16) (i + 8) = bit b i" "bit (ucast a :: u16) i = bit (push_bit 8 (ucast b :: u16)) i" if "i < 8" for i
    using that by (simp_all add: bit_simps)
  then have "\<not> bit b i" "\<not> bit a i" if "i < 8" for i
    using that by (auto simp: bit_simps dest: bit_u8_less)
  then show ?thesis by (auto intro!: bit_eqI)
qed

section \<open>Frames\<close>

abbreviation crc_run :: "u16 \<Rightarrow> u8 list \<Rightarrow> u16" where
  "crc_run c bs \<equiv> fold (\<lambda>b c. crc16_calc c b) bs c"

lemma crc16_bytes_run:
  assumes "hi \<le> length bs"
  shows "crc16_bytes lo hi bs = crc_run 0xFFFF (drop lo (take hi bs))"
proof -
  have "drop lo (take hi bs) = map ((!) bs) [lo..<hi]"
    using assms by (intro nth_equalityI) auto
  then show ?thesis by (simp add: crc16_bytes_def fold_map o_def)
qed

text \<open>A message followed by its checksum leaves zero in the register, and only then.\<close>

lemma crc16_calc_high: "crc16_calc (push_bit 8 (ucast (h :: u8))) 0 = ucast h"
proof -
  have "(crc16_bit ^^ n) (push_bit n (ucast h)) = ucast h" if "n \<le> 8" for n
    using that
  proof (induction n)
    case (Suc n)
    have "crc16_bit (push_bit (Suc n) (ucast h)) = push_bit n (ucast h)"
      using Suc.prems by (intro bit_eqI, unfold bit_crc16_bit bit_push_u16)
        (auto simp: bit_ucast_iff Suc_diff_le dest: bit_u8_less)
    then show ?case using Suc by (simp add: funpow_swap1)
  qed simp
  from this [of 8] show ?thesis by (simp add: crc16_calc_def)
qed

lemma crc_run_residue:
  "crc_run c (bs @ [low, high]) = 0 \<longleftrightarrow> crc_run c bs = le_word low high"
proof -
  define s where "s = crc_run c bs"
  have "crc_run c (bs @ [low, high]) = 0 \<longleftrightarrow> crc16_calc s low = ucast high"
    using crc16_bits_eq_0 by (simp add: s_def crc16_calc_def xor_eq_0_u16)
  also have "\<dots> \<longleftrightarrow> s XOR ucast low = push_bit 8 (ucast high)"
    using crc16_calc_eq [of s low "push_bit 8 (ucast high)" 0] by (simp add: crc16_calc_high)
  also have "\<dots> \<longleftrightarrow> s = push_bit 8 (ucast high) XOR ucast low"
    by (metis xor.assoc xor.right_neutral xor_self_eq)
  also have "push_bit 8 (ucast high) XOR ucast low = le_word low high"
    unfolding le_word_def by (rule bit_eqI) (auto simp: bit_simps dest: bit_u8_less)
  finally show ?thesis by (simp add: s_def)
qed

lemma crc_run_eq: "crc_run c bs = crc_run d bs \<longleftrightarrow> c = d"
proof (induction bs arbitrary: c d)
  case (Cons b bs)
  then show ?case by (simp add: crc16_calc_eq) (metis xor.assoc xor.right_neutral xor_self_eq)
qed simp

lemma crc_run_byte: "crc_run c (ps @ a # qs) = crc_run c (ps @ b # qs) \<longleftrightarrow> a = b"
proof -
  have "a = b" if "(c :: u16) XOR ucast a = c XOR ucast b" for c
  proof (rule bit_eqI)
    fix n assume "possible_bit TYPE(8 word) n"
    then have n: "n < 8" by simp
    from that have "bit (c XOR ucast a) n = bit (c XOR ucast b) n" by simp
    then show "bit a n = bit b n" using n by (auto simp: bit_simps)
  qed
  then show ?thesis by (auto simp: crc_run_eq crc16_calc_eq)
qed

lemma xor_move:
  assumes "(x :: u16) XOR y = x' XOR y'"
  shows "x XOR x' = y XOR y'"
proof (rule bit_eqI)
  fix n
  have "bit (x XOR y) n = bit (x' XOR y') n" using assms by simp
  then show "bit (x XOR x') n = bit (y XOR y') n" by (auto simp: bit_xor_iff)
qed

lemma xor_eq_0_u8: "(a :: u8) XOR b = 0 \<longleftrightarrow> a = b"
  by (metis xor.assoc xor.left_neutral xor_self_eq)

lemma crc_run_two_bytes:
  "crc_run c (ps @ a # b # qs) = crc_run c (ps @ a' # b' # qs) \<longleftrightarrow> a = a' \<and> b = b'"
proof
  let ?s = "crc_run c ps"
  assume "crc_run c (ps @ a # b # qs) = crc_run c (ps @ a' # b' # qs)"
  then have "crc16_calc ?s a XOR ucast b = crc16_calc ?s a' XOR ucast b'"
    by (simp add: crc_run_eq crc16_calc_eq)
  then have "crc16_calc ?s a XOR crc16_calc ?s a' = ucast b XOR ucast b'"
    by (rule xor_move)
  moreover have "crc16_calc ?s a XOR crc16_calc ?s a' = (crc16_bit ^^ 8) (ucast (a XOR a'))"
    unfolding crc16_calc_def crc16_bits_xor [symmetric]
    by (rule arg_cong [of _ _ "crc16_bit ^^ 8"], rule bit_eqI) (auto simp: bit_simps)
  moreover have "ucast b XOR ucast b' = (ucast (b XOR b') :: u16)"
    by (rule bit_eqI) (auto simp: bit_simps)
  ultimately have "a XOR a' = 0 \<and> b XOR b' = 0"
    by (intro crc16_byte_spreads) simp
  then show "a = a' \<and> b = b'" by (simp add: xor_eq_0_u8)
qed simp

text \<open>Two lists that differ in two neighbouring places at most.\<close>

definition near :: "nat \<Rightarrow> 'a list \<Rightarrow> 'a list \<Rightarrow> bool" where
  "near k bs bs' \<longleftrightarrow> length bs = length bs' \<and> (\<forall>i < length bs. i \<noteq> k \<and> i \<noteq> Suc k \<longrightarrow> bs ! i = bs' ! i)"

lemma near_drop_take:
  assumes "near k bs bs'" "lo \<le> Suc k"
  shows "near (k - lo) (drop lo (take hi bs)) (drop lo (take hi bs'))"
  unfolding near_def
proof (intro conjI allI impI)
  show "length (drop lo (take hi bs)) = length (drop lo (take hi bs'))" using assms by (simp add: near_def)
  show "drop lo (take hi bs) ! i = drop lo (take hi bs') ! i"
    if "i < length (drop lo (take hi bs))" "i \<noteq> k - lo \<and> i \<noteq> Suc (k - lo)" for i
  proof -
    have "lo + i \<noteq> k \<and> lo + i \<noteq> Suc k \<and> lo + i < length bs \<and> lo + i < hi" using that assms by auto
    then show ?thesis using assms(1) by (simp add: near_def)
  qed
qed

lemma crc_run_near:
  assumes "near k bs bs'" "crc_run c bs = crc_run c bs'"
  shows "bs = bs'"
proof (cases "Suc k < length bs")
  case True
  then have "bs = take k bs @ bs ! k # bs ! Suc k # drop (Suc (Suc k)) bs"
    by (metis Cons_nth_drop_Suc Suc_lessD append_take_drop_id)
  moreover have "bs' = take k bs' @ bs' ! k # bs' ! Suc k # drop (Suc (Suc k)) bs'"
    using True assms(1) unfolding near_def by (metis Cons_nth_drop_Suc Suc_lessD append_take_drop_id)
  moreover have "take k bs' = take k bs" "drop (Suc (Suc k)) bs' = drop (Suc (Suc k)) bs"
    using assms(1) True by (auto simp: near_def intro!: nth_equalityI)
  ultimately show ?thesis using assms(2) crc_run_two_bytes by metis
next
  case False
  show ?thesis
  proof (cases "k < length bs")
    case True
    then have "bs = take k bs @ [bs ! k]"
      using False by (metis Suc_leI append_take_drop_id drop_all linorder_not_less Cons_nth_drop_Suc)
    moreover have "bs' = take k bs' @ [bs' ! k]"
      using False True assms(1) unfolding near_def
      by (metis Suc_leI append_take_drop_id drop_all linorder_not_less Cons_nth_drop_Suc)
    moreover have "take k bs' = take k bs"
      using assms(1) True by (auto simp: near_def intro!: nth_equalityI)
    ultimately show ?thesis using assms(2) crc_run_byte by metis
  next
    case False
    then show ?thesis using assms(1) by (auto simp: near_def intro!: nth_equalityI)
  qed
qed

text \<open>
  The receiver's test on the bytes \<open>lo\<close> to \<open>hi - 1\<close>, followed by the checksum at \<open>hi\<close> and
  \<open>hi + 1\<close>: two frames that differ near \<open>k\<close> only and both pass agree on all these bytes.
\<close>

lemma checked_residue:
  assumes "Suc hi < length bs" "lo \<le> hi"
  shows "crc16_bytes lo hi bs = le_word (bs ! hi) (bs ! Suc hi) \<longleftrightarrow>
    crc_run 0xFFFF (drop lo (take (hi + 2) bs)) = 0"
proof -
  have "take (hi + 2) bs = take hi bs @ [bs ! hi, bs ! Suc hi]"
    using assms by (simp add: take_Suc_conv_app_nth)
  then have "drop lo (take (hi + 2) bs) = drop lo (take hi bs) @ [bs ! hi, bs ! Suc hi]"
    using assms by simp
  then show ?thesis
    using crc_run_residue [of "drop lo (take hi bs)" "bs ! hi" "bs ! Suc hi" "0xFFFF"] crc16_bytes_run [of hi bs lo] assms by simp
qed

lemma checked_near:
  assumes "near k bs bs'" "Suc hi < length bs" "lo \<le> hi"
    and "crc16_bytes lo hi bs = le_word (bs ! hi) (bs ! Suc hi)"
    and "crc16_bytes lo hi bs' = le_word (bs' ! hi) (bs' ! Suc hi)"
  shows "drop lo (take (hi + 2) bs) = drop lo (take (hi + 2) bs')"
proof -
  have "crc_run 0xFFFF (drop lo (take (hi + 2) bs)) = crc_run 0xFFFF (drop lo (take (hi + 2) bs'))"
    using checked_residue [of hi bs lo] checked_residue [of hi bs' lo] assms by (simp add: near_def)
  moreover have "drop lo (take (hi + 2) bs) = drop lo (take (hi + 2) bs')" if "Suc k < lo"
  proof (rule nth_equalityI)
    fix i assume i: "i < length (drop lo (take (hi + 2) bs))"
    then have "lo + i < length bs" "lo + i < hi + 2" "lo \<le> length bs" by auto
    moreover have "lo + i \<noteq> k" "lo + i \<noteq> Suc k" using that by auto
    ultimately show "drop lo (take (hi + 2) bs) ! i = drop lo (take (hi + 2) bs') ! i"
      using assms(1) by (simp add: near_def)
  qed (use assms(1) in \<open>simp add: near_def\<close>)
  ultimately show ?thesis
    using crc_run_near [OF near_drop_take [OF assms(1)]] by (cases "lo \<le> Suc k") auto
qed

text \<open>The checksum depends on the bytes it covers only.\<close>

lemma crc16_bytes_cong:
  assumes "\<And>i. lo \<le> i \<Longrightarrow> i < hi \<Longrightarrow> bs ! i = bs' ! i"
  shows "crc16_bytes lo hi bs = crc16_bytes lo hi bs'"
  unfolding crc16_bytes_def using assms by (intro fold_cong) auto

end
