(* ===== verification/Pixtend.thy ===== *)
theory Pixtend
  imports SpiFrames PinLayers
begin

text \<open>
  The PiXtend layer (\<open>src/core/hardware_layers/pixtend.cpp\<close>): the commands of the PiXtend library,
  the automatic mode that exchanges a frame of 34 bytes with the microcontroller, the thread that
  runs it against the copies \<open>InputData\<close>, \<open>OutputData\<close> and \<open>OutputDataDAC\<close>, and the two
  update functions of the main loop. Delays are not modelled. A frame is a local array whose bytes
  17 to 30 the code sends without having assigned them: its content is a parameter, \<open>stack\<close>.
\<close>

unbundle bit_operations_syntax

section \<open>Data\<close>

record pixtOut =
  byDigOut :: u8
  byRelayOut :: u8
  byGpioOut :: u8
  wPwm0 :: u16
  wPwm1 :: u16
  byPwm0Ctrl0 :: u8
  byPwm0Ctrl1 :: u8
  byPwm0Ctrl2 :: u8
  byGpioCtrl :: u8
  byUcCtrl :: u8
  byAiCtrl0 :: u8
  byAiCtrl1 :: u8
  byPiStatus :: u8
  byAux0 :: u8

record pixtIn =
  byDigIn :: u8
  wAi0 :: u16
  wAi1 :: u16
  wAi2 :: u16
  wAi3 :: u16
  byGpioIn :: u8
  wTemp0 :: u16
  wTemp1 :: u16
  wTemp2 :: u16
  wTemp3 :: u16
  wHumid0 :: u16
  wHumid1 :: u16
  wHumid2 :: u16
  wHumid3 :: u16
  byUcVersionL :: u8
  byUcVersionH :: u8
  byUcStatus :: u8
  rAi0 :: rat
  rAi1 :: rat
  rAi2 :: rat
  rAi3 :: rat
  rTemp0 :: rat
  rTemp1 :: rat
  rTemp2 :: rat
  rTemp3 :: rat
  rHumid0 :: rat
  rHumid1 :: rat
  rHumid2 :: rat
  rHumid3 :: rat

section \<open>The automatic mode\<close>

definition automode_frame :: "u8 list \<Rightarrow> pixtOut \<Rightarrow> u8 list" where
  "automode_frame stack OutputData =
     (let spi_output = stack[0 := 128, 1 := 255, 2 := byDigOut OutputData, 3 := byRelayOut OutputData,
            4 := byGpioOut OutputData,
            5 := lowByte (wPwm0 OutputData), 6 := lowByte (drop_bit 8 (wPwm0 OutputData)),
            7 := lowByte (wPwm1 OutputData), 8 := lowByte (drop_bit 8 (wPwm1 OutputData)),
            9 := byPwm0Ctrl0 OutputData, 10 := byPwm0Ctrl1 OutputData, 11 := byPwm0Ctrl2 OutputData,
            12 := byGpioCtrl OutputData, 13 := byUcCtrl OutputData, 14 := byAiCtrl0 OutputData,
            15 := byAiCtrl1 OutputData, 16 := byPiStatus OutputData];
          crcSum = crc16_bytes 2 31 spi_output
      in spi_output[31 := lowByte crcSum, 32 := highByte crcSum, 33 := 128])"

definition automode_input :: "fpu \<Rightarrow> u8 \<Rightarrow> u8 list \<Rightarrow> pixtIn" where
  "automode_input f aux0 r =
     (let ai0 = le_word (r ! 3) (r ! 4); ai1 = le_word (r ! 5) (r ! 6);
          ai2 = le_word (r ! 7) (r ! 8); ai3 = le_word (r ! 9) (r ! 10);
          t0 = le_word (r ! 12) (r ! 13); t1 = le_word (r ! 14) (r ! 15);
          t2 = le_word (r ! 16) (r ! 17); t3 = le_word (r ! 18) (r ! 19);
          h0 = le_word (r ! 20) (r ! 21); h1 = le_word (r ! 22) (r ! 23);
          h2 = le_word (r ! 24) (r ! 25); h3 = le_word (r ! 26) (r ! 27)
      in \<lparr>byDigIn = r ! 2, wAi0 = ai0, wAi1 = ai1, wAi2 = ai2, wAi3 = ai3, byGpioIn = r ! 11,
          wTemp0 = t0, wTemp1 = t1, wTemp2 = t2, wTemp3 = t3,
          wHumid0 = h0, wHumid1 = h1, wHumid2 = h2, wHumid3 = h3,
          byUcVersionL = r ! 28, byUcVersionH = r ! 29, byUcStatus = r ! 30,
          rAi0 = scaled f (if aux0 AND 1 \<noteq> 0 then 10 / 1024 else 5 / 1024) ai0,
          rAi1 = scaled f (if aux0 AND 2 \<noteq> 0 then 10 / 1024 else 5 / 1024) ai1,
          rAi2 = scaled f (24194115990990990990990990991 / 10 ^ 30) ai2,
          rAi3 = scaled f (24194115990990990990990990991 / 10 ^ 30) ai3,
          rTemp0 = tenth f t0, rTemp1 = tenth f t1, rTemp2 = tenth f t2, rTemp3 = tenth f t3,
          rHumid0 = tenth f h0, rHumid1 = tenth f h1, rHumid2 = tenth f h2, rHumid3 = tenth f h3\<rparr>)"

text \<open>
  The result, the new \<open>*InputData\<close> and the state of the devices. Every field of \<open>*InputData\<close> is
  assigned before the checksum of the answer is looked at. The static variable \<open>byAux0\<close> is assigned
  here from \<open>OutputData\<close> and read nowhere else.
\<close>

definition Spi_AutoMode ::
  "fpu \<Rightarrow> 'w spi_bus \<Rightarrow> u8 list \<Rightarrow> pixtOut \<Rightarrow> 'w \<Rightarrow> int \<times> pixtIn \<times> 'w" where
  "Spi_AutoMode f spi stack OutputData w =
     (let (spi_output, w) = spi 0 (automode_frame stack OutputData) w;
          InputData = automode_input f (byAux0 OutputData) spi_output;
          crcSum = crc16_bytes 2 31 spi_output;
          crcSumRx = crc_field (spi_output ! 31) (spi_output ! 32)
      in (if crcSumRx \<noteq> crcSum then -1 else 0, InputData, w))"

section \<open>The commands of the library\<close>

text \<open>
  The commands the layer does not use itself: a frame of a handshake byte, a command, the arguments
  and an end byte, and for the inquiries the bytes of the answer.
\<close>

definition Spi_Set_Dout :: "'w spi_bus \<Rightarrow> int \<Rightarrow> 'w \<Rightarrow> int \<times> 'w" where
  "Spi_Set_Dout spi value w = (0, snd (spi 0 [0xAA, 1, of_int value, 0xAA] w))"

definition Spi_Get_Dout :: "'w spi_bus \<Rightarrow> 'w \<Rightarrow> u8 \<times> 'w" where
  "Spi_Get_Dout spi w = (let (r, w) = spi 0 [0xAA, 18, 0xAA, 0xAA] w in (r ! 3, w))"

definition Spi_Get_Din :: "'w spi_bus \<Rightarrow> 'w \<Rightarrow> int \<times> 'w" where
  "Spi_Get_Din spi w = (let (r, w) = spi 0 [0xAA, 2, 0xAA, 0xAA] w in (uint (r ! 3), w))"

text \<open>The analog values are asked for twice; the second answer counts.\<close>

definition read_twice :: "'w spi_bus \<Rightarrow> u8 \<Rightarrow> 'w \<Rightarrow> u16 \<times> 'w" where
  "read_twice spi command w =
     (let (r, w) = spi 0 [0xAA, command, 0, 0, 0] w;
          (r, w) = spi 0 [0xAA, command, 0, 0, 0] w
      in (le_word (r ! 3) (r ! 4), w))"

definition Spi_Get_Ain :: "'w spi_bus \<Rightarrow> int \<Rightarrow> 'w \<Rightarrow> u16 \<times> 'w" where
  "Spi_Get_Ain spi Idx w =
     read_twice spi (if Idx = 0 then 3 else if Idx = 1 then 4 else if Idx = 2 then 5 else 6) w"

definition Spi_Set_Relays :: "'w spi_bus \<Rightarrow> int \<Rightarrow> 'w \<Rightarrow> int \<times> 'w" where
  "Spi_Set_Relays spi value w = (0, snd (spi 0 [0xAA, 7, of_int value, 0xAA] w))"

definition Spi_Get_Relays :: "'w spi_bus \<Rightarrow> 'w \<Rightarrow> u8 \<times> 'w" where
  "Spi_Get_Relays spi w = (let (r, w) = spi 0 [0xAA, 19, 0xAA, 0xAA] w in (r ! 3, w))"

definition Spi_Get_Temp :: "'w spi_bus \<Rightarrow> int \<Rightarrow> 'w \<Rightarrow> u16 \<times> 'w" where
  "Spi_Get_Temp spi Idx w =
     read_twice spi (if Idx = 0 then 10 else if Idx = 1 then 11 else if Idx = 2 then 12 else 13) w"

definition Spi_Get_Hum :: "'w spi_bus \<Rightarrow> int \<Rightarrow> 'w \<Rightarrow> u16 \<times> 'w" where
  "Spi_Get_Hum spi Idx w =
     read_twice spi (if Idx = 0 then 14 else if Idx = 1 then 15 else if Idx = 2 then 16 else 17) w"

definition Spi_Set_Servo :: "'w spi_bus \<Rightarrow> int \<Rightarrow> int \<Rightarrow> 'w \<Rightarrow> int \<times> 'w" where
  "Spi_Set_Servo spi channel value w = (0, snd (spi 0 [0xAA, if channel > 0 then 0x81 else 0x80, of_int value, 0xAA] w))"

definition Spi_Set_Pwm :: "'w spi_bus \<Rightarrow> int \<Rightarrow> u16 \<Rightarrow> 'w \<Rightarrow> int \<times> 'w" where
  "Spi_Set_Pwm spi channel value w = (0, snd (spi 0 [0xAA, if channel > 0 then 0x83 else 0x82, lowByte value, lowByte (drop_bit 8 (value AND 0xFF00)), 0xAA] w))"

definition Spi_Set_PwmControl :: "'w spi_bus \<Rightarrow> int \<Rightarrow> int \<Rightarrow> int \<Rightarrow> 'w \<Rightarrow> int \<times> 'w" where
  "Spi_Set_PwmControl spi value0 value1 value2 w = (0, snd (spi 0 [0xAA, 0x84, of_int value0, of_int value1, of_int value2, 0xAA] w))"

definition Spi_Set_GpioControl :: "'w spi_bus \<Rightarrow> int \<Rightarrow> 'w \<Rightarrow> int \<times> 'w" where
  "Spi_Set_GpioControl spi value w = (0, snd (spi 0 [0xAA, 0x85, of_int value, 0xAA] w))"

definition Spi_Set_UcControl :: "'w spi_bus \<Rightarrow> int \<Rightarrow> 'w \<Rightarrow> int \<times> 'w" where
  "Spi_Set_UcControl spi value w = (0, snd (spi 0 [0xAA, 0x86, of_int value, 0xAA] w))"

definition Spi_Set_AiControl :: "'w spi_bus \<Rightarrow> int \<Rightarrow> int \<Rightarrow> 'w \<Rightarrow> int \<times> 'w" where
  "Spi_Set_AiControl spi value0 value1 w = (0, snd (spi 0 [0xAA, 0x87, of_int value0, of_int value1, 0xAA] w))"

definition Spi_Set_RaspStat :: "'w spi_bus \<Rightarrow> int \<Rightarrow> 'w \<Rightarrow> int \<times> 'w" where
  "Spi_Set_RaspStat spi value w = (0, snd (spi 0 [0xAA, 0x88, of_int value, 0xAA] w))"

definition Spi_Setup :: "u8 \<Rightarrow> int \<Rightarrow> pin_cmd list \<times> u8" where
  "Spi_Setup byInitFlag spi_device =
     ((if byInitFlag < 1 then [LibraryCall ''wiringPiSetup'' 0] else []) @
        [PinMode 5 ''OUTPUT'', DigitalWrite 5 1, LibraryCall ''wiringPiSPISetup'' spi_device],
      if byInitFlag < 1 then 1 else byInitFlag)"

definition Spi_uC_Reset :: "pin_cmd list" where
  "Spi_uC_Reset = [LibraryCall ''wiringPiSetup'' 0, PinMode 4 ''OUTPUT'', DigitalWrite 4 1,
     LibraryCall ''delay'' 1000, DigitalWrite 4 0]"

definition Spi_Get_uC_Status :: "'w spi_bus \<Rightarrow> 'w \<Rightarrow> int \<times> 'w" where
  "Spi_Get_uC_Status spi w = (let (r, w) = spi 0 [0xAA, 0x8A, 0xAA, 0] w in (uint (r ! 3), w))"

definition Spi_Get_uC_Version :: "'w spi_bus \<Rightarrow> 'w \<Rightarrow> u16 \<times> 'w" where
  "Spi_Get_uC_Version spi w =
     (let (r, w) = spi 0 [0xAA, 0x89, 0, 0, 0] w in (le_word (r ! 3) (r ! 4), w))"

definition Change_Gpio_Mode :: "int \<Rightarrow> int \<Rightarrow> pin_cmd list" where
  "Change_Gpio_Mode pin mode =
     [LibraryCall ''wiringPiSetup'' 0, PinMode pin (if mode = 1 then ''OUTPUT'' else ''INPUT'')]"

definition Change_Serial_Mode :: "u8 \<Rightarrow> pin_cmd list" where
  "Change_Serial_Mode mode =
     [LibraryCall ''wiringPiSetup'' 0, PinMode 1 ''OUTPUT'', DigitalWrite 1 (if mode = 1 then 1 else 0)]"

definition Spi_Set_Gpio :: "'w spi_bus \<Rightarrow> int \<Rightarrow> 'w \<Rightarrow> int \<times> 'w" where
  "Spi_Set_Gpio spi value w = (0, snd (spi 0 [0xAA, 8, of_int value, 0xAA] w))"

definition Spi_Get_Gpio :: "'w spi_bus \<Rightarrow> 'w \<Rightarrow> int \<times> 'w" where
  "Spi_Get_Gpio spi w = (let (r, w) = spi 0 [0xAA, 9, 0xAA, 0xAA] w in (uint (r ! 3), w))"

section \<open>The layer\<close>

record pix_layer =
  InputData :: pixtIn
  OutputData :: pixtOut
  OutputDataDAC :: pixtOutDAC
  localBufferLock :: bool

definition lock_local :: "pix_layer \<Rightarrow> pix_layer option" where
  "lock_local st = (if localBufferLock st then None else Some (st\<lparr>localBufferLock := True\<rparr>))"

definition unlock_local :: "pix_layer \<Rightarrow> pix_layer" where
  "unlock_local st = st\<lparr>localBufferLock := False\<rparr>"

definition pix_initializeHardware :: "u8 \<Rightarrow> pin_cmd list \<times> u8" where
  "pix_initializeHardware byInitFlag =
     (let (os0, byInitFlag) = Spi_Setup byInitFlag 0; (os1, byInitFlag) = Spi_Setup byInitFlag 1
      in (os0 @ os1 @ [LibraryCall ''pthread_create'' 0], byInitFlag))"

text \<open>One iteration of the thread. The result of \<open>Spi_AutoMode\<close> is not used.\<close>

definition pix_updateLocalBuffers ::
  "fpu \<Rightarrow> 'w spi_bus \<Rightarrow> u8 list \<Rightarrow> pix_layer \<times> 'w \<Rightarrow> (pix_layer \<times> 'w) option" where
  "pix_updateLocalBuffers f spi stack = (\<lambda>(st, w). do {
     st \<leftarrow> lock_local st;
     let OutputData_thread = OutputData st;
     let OutputDataDAC_thread = OutputDataDAC st;
     let st = unlock_local st;
     let OutputData_thread = OutputData_thread\<lparr>byUcCtrl := 16\<rparr>;
     let (_, InputData_thread, w) = Spi_AutoMode f spi stack OutputData_thread w;
     let w = Spi_AutoModeDAC spi OutputDataDAC_thread w;
     st \<leftarrow> lock_local st;
     let st = st\<lparr>InputData := InputData_thread\<rparr>;
     Some (unlock_local st, w) })"

definition pix_updateBuffersIn :: "pix_layer \<Rightarrow> plc_io \<Rightarrow> (plc_io \<times> pix_layer list) option" where
  "pix_updateBuffersIn st m = do {
     m \<leftarrow> lock_buffer m;
     st \<leftarrow> lock_local st;
     m \<leftarrow> for_range 0 8 (bit_in bool_input (\<lambda>i. bitRead (byDigIn (InputData st)) i)) m;
     m \<leftarrow> for_range 0 4 (reg_in int_input (\<lambda>i.
            [wAi0 (InputData st), wAi1 (InputData st), wAi2 (InputData st), wAi3 (InputData st)] ! i)) m;
     Some (unlock_buffer m, [unlock_local st]) }"

definition pix_put_bit :: "plc_io \<Rightarrow> nat \<Rightarrow> pix_layer \<Rightarrow> pix_layer option" where
  "pix_put_bit m i st = do {
     p \<leftarrow> ptr2 (bool_output m) (i div 8) (i mod 8);
     Some (case p of
       None \<Rightarrow> st
     | Some c \<Rightarrow> let d = OutputData st in
         if i < 6 then st\<lparr>OutputData := d\<lparr>byDigOut := bitWrite (byDigOut d) i (u8_heap m c)\<rparr>\<rparr>
         else st\<lparr>OutputData := d\<lparr>byRelayOut := bitWrite (byRelayOut d) (i - 6) (u8_heap m c)\<rparr>\<rparr>) }"

definition pix_put_word :: "plc_io \<Rightarrow> nat \<Rightarrow> pix_layer \<Rightarrow> pix_layer option" where
  "pix_put_word m i st = do {
     p \<leftarrow> ptr1 (int_output m) i;
     Some (case p of
       None \<Rightarrow> st
     | Some c \<Rightarrow> let v = u16_heap m c in
         if i = 0 then st\<lparr>OutputDataDAC := (OutputDataDAC st)\<lparr>wAOut0 := v div 64\<rparr>\<rparr>
         else if i = 1 then st\<lparr>OutputDataDAC := (OutputDataDAC st)\<lparr>wAOut1 := v div 64\<rparr>\<rparr>
         else if i = 2 then st\<lparr>OutputData := (OutputData st)\<lparr>wPwm0 := v\<rparr>\<rparr>
         else st\<lparr>OutputData := (OutputData st)\<lparr>wPwm1 := v\<rparr>\<rparr>) }"

definition pix_updateBuffersOut :: "pix_layer \<Rightarrow> plc_io \<Rightarrow> (plc_io \<times> pix_layer list) option" where
  "pix_updateBuffersOut st m = do {
     m \<leftarrow> lock_buffer m;
     st \<leftarrow> lock_local st;
     st \<leftarrow> for_range 0 10 (pix_put_bit m) st;
     st \<leftarrow> for_range 0 4 (pix_put_word m) st;
     Some (unlock_buffer m, [unlock_local st]) }"

section \<open>The contract of the layer\<close>

lemma pix_put_bits:
  "lo + n \<le> 8192 \<Longrightarrow> \<exists>st'. for_range lo n (pix_put_bit m) st = Some st' \<and>
     localBufferLock st' = localBufferLock st \<and> InputData st' = InputData st"
proof (induction n arbitrary: lo st)
  case (Suc n)
  obtain st1 where "pix_put_bit m lo st = Some st1" "localBufferLock st1 = localBufferLock st" "InputData st1 = InputData st"
    using Suc.prems by (auto simp: pix_put_bit_def Let_def split: option.split)
  then show ?case using Suc.IH [of "Suc lo" st1] Suc.prems by simp
qed simp

lemma pix_put_words:
  "lo + n \<le> 1024 \<Longrightarrow> \<exists>st'. for_range lo n (pix_put_word m) st = Some st' \<and>
     localBufferLock st' = localBufferLock st \<and> InputData st' = InputData st"
proof (induction n arbitrary: lo st)
  case (Suc n)
  obtain st1 where "pix_put_word m lo st = Some st1" "localBufferLock st1 = localBufferLock st" "InputData st1 = InputData st"
    using Suc.prems by (auto simp: pix_put_word_def Let_def split: option.split)
  then show ?case using Suc.IH [of "Suc lo" st1] Suc.prems by simp
qed simp

interpretation pix: hw_layer pix_updateBuffersIn pix_updateBuffersOut "\<lambda>st. \<not> localBufferLock st"
proof
  fix e :: pix_layer and m :: plc_io assume e: "\<not> localBufferLock e" and m: "\<not> bufferLock m"
  obtain m1 where m1: "for_range 0 8 (bit_in bool_input (\<lambda>i. bitRead (byDigIn (InputData e)) i)) (m\<lparr>bufferLock := True\<rparr>) = Some m1"
      "hw_frame m (unlock_buffer m1)"
    by (rule bit_in_locked [OF m, of 8]) simp_all
  obtain m2 where "for_range 0 4 (reg_in int_input (\<lambda>i. [wAi0 (InputData e), wAi1 (InputData e), wAi2 (InputData e),
      wAi3 (InputData e)] ! i)) m1 = Some m2" "tables m2 = tables m1"
    by (rule reg_in_keeps [of 4]) simp
  with m m1 e show "\<exists>m' os. pix_updateBuffersIn e m = Some (m', os) \<and> hw_frame m m'"
    by (simp add: pix_updateBuffersIn_def lock_local_def hw_frame_def)
  obtain st1 where st1: "for_range 0 10 (pix_put_bit (m\<lparr>bufferLock := True\<rparr>)) (e\<lparr>localBufferLock := True\<rparr>) = Some st1"
    using pix_put_bits [of 0 10] by fastforce
  obtain st2 where "for_range 0 4 (pix_put_word (m\<lparr>bufferLock := True\<rparr>)) st1 = Some st2"
    using pix_put_words [of 0 4] by fastforce
  then show "\<exists>m' os. pix_updateBuffersOut e m = Some (m', os) \<and> hw_frame m m'"
    using m e st1 by (simp add: pix_updateBuffersOut_def lock_local_def lock_buffer_def hw_frame_def)
qed

section \<open>Corrupted answers\<close>

lemma automode_frame_length: "length (automode_frame stack d) = length stack"
  by (simp add: automode_frame_def Let_def)

text \<open>The frame the code sends passes the test the code makes of an answer.\<close>

lemma automode_frame_checked:
  assumes "length stack = 34"
  shows "crc16_bytes 2 31 (automode_frame stack d) =
    le_word (automode_frame stack d ! 31) (automode_frame stack d ! 32)"
proof -
  have "crc16_bytes 2 31 (bs[31 := a, 32 := b, 33 := c]) = crc16_bytes 2 31 bs" for bs a b c
    by (rule crc16_bytes_cong) simp
  then show ?thesis using assms by (simp add: automode_frame_def Let_def)
qed

definition frame_ok :: "u8 list \<Rightarrow> bool" where
  "frame_ok r \<longleftrightarrow> length r = 34 \<and> crc16_bytes 2 31 r = crc_field (r ! 31) (r ! 32)"

lemma frame_ok_near:
  assumes "frame_ok r" "near k r r'" "drop 2 (take 33 r) \<noteq> drop 2 (take 33 r')"
  shows "\<not> frame_ok r'"
  using checked_near [of k r r' 31 2] assms by (auto simp: frame_ok_def crc_field_eq)

lemma Spi_AutoMode_result:
  assumes "length (fst (spi 0 (automode_frame stack d) w)) = 34"
  shows "fst (Spi_AutoMode f spi stack d w) = (if frame_ok (fst (spi 0 (automode_frame stack d) w)) then 0 else -1)"
  using assms by (auto simp: Spi_AutoMode_def frame_ok_def split: prod.splits)

lemma pix_updateLocalBuffers_eq:
  assumes "\<not> localBufferLock st"
  shows "\<exists>w'. pix_updateLocalBuffers f spi stack (st, w) = Some (st\<lparr>InputData :=
     automode_input f (byAux0 (OutputData st)) (fst (spi 0 (automode_frame stack ((OutputData st)\<lparr>byUcCtrl := 16\<rparr>)) w))\<rparr>, w')"
  using assms by (simp add: pix_updateLocalBuffers_def lock_local_def unlock_local_def Spi_AutoMode_def Let_def
      split: prod.split)

lemma pix_updateBuffersIn_values:
  assumes "\<not> localBufferLock st" "\<not> bufferLock m" "inputs_distinct m"
  obtains m' os where "pix_updateBuffersIn st m = Some (m', os)"
    "\<And>i c. i < 8 \<Longrightarrow> bit_ptr bool_input m i = Some c \<Longrightarrow> u8_heap m' c = bitRead (byDigIn (InputData st)) i"
    "\<And>i c. i < 4 \<Longrightarrow> int_input m i = Some c \<Longrightarrow> u16_heap m' c =
       [wAi0 (InputData st), wAi1 (InputData st), wAi2 (InputData st), wAi3 (InputData st)] ! i"
proof -
  let ?l = "m\<lparr>bufferLock := True\<rparr>"
  have d: "i = j" if "i < 8" "j < 8" "bit_ptr bool_input ?l i \<noteq> None" "bit_ptr bool_input ?l i = bit_ptr bool_input ?l j" for i j
    using assms(3) that by (auto simp: inputs_distinct_def bit_ptr_def)
  have e: "i = j" if "i < 4" "j < 4" "int_input m i \<noteq> None" "int_input m i = int_input m j" for i j
    using assms(3) that by (auto simp: inputs_distinct_def)
  obtain m1 where m1: "for_range 0 8 (bit_in bool_input (\<lambda>i. bitRead (byDigIn (InputData st)) i)) ?l = Some m1"
      "tables m1 = tables ?l"
    using bit_in_loop [of 0 8] by fastforce
  obtain m2 where m2: "for_range 0 4 (reg_in int_input (\<lambda>i. [wAi0 (InputData st), wAi1 (InputData st), wAi2 (InputData st),
      wAi3 (InputData st)] ! i)) m1 = Some m2" "u8_heap m2 = u8_heap m1"
    using reg_in_loop [of 0 4] by fastforce
  have t: "int_input m1 = int_input m" using tables_eqD(5) [OF m1(2)] by simp
  show ?thesis
  proof (rule that)
    show "pix_updateBuffersIn st m = Some (unlock_buffer m2, [unlock_local (st\<lparr>localBufferLock := True\<rparr>)])"
      using assms m1 m2 by (simp add: pix_updateBuffersIn_def lock_local_def lock_buffer_def)
    show "u8_heap (unlock_buffer m2) c = bitRead (byDigIn (InputData st)) i" if "i < 8" "bit_ptr bool_input m i = Some c" for i c
      using bit_in_values [OF _ _ d m1(1) that(1), of c] that m2(2) by (simp add: bit_ptr_def unlock_buffer_def)
    show "u16_heap (unlock_buffer m2) c = [wAi0 (InputData st), wAi1 (InputData st), wAi2 (InputData st),
      wAi3 (InputData st)] ! i" if "i < 4" "int_input m i = Some c" for i c
      using reg_in_values [OF _ _ _ m2(1) that(1), of c] that e by (simp add: t unlock_buffer_def)
  qed
qed

lemma automode_input_values:
  "byDigIn (automode_input f a r) = r ! 2"
  "i < 4 \<Longrightarrow> [wAi0 (automode_input f a r), wAi1 (automode_input f a r), wAi2 (automode_input f a r),
     wAi3 (automode_input f a r)] ! i = le_word (r ! (3 + 2 * i)) (r ! (4 + 2 * i))"
  by (auto simp: automode_input_def Let_def numeral_eq_Suc less_Suc_eq)

text \<open>C27: An answer of the microcontroller in which one byte, or two neighbouring bytes, among the bytes
  2 to 32 that the CRC covers (its own two bytes included) differ from a good frame is always recognised, and
  delivered all the same: \<open>Spi_AutoMode\<close> returns -1, the thread ignores it, and the next update writes the
  corrupted bits and words to every mapped input of the program. Nothing is claimed of the bytes 0, 1 and
  33, which are not covered, nor of two bytes that are further apart, whose changes may cancel in the CRC.\<close>

theorem corrupted_frame_delivered:
  assumes spi: "spi_keeps_length spi" and len: "length stack = 34"
    and st: "\<not> localBufferLock st" and m: "\<not> bufferLock m" "inputs_distinct m"
    and r: "r = fst (spi 0 (automode_frame stack ((OutputData st)\<lparr>byUcCtrl := 16\<rparr>)) w)"
    and good: "frame_ok good" "near k good r" "drop 2 (take 33 good) \<noteq> drop 2 (take 33 r)"
  shows "fst (Spi_AutoMode f spi stack ((OutputData st)\<lparr>byUcCtrl := 16\<rparr>) w) = -1 \<and>
    (\<exists>st' w' m' os. pix_updateLocalBuffers f spi stack (st, w) = Some (st', w') \<and>
       pix_updateBuffersIn st' m = Some (m', os) \<and>
       (\<forall>i c. i < 8 \<and> bit_ptr bool_input m i = Some c \<longrightarrow> u8_heap m' c = bitRead (r ! 2) i) \<and>
       (\<forall>i c. i < 4 \<and> int_input m i = Some c \<longrightarrow> u16_heap m' c = le_word (r ! (3 + 2 * i)) (r ! (4 + 2 * i))))"
proof -
  let ?o = "(OutputData st)\<lparr>byUcCtrl := 16\<rparr>" and ?in = "automode_input f (byAux0 (OutputData st)) r"
  have "length r = 34" using spi len by (simp add: r spi_keeps_length_def automode_frame_length)
  then have "fst (Spi_AutoMode f spi stack ?o w) = -1"
    using Spi_AutoMode_result [of spi stack ?o w f] frame_ok_near [OF good] r by simp
  moreover obtain w' where "pix_updateLocalBuffers f spi stack (st, w) = Some (st\<lparr>InputData := ?in\<rparr>, w')"
    using pix_updateLocalBuffers_eq [OF st] r by metis
  moreover obtain m' os where "pix_updateBuffersIn (st\<lparr>InputData := ?in\<rparr>) m = Some (m', os)"
    "\<And>i c. i < 8 \<Longrightarrow> bit_ptr bool_input m i = Some c \<Longrightarrow> u8_heap m' c = bitRead (r ! 2) i"
    "\<And>i c. i < 4 \<Longrightarrow> int_input m i = Some c \<Longrightarrow> u16_heap m' c = le_word (r ! (3 + 2 * i)) (r ! (4 + 2 * i))"
    by (rule pix_updateBuffersIn_values [of "st\<lparr>InputData := ?in\<rparr>" m]) (use st m in
      \<open>simp_all add: automode_input_values\<close>)
  ultimately show ?thesis by blast
qed

definition demo_out :: pixtOut where
  "demo_out = \<lparr>byDigOut = 0, byRelayOut = 0, byGpioOut = 0, wPwm0 = 0, wPwm1 = 0, byPwm0Ctrl0 = 0, byPwm0Ctrl1 = 0,
     byPwm0Ctrl2 = 0, byGpioCtrl = 0, byUcCtrl = 0, byAiCtrl0 = 0, byAiCtrl1 = 0, byPiStatus = 0, byAux0 = 0\<rparr>"

definition demo_layer :: pix_layer where
  "demo_layer = \<lparr>InputData = automode_input \<lparr>to_double = id, to_float = id\<rparr> 0 (replicate 34 0),
     OutputData = demo_out, OutputDataDAC = \<lparr>wAOut0 = 0, wAOut1 = 0\<rparr>, localBufferLock = False\<rparr>"

text \<open>A device that echoes the frame with its third byte, the digital inputs, set to 255.\<close>

theorem corrupted_frame_delivered_witness:
  "\<exists>st' w' m' os. pix_updateLocalBuffers \<lparr>to_double = id, to_float = id\<rparr> (\<lambda>d bs w. (bs[2 := 255], w))
       (replicate 34 0) (demo_layer, ()) = Some (st', w') \<and>
     pix_updateBuffersIn st' demo_io = Some (m', os) \<and> u8_heap m' (Mb_discrete_input 3) = 1"
proof -
  let ?spi = "\<lambda>d bs w. (bs[2 := 255 :: u8], w :: unit)" and ?o = "(OutputData demo_layer)\<lparr>byUcCtrl := 16\<rparr>"
  let ?good = "automode_frame (replicate 34 0) ?o"
  have f: "frame_ok ?good"
    using automode_frame_checked [of "replicate 34 0" ?o] by (simp add: frame_ok_def crc_field_eq automode_frame_length)
  have two: "?good ! 2 = 0"
    by (simp add: automode_frame_def Let_def demo_layer_def demo_out_def)
  have n: "near 2 ?good (?good[2 := 255])" by (simp add: near_def)
  have ne: "drop 2 (take 33 ?good) \<noteq> drop 2 (take 33 (?good[2 := 255]))"
  proof
    assume "drop 2 (take 33 ?good) = drop 2 (take 33 (?good[2 := 255]))"
    from arg_cong [OF this, of "\<lambda>xs. xs ! 0"] show False using two by (simp add: automode_frame_length)
  qed
  have d: "inputs_distinct demo_io" by (auto simp: inputs_distinct_def bit_ptr_def demo_io_def)
  have "bit_ptr bool_input demo_io 3 = Some (Mb_discrete_input 3)" by (simp add: bit_ptr_def demo_io_def)
  then show ?thesis
    using corrupted_frame_delivered [of ?spi "replicate 34 0" demo_layer demo_io "?good[2 := 255]" "()" ?good 2
        "\<lparr>to_double = id, to_float = id\<rparr>"] f n ne d
    by (fastforce simp: spi_keeps_length_def demo_layer_def automode_frame_length bitRead_def)
qed

end
