(* ===== verification/Pixtend2s.thy ===== *)
theory Pixtend2s
  imports SpiFrames PinLayers
begin

text \<open>
  The PiXtend V2-S layer (\<open>src/core/hardware_layers/pixtend2s.cpp\<close>): the frame of 67 bytes with a
  checksum of its header and one of its data, the automatic mode that refuses an answer with a
  wrong checksum or of another model, the thread and the two update functions. \<open>crc16_calc\<close>,
  \<open>Spi_Set_Aout\<close> and \<open>Spi_AutoModeDAC\<close> are those of \<open>SpiFrames\<close>, the code of the two files
  being the same.
\<close>

unbundle bit_operations_syntax

section \<open>Data\<close>

record pixtOutV2S =
  byModelOut :: u8
  byUCMode :: u8
  byUCCtrl0 :: u8
  byUCCtrl1 :: u8
  byDigitalInDebounce01 :: u8
  byDigitalInDebounce23 :: u8
  byDigitalInDebounce45 :: u8
  byDigitalInDebounce67 :: u8
  byDigitalOut :: u8
  byRelayOut :: u8
  byGPIOCtrl :: u8
  byGPIOOut :: u8
  byGPIODebounce01 :: u8
  byGPIODebounce23 :: u8
  byPWM0Ctrl0 :: u8
  wPWM0Ctrl1 :: u16
  wPWM0A :: u16
  wPWM0B :: u16
  byPWM1Ctrl0 :: u8
  byPWM1Ctrl1 :: u8
  byPWM1A :: u8
  byPWM1B :: u8
  byJumper10V :: u8
  byGPIO0Dht11 :: u8
  byGPIO1Dht11 :: u8
  byGPIO2Dht11 :: u8
  byGPIO3Dht11 :: u8
  abyRetainDataOut :: "u8 list"

record pixtInV2S =
  byFirmware :: u8
  byHardware :: u8
  byModelIn :: u8
  byUCState :: u8
  byUCWarnings :: u8
  byDigitalIn :: u8
  wAnalogIn0 :: u16
  wAnalogIn1 :: u16
  byGPIOIn :: u8
  wTemp0 :: u16
  byTemp0Error :: u8
  wTemp1 :: u16
  byTemp1Error :: u8
  wTemp2 :: u16
  byTemp2Error :: u8
  wTemp3 :: u16
  byTemp3Error :: u8
  wHumid0 :: u16
  wHumid1 :: u16
  wHumid2 :: u16
  wHumid3 :: u16
  rAnalogIn0 :: rat
  rAnalogIn1 :: rat
  rTemp0 :: rat
  rTemp1 :: rat
  rTemp2 :: rat
  rTemp3 :: rat
  rHumid0 :: rat
  rHumid1 :: rat
  rHumid2 :: rat
  rHumid3 :: rat
  abyRetainDataIn :: "u8 list"

section \<open>The automatic mode\<close>

definition v2s_frame :: "pixtOutV2S \<Rightarrow> u8 list" where
  "v2s_frame d =
     (let spi_output =
            [byModelOut d, byUCMode d, byUCCtrl0 d, byUCCtrl1 d, 0, 0, 0, 0, 0,
             byDigitalInDebounce01 d, byDigitalInDebounce23 d, byDigitalInDebounce45 d, byDigitalInDebounce67 d,
             byDigitalOut d, byRelayOut d, byGPIOCtrl d, byGPIOOut d, byGPIODebounce01 d, byGPIODebounce23 d,
             byPWM0Ctrl0 d, lowByte (wPWM0Ctrl1 d), lowByte (drop_bit 8 (wPWM0Ctrl1 d)),
             lowByte (wPWM0A d), lowByte (drop_bit 8 (wPWM0A d)), lowByte (wPWM0B d), lowByte (drop_bit 8 (wPWM0B d)),
             byPWM1Ctrl0 d, byPWM1Ctrl1 d, 0, byPWM1A d, 0, byPWM1B d, 0] @
            map (\<lambda>i. abyRetainDataOut d ! i) [0..<32] @ [0, 0];
          crcSumHeader = crc16_bytes 0 7 spi_output;
          spi_output = spi_output[7 := lowByte crcSumHeader, 8 := highByte crcSumHeader];
          crcSumData = crc16_bytes 9 65 spi_output
      in spi_output[65 := lowByte crcSumData, 66 := highByte crcSumData])"

text \<open>
  A temperature and a humidity of the answer, at byte \<open>a\<close>: four bytes 255 mean a read error, and
  then the old values stay.
\<close>

definition v2s_sensor :: "u8 list \<Rightarrow> nat \<Rightarrow> u16 \<times> u16 \<Rightarrow> u16 \<times> u16 \<times> u8" where
  "v2s_sensor r a old =
     (if r ! (a + 1) = 255 \<and> r ! a = 255 \<and> r ! (a + 3) = 255 \<and> r ! (a + 2) = 255
      then (fst old, snd old, 1)
      else (le_word (r ! a) (r ! (a + 1)), le_word (r ! (a + 2)) (r ! (a + 3)), 0))"

text \<open>A DHT11 sends whole degrees in the high byte; bit 15 of a DHT22 is the sign.\<close>

definition v2s_rTemp :: "fpu \<Rightarrow> u8 \<Rightarrow> u16 \<Rightarrow> rat" where
  "v2s_rTemp f dht11 w =
     (if dht11 = 1 then to_float f (of_nat (unat (w div 256)))
      else if drop_bit 15 w AND 1 \<noteq> 0
      then (let wTempValue = w AND NOT (push_bit 15 1) in
        to_float f (to_double f (to_double f (to_float f (of_nat (unat wTempValue)) / 10) * -1)))
      else tenth f w)"

definition v2s_rHumid :: "fpu \<Rightarrow> u8 \<Rightarrow> u16 \<Rightarrow> rat" where
  "v2s_rHumid f dht11 w = (if dht11 = 1 then to_float f (of_nat (unat (w div 256))) else tenth f w)"

definition v2s_header :: "u8 list \<Rightarrow> pixtInV2S \<Rightarrow> pixtInV2S" where
  "v2s_header r d = d\<lparr>byFirmware := r ! 0, byHardware := r ! 1, byModelIn := r ! 2, byUCState := r ! 3,
     byUCWarnings := r ! 4\<rparr>"

definition v2s_data :: "fpu \<Rightarrow> pixtOutV2S \<Rightarrow> u8 list \<Rightarrow> pixtInV2S \<Rightarrow> pixtInV2S" where
  "v2s_data f OutputData r d =
     (let a0 = le_word (r ! 10) (r ! 11); a1 = le_word (r ! 12) (r ! 13);
          (t0, h0, e0) = v2s_sensor r 15 (wTemp0 d, wHumid0 d);
          (t1, h1, e1) = v2s_sensor r 19 (wTemp1 d, wHumid1 d);
          (t2, h2, e2) = v2s_sensor r 23 (wTemp2 d, wHumid2 d);
          (t3, h3, e3) = v2s_sensor r 27 (wTemp3 d, wHumid3 d);
          jumper = byJumper10V OutputData
      in d\<lparr>byDigitalIn := r ! 9, wAnalogIn0 := a0, wAnalogIn1 := a1, byGPIOIn := r ! 14,
           wTemp0 := t0, byTemp0Error := e0, wTemp1 := t1, byTemp1Error := e1,
           wTemp2 := t2, byTemp2Error := e2, wTemp3 := t3, byTemp3Error := e3,
           wHumid0 := h0, wHumid1 := h1, wHumid2 := h2, wHumid3 := h3,
           rAnalogIn0 := scaled f (if jumper AND 1 \<noteq> 0 then 10 / 1024 else 5 / 1024) a0,
           rAnalogIn1 := scaled f (if jumper AND 2 \<noteq> 0 then 10 / 1024 else 5 / 1024) a1,
           rTemp0 := v2s_rTemp f (byGPIO0Dht11 OutputData) t0, rTemp1 := v2s_rTemp f (byGPIO1Dht11 OutputData) t1,
           rTemp2 := v2s_rTemp f (byGPIO2Dht11 OutputData) t2, rTemp3 := v2s_rTemp f (byGPIO3Dht11 OutputData) t3,
           rHumid0 := v2s_rHumid f (byGPIO0Dht11 OutputData) h0, rHumid1 := v2s_rHumid f (byGPIO1Dht11 OutputData) h1,
           rHumid2 := v2s_rHumid f (byGPIO2Dht11 OutputData) h2, rHumid3 := v2s_rHumid f (byGPIO3Dht11 OutputData) h3,
           abyRetainDataIn := map (\<lambda>i. r ! (33 + i)) [0..<32]\<rparr>)"

definition Spi_AutoModeV2S ::
  "fpu \<Rightarrow> 'w spi_bus \<Rightarrow> pixtOutV2S \<Rightarrow> pixtInV2S \<times> 'w \<Rightarrow> int \<times> pixtInV2S \<times> 'w" where
  "Spi_AutoModeV2S f spi OutputData = (\<lambda>(InputData, w).
     let (spi_output, w) = spi 0 (v2s_frame OutputData) w;
         crcSumHeaderRxCalc = crc16_bytes 0 7 spi_output;
         crcSumHeaderRx = crc_field (spi_output ! 7) (spi_output ! 8)
     in if crcSumHeaderRx \<noteq> crcSumHeaderRxCalc then (-1, InputData, w)
        else if spi_output ! 2 \<noteq> 83 then (-2, InputData, w)
        else let InputData = v2s_header spi_output InputData;
                 crcSumDataRxCalc = crc16_bytes 9 65 spi_output;
                 crcSumDataRx = crc_field (spi_output ! 65) (spi_output ! 66)
             in if crcSumDataRxCalc \<noteq> crcSumDataRx then (-3, InputData, w)
                else (0, v2s_data f OutputData spi_output InputData, w))"

definition Spi_SetupV2 :: "u8 \<Rightarrow> int \<Rightarrow> pin_cmd list \<times> u8" where
  "Spi_SetupV2 byInitFlag spi_device =
     ((if byInitFlag < 1 then [LibraryCall ''wiringPiSetup'' 0] else []) @
        [PinMode 5 ''OUTPUT'', DigitalWrite 5 1, LibraryCall ''wiringPiSPISetup'' spi_device],
      if byInitFlag < 1 then 1 else byInitFlag)"

section \<open>The layer\<close>

record v2s_layer =
  InputData :: pixtInV2S
  OutputData :: pixtOutV2S
  OutputDataDAC :: pixtOutDAC
  localBufferLock :: bool

definition v2s_lock :: "v2s_layer \<Rightarrow> v2s_layer option" where
  "v2s_lock st = (if localBufferLock st then None else Some (st\<lparr>localBufferLock := True\<rparr>))"

definition v2s_unlock :: "v2s_layer \<Rightarrow> v2s_layer" where
  "v2s_unlock st = st\<lparr>localBufferLock := False\<rparr>"

definition v2s_initializeHardware :: "u8 \<Rightarrow> pin_cmd list \<times> u8" where
  "v2s_initializeHardware byInitFlag =
     (let (os0, byInitFlag) = Spi_SetupV2 byInitFlag 0; (os1, byInitFlag) = Spi_SetupV2 byInitFlag 1
      in (os0 @ os1 @ [LibraryCall ''pthread_create'' 0], byInitFlag))"

text \<open>
  One iteration of the thread, whose own copy \<open>InputData_thread\<close> lives from one iteration to the
  next and has no initial value: whatever the first is given.
\<close>

definition v2s_updateLocalBuffers ::
  "fpu \<Rightarrow> 'w spi_bus \<Rightarrow> v2s_layer \<times> pixtInV2S \<times> 'w \<Rightarrow> (v2s_layer \<times> pixtInV2S \<times> 'w) option" where
  "v2s_updateLocalBuffers f spi = (\<lambda>(st, InputData_thread, w). do {
     st \<leftarrow> v2s_lock st;
     let OutputData_thread = OutputData st;
     let OutputDataDAC_thread = OutputDataDAC st;
     let st = v2s_unlock st;
     let OutputData_thread = OutputData_thread\<lparr>byModelOut := 83\<rparr>;
     let (_, InputData_thread, w) = Spi_AutoModeV2S f spi OutputData_thread (InputData_thread, w);
     let w = Spi_AutoModeDAC spi OutputDataDAC_thread w;
     st \<leftarrow> v2s_lock st;
     let st = st\<lparr>InputData := InputData_thread\<rparr>;
     Some (v2s_unlock st, InputData_thread, w) })"

definition v2s_words :: "pixtInV2S \<Rightarrow> u16 list" where
  "v2s_words d = [wAnalogIn0 d, wAnalogIn1 d, wTemp0 d, wTemp1 d, wTemp2 d, wTemp3 d,
     wHumid0 d, wHumid1 d, wHumid2 d, wHumid3 d]"

definition v2s_updateBuffersIn :: "v2s_layer \<Rightarrow> plc_io \<Rightarrow> (plc_io \<times> v2s_layer list) option" where
  "v2s_updateBuffersIn st m = (let d = InputData st in do {
     m \<leftarrow> lock_buffer m;
     st \<leftarrow> v2s_lock st;
     m \<leftarrow> for_range 0 8 (bit_in bool_input (\<lambda>i. bitRead (byDigitalIn d) i)) m;
     m \<leftarrow> for_range 8 4 (bit_in bool_input (\<lambda>i. bitRead (byGPIOIn d) (i - 8))) m;
     m \<leftarrow> for_range 0 5 (byte_in byte_input (\<lambda>i.
            [byFirmware d, byHardware d, byModelIn d, byUCState d, byUCWarnings d] ! i)) m;
     m \<leftarrow> for_range 0 10 (reg_in int_input (\<lambda>i. v2s_words d ! i)) m;
     Some (unlock_buffer m, [v2s_unlock st]) })"

definition v2s_put_bit :: "plc_io \<Rightarrow> nat \<Rightarrow> v2s_layer \<Rightarrow> v2s_layer option" where
  "v2s_put_bit m i st = do {
     p \<leftarrow> ptr2 (bool_output m) (i div 8) (i mod 8);
     Some (case p of
       None \<Rightarrow> st
     | Some c \<Rightarrow> let d = OutputData st; v = u8_heap m c in
         if i < 4 then st\<lparr>OutputData := d\<lparr>byDigitalOut := bitWrite (byDigitalOut d) i v\<rparr>\<rparr>
         else if i < 8 then st\<lparr>OutputData := d\<lparr>byRelayOut := bitWrite (byRelayOut d) (i - 4) v\<rparr>\<rparr>
         else st\<lparr>OutputData := d\<lparr>byGPIOOut := bitWrite (byGPIOOut d) (i - 8) v\<rparr>\<rparr>) }"

definition v2s_put_word :: "plc_io \<Rightarrow> nat \<Rightarrow> v2s_layer \<Rightarrow> v2s_layer option" where
  "v2s_put_word m i st = do {
     p \<leftarrow> ptr1 (int_output m) i;
     Some (case p of
       None \<Rightarrow> st
     | Some c \<Rightarrow> let v = u16_heap m c in
         if i = 0 then st\<lparr>OutputDataDAC := (OutputDataDAC st)\<lparr>wAOut0 := v div 64\<rparr>\<rparr>
         else if i = 1 then st\<lparr>OutputDataDAC := (OutputDataDAC st)\<lparr>wAOut1 := v div 64\<rparr>\<rparr>
         else if i = 2 then st\<lparr>OutputData := (OutputData st)\<lparr>wPWM0A := v\<rparr>\<rparr>
         else if i = 3 then st\<lparr>OutputData := (OutputData st)\<lparr>wPWM0B := v\<rparr>\<rparr>
         else st\<lparr>OutputData := (OutputData st)\<lparr>wPWM0Ctrl1 := v\<rparr>\<rparr>) }"

definition v2s_put_byte :: "plc_io \<Rightarrow> nat \<Rightarrow> v2s_layer \<Rightarrow> v2s_layer option" where
  "v2s_put_byte m i st = do {
     p \<leftarrow> ptr1 (byte_output m) i;
     Some (case p of
       None \<Rightarrow> st
     | Some c \<Rightarrow> let d = OutputData st; v = u8_heap m c in
         st\<lparr>OutputData :=
           (if i = 0 then d\<lparr>byUCCtrl0 := v\<rparr> else if i = 1 then d\<lparr>byUCCtrl1 := v\<rparr>
            else if i = 2 then d\<lparr>byGPIOCtrl := v\<rparr> else if i = 3 then d\<lparr>byPWM0Ctrl0 := v\<rparr>
            else if i = 4 then d\<lparr>byPWM1Ctrl0 := v\<rparr> else if i = 5 then d\<lparr>byPWM1Ctrl1 := v\<rparr>
            else if i = 6 then d\<lparr>byPWM1A := v\<rparr> else d\<lparr>byPWM1B := v\<rparr>)\<rparr>) }"

definition v2s_updateBuffersOut :: "v2s_layer \<Rightarrow> plc_io \<Rightarrow> (plc_io \<times> v2s_layer list) option" where
  "v2s_updateBuffersOut st m = do {
     m \<leftarrow> lock_buffer m;
     st \<leftarrow> v2s_lock st;
     st \<leftarrow> for_range 0 4 (v2s_put_bit m) st;
     st \<leftarrow> for_range 4 4 (v2s_put_bit m) st;
     st \<leftarrow> for_range 8 4 (v2s_put_bit m) st;
     st \<leftarrow> for_range 0 4 (v2s_put_word m) st;
     st \<leftarrow> v2s_put_word m 4 st;
     st \<leftarrow> for_range 0 8 (v2s_put_byte m) st;
     Some (unlock_buffer m, [v2s_unlock st]) }"

section \<open>The contract of the layer\<close>

lemma v2s_put_bits:
  "lo + n \<le> 8192 \<Longrightarrow> \<exists>st'. for_range lo n (v2s_put_bit m) st = Some st' \<and> localBufferLock st' = localBufferLock st"
proof (induction n arbitrary: lo st)
  case (Suc n)
  obtain st1 where "v2s_put_bit m lo st = Some st1" "localBufferLock st1 = localBufferLock st"
    using Suc.prems by (auto simp: v2s_put_bit_def Let_def split: option.split)
  then show ?case using Suc.IH [of "Suc lo" st1] Suc.prems by simp
qed simp

lemma v2s_put_words:
  "lo + n \<le> 1024 \<Longrightarrow> \<exists>st'. for_range lo n (v2s_put_word m) st = Some st' \<and> localBufferLock st' = localBufferLock st"
proof (induction n arbitrary: lo st)
  case (Suc n)
  obtain st1 where "v2s_put_word m lo st = Some st1" "localBufferLock st1 = localBufferLock st"
    using Suc.prems by (auto simp: v2s_put_word_def Let_def split: option.split)
  then show ?case using Suc.IH [of "Suc lo" st1] Suc.prems by simp
qed simp

lemma v2s_put_bytes:
  "lo + n \<le> 1024 \<Longrightarrow> \<exists>st'. for_range lo n (v2s_put_byte m) st = Some st' \<and> localBufferLock st' = localBufferLock st"
proof (induction n arbitrary: lo st)
  case (Suc n)
  obtain st1 where "v2s_put_byte m lo st = Some st1" "localBufferLock st1 = localBufferLock st"
    using Suc.prems by (auto simp: v2s_put_byte_def Let_def split: option.split)
  then show ?case using Suc.IH [of "Suc lo" st1] Suc.prems by simp
qed simp

lemma v2s_out_frame:
  assumes "\<not> localBufferLock st" "\<not> bufferLock m"
  shows "\<exists>st'. v2s_updateBuffersOut st m = Some (m, [st']) \<and> \<not> localBufferLock st'"
proof -
  let ?m = "m\<lparr>bufferLock := True\<rparr>"
  obtain s1 where 1: "for_range 0 4 (v2s_put_bit ?m) (st\<lparr>localBufferLock := True\<rparr>) = Some s1"
    using v2s_put_bits [of 0 4] by fastforce
  obtain s2 where 2: "for_range 4 4 (v2s_put_bit ?m) s1 = Some s2" using v2s_put_bits [of 4 4] by fastforce
  obtain s3 where 3: "for_range 8 4 (v2s_put_bit ?m) s2 = Some s3" using v2s_put_bits [of 8 4] by fastforce
  obtain s4 where 4: "for_range 0 4 (v2s_put_word ?m) s3 = Some s4" using v2s_put_words [of 0 4] by fastforce
  obtain s5 where 5: "v2s_put_word ?m 4 s4 = Some s5" using v2s_put_words [of 4 1 ?m s4] by (auto simp: bind_eq_Some_conv)
  obtain s6 where 6: "for_range 0 8 (v2s_put_byte ?m) s5 = Some s6" using v2s_put_bytes [of 0 8] by fastforce
  show ?thesis
    using assms 1 2 3 4 5 6
    by (simp add: v2s_updateBuffersOut_def v2s_lock_def v2s_unlock_def lock_buffer_def unlock_buffer_def)
qed

text \<open>The inputs as one range of twelve bits.\<close>

definition v2s_bit :: "pixtInV2S \<Rightarrow> nat \<Rightarrow> u8" where
  "v2s_bit d i = (if i < 8 then bitRead (byDigitalIn d) i else bitRead (byGPIOIn d) (i - 8))"

lemma v2s_bits:
  "do { m \<leftarrow> for_range 0 8 (bit_in bool_input (\<lambda>i. bitRead (byDigitalIn d) i)) m;
        for_range 8 4 (bit_in bool_input (\<lambda>i. bitRead (byGPIOIn d) (i - 8))) m } =
   for_range 0 12 (bit_in bool_input (v2s_bit d)) m"
proof -
  have "for_range 0 8 (bit_in bool_input (\<lambda>i. bitRead (byDigitalIn d) i)) m = for_range 0 8 (bit_in bool_input (v2s_bit d)) m"
    by (rule for_range_cong) (simp add: bit_in_def v2s_bit_def cong: option.case_cong)
  moreover have "for_range 8 4 (bit_in bool_input (\<lambda>i. bitRead (byGPIOIn d) (i - 8))) m' =
      for_range 8 4 (bit_in bool_input (v2s_bit d)) m'" for m'
    by (rule for_range_cong) (simp add: bit_in_def v2s_bit_def cong: option.case_cong)
  ultimately show ?thesis using for_range_add [of 0 8 4 "bit_in bool_input (v2s_bit d)" m] by simp
qed

text \<open>No variable of \<open>byte_input\<close> is one of \<open>bool_input\<close>.\<close>

definition bytes_apart :: "plc_io \<Rightarrow> bool" where
  "bytes_apart m \<longleftrightarrow> (\<forall>i < 8192. \<forall>j < 1024. bit_ptr bool_input m i = None \<or> bit_ptr bool_input m i \<noteq> byte_input m j)"

lemma v2s_in_values:
  assumes st: "\<not> localBufferLock st" and m: "\<not> bufferLock m"
  obtains m' where "v2s_updateBuffersIn st m = Some (m', [st])" "hw_frame m m'"
    "inputs_distinct m \<Longrightarrow> bytes_apart m \<Longrightarrow>
       (\<forall>i c. i < 12 \<and> bit_ptr bool_input m i = Some c \<longrightarrow> u8_heap m' c = v2s_bit (InputData st) i) \<and>
       (\<forall>i c. i < 10 \<and> int_input m i = Some c \<longrightarrow> u16_heap m' c = v2s_words (InputData st) ! i)"
proof -
  let ?d = "InputData st" and ?l = "m\<lparr>bufferLock := True\<rparr>"
  let ?bytes = "\<lambda>i. [byFirmware ?d, byHardware ?d, byModelIn ?d, byUCState ?d, byUCWarnings ?d] ! i"
  obtain m1 where m1: "for_range 0 12 (bit_in bool_input (v2s_bit ?d)) ?l = Some m1" "tables m1 = tables ?l"
      "bufferLock m1"
    using bit_in_loop [of 0 12 bool_input "v2s_bit ?d" ?l] by auto
  obtain m2 where m2: "for_range 0 5 (byte_in byte_input ?bytes) m1 = Some m2" "tables m2 = tables m1" "bufferLock m2"
      "\<forall>c. (\<forall>i < 5. byte_input m1 i \<noteq> Some c) \<longrightarrow> u8_heap m2 c = u8_heap m1 c"
    using byte_in_loop [of 0 5 byte_input ?bytes m1] m1(3) by auto
  obtain m3 where m3: "for_range 0 10 (reg_in int_input (\<lambda>i. v2s_words ?d ! i)) m2 = Some m3" "tables m3 = tables m2"
      "u8_heap m3 = u8_heap m2"
    using reg_in_loop [of 0 10 int_input "\<lambda>i. v2s_words ?d ! i" m2] by auto
  have t: "byte_input m1 = byte_input m" "int_input m2 = int_input m"
    using tables_eqD [of m1 ?l] tables_eqD [of m2 m1] m1(2) m2(2) by simp_all
  have "v2s_updateBuffersIn st m = Some (unlock_buffer m3, [st])"
    using v2s_bits [of ?d ?l] m1 m2 m3 st m
    by (simp add: v2s_updateBuffersIn_def v2s_lock_def v2s_unlock_def lock_buffer_def Let_def
        flip: Option.bind_assoc)
  moreover have "hw_frame m (unlock_buffer m3)" using m1 m2 m3 by (simp add: hw_frame_def)
  moreover have "(\<forall>i c. i < 12 \<and> bit_ptr bool_input m i = Some c \<longrightarrow> u8_heap (unlock_buffer m3) c = v2s_bit ?d i) \<and>
       (\<forall>i c. i < 10 \<and> int_input m i = Some c \<longrightarrow> u16_heap (unlock_buffer m3) c = v2s_words ?d ! i)"
    if d: "inputs_distinct m" and a: "bytes_apart m"
  proof (intro conjI allI impI; elim conjE)
    fix i c assume i: "i < 12" "bit_ptr bool_input m i = Some c"
    have "u8_heap m1 c = v2s_bit ?d i"
      using d i by (intro bit_in_values [OF _ _ _ m1(1)]) (auto simp: inputs_distinct_def bit_ptr_def)
    moreover have "byte_input m1 j \<noteq> Some c" if "j < 5" for j
      using a [unfolded bytes_apart_def, rule_format, of i j] i that by (auto simp: t)
    ultimately show "u8_heap (unlock_buffer m3) c = v2s_bit ?d i"
      using m2(4) m3(3) by (simp add: unlock_buffer_def)
  next
    fix i c assume i: "i < 10" "int_input m i = Some c"
    have "u16_heap m3 c = v2s_words ?d ! i"
      using d i by (intro reg_in_values [OF _ _ _ m3(1)]) (auto simp: inputs_distinct_def t)
    then show "u16_heap (unlock_buffer m3) c = v2s_words ?d ! i" by (simp add: unlock_buffer_def)
  qed
  ultimately show ?thesis by (rule that)
qed

interpretation v2s: hw_layer v2s_updateBuffersIn v2s_updateBuffersOut "\<lambda>st. \<not> localBufferLock st"
proof
  fix e :: v2s_layer and m :: plc_io assume e: "\<not> localBufferLock e" and m: "\<not> bufferLock m"
  show "\<exists>m' os. v2s_updateBuffersIn e m = Some (m', os) \<and> hw_frame m m'"
    using v2s_in_values [OF e m] by metis
  show "\<exists>m' os. v2s_updateBuffersOut e m = Some (m', os) \<and> hw_frame m m'"
    using v2s_out_frame [OF e m] m hw_frame_refl by blast
qed

section \<open>Corrupted answers\<close>

definition v2s_accepts :: "u8 list \<Rightarrow> bool" where
  "v2s_accepts r \<longleftrightarrow> length r = 67 \<and> crc16_bytes 0 7 r = crc_field (r ! 7) (r ! 8) \<and> r ! 2 = 83 \<and>
     crc16_bytes 9 65 r = crc_field (r ! 65) (r ! 66)"

lemma v2s_frame_length: "length (v2s_frame d) = 67"
  by (simp add: v2s_frame_def Let_def)

text \<open>
  A frame the code builds passes the two checksums; the model is byte 2 of an answer, where a frame
  to the device has \<open>byUCCtrl0\<close>.
\<close>

lemma v2s_frame_accepted: "byUCCtrl0 d = 83 \<Longrightarrow> v2s_accepts (v2s_frame d)"
proof -
  assume 83: "byUCCtrl0 d = 83"
  define b where "b = [byModelOut d, byUCMode d, byUCCtrl0 d, byUCCtrl1 d, 0, 0, 0, 0, 0,
             byDigitalInDebounce01 d, byDigitalInDebounce23 d, byDigitalInDebounce45 d, byDigitalInDebounce67 d,
             byDigitalOut d, byRelayOut d, byGPIOCtrl d, byGPIOOut d, byGPIODebounce01 d, byGPIODebounce23 d,
             byPWM0Ctrl0 d, lowByte (wPWM0Ctrl1 d), lowByte (drop_bit 8 (wPWM0Ctrl1 d)),
             lowByte (wPWM0A d), lowByte (drop_bit 8 (wPWM0A d)), lowByte (wPWM0B d), lowByte (drop_bit 8 (wPWM0B d)),
             byPWM1Ctrl0 d, byPWM1Ctrl1 d, 0, byPWM1A d, 0, byPWM1B d, 0] @
            map (\<lambda>i. abyRetainDataOut d ! i) [0..<32] @ [0, 0]"
  have len: "length b = 67" and b2: "b ! 2 = 83" using 83 by (simp_all add: b_def)
  have "crc16_bytes 0 7 (b[7 := x, 8 := y, 65 := u, 66 := v]) = crc16_bytes 0 7 b"
    "crc16_bytes 9 65 (b[7 := x, 8 := y, 65 := u, 66 := v]) = crc16_bytes 9 65 (b[7 := x, 8 := y])" for x y u v
    by (rule crc16_bytes_cong, simp)+
  then show ?thesis
    using len b2 unfolding v2s_accepts_def v2s_frame_def Let_def b_def [symmetric]
    by (simp add: crc_field_eq nth_list_update)
qed

lemma v2s_accepts_near:
  assumes good: "v2s_accepts good" and near: "near k good r" and r: "r \<noteq> good"
  shows "crc16_bytes 0 7 r \<noteq> crc_field (r ! 7) (r ! 8) \<or>
     take 9 r = take 9 good \<and> crc16_bytes 9 65 r \<noteq> crc_field (r ! 65) (r ! 66)"
proof (rule ccontr)
  have len: "length good = 67" "length r = 67" using good near by (simp_all add: v2s_accepts_def near_def)
  assume no: "\<not> ?thesis"
  then have h: "take 9 good = take 9 r"
    using checked_near [OF near, of 7 0] good len by (simp add: v2s_accepts_def crc_field_eq)
  then have "drop 9 (take 67 good) = drop 9 (take 67 r)"
    using checked_near [OF near, of 65 9] good len no by (simp add: v2s_accepts_def crc_field_eq)
  then have "good = r" using h len by (metis append_take_drop_id order_refl take_all)
  then show False using r by simp
qed

lemma v2s_header_keeps [simp]:
  "v2s_words (v2s_header r d) = v2s_words d" "v2s_bit (v2s_header r d) = v2s_bit d"
  by (simp_all add: v2s_header_def v2s_words_def v2s_bit_def fun_eq_iff)

lemma v2s_header_cong:
  assumes "take 9 r = take 9 r'" "length r = length r'" "9 \<le> length r"
  shows "v2s_header r d = v2s_header r' d" "r ! 2 = r' ! 2"
proof -
  have "r ! i = r' ! i" if "i < 9" for i
    using arg_cong [OF assms(1), of "\<lambda>xs. xs ! i"] that by simp
  then show "v2s_header r d = v2s_header r' d" "r ! 2 = r' ! 2" by (simp_all add: v2s_header_def)
qed

lemma v2s_mode_near:
  assumes "r = fst (spi 0 (v2s_frame out) w)" "v2s_accepts good" "near k good r" "r \<noteq> good"
  shows "\<exists>w'. Spi_AutoModeV2S f spi out (d, w) = (-1, d, w') \<or>
    Spi_AutoModeV2S f spi out (d, w) = (-3, v2s_header good d, w')"
proof (cases "crc16_bytes 0 7 r = crc_field (r ! 7) (r ! 8)")
  case False
  then show ?thesis using assms(1) by (auto simp: Spi_AutoModeV2S_def Let_def split: prod.splits)
next
  case True
  have len: "length r = length good" "9 \<le> length r" using assms(2,3) by (auto simp: near_def v2s_accepts_def)
  have h: "take 9 r = take 9 good" and d: "crc16_bytes 9 65 r \<noteq> crc_field (r ! 65) (r ! 66)"
    using v2s_accepts_near [OF assms(2-4)] True by auto
  show ?thesis
    using assms(1,2) True d v2s_header_cong [OF h len]
    by (auto simp: Spi_AutoModeV2S_def v2s_accepts_def Let_def split: prod.splits)
qed

text \<open>C28: An answer in which one byte, or two neighbouring bytes, of an acceptable frame were corrupted,
  wherever they are, is refused: the thread keeps the measurements it had, taking over at most the
  five bytes of a header that is intact, and the next update writes the digital inputs, the analog
  inputs, the temperatures and the humidities of the last good answer to the mapped inputs of the
  program.\<close>

theorem corrupted_frame_refused:
  assumes st: "\<not> localBufferLock st" and m: "\<not> bufferLock m" "inputs_distinct m" "bytes_apart m"
    and r: "r = fst (spi 0 (v2s_frame ((OutputData st)\<lparr>byModelOut := 83\<rparr>)) w)"
    and good: "v2s_accepts good" "near k good r" "r \<noteq> good"
  shows "\<exists>st' d' w' m'. v2s_updateLocalBuffers f spi (st, d, w) = Some (st', d', w') \<and>
     (d' = d \<or> d' = v2s_header good d) \<and> v2s_updateBuffersIn st' m = Some (m', [st']) \<and>
     (\<forall>i c. i < 12 \<and> bit_ptr bool_input m i = Some c \<longrightarrow> u8_heap m' c = v2s_bit d i) \<and>
     (\<forall>i c. i < 10 \<and> int_input m i = Some c \<longrightarrow> u16_heap m' c = v2s_words d ! i)"
proof -
  let ?o = "(OutputData st)\<lparr>byModelOut := 83\<rparr>"
  obtain e d' w1 where "Spi_AutoModeV2S f spi ?o (d, w) = (e, d', w1)" and d': "d' = d \<or> d' = v2s_header good d"
    using v2s_mode_near [where f = f and d = d and spi = spi and out = ?o and w = w, OF r good] by blast
  then obtain w' where "v2s_updateLocalBuffers f spi (st, d, w) = Some (st\<lparr>InputData := d'\<rparr>, d', w')"
    using st by (simp add: v2s_updateLocalBuffers_def v2s_lock_def v2s_unlock_def Let_def)
  moreover obtain m' where "v2s_updateBuffersIn (st\<lparr>InputData := d'\<rparr>) m = Some (m', [st\<lparr>InputData := d'\<rparr>])"
    "(\<forall>i c. i < 12 \<and> bit_ptr bool_input m i = Some c \<longrightarrow> u8_heap m' c = v2s_bit d' i) \<and>
     (\<forall>i c. i < 10 \<and> int_input m i = Some c \<longrightarrow> u16_heap m' c = v2s_words d' ! i)"
    by (rule v2s_in_values [of "st\<lparr>InputData := d'\<rparr>" m]) (use st m in simp_all)
  moreover have "v2s_bit d' = v2s_bit d" "v2s_words d' = v2s_words d" using d' by auto
  ultimately show ?thesis using d' by (intro exI conjI) (assumption | simp)+
qed

definition v2s_demo_out :: pixtOutV2S where
  "v2s_demo_out = \<lparr>byModelOut = 83, byUCMode = 0, byUCCtrl0 = 83, byUCCtrl1 = 0, byDigitalInDebounce01 = 0,
     byDigitalInDebounce23 = 0, byDigitalInDebounce45 = 0, byDigitalInDebounce67 = 0, byDigitalOut = 0, byRelayOut = 0,
     byGPIOCtrl = 0, byGPIOOut = 0, byGPIODebounce01 = 0, byGPIODebounce23 = 0, byPWM0Ctrl0 = 0, wPWM0Ctrl1 = 0,
     wPWM0A = 0, wPWM0B = 0, byPWM1Ctrl0 = 0, byPWM1Ctrl1 = 0, byPWM1A = 0, byPWM1B = 0, byJumper10V = 0,
     byGPIO0Dht11 = 0, byGPIO1Dht11 = 0, byGPIO2Dht11 = 0, byGPIO3Dht11 = 0, abyRetainDataOut = replicate 32 0\<rparr>"

definition v2s_demo_in :: pixtInV2S where
  "v2s_demo_in = \<lparr>byFirmware = 0, byHardware = 0, byModelIn = 0, byUCState = 0, byUCWarnings = 0, byDigitalIn = 4,
     wAnalogIn0 = 700, wAnalogIn1 = 0, byGPIOIn = 0, wTemp0 = 0, byTemp0Error = 0, wTemp1 = 0, byTemp1Error = 0,
     wTemp2 = 0, byTemp2Error = 0, wTemp3 = 0, byTemp3Error = 0, wHumid0 = 0, wHumid1 = 0, wHumid2 = 0, wHumid3 = 0,
     rAnalogIn0 = 0, rAnalogIn1 = 0, rTemp0 = 0, rTemp1 = 0, rTemp2 = 0, rTemp3 = 0, rHumid0 = 0, rHumid1 = 0,
     rHumid2 = 0, rHumid3 = 0, abyRetainDataIn = replicate 32 0\<rparr>"

definition v2s_demo_layer :: v2s_layer where
  "v2s_demo_layer = \<lparr>InputData = v2s_demo_in, OutputData = v2s_demo_out, OutputDataDAC = \<lparr>wAOut0 = 0, wAOut1 = 0\<rparr>,
     localBufferLock = False\<rparr>"

text \<open>A device whose answer has 255 for its digital inputs, with the checksum of another value.\<close>

theorem corrupted_frame_refused_witness:
  "\<exists>st' d' w' m'. v2s_updateLocalBuffers \<lparr>to_double = id, to_float = id\<rparr> (\<lambda>d bs w. (bs[9 := 255], w))
       (v2s_demo_layer, v2s_demo_in, ()) = Some (st', d', w') \<and>
     v2s_updateBuffersIn st' demo_io = Some (m', [st']) \<and> u8_heap m' (Mb_discrete_input 2) = 1 \<and>
     u8_heap m' (Mb_discrete_input 3) = 0 \<and> u16_heap m' (Mb_input_regs 0) = 700"
proof -
  let ?spi = "\<lambda>d bs w. (bs[9 := 255 :: u8], w :: unit)" and ?o = "(OutputData v2s_demo_layer)\<lparr>byModelOut := 83\<rparr>"
  let ?good = "v2s_frame ?o"
  have a: "v2s_accepts ?good" by (rule v2s_frame_accepted) (simp add: v2s_demo_layer_def v2s_demo_out_def)
  have n: "near 9 ?good (?good[9 := 255])" by (simp add: near_def)
  have nine: "?good ! 9 = 0" by (simp add: v2s_frame_def Let_def v2s_demo_layer_def v2s_demo_out_def)
  have ne: "?good[9 := 255] \<noteq> ?good"
  proof
    assume "?good[9 := 255] = ?good"
    from arg_cong [OF this, of "\<lambda>xs. xs ! 9"] show False using nine by (simp add: v2s_frame_length)
  qed
  have d: "inputs_distinct demo_io" "bytes_apart demo_io"
    by (auto simp: inputs_distinct_def bytes_apart_def bit_ptr_def demo_io_def)
  have p: "bit_ptr bool_input demo_io 2 = Some (Mb_discrete_input 2)" "bit_ptr bool_input demo_io 3 = Some (Mb_discrete_input 3)"
    "int_input demo_io 0 = Some (Mb_input_regs 0)" by (simp_all add: bit_ptr_def demo_io_def)
  have v: "v2s_bit v2s_demo_in 2 = 1" "v2s_bit v2s_demo_in 3 = 0" "v2s_words v2s_demo_in ! 0 = 700"
    by (simp_all add: v2s_bit_def v2s_words_def v2s_demo_in_def bitRead_def)
  have s: "\<not> localBufferLock v2s_demo_layer" "\<not> bufferLock demo_io" "?good[9 := 255] = fst (?spi 0 ?good ())"
    by (simp_all add: v2s_demo_layer_def)
  obtain st' d' w' m' where r: "v2s_updateLocalBuffers \<lparr>to_double = id, to_float = id\<rparr> ?spi
       (v2s_demo_layer, v2s_demo_in, ()) = Some (st', d', w')" "v2s_updateBuffersIn st' demo_io = Some (m', [st'])"
     "\<forall>i c. i < 12 \<and> bit_ptr bool_input demo_io i = Some c \<longrightarrow> u8_heap m' c = v2s_bit v2s_demo_in i"
     "\<forall>i c. i < 10 \<and> int_input demo_io i = Some c \<longrightarrow> u16_heap m' c = v2s_words v2s_demo_in ! i"
    using corrupted_frame_refused [where spi = ?spi and w = "()" and r = "?good[9 := 255]" and k = 9, OF s(1,2) d s(3) a n ne]
    by metis
  then show ?thesis
    using p v r(3) [rule_format, of 2 "Mb_discrete_input 2"] r(3) [rule_format, of 3 "Mb_discrete_input 3"]
      r(4) [rule_format, of 0 "Mb_input_regs 0"] by fastforce
qed

end
