(* ===== verification/Arduino.thy ===== *)
theory Arduino
  imports PinLayers CString
begin

text \<open>
  The Arduino layer (\<open>src/core/hardware_layers/arduino.cpp\<close>): the search for the serial port of
  the board, the packets that carry the process data, framed by \<open>S\<close> and \<open>E\<close> with \<open>\\<close> as the
  escape, the thread that exchanges them and the two update functions. What \<open>open\<close>, \<open>read\<close>,
  \<open>readlink\<close> and \<open>popen\<close> answer are parameters. A structure is copied to and from bytes in the
  little-endian layout of the two platforms the layer is built for.
\<close>

unbundle bit_operations_syntax

section \<open>Data\<close>

record OPLC_input =
  in_digital :: "u8 list"
  in_analog :: "u16 list"

record OPLC_output =
  out_digital :: "u8 list"
  out_analog :: "u16 list"

record arduino =
  input_data :: OPLC_input
  output_data :: OPLC_output
  isPortFound :: bool
  ioLock :: bool

definition lock_serial :: "arduino \<Rightarrow> arduino option" where
  "lock_serial a = (if ioLock a then None else Some (a\<lparr>ioLock := True\<rparr>))"

definition unlock_serial :: "arduino \<Rightarrow> arduino" where
  "unlock_serial a = a\<lparr>ioLock := False\<rparr>"

definition le_bytes :: "u16 list \<Rightarrow> u8 list" where
  "le_bytes ws = concat (map (\<lambda>w. [lowByte w, highByte w]) ws)"

definition output_bytes :: "OPLC_output \<Rightarrow> u8 list" where
  "output_bytes d = out_digital d @ le_bytes (out_analog d)"

definition input_of_bytes :: "u8 list \<Rightarrow> OPLC_input" where
  "input_of_bytes bs = \<lparr>in_digital = take 4 bs,
     in_analog = map (\<lambda>i. le_word (bs ! (4 + 2 * i)) (bs ! (5 + 2 * i))) [0..<16]\<rparr>"

section \<open>Opening the port\<close>

text \<open>Linux has no \<open>B14400\<close> and no \<open>B28800\<close>: their cases are not compiled.\<close>

datatype speed = B4800 | B9600 | B19200 | B38400 | B57600 | B115200 | Other_speed int

definition speed_of_baud :: "int \<Rightarrow> speed" where
  "speed_of_baud baud =
     (if baud = 4800 then B4800 else if baud = 9600 then B9600
      else if baud = 19200 then B19200 else if baud = 38400 then B38400
      else if baud = 57600 then B57600 else if baud = 115200 then B115200 else Other_speed baud)"

text \<open>The line settings, with the bits of the Linux headers.\<close>

record termios =
  c_iflag :: c_int
  c_oflag :: c_int
  c_cflag :: c_int
  c_lflag :: c_int
  vmin :: u8
  vtime :: u8
  ispeed :: speed
  ospeed :: speed

definition raw_8N1 :: "speed \<Rightarrow> termios \<Rightarrow> termios" where
  "raw_8N1 brate t =
     t\<lparr>ispeed := brate, ospeed := brate,
       c_cflag := ((c_cflag t AND NOT 0x100 AND NOT 0x40 AND NOT 0x30) OR 0x30) AND NOT 0x80000000 OR (0x80 OR 0x800),
       c_iflag := c_iflag t AND NOT (0x400 OR 0x1000 OR 0x800),
       c_lflag := c_lflag t AND NOT (0x2 OR 0x8 OR 0x10 OR 0x1),
       c_oflag := c_oflag t AND NOT 0x1,
       vmin := 0, vtime := 0\<rparr>"

text \<open>
  The descriptor \<open>open\<close> returned, the settings \<open>tcgetattr\<close> left, which are those of the stack where
  it failed, and whether the second \<open>tcsetattr\<close> succeeded.
\<close>

definition serialport_init :: "int \<Rightarrow> termios \<Rightarrow> bool \<Rightarrow> int \<Rightarrow> int \<times> termios option" where
  "serialport_init fd toptions set_ok baud =
     (if fd = -1 then (-1, None)
      else let t = raw_8N1 (speed_of_baud baud) toptions in
        (if \<not> set_ok then -1 else fd, Some t))"

section \<open>Packets\<close>

definition chr_S :: u8 where "chr_S = 0x53"
definition chr_E :: u8 where "chr_E = 0x45"
definition chr_escape :: u8 where "chr_escape = 0x5C"

definition special :: "u8 \<Rightarrow> bool" where
  "special b \<longleftrightarrow> b = chr_S \<or> b = chr_E \<or> b = chr_escape"

fun escape_bytes :: "u8 list \<Rightarrow> u8 list" where
  "escape_bytes [] = []"
| "escape_bytes (b # bs) = (if \<not> special b then b # escape_bytes bs else chr_escape # b # escape_bytes bs)"

definition packet :: "u8 list \<Rightarrow> u8 list" where
  "packet temp = chr_S # escape_bytes temp @ [chr_E]"

text \<open>
  \<open>sendPacket\<close> builds the packet in an array of 100 bytes; the bytes it hands to \<open>write\<close>.
\<close>

definition sendPacket :: "arduino \<Rightarrow> (arduino \<times> u8 list) option" where
  "sendPacket a = do {
     a \<leftarrow> lock_serial a;
     let temp = output_bytes (output_data a);
     let a = unlock_serial a;
     let outgoingBuffer = packet temp;
     (if length outgoingBuffer \<le> 100 then Some (a, outgoingBuffer) else None) }"

text \<open>The bytes of a packet are unescaped in place.\<close>

record parser =
  beginReceiving :: bool
  escapeReceived :: bool
  packetReceived :: bool
  bufferIndex :: nat
  buf :: "u8 list"

definition store_byte :: "u8 \<Rightarrow> parser \<Rightarrow> parser option" where
  "store_byte b p = do {
     bs \<leftarrow> arr_put (buf p) (bufferIndex p) b;
     Some (p\<lparr>buf := bs, bufferIndex := bufferIndex p + 1\<rparr>) }"

definition parse_byte :: "u8 \<Rightarrow> parser \<Rightarrow> parser option" where
  "parse_byte b p =
     (if \<not> beginReceiving p \<and> b = chr_S then Some (p\<lparr>beginReceiving := True\<rparr>)
      else if beginReceiving p then
        (if \<not> escapeReceived p then
           (if b = chr_escape then Some (p\<lparr>escapeReceived := True\<rparr>)
            else if b = chr_E then
              Some (p\<lparr>escapeReceived := False, beginReceiving := False, packetReceived := True, bufferIndex := 0\<rparr>)
            else if b = chr_S then
              Some (p\<lparr>escapeReceived := False, beginReceiving := True, packetReceived := False, bufferIndex := 0\<rparr>)
            else store_byte b p)
         else
           (if b = chr_escape \<or> b = chr_E \<or> b = chr_S then
              map_option (\<lambda>p. p\<lparr>escapeReceived := False\<rparr>) (store_byte b p)
            else Some (p\<lparr>escapeReceived := False, beginReceiving := False, packetReceived := False, bufferIndex := 0\<rparr>)))
      else Some p)"

definition parse_step :: "nat \<Rightarrow> parser \<Rightarrow> parser option" where
  "parse_step i p = do { b \<leftarrow> arr_get (buf p) i; parse_byte b p }"

definition parseBuffer :: "u8 list \<Rightarrow> nat \<Rightarrow> (bool \<times> u8 list) option" where
  "parseBuffer bs bufSize = do {
     p \<leftarrow> for_range 0 bufSize parse_step
       \<lparr>beginReceiving = False, escapeReceived = False, packetReceived = False, bufferIndex = 0, buf = bs\<rparr>;
     Some (packetReceived p, buf p) }"

text \<open>
  What \<open>read\<close> returns: \<open>None\<close> is -1, and up to 100 bytes otherwise. They replace the first bytes of
  an array on the stack whose content, \<open>stack\<close>, is a parameter; after an error and before a port was
  found the code goes on with \<open>bufSize\<close> -1, that is with no byte.
\<close>

definition receivePacket :: "u8 list \<Rightarrow> u8 list option \<Rightarrow> arduino \<Rightarrow> (bool \<times> arduino) option" where
  "receivePacket stack response a =
     (if response = None \<and> isPortFound a then Some (False, a)
      else if response = Some [] then Some (False, a)
      else do {
        let bs = (case response of None \<Rightarrow> [] | Some bs \<Rightarrow> bs);
        (received, receiveBuffer) \<leftarrow> parseBuffer (bs @ drop (length bs) stack) (length bs);
        (if received then do {
           a \<leftarrow> lock_serial a;
           Some (True, unlock_serial (a\<lparr>input_data := input_of_bytes receiveBuffer\<rparr>)) }
         else Some (False, a)) })"

definition arduino_exchangeData :: "u8 list \<Rightarrow> u8 list option \<Rightarrow> arduino \<Rightarrow> (arduino \<times> u8 list) option" where
  "arduino_exchangeData stack response a = do {
     (a, sent) \<leftarrow> sendPacket a;
     (_, a) \<leftarrow> receivePacket stack response a;
     Some (a, sent) }"

section \<open>Looking for the board\<close>

text \<open>
  \<open>normalizePath\<close>: the entry of \<open>/dev/serial/by-path\<close> without its last character, the line end, is
  read as a link, and what follows the last slash of the target becomes a name in \<open>/dev\<close>. The
  arrays have 1000 bytes. A target without a slash loses its first character, and the code reads
  behind the end of an empty one.
\<close>

definition after_last_slash :: "string \<Rightarrow> string option" where
  "after_last_slash finalPath =
     (if finalPath = [] then None
      else if CHR ''/'' \<in> set finalPath then Some (rev (takeWhile (\<lambda>c. c \<noteq> CHR ''/'') (rev finalPath)))
      else Some (tl finalPath))"

definition normalizePath :: "(string \<Rightarrow> string option) \<Rightarrow> string \<Rightarrow> string option" where
  "normalizePath readlink portName = do {
     linkPath \<leftarrow> fits 1000 (''/dev/serial/by-path/'' @ portName);
     let linkPath = butlast linkPath;
     (case readlink linkPath of
        None \<Rightarrow> Some portName
      | Some target \<Rightarrow> do {
          finalPath \<leftarrow> fits 1000 target;
          name \<leftarrow> after_last_slash finalPath;
          fits 1000 (''/dev/'' @ name) }) }"

definition normalizePath_w32 :: "string \<Rightarrow> string option" where
  "normalizePath_w32 portName = do {
     linkPath \<leftarrow> fits 1000 (''/dev/'' @ portName);
     Some (butlast linkPath) }"

text \<open>The lines of \<open>ls\<close> fill the array of thirty names; a thirty-first line is written behind it.\<close>

fun store_ports :: "(string \<Rightarrow> string option) \<Rightarrow> string list \<Rightarrow> nat \<Rightarrow> string list \<Rightarrow> string list option" where
  "store_ports get_name [] i portsList = Some portsList"
| "store_ports get_name (ports # rest) i portsList = do {
     p \<leftarrow> get_name ports;
     portsList \<leftarrow> arr_put portsList i p;
     store_ports get_name rest (i + 1) portsList }"

definition getSerialPorts :: "(string \<Rightarrow> string option) \<Rightarrow> string list \<Rightarrow> string list \<Rightarrow> string list option" where
  "getSerialPorts readlink lines portsList = store_ports (normalizePath readlink) lines 0 portsList"

definition getSerialPorts_w32 :: "string list \<Rightarrow> string list \<Rightarrow> string list option" where
  "getSerialPorts_w32 lines portsList =
     store_ports normalizePath_w32 (filter (\<lambda>l. take 4 l = ''ttyS'') lines) 0 portsList"

text \<open>
  \<open>testPort\<close>: five rounds of a packet and ten attempts to receive one. \<open>answers r j\<close> is what the
  port answers in attempt \<open>j\<close> of round \<open>r\<close>. The first packet that is received ends the test.
\<close>

fun receive_attempts :: "u8 list \<Rightarrow> u8 list option list \<Rightarrow> arduino \<Rightarrow> (bool \<times> arduino) option" where
  "receive_attempts stack [] a = Some (False, a)"
| "receive_attempts stack (r # rs) a = do {
     (received, a) \<leftarrow> receivePacket stack r a;
     (if received then Some (True, a) else receive_attempts stack rs a) }"

fun test_rounds :: "u8 list \<Rightarrow> u8 list option list list \<Rightarrow> arduino \<Rightarrow> (bool \<times> arduino) option" where
  "test_rounds stack [] a = Some (False, a)"
| "test_rounds stack (rs # rest) a = do {
     (a, _) \<leftarrow> sendPacket a;
     (received, a) \<leftarrow> receive_attempts stack rs a;
     (if received then Some (True, a) else test_rounds stack rest a) }"

definition testPort :: "int \<Rightarrow> u8 list \<Rightarrow> (nat \<Rightarrow> nat \<Rightarrow> u8 list option) \<Rightarrow> arduino \<Rightarrow> (bool \<times> arduino) option" where
  "testPort fd stack answers a =
     (if fd < 0 then Some (False, a)
      else test_rounds stack (map (\<lambda>r. map (answers r) [0..<10]) [0..<5]) a)"

text \<open>The list of names ends at the first empty one; behind the thirtieth the array ends too.\<close>

fun findCorrectPort ::
  "(string \<Rightarrow> arduino \<Rightarrow> (bool \<times> arduino) option) \<Rightarrow> string list \<Rightarrow> nat \<Rightarrow> arduino \<Rightarrow> (nat option \<times> arduino) option" where
  "findCorrectPort test [] portsIndex a = None"
| "findCorrectPort test (p # ps) portsIndex a =
     (if p = [] then Some (None, a)
      else do {
        (ok, a) \<leftarrow> test p a;
        (if ok then Some (Some portsIndex, a) else findCorrectPort test ps (portsIndex + 1) a) })"

text \<open>On Linux: the board is used, and the thread started, when one of the ports answers.\<close>

definition arduino_initializeHardware ::
  "bool \<Rightarrow> (string \<Rightarrow> string option) \<Rightarrow> string list \<Rightarrow> (string \<Rightarrow> arduino \<Rightarrow> (bool \<times> arduino) option) \<Rightarrow>
   arduino \<Rightarrow> (bool \<times> arduino) option" where
  "arduino_initializeHardware available readlink lines test a =
     (if \<not> available then Some (False, a)
      else do {
        portsList \<leftarrow> getSerialPorts readlink lines (replicate 30 []);
        (portId, a) \<leftarrow> findCorrectPort test portsList 0 a;
        (case portId of None \<Rightarrow> Some (False, a) | Some _ \<Rightarrow> Some (True, a\<lparr>isPortFound := True\<rparr>)) })"

section \<open>The update functions\<close>

definition arduino_updateBuffersIn :: "arduino \<Rightarrow> plc_io \<Rightarrow> (plc_io \<times> arduino list) option" where
  "arduino_updateBuffersIn a m = do {
     m \<leftarrow> lock_buffer m;
     a \<leftarrow> lock_serial a;
     m \<leftarrow> for_range 0 32 (bit_in bool_input (\<lambda>i. bitRead (in_digital (input_data a) ! (i div 8)) (i mod 8))) m;
     m \<leftarrow> for_range 0 16 (reg_in int_input (\<lambda>i. in_analog (input_data a) ! i)) m;
     Some (unlock_buffer m, [unlock_serial a]) }"

definition arduino_put_bit :: "plc_io \<Rightarrow> nat \<Rightarrow> arduino \<Rightarrow> arduino option" where
  "arduino_put_bit m i a = do {
     p \<leftarrow> ptr2 (bool_output m) (i div 8) (i mod 8);
     (case p of
        None \<Rightarrow> Some a
      | Some c \<Rightarrow> let d = output_data a in do {
          b \<leftarrow> arr_get (out_digital d) (i div 8);
          bs \<leftarrow> arr_put (out_digital d) (i div 8) (bitWrite b (i mod 8) (u8_heap m c));
          Some (a\<lparr>output_data := d\<lparr>out_digital := bs\<rparr>\<rparr>) }) }"

definition arduino_put_word :: "plc_io \<Rightarrow> nat \<Rightarrow> arduino \<Rightarrow> arduino option" where
  "arduino_put_word m i a = do {
     p \<leftarrow> ptr1 (int_output m) i;
     (case p of
        None \<Rightarrow> Some a
      | Some c \<Rightarrow> let d = output_data a in do {
          ws \<leftarrow> arr_put (out_analog d) i (u16_heap m c);
          Some (a\<lparr>output_data := d\<lparr>out_analog := ws\<rparr>\<rparr>) }) }"

definition arduino_updateBuffersOut :: "arduino \<Rightarrow> plc_io \<Rightarrow> (plc_io \<times> arduino list) option" where
  "arduino_updateBuffersOut a m = do {
     m \<leftarrow> lock_buffer m;
     a \<leftarrow> lock_serial a;
     a \<leftarrow> for_range 0 16 (arduino_put_bit m) a;
     a \<leftarrow> for_range 0 12 (arduino_put_word m) a;
     Some (unlock_buffer m, [unlock_serial a]) }"

section \<open>The contract of the layer\<close>

definition arduino_wf :: "arduino \<Rightarrow> bool" where
  "arduino_wf a \<longleftrightarrow> \<not> ioLock a \<and> length (in_digital (input_data a)) = 4 \<and> length (in_analog (input_data a)) = 16 \<and>
     length (out_digital (output_data a)) = 2 \<and> length (out_analog (output_data a)) = 12"

definition same_sizes :: "arduino \<Rightarrow> arduino \<Rightarrow> bool" where
  "same_sizes a b \<longleftrightarrow> input_data b = input_data a \<and> ioLock b = ioLock a \<and>
     length (out_digital (output_data b)) = length (out_digital (output_data a)) \<and>
     length (out_analog (output_data b)) = length (out_analog (output_data a))"

lemma arduino_put_bits:
  assumes "length (out_digital (output_data a)) = 2"
  shows "\<exists>b. for_range 0 16 (arduino_put_bit m) a = Some b \<and> same_sizes a b"
proof -
  let ?I = "\<lambda>(k::nat) b. same_sizes a b"
  have "\<exists>b. for_range 0 16 (arduino_put_bit m) a = Some b \<and> ?I (0 + 16) b"
  proof (rule for_range_total)
    show "\<exists>b. arduino_put_bit m k s = Some b \<and> same_sizes a b" if "0 \<le> k" "k < 0 + 16" "same_sizes a s" for k s
    proof -
      have "k div 8 < 2" using that by linarith
      then show ?thesis
        using that assms by (auto simp: arduino_put_bit_def same_sizes_def Let_def split: option.splits)
    qed
  qed (simp add: same_sizes_def)
  then show ?thesis .
qed

lemma arduino_put_words:
  assumes "length (out_analog (output_data a)) = 12"
  shows "\<exists>b. for_range 0 12 (arduino_put_word m) a = Some b \<and> same_sizes a b"
proof -
  let ?I = "\<lambda>(k::nat) b. same_sizes a b"
  have "\<exists>b. for_range 0 12 (arduino_put_word m) a = Some b \<and> ?I (0 + 12) b"
  proof (rule for_range_total)
    show "\<exists>b. arduino_put_word m k s = Some b \<and> same_sizes a b" if "0 \<le> k" "k < 0 + 12" "same_sizes a s" for k s
      using that assms by (auto simp: arduino_put_word_def same_sizes_def Let_def split: option.splits)
  qed (simp add: same_sizes_def)
  then show ?thesis .
qed

interpretation ard: hw_layer arduino_updateBuffersIn arduino_updateBuffersOut arduino_wf
proof
  fix e :: arduino and m :: plc_io assume e: "arduino_wf e" and m: "\<not> bufferLock m"
  let ?bits = "\<lambda>i. bitRead (in_digital (input_data e) ! (i div 8)) (i mod 8)"
  obtain m1 where m1: "for_range 0 32 (bit_in bool_input ?bits) (m\<lparr>bufferLock := True\<rparr>) = Some m1"
      "hw_frame m (unlock_buffer m1)"
    by (rule bit_in_locked [OF m, of 32]) simp_all
  obtain m2 where "for_range 0 16 (reg_in int_input (\<lambda>i. in_analog (input_data e) ! i)) m1 = Some m2" "tables m2 = tables m1"
    by (rule reg_in_keeps [of 16]) simp
  with m m1 e show "\<exists>m' os. arduino_updateBuffersIn e m = Some (m', os) \<and> hw_frame m m'"
    by (simp add: arduino_updateBuffersIn_def lock_serial_def arduino_wf_def hw_frame_def)
  let ?m = "m\<lparr>bufferLock := True\<rparr>"
  obtain a1 where a1: "for_range 0 16 (arduino_put_bit ?m) (e\<lparr>ioLock := True\<rparr>) = Some a1" "same_sizes (e\<lparr>ioLock := True\<rparr>) a1"
    using arduino_put_bits [of "e\<lparr>ioLock := True\<rparr>" ?m] e by (auto simp: arduino_wf_def)
  obtain a2 where "for_range 0 12 (arduino_put_word ?m) a1 = Some a2"
    using arduino_put_words [of a1 ?m] a1(2) e by (auto simp: arduino_wf_def same_sizes_def)
  then show "\<exists>m' os. arduino_updateBuffersOut e m = Some (m', os) \<and> hw_frame m m'"
    using m e a1 by (simp add: arduino_updateBuffersOut_def lock_serial_def lock_buffer_def arduino_wf_def hw_frame_def)
qed

section \<open>Reading in place\<close>

text \<open>
  The unescaped bytes are never written ahead of the byte that is read: the loop over the array is
  the same as a run over the bytes as they were received.
\<close>

fun parse_list :: "u8 list \<Rightarrow> parser \<Rightarrow> parser option" where
  "parse_list [] p = Some p"
| "parse_list (b # bs) p = do { p \<leftarrow> parse_byte b p; parse_list bs p }"

lemma store_byte_in [simp]:
  "bufferIndex p < length (buf p) \<Longrightarrow>
   store_byte b p = Some (p\<lparr>buf := (buf p)[bufferIndex p := b], bufferIndex := bufferIndex p + 1\<rparr>)"
  by (simp add: store_byte_def)

lemma parse_byte_ahead:
  assumes "bufferIndex p \<le> i" "i < length (buf p)"
  shows "\<exists>p'. parse_byte b p = Some p' \<and> bufferIndex p' \<le> Suc i \<and> length (buf p') = length (buf p) \<and>
     drop (Suc i) (buf p') = drop (Suc i) (buf p)"
  using assms by (auto simp: parse_byte_def)

lemma parse_in_place:
  "drop i (buf p) = bs @ rest \<Longrightarrow> bufferIndex p \<le> i \<Longrightarrow>
   for_range i (length bs) parse_step p = parse_list bs p"
proof (induction bs arbitrary: i p)
  case (Cons b bs)
  have len: "i < length (buf p)" using Cons.prems(1) by (cases "i < length (buf p)") simp_all
  then have b: "buf p ! i = b" and d: "drop (Suc i) (buf p) = bs @ rest"
    using Cons.prems(1) Cons_nth_drop_Suc [OF len] by simp_all
  obtain p' where p': "parse_byte b p = Some p'" "bufferIndex p' \<le> Suc i" "drop (Suc i) (buf p') = bs @ rest"
    using parse_byte_ahead [OF Cons.prems(2) len, of b] d by auto
  have "for_range (Suc i) (length bs) parse_step p' = parse_list bs p'"
    using Cons.IH [OF p'(3,2)] .
  moreover have "parse_step i p = Some p'" using len b p'(1) by (simp add: parse_step_def)
  ultimately show ?case using p'(1) by simp
qed simp

lemma parse_list_append: "parse_list (as @ bs) p = do { p \<leftarrow> parse_list as p; parse_list bs p }"
proof (induction as arbitrary: p)
  case (Cons a as)
  then show ?case by (cases "parse_byte a p") simp_all
qed simp

text \<open>What the parser makes of noise, of escaped bytes and of a packet.\<close>

lemma parse_noise:
  "chr_S \<notin> set bs \<Longrightarrow> \<not> beginReceiving p \<Longrightarrow> parse_list bs p = Some p"
  by (induction bs) (auto simp: parse_byte_def)

lemma chr_distinct [simp]: "chr_S \<noteq> chr_E" "chr_S \<noteq> chr_escape" "chr_E \<noteq> chr_escape"
  "chr_E \<noteq> chr_S" "chr_escape \<noteq> chr_S" "chr_escape \<noteq> chr_E"
  by (simp_all add: chr_S_def chr_E_def chr_escape_def)

lemma parse_escaped:
  "beginReceiving p \<Longrightarrow> \<not> escapeReceived p \<Longrightarrow> bufferIndex p + length bs \<le> length (buf p) \<Longrightarrow>
   parse_list (escape_bytes bs) p = Some (p\<lparr>bufferIndex := bufferIndex p + length bs,
     buf := take (bufferIndex p) (buf p) @ bs @ drop (bufferIndex p + length bs) (buf p)\<rparr>)"
proof (induction bs arbitrary: p)
  case (Cons b bs)
  let ?p = "p\<lparr>buf := (buf p)[bufferIndex p := b], bufferIndex := bufferIndex p + 1\<rparr>"
  have step: "parse_list (escape_bytes (b # bs)) p = parse_list (escape_bytes bs) ?p"
    using Cons.prems by (cases p) (auto simp: parse_byte_def special_def)
  have "take (bufferIndex ?p) (buf ?p) = take (bufferIndex p) (buf p) @ [b]"
    using Cons.prems by (simp add: take_Suc_conv_app_nth)
  moreover have "drop (bufferIndex ?p + length bs) (buf ?p) = drop (bufferIndex p + length (b # bs)) (buf p)"
    using Cons.prems by simp
  ultimately show ?case using Cons.IH [of ?p] Cons.prems unfolding step by simp
qed simp

lemma parse_packet:
  assumes "\<not> beginReceiving p" "\<not> escapeReceived p" "bufferIndex p = 0" "length bs \<le> length (buf p)"
  shows "parse_list (packet bs) p =
    Some (p\<lparr>packetReceived := True, buf := bs @ drop (length bs) (buf p)\<rparr>)"
proof -
  let ?p = "p\<lparr>beginReceiving := True\<rparr>"
  have "parse_list (packet bs) p = parse_list (escape_bytes bs @ [chr_E]) ?p"
    using assms by (simp add: packet_def parse_byte_def)
  then show ?thesis using parse_escaped [of ?p bs] assms
    by (cases p) (simp add: parse_list_append parse_byte_def)
qed

abbreviation parser0 :: "u8 list \<Rightarrow> parser" where
  "parser0 bs \<equiv> \<lparr>beginReceiving = False, escapeReceived = False, packetReceived = False, bufferIndex = 0, buf = bs\<rparr>"

lemma parseBuffer_eq:
  "parseBuffer (bs @ rest) (length bs) =
     map_option (\<lambda>p. (packetReceived p, buf p)) (parse_list bs (parser0 (bs @ rest)))"
  using parse_in_place [of 0 "parser0 (bs @ rest)" bs rest]
  by (cases "parse_list bs (parser0 (bs @ rest))") (simp_all add: parseBuffer_def)

lemma parseBuffer_packet:
  assumes "chr_S \<notin> set noise" "length bs \<le> length (noise @ packet bs @ rest)"
  shows "parseBuffer (noise @ packet bs @ rest) (length (noise @ packet bs)) =
    Some (True, bs @ drop (length bs) (noise @ packet bs @ rest))"
  using parseBuffer_eq [of "noise @ packet bs" rest] parse_packet [of "parser0 (noise @ packet bs @ rest)" bs] assms
  by (simp add: parse_list_append parse_noise)

section \<open>The bytes of the data\<close>

text \<open>The bytes the board sends for its inputs, in the layout of \<open>struct OPLC_input\<close>.\<close>

definition board_bytes :: "OPLC_input \<Rightarrow> u8 list" where
  "board_bytes d = in_digital d @ le_bytes (in_analog d)"

definition input_sized :: "OPLC_input \<Rightarrow> bool" where
  "input_sized d \<longleftrightarrow> length (in_digital d) = 4 \<and> length (in_analog d) = 16"

lemma length_le_bytes [simp]: "length (le_bytes ws) = 2 * length ws"
  by (induction ws) (simp_all add: le_bytes_def)

lemma le_bytes_nth:
  "i < length ws \<Longrightarrow> le_bytes ws ! (2 * i) = lowByte (ws ! i) \<and> le_bytes ws ! Suc (2 * i) = highByte (ws ! i)"
proof (induction ws arbitrary: i)
  case (Cons w ws)
  then show ?case by (cases i) (simp_all add: le_bytes_def)
qed simp

lemma length_board_bytes: "input_sized d \<Longrightarrow> length (board_bytes d) = 36"
  by (simp add: board_bytes_def input_sized_def)



lemma escape_bytes_longer: "length bs \<le> length (escape_bytes bs)"
  by (induction bs) auto

lemma input_of_bytes_append: "36 \<le> length bs \<Longrightarrow> input_of_bytes (bs @ rest) = input_of_bytes bs"
  by (simp add: input_of_bytes_def nth_append)


lemma receivePacket_parsed:
  assumes "arduino_wf a" "bs \<noteq> []" "parseBuffer (bs @ drop (length bs) stack) (length bs) = Some (True, r)"
  shows "receivePacket stack (Some bs) a = Some (True, a\<lparr>input_data := input_of_bytes r\<rparr>)"
  using assms by (cases a) (simp add: receivePacket_def lock_serial_def unlock_serial_def arduino_wf_def)

text \<open>A packet with fewer bytes than the structure has is accepted: the rest of the inputs is what the
  array on the stack holds.\<close>

theorem short_packet_accepted:
  assumes "arduino_wf a"
  shows "receivePacket stack (Some (packet bs)) a = Some (True, a\<lparr>input_data :=
     input_of_bytes (bs @ drop (length bs) (packet bs @ drop (length (packet bs)) stack))\<rparr>)"
proof -
  have "length bs \<le> length (packet bs)" using escape_bytes_longer [of bs] by (simp add: packet_def)
  then show ?thesis
    using parseBuffer_packet [of "[]" bs "drop (length (packet bs)) stack"] assms
    by (intro receivePacket_parsed) (simp_all add: packet_def)
qed


definition demo_board :: arduino where
  "demo_board = \<lparr>input_data = \<lparr>in_digital = replicate 4 0, in_analog = replicate 16 0\<rparr>,
     output_data = \<lparr>out_digital = [83, 0], out_analog = replicate 12 0\<rparr>, isPortFound = True, ioLock = False\<rparr>"

definition demo_inputs :: OPLC_input where
  "demo_inputs = \<lparr>in_digital = [83, 69, 92, 1], in_analog = 0x5345 # replicate 15 7\<rparr>"


text \<open>When one read returns a whole packet and the beginning of the next, the parser answers that a
  packet was received and hands over a mixture: the first bytes of the second packet, followed by
  the remaining bytes of the first.\<close>

theorem interrupted_packet_mixed:
  assumes "arduino_wf a" "input_sized d" "length bs \<le> 36"
  shows "receivePacket stack (Some (packet (board_bytes d) @ chr_S # escape_bytes bs)) a =
     Some (True, a\<lparr>input_data := input_of_bytes (bs @ drop (length bs) (board_bytes d))\<rparr>)"
proof -
  let ?X = "board_bytes d" and ?in = "packet (board_bytes d) @ chr_S # escape_bytes bs"
  let ?all = "?in @ drop (length ?in) stack"
  have X: "length ?X = 36" using assms(2) by (rule length_board_bytes)
  then have len: "36 \<le> length ?all" using escape_bytes_longer [of ?X] by (simp add: packet_def)
  define p1 where "p1 = \<lparr>beginReceiving = False, escapeReceived = False, packetReceived = True, bufferIndex = 0,
     buf = ?X @ drop 36 ?all\<rparr>"
  have "parse_list (packet ?X) (parser0 ?all) = Some p1"
    using parse_packet [of "parser0 ?all" ?X] X len by (simp add: p1_def)
  moreover have "parse_list (chr_S # escape_bytes bs) p1 =
      Some (p1\<lparr>beginReceiving := True, bufferIndex := length bs, buf := bs @ drop (length bs) (buf p1)\<rparr>)"
    using parse_escaped [of "p1\<lparr>beginReceiving := True\<rparr>" bs] assms(3) X
    by (simp add: p1_def parse_byte_def)
  ultimately have "parseBuffer ?all (length ?in) = Some (True, bs @ drop (length bs) (?X @ drop 36 ?all))"
    using parseBuffer_eq [of ?in "drop (length ?in) stack"] by (simp add: parse_list_append p1_def)
  then have "receivePacket stack (Some ?in) a =
      Some (True, a\<lparr>input_data := input_of_bytes (bs @ drop (length bs) (?X @ drop 36 ?all))\<rparr>)"
    by (intro receivePacket_parsed [OF assms(1)]) (simp_all add: packet_def)
  moreover have "bs @ drop (length bs) (?X @ drop 36 ?all) = (bs @ drop (length bs) ?X) @ drop 36 ?all"
    using assms(3) X by simp
  moreover have "input_of_bytes ((bs @ drop (length bs) ?X) @ drop 36 ?all) = input_of_bytes (bs @ drop (length bs) ?X)"
    using assms(3) X by (intro input_of_bytes_append) simp
  ultimately show ?thesis by simp
qed

theorem interrupted_packet_mixed_witness:
  "\<exists>a. receivePacket (replicate 100 0) (Some (packet (board_bytes demo_inputs) @ chr_S # escape_bytes [2, 83])) demo_board
     = Some (True, a) \<and> in_digital (input_data a) = [2, 83, 92, 1] \<and> hd (in_analog (input_data a)) = 0x5345"
proof -
  have h: "arduino_wf demo_board" "input_sized demo_inputs" "length [2, 83 :: u8] \<le> 36"
    by (simp_all add: arduino_wf_def demo_board_def input_sized_def demo_inputs_def)
  have d: "drop 2 (board_bytes demo_inputs) = [92, 1] @ le_bytes (0x5345 # replicate 15 7)"
    by (simp add: board_bytes_def demo_inputs_def)
  have w: "le_bytes (0x5345 # replicate 15 7) ! 0 = lowByte (0x5345 :: u16)"
    "le_bytes (0x5345 # replicate 15 7) ! 1 = highByte (0x5345 :: u16)"
    using le_bytes_nth [of 0 "0x5345 # replicate 15 7"] by simp_all
  have u: "[0..<16] = 0 # [1..<16]" by (simp add: upt_rec)
  let ?b = "[2, 83] @ [92, 1] @ le_bytes (0x5345 # replicate 15 7)"
  have "in_digital (input_of_bytes ?b) = [2, 83, 92, 1]" by (simp add: input_of_bytes_def)
  moreover have "hd (in_analog (input_of_bytes ?b)) = le_word (lowByte (0x5345 :: u16)) (highByte (0x5345 :: u16))"
    using w by (simp add: input_of_bytes_def u)
  moreover have "[2, 83] @ drop (length [2, 83 :: u8]) (board_bytes demo_inputs) = ?b"
    using d by (simp add: numeral_2_eq_2)
  ultimately show ?thesis
    using interrupted_packet_mixed [OF h, of "replicate 100 0"] unfolding le_word_bytes
    by (intro exI [of _ "demo_board\<lparr>input_data := input_of_bytes ?b\<rparr>"]) simp
qed

end
