(* ===== verification/ConstantFolding.thy ===== *)
theory ConstantFolding
  imports IecFunctions
begin

text \<open>
  The constant folding of the compiler matiec (\<open>src/matiec_src/stage3/constant_folding.cc\<close>): literals,
  the operations on constant values with their checks for overflow, and the visitor of expressions.
  Every symbol of the syntax tree carries four values, as a literal may turn out to be of any type.
  A signed operation that overflows has no result, as in C, and so have the calls of \<open>ERROR\<close>.
\<close>

section \<open>Constant values\<close>

text \<open>\<open>const_value_c\<close> of \<open>src/matiec_src/absyntax/absyntax.hh\<close>.\<close>

datatype const_status_t = cs_undefined | cs_non_const | cs_const_value | cs_overflow

record 'a const_value__ =
  cv_status :: const_status_t
  cv_value :: 'a

definition set_cv :: "'a const_value__ \<Rightarrow> 'a \<Rightarrow> 'a const_value__" where
  "set_cv c x = c\<lparr>cv_status := cs_const_value, cv_value := x\<rparr>"

definition set_overflow :: "'a const_value__ \<Rightarrow> 'a const_value__" where
  "set_overflow c = c\<lparr>cv_status := cs_overflow\<rparr>"

definition set_nonconst :: "'a const_value__ \<Rightarrow> 'a const_value__" where
  "set_nonconst c = c\<lparr>cv_status := cs_non_const\<rparr>"

definition is_valid :: "'a const_value__ \<Rightarrow> bool" where
  "is_valid c \<longleftrightarrow> cv_status c = cs_const_value"

definition is_overflow :: "'a const_value__ \<Rightarrow> bool" where
  "is_overflow c \<longleftrightarrow> cv_status c = cs_overflow"

definition is_nonconst :: "'a const_value__ \<Rightarrow> bool" where
  "is_nonconst c \<longleftrightarrow> cv_status c = cs_non_const"

definition is_undefined :: "'a const_value__ \<Rightarrow> bool" where
  "is_undefined c \<longleftrightarrow> cv_status c = cs_undefined"

record const_value_c =
  c_int64 :: "int const_value__"
  c_uint64 :: "int const_value__"
  c_real64 :: "fp const_value__"
  c_bool :: "bool const_value__"

definition no_value :: const_value_c where
  "no_value = \<lparr>c_int64 = \<lparr>cv_status = cs_undefined, cv_value = 0\<rparr>, c_uint64 = \<lparr>cv_status = cs_undefined, cv_value = 0\<rparr>,
     c_real64 = \<lparr>cv_status = cs_undefined, cv_value = Zero False\<rparr>, c_bool = \<lparr>cv_status = cs_undefined, cv_value = False\<rparr>\<rparr>"

text \<open>The operators \<open>==\<close> of the two classes, on numbers other than reals, and \<open>is_const\<close>.\<close>

fun fp_eq :: "fp \<Rightarrow> fp \<Rightarrow> bool" where
  "fp_eq NaN y = False"
| "fp_eq x NaN = False"
| "fp_eq (Inf s) y = (y = Inf s)"
| "fp_eq x (Inf t) = False"
| "fp_eq x y = (fp_val x = fp_val y)"

definition cv_eq :: "('a \<Rightarrow> 'a \<Rightarrow> bool) \<Rightarrow> 'a const_value__ \<Rightarrow> 'a const_value__ \<Rightarrow> bool" where
  "cv_eq same c cv \<longleftrightarrow> (cv_status c \<noteq> cs_const_value \<and> cv_status c = cv_status cv) \<or>
     (cv_status c = cs_const_value \<and> same (cv_value c) (cv_value cv))"

definition const_value_eq :: "const_value_c \<Rightarrow> const_value_c \<Rightarrow> bool" where
  "const_value_eq c cv \<longleftrightarrow> cv_eq (=) (c_int64 c) (c_int64 cv) \<and> cv_eq (=) (c_uint64 c) (c_uint64 cv) \<and>
     cv_eq fp_eq (c_real64 c) (c_real64 cv) \<and> cv_eq (=) (c_bool c) (c_bool cv)"

definition is_const :: "const_value_c \<Rightarrow> bool" where
  "is_const c \<longleftrightarrow> is_valid (c_int64 c) \<or> is_valid (c_uint64 c) \<or> is_valid (c_real64 c) \<or> is_valid (c_bool c)"

section \<open>Operations\<close>

abbreviation "UINT64_MAX \<equiv> (18446744073709551615 :: int)"
abbreviation "INT64_MAX \<equiv> (9223372036854775807 :: int)"
abbreviation "INT64_MIN \<equiv> (- 9223372036854775808 :: int)"

definition ISZERO_CVALUE :: "int const_value__ \<Rightarrow> bool" where
  "ISZERO_CVALUE c \<longleftrightarrow> is_valid c \<and> cv_value c = 0"

definition DO_BINARY_OPER :: "('a \<Rightarrow> 'a \<Rightarrow> 'b option) \<Rightarrow> 'b const_value__ \<Rightarrow> 'a const_value__ \<Rightarrow> 'a const_value__ \<Rightarrow> 'b const_value__ option" where
  "DO_BINARY_OPER operation symbol operand1 operand2 =
     (if is_valid operand1 \<and> is_valid operand2 then map_option (set_cv symbol) (operation (cv_value operand1) (cv_value operand2))
      else if is_overflow operand1 \<or> is_overflow operand2 then Some (set_overflow symbol)
      else if is_nonconst operand1 \<or> is_nonconst operand2 then Some (set_nonconst symbol)
      else Some symbol)"

definition DO_UNARY_OPER :: "('a \<Rightarrow> 'a option) \<Rightarrow> 'a const_value__ \<Rightarrow> 'a const_value__ \<Rightarrow> 'a const_value__ option" where
  "DO_UNARY_OPER operation symbol operand =
     (if is_valid operand then map_option (set_cv symbol) (operation (cv_value operand))
      else if is_overflow operand then Some (set_overflow symbol)
      else if is_nonconst operand then Some (set_nonconst symbol)
      else Some symbol)"

text \<open>The checks for overflow of \<open>res = a op b\<close>.\<close>

definition CHECK_OVERFLOW_uint64_SUM :: "int const_value__ \<Rightarrow> int const_value__ \<Rightarrow> int const_value__ \<Rightarrow> int const_value__" where
  "CHECK_OVERFLOW_uint64_SUM res a b = (if \<not> is_valid res then res
     else if UINT64_MAX - cv_value a < cv_value b then set_overflow res else res)"

definition CHECK_OVERFLOW_uint64_SUB :: "int const_value__ \<Rightarrow> int const_value__ \<Rightarrow> int const_value__ \<Rightarrow> int const_value__" where
  "CHECK_OVERFLOW_uint64_SUB res a b = (if \<not> is_valid res then res
     else if cv_value b > cv_value a then set_overflow res else res)"

definition CHECK_OVERFLOW_uint64_MUL :: "int const_value__ \<Rightarrow> int const_value__ \<Rightarrow> int const_value__ \<Rightarrow> int const_value__" where
  "CHECK_OVERFLOW_uint64_MUL res a b = (if \<not> is_valid res then res
     else if cv_value a = 0 then res
     else if UINT64_MAX div cv_value a < cv_value b then set_overflow res else res)"

definition CHECK_OVERFLOW_uint64_DIV :: "int const_value__ \<Rightarrow> int const_value__ \<Rightarrow> int const_value__ \<Rightarrow> int const_value__" where
  "CHECK_OVERFLOW_uint64_DIV res a b = (if \<not> is_valid res then res
     else if cv_value b = 0 then set_overflow res else res)"

definition CHECK_OVERFLOW_uint64_MOD :: "int const_value__ \<Rightarrow> int const_value__ \<Rightarrow> int const_value__ \<Rightarrow> int const_value__" where
  "CHECK_OVERFLOW_uint64_MOD res a b = res"

definition CHECK_OVERFLOW_uint64_NEG :: "int const_value__ \<Rightarrow> int const_value__ \<Rightarrow> int const_value__" where
  "CHECK_OVERFLOW_uint64_NEG res a = (if is_valid a \<and> cv_value a \<noteq> 0 then set_overflow res else res)"

definition CHECK_OVERFLOW_int64_SUM :: "int const_value__ \<Rightarrow> int const_value__ \<Rightarrow> int const_value__ \<Rightarrow> int const_value__" where
  "CHECK_OVERFLOW_int64_SUM res a_ptr b_ptr = (if \<not> is_valid res then res
     else let a = cv_value a_ptr; b = cv_value b_ptr
       in if b > 0 \<and> a > INT64_MAX - b \<or> b < 0 \<and> a < INT64_MIN - b then set_overflow res else res)"

definition CHECK_OVERFLOW_int64_SUB :: "int const_value__ \<Rightarrow> int const_value__ \<Rightarrow> int const_value__ \<Rightarrow> int const_value__" where
  "CHECK_OVERFLOW_int64_SUB res a_ptr b_ptr = (if \<not> is_valid res then res
     else let a = cv_value a_ptr; b = cv_value b_ptr
       in if b > 0 \<and> a < INT64_MIN + b \<or> b < 0 \<and> a > INT64_MAX + b then set_overflow res else res)"

definition CHECK_OVERFLOW_int64_MUL :: "int const_value__ \<Rightarrow> int const_value__ \<Rightarrow> int const_value__ \<Rightarrow> int const_value__" where
  "CHECK_OVERFLOW_int64_MUL res a_ptr b_ptr = (if \<not> is_valid res then res
     else let a = cv_value a_ptr; b = cv_value b_ptr
       in if a > 0 \<and> b > 0 \<and> a > INT64_MAX sdiv b \<or> a > 0 \<and> \<not> b > 0 \<and> b < INT64_MIN sdiv a \<or>
             \<not> a > 0 \<and> b > 0 \<and> a < INT64_MIN sdiv b \<or> \<not> a > 0 \<and> \<not> b > 0 \<and> a \<noteq> 0 \<and> b < INT64_MAX sdiv a
          then set_overflow res else res)"

definition CHECK_OVERFLOW_int64_DIV :: "int const_value__ \<Rightarrow> int const_value__ \<Rightarrow> int const_value__ \<Rightarrow> int const_value__" where
  "CHECK_OVERFLOW_int64_DIV res a_ptr b_ptr = (if \<not> is_valid res then res
     else let a = cv_value a_ptr; b = cv_value b_ptr
       in if b = 0 \<or> a = INT64_MIN \<and> b = -1 then set_overflow res else res)"

definition CHECK_OVERFLOW_int64_MOD :: "int const_value__ \<Rightarrow> int const_value__ \<Rightarrow> int const_value__ \<Rightarrow> int const_value__" where
  "CHECK_OVERFLOW_int64_MOD res a_ptr b_ptr = (if \<not> is_valid res then res
     else let a = cv_value a_ptr; b = cv_value b_ptr
       in if a = INT64_MIN \<and> b = -1 then set_overflow res else res)"

definition CHECK_OVERFLOW_int64_NEG :: "int const_value__ \<Rightarrow> int const_value__ \<Rightarrow> int const_value__" where
  "CHECK_OVERFLOW_int64_NEG res a = (if \<not> is_valid res then res
     else if cv_value a = INT64_MIN then set_overflow res else res)"

definition CHECK_OVERFLOW_real64 :: "fp const_value__ \<Rightarrow> fp const_value__" where
  "CHECK_OVERFLOW_real64 res_ptr = (if \<not> is_valid res_ptr then res_ptr
     else if cv_value res_ptr = NaN \<or> cv_value res_ptr = Inf False \<or> cv_value res_ptr = Inf True
     then set_overflow res_ptr else res_ptr)"

text \<open>The operations of C on the four types.\<close>

definition u64 :: "int \<Rightarrow> int option" where
  "u64 n = arith IEC_ULINT n"

definition i64 :: "int \<Rightarrow> int option" where
  "i64 n = arith IEC_LINT n"

definition handle_move :: "const_value_c \<Rightarrow> const_value_c option \<Rightarrow> const_value_c option" where
  "handle_move to from = (case from of None \<Rightarrow> Some to | Some c \<Rightarrow> Some c)"

definition handle_neg :: "const_value_c \<Rightarrow> const_value_c option \<Rightarrow> const_value_c option" where
  "handle_neg symbol oper = (case oper of None \<Rightarrow> Some symbol | Some a \<Rightarrow> do {
     u \<leftarrow> DO_UNARY_OPER (\<lambda>x. u64 (- x)) (c_uint64 symbol) (c_uint64 a);
     i \<leftarrow> DO_UNARY_OPER (\<lambda>x. i64 (- x)) (c_int64 symbol) (c_int64 a);
     r \<leftarrow> DO_UNARY_OPER (\<lambda>x. Some (fp_minus x)) (c_real64 symbol) (c_real64 a);
     Some (symbol\<lparr>c_uint64 := CHECK_OVERFLOW_uint64_NEG u (c_uint64 a), c_int64 := CHECK_OVERFLOW_int64_NEG i (c_int64 a),
       c_real64 := CHECK_OVERFLOW_real64 r\<rparr>) })"

definition handle_not :: "const_value_c \<Rightarrow> const_value_c option \<Rightarrow> const_value_c option" where
  "handle_not symbol oper = (case oper of None \<Rightarrow> Some symbol | Some a \<Rightarrow> do {
     b \<leftarrow> DO_UNARY_OPER (\<lambda>x. Some (\<not> x)) (c_bool symbol) (c_bool a);
     u \<leftarrow> DO_UNARY_OPER (\<lambda>x. u64 (NOT x)) (c_uint64 symbol) (c_uint64 a);
     Some (symbol\<lparr>c_bool := b, c_uint64 := u\<rparr>) })"

definition handle_bits :: "(bool \<Rightarrow> bool \<Rightarrow> bool) \<Rightarrow> (int \<Rightarrow> int \<Rightarrow> int) \<Rightarrow> const_value_c \<Rightarrow> const_value_c option \<Rightarrow> const_value_c option \<Rightarrow> const_value_c option" where
  "handle_bits f g symbol oper1 oper2 = (case (oper1, oper2) of (Some a, Some b) \<Rightarrow> do {
       x \<leftarrow> DO_BINARY_OPER (\<lambda>x y. Some (f x y)) (c_bool symbol) (c_bool a) (c_bool b);
       u \<leftarrow> DO_BINARY_OPER (\<lambda>x y. u64 (g x y)) (c_uint64 symbol) (c_uint64 a) (c_uint64 b);
       Some (symbol\<lparr>c_bool := x, c_uint64 := u\<rparr>) }
     | _ \<Rightarrow> Some symbol)"

definition handle_or :: "const_value_c \<Rightarrow> const_value_c option \<Rightarrow> const_value_c option \<Rightarrow> const_value_c option" where
  "handle_or = handle_bits (\<or>) (OR)"

definition handle_xor :: "const_value_c \<Rightarrow> const_value_c option \<Rightarrow> const_value_c option \<Rightarrow> const_value_c option" where
  "handle_xor = handle_bits (\<noteq>) (XOR)"

definition handle_and :: "const_value_c \<Rightarrow> const_value_c option \<Rightarrow> const_value_c option \<Rightarrow> const_value_c option" where
  "handle_and = handle_bits (\<and>) (AND)"

definition handle_add :: "const_value_c \<Rightarrow> const_value_c option \<Rightarrow> const_value_c option \<Rightarrow> const_value_c option" where
  "handle_add symbol oper1 oper2 = (case (oper1, oper2) of (Some a, Some b) \<Rightarrow> do {
       u \<leftarrow> DO_BINARY_OPER (\<lambda>x y. u64 (x + y)) (c_uint64 symbol) (c_uint64 a) (c_uint64 b);
       i \<leftarrow> DO_BINARY_OPER (\<lambda>x y. i64 (x + y)) (c_int64 symbol) (c_int64 a) (c_int64 b);
       r \<leftarrow> DO_BINARY_OPER (\<lambda>x y. Some (fp_add DOUBLE x y)) (c_real64 symbol) (c_real64 a) (c_real64 b);
       Some (symbol\<lparr>c_uint64 := CHECK_OVERFLOW_uint64_SUM u (c_uint64 a) (c_uint64 b),
         c_int64 := CHECK_OVERFLOW_int64_SUM i (c_int64 a) (c_int64 b), c_real64 := CHECK_OVERFLOW_real64 r\<rparr>) }
     | _ \<Rightarrow> Some symbol)"

definition handle_sub :: "const_value_c \<Rightarrow> const_value_c option \<Rightarrow> const_value_c option \<Rightarrow> const_value_c option" where
  "handle_sub symbol oper1 oper2 = (case (oper1, oper2) of (Some a, Some b) \<Rightarrow> do {
       u \<leftarrow> DO_BINARY_OPER (\<lambda>x y. u64 (x - y)) (c_uint64 symbol) (c_uint64 a) (c_uint64 b);
       i \<leftarrow> DO_BINARY_OPER (\<lambda>x y. i64 (x - y)) (c_int64 symbol) (c_int64 a) (c_int64 b);
       r \<leftarrow> DO_BINARY_OPER (\<lambda>x y. Some (fp_sub DOUBLE x y)) (c_real64 symbol) (c_real64 a) (c_real64 b);
       Some (symbol\<lparr>c_uint64 := CHECK_OVERFLOW_uint64_SUB u (c_uint64 a) (c_uint64 b),
         c_int64 := CHECK_OVERFLOW_int64_SUB i (c_int64 a) (c_int64 b), c_real64 := CHECK_OVERFLOW_real64 r\<rparr>) }
     | _ \<Rightarrow> Some symbol)"

definition handle_mul :: "const_value_c \<Rightarrow> const_value_c option \<Rightarrow> const_value_c option \<Rightarrow> const_value_c option" where
  "handle_mul symbol oper1 oper2 = (case (oper1, oper2) of (Some a, Some b) \<Rightarrow> do {
       u \<leftarrow> DO_BINARY_OPER (\<lambda>x y. u64 (x * y)) (c_uint64 symbol) (c_uint64 a) (c_uint64 b);
       i \<leftarrow> DO_BINARY_OPER (\<lambda>x y. i64 (x * y)) (c_int64 symbol) (c_int64 a) (c_int64 b);
       r \<leftarrow> DO_BINARY_OPER (\<lambda>x y. Some (fp_mul DOUBLE x y)) (c_real64 symbol) (c_real64 a) (c_real64 b);
       Some (symbol\<lparr>c_uint64 := CHECK_OVERFLOW_uint64_MUL u (c_uint64 a) (c_uint64 b),
         c_int64 := CHECK_OVERFLOW_int64_MUL i (c_int64 a) (c_int64 b), c_real64 := CHECK_OVERFLOW_real64 r\<rparr>) }
     | _ \<Rightarrow> Some symbol)"

definition handle_div :: "const_value_c \<Rightarrow> const_value_c option \<Rightarrow> const_value_c option \<Rightarrow> const_value_c option" where
  "handle_div symbol oper1 oper2 = (case (oper1, oper2) of (Some a, Some b) \<Rightarrow> do {
       u \<leftarrow> (if ISZERO_CVALUE (c_uint64 b) then Some (set_overflow (c_uint64 symbol)) else do {
               u \<leftarrow> DO_BINARY_OPER (\<lambda>x y. u64 (x div y)) (c_uint64 symbol) (c_uint64 a) (c_uint64 b);
               Some (CHECK_OVERFLOW_uint64_DIV u (c_uint64 a) (c_uint64 b)) });
       i \<leftarrow> (if ISZERO_CVALUE (c_int64 b) then Some (set_overflow (c_int64 symbol)) else do {
               i \<leftarrow> DO_BINARY_OPER (\<lambda>x y. i64 (x sdiv y)) (c_int64 symbol) (c_int64 a) (c_int64 b);
               Some (CHECK_OVERFLOW_int64_DIV i (c_int64 a) (c_int64 b)) });
       r \<leftarrow> (if is_valid (c_real64 b) \<and> fp_is_zero (cv_value (c_real64 b)) then Some (set_overflow (c_real64 symbol)) else do {
               r \<leftarrow> DO_BINARY_OPER (\<lambda>x y. Some (fp_div DOUBLE x y)) (c_real64 symbol) (c_real64 a) (c_real64 b);
               Some (CHECK_OVERFLOW_real64 r) });
       Some (symbol\<lparr>c_uint64 := u, c_int64 := i, c_real64 := r\<rparr>) }
     | _ \<Rightarrow> Some symbol)"

definition handle_mod :: "const_value_c \<Rightarrow> const_value_c option \<Rightarrow> const_value_c option \<Rightarrow> const_value_c option" where
  "handle_mod symbol oper1 oper2 = (case (oper1, oper2) of (Some a, Some b) \<Rightarrow> do {
       u \<leftarrow> (if ISZERO_CVALUE (c_uint64 b) then Some (set_cv (c_uint64 symbol) 0) else do {
               u \<leftarrow> DO_BINARY_OPER (\<lambda>x y. u64 (x mod y)) (c_uint64 symbol) (c_uint64 a) (c_uint64 b);
               Some (CHECK_OVERFLOW_uint64_MOD u (c_uint64 a) (c_uint64 b)) });
       i \<leftarrow> (if ISZERO_CVALUE (c_int64 b) then Some (set_cv (c_int64 symbol) 0) else do {
               i \<leftarrow> DO_BINARY_OPER (\<lambda>x y. do { q \<leftarrow> i64 (x sdiv y); i64 (x - q * y) }) (c_int64 symbol) (c_int64 a) (c_int64 b);
               Some (CHECK_OVERFLOW_int64_MOD i (c_int64 a) (c_int64 b)) });
       Some (symbol\<lparr>c_uint64 := u, c_int64 := i\<rparr>) }
     | _ \<Rightarrow> Some symbol)"

text \<open>\<open>pow\<close> is the function of \<open>math.h\<close>; the operands of \<open>handle_pow\<close> are never NULL.\<close>

definition handle_pow :: "(fp \<Rightarrow> fp \<Rightarrow> fp) \<Rightarrow> const_value_c \<Rightarrow> const_value_c \<Rightarrow> const_value_c \<Rightarrow> const_value_c option" where
  "handle_pow pow symbol a b =
     (let r = c_real64 symbol;
          r = (if is_valid (c_real64 a) \<and> is_valid (c_int64 b)
               then set_cv r (pow (cv_value (c_real64 a)) (fp_of_int DOUBLE (cv_value (c_int64 b)))) else r);
          r = (if is_valid (c_real64 a) \<and> is_valid (c_uint64 b)
               then set_cv r (pow (cv_value (c_real64 a)) (fp_of_int DOUBLE (cv_value (c_uint64 b)))) else r)
      in Some (symbol\<lparr>c_real64 := CHECK_OVERFLOW_real64 r\<rparr>))"

text \<open>The comparisons, on every type: each one that has a result overwrites the ones before.\<close>

datatype cmp = cmp_gt | cmp_ge | cmp_eq | cmp_lt | cmp_le | cmp_ne

fun compares :: "cmp \<Rightarrow> ('a \<Rightarrow> 'a \<Rightarrow> bool) \<Rightarrow> ('a \<Rightarrow> 'a \<Rightarrow> bool) \<Rightarrow> 'a \<Rightarrow> 'a \<Rightarrow> bool" where
  "compares cmp_gt lt same x y = lt y x"
| "compares cmp_ge lt same x y = (lt y x \<or> same x y)"
| "compares cmp_eq lt same x y = same x y"
| "compares cmp_lt lt same x y = lt x y"
| "compares cmp_le lt same x y = (lt x y \<or> same x y)"
| "compares cmp_ne lt same x y = (\<not> same x y)"

definition handle_cmp :: "cmp \<Rightarrow> const_value_c \<Rightarrow> const_value_c option \<Rightarrow> const_value_c option \<Rightarrow> const_value_c option" where
  "handle_cmp operation symbol oper1 oper2 = (case (oper1, oper2) of (Some a, Some b) \<Rightarrow> do {
       x \<leftarrow> DO_BINARY_OPER (\<lambda>x y. Some (compares operation (<) (=) x y)) (c_bool symbol) (c_bool a) (c_bool b);
       x \<leftarrow> DO_BINARY_OPER (\<lambda>x y. Some (compares operation (<) (=) x y)) x (c_uint64 a) (c_uint64 b);
       x \<leftarrow> DO_BINARY_OPER (\<lambda>x y. Some (compares operation (<) (=) x y)) x (c_int64 a) (c_int64 b);
       x \<leftarrow> DO_BINARY_OPER (\<lambda>x y. Some (compares operation fp_less fp_eq x y)) x (c_real64 a) (c_real64 b);
       Some (symbol\<lparr>c_bool := x\<rparr>) }
     | _ \<Rightarrow> Some symbol)"

section \<open>Literals\<close>

text \<open>
  The text of a literal as the lexer passes it on: digits and underscores, after \<open>2#\<close>, \<open>8#\<close> or \<open>16#\<close>.
  \<open>strtol\<close> and \<open>strtoul\<close> give the value and whether it is out of range; a text that they do not read
  to its end runs into \<open>ERROR\<close>. White space and \<open>0x\<close>, which they skip, never come from the lexer.
\<close>

definition digit_val :: "nat \<Rightarrow> char \<Rightarrow> nat option" where
  "digit_val base c = (let n = of_char c :: nat;
     d = (if 48 \<le> n \<and> n \<le> 57 then n - 48 else if 65 \<le> n \<and> n \<le> 90 then n - 55 else if 97 \<le> n \<and> n \<le> 122 then n - 87 else 36)
   in if d < base then Some d else None)"

fun read_digits :: "nat \<Rightarrow> char list \<Rightarrow> nat \<Rightarrow> nat option" where
  "read_digits base [] n = Some n"
| "read_digits base (c # cs) n = (case digit_val base c of None \<Rightarrow> None | Some d \<Rightarrow> read_digits base cs (base * n + d))"

definition read_signed :: "nat \<Rightarrow> string \<Rightarrow> (bool \<times> nat) option" where
  "read_signed base s = (case s of
     c # cs \<Rightarrow> if c = CHR ''-'' \<or> c = CHR ''+''
       then if cs = [] then None else map_option (Pair (c = CHR ''-'')) (read_digits base cs 0)
       else map_option (Pair False) (read_digits base s 0)
   | [] \<Rightarrow> Some (False, 0))"

definition matiec_strtoint64 :: "nat \<Rightarrow> string \<Rightarrow> (int \<times> bool) option" where
  "matiec_strtoint64 base s = map_option (\<lambda>(neg, n).
     let v = (if neg then - int n else int n)
     in if v < INT64_MIN then (INT64_MIN, True) else if v > INT64_MAX then (INT64_MAX, True) else (v, False)) (read_signed base s)"

definition matiec_strtouint64 :: "nat \<Rightarrow> string \<Rightarrow> (int \<times> bool) option" where
  "matiec_strtouint64 base s = map_option (\<lambda>(neg, n).
     if int n > UINT64_MAX then (UINT64_MAX, True)
     else (if neg then (- int n) mod 18446744073709551616 else int n, False)) (read_signed base s)"

datatype number = integer_n | hex_integer_n | octal_integer_n | binary_integer_n

fun number_base :: "number \<Rightarrow> nat" where
  "number_base integer_n = 10" | "number_base hex_integer_n = 16" | "number_base octal_integer_n = 8" | "number_base binary_integer_n = 2"

fun number_skip :: "number \<Rightarrow> nat" where
  "number_skip integer_n = 0" | "number_skip hex_integer_n = 3" | "number_skip octal_integer_n = 2" | "number_skip binary_integer_n = 2"

definition no_underscores :: "string \<Rightarrow> string" where
  "no_underscores s = filter (\<lambda>c. c \<noteq> CHR ''_'') s"

definition extract_int64_value :: "number \<Rightarrow> string \<Rightarrow> (int \<times> bool) option" where
  "extract_int64_value k v = matiec_strtoint64 (number_base k) (no_underscores (drop (number_skip k) v))"

definition extract_uint64_value :: "number \<Rightarrow> string \<Rightarrow> (int \<times> bool) option" where
  "extract_uint64_value k v = matiec_strtouint64 (number_base k) (no_underscores (drop (number_skip k) v))"

text \<open>
  \<open>strtof\<close> of \<open>digits . digits [E [sign] digits]\<close>: the nearest \<open>float\<close>, and whether it is infinite or a
  subnormal number that is not exact. It is what the code calls: in \<open>#if (real64_tX == float)\<close> both
  names are 0 for the preprocessor.
\<close>

definition span_digits :: "string \<Rightarrow> string \<times> string" where
  "span_digits s = (takeWhile (\<lambda>c. digit_val 10 c \<noteq> None) s, dropWhile (\<lambda>c. digit_val 10 c \<noteq> None) s)"

definition digits_nat :: "string \<Rightarrow> nat" where
  "digits_nat s = (case read_digits 10 s 0 of Some n \<Rightarrow> n | None \<Rightarrow> 0)"

definition read_exponent :: "string \<Rightarrow> int option" where
  "read_exponent s = (case s of [] \<Rightarrow> Some 0
     | e # r \<Rightarrow> if e = CHR ''E'' \<or> e = CHR ''e'' then
         (case read_signed 10 r of Some (neg, n) \<Rightarrow> if r = [] then None else Some (if neg then - int n else int n) | None \<Rightarrow> None)
       else None)"

definition read_decimal :: "string \<Rightarrow> rat option" where
  "read_decimal s = (let (a, r) = span_digits s;
       (b, r) = (case r of CHR ''.'' # r' \<Rightarrow> span_digits r' | _ \<Rightarrow> ([], r))
     in if a = [] \<and> b = [] then None
        else map_option (\<lambda>e. of_nat (digits_nat (a @ b)) * 10 powi (e - int (length b))) (read_exponent r))"

definition strtof :: "string \<Rightarrow> (fp \<times> bool) option" where
  "strtof s = map_option (\<lambda>q. let x = FLOAT False q
     in (x, x = Inf False \<or> q \<noteq> 0 \<and> q < 1 / 2 ^ 126 \<and> fp_val x \<noteq> q)) (read_decimal s)"

definition extract_real_value :: "string \<Rightarrow> (fp \<times> bool) option" where
  "extract_real_value v = strtof (no_underscores v)"

section \<open>Expressions\<close>

text \<open>
  The syntax tree of an expression with the values of its symbols. \<open>other_c\<close> is any symbol that the
  class does not fold: variables, calls of functions.
\<close>

datatype binary = or_b | xor_b | and_b | cmp_b cmp | add_b | sub_b | mul_b | div_b | mod_b | power_b

datatype symbol_c =
    number_c const_value_c number string
  | real_c const_value_c string
  | neg_integer_c const_value_c symbol_c
  | neg_real_c const_value_c symbol_c
  | integer_literal_c const_value_c symbol_c
  | real_literal_c const_value_c symbol_c
  | bit_string_literal_c const_value_c symbol_c
  | boolean_literal_c const_value_c symbol_c
  | boolean_true_c const_value_c
  | boolean_false_c const_value_c
  | expression_c const_value_c binary symbol_c symbol_c
  | neg_expression_c const_value_c symbol_c
  | not_expression_c const_value_c symbol_c
  | other_c const_value_c string

primrec const_value :: "symbol_c \<Rightarrow> const_value_c" where
  "const_value (number_c c k v) = c"
| "const_value (real_c c v) = c"
| "const_value (neg_integer_c c e) = c"
| "const_value (neg_real_c c e) = c"
| "const_value (integer_literal_c c e) = c"
| "const_value (real_literal_c c e) = c"
| "const_value (bit_string_literal_c c e) = c"
| "const_value (boolean_literal_c c e) = c"
| "const_value (boolean_true_c c) = c"
| "const_value (boolean_false_c c) = c"
| "const_value (expression_c c b l r) = c"
| "const_value (neg_expression_c c e) = c"
| "const_value (not_expression_c c e) = c"
| "const_value (other_c c v) = c"

definition literal_value :: "'a const_value__ \<Rightarrow> ('a \<times> bool) option \<Rightarrow> 'a const_value__ option" where
  "literal_value c x = map_option (\<lambda>(v, overflow). if overflow then set_overflow (set_cv c v) else set_cv c v) x"

definition handle_neg_real :: "const_value_c \<Rightarrow> const_value_c \<Rightarrow> const_value_c option" where
  "handle_neg_real symbol a = do {
     r \<leftarrow> DO_UNARY_OPER (\<lambda>x. Some (fp_minus x)) (c_real64 symbol) (c_real64 a);
     let r = CHECK_OVERFLOW_real64 r;
     Some (symbol\<lparr>c_real64 := if is_overflow (c_real64 a) then set_overflow r else r\<rparr>) }"

text \<open>The number \<open>2^63\<close>, which is no \<open>int64_t\<close>, has a negative that is.\<close>

definition handle_neg_integer :: "const_value_c \<Rightarrow> const_value_c \<Rightarrow> const_value_c option" where
  "handle_neg_integer symbol a = do {
     u \<leftarrow> DO_UNARY_OPER (\<lambda>x. u64 (- x)) (c_uint64 symbol) (c_uint64 a);
     let u = CHECK_OVERFLOW_uint64_NEG u (c_uint64 a);
     let u = (if is_overflow (c_uint64 a) then set_overflow u else u);
     i \<leftarrow> DO_UNARY_OPER (\<lambda>x. i64 (- x)) (c_int64 symbol) (c_int64 a);
     let i = CHECK_OVERFLOW_int64_NEG i (c_int64 a);
     let i = (if is_overflow (c_int64 a) then set_overflow i else i);
     let i = (if is_valid (c_uint64 a) \<and> cv_value (c_uint64 a) = INT64_MAX + 1 then set_cv i INT64_MIN else i);
     Some (symbol\<lparr>c_uint64 := u, c_int64 := i\<rparr>) }"

fun handle_binary :: "(fp \<Rightarrow> fp \<Rightarrow> fp) \<Rightarrow> binary \<Rightarrow> const_value_c \<Rightarrow> const_value_c \<Rightarrow> const_value_c \<Rightarrow> const_value_c option" where
  "handle_binary pow or_b symbol l r = handle_or symbol (Some l) (Some r)"
| "handle_binary pow xor_b symbol l r = handle_xor symbol (Some l) (Some r)"
| "handle_binary pow and_b symbol l r = handle_and symbol (Some l) (Some r)"
| "handle_binary pow (cmp_b operation) symbol l r = handle_cmp operation symbol (Some l) (Some r)"
| "handle_binary pow add_b symbol l r = handle_add symbol (Some l) (Some r)"
| "handle_binary pow sub_b symbol l r = handle_sub symbol (Some l) (Some r)"
| "handle_binary pow mul_b symbol l r = handle_mul symbol (Some l) (Some r)"
| "handle_binary pow div_b symbol l r = handle_div symbol (Some l) (Some r)"
| "handle_binary pow mod_b symbol l r = handle_mod symbol (Some l) (Some r)"
| "handle_binary pow power_b symbol l r = handle_pow pow symbol l r"

fun visit :: "(fp \<Rightarrow> fp \<Rightarrow> fp) \<Rightarrow> symbol_c \<Rightarrow> symbol_c option" where
  "visit pow (number_c c k v) = do {
     i \<leftarrow> literal_value (c_int64 c) (extract_int64_value k v);
     u \<leftarrow> literal_value (c_uint64 c) (extract_uint64_value k v);
     Some (number_c (c\<lparr>c_int64 := i, c_uint64 := u\<rparr>) k v) }"
| "visit pow (real_c c v) = do {
     r \<leftarrow> literal_value (c_real64 c) (extract_real_value v);
     Some (real_c (c\<lparr>c_real64 := r\<rparr>) v) }"
| "visit pow (neg_integer_c c e) = do {
     e \<leftarrow> visit pow e; c \<leftarrow> handle_neg_integer c (const_value e); Some (neg_integer_c c e) }"
| "visit pow (neg_real_c c e) = do {
     e \<leftarrow> visit pow e; c \<leftarrow> handle_neg_real c (const_value e); Some (neg_real_c c e) }"
| "visit pow (integer_literal_c c e) = do {
     e \<leftarrow> visit pow e;
     i \<leftarrow> DO_UNARY_OPER Some (c_int64 c) (c_int64 (const_value e));
     u \<leftarrow> DO_UNARY_OPER Some (c_uint64 c) (c_uint64 (const_value e));
     Some (integer_literal_c (c\<lparr>c_int64 := i, c_uint64 := u\<rparr>) e) }"
| "visit pow (real_literal_c c e) = do {
     e \<leftarrow> visit pow e;
     r \<leftarrow> DO_UNARY_OPER Some (c_real64 c) (c_real64 (const_value e));
     Some (real_literal_c (c\<lparr>c_real64 := r\<rparr>) e) }"
| "visit pow (bit_string_literal_c c e) = Some (bit_string_literal_c c e)"
| "visit pow (boolean_literal_c c e) = do {
     e \<leftarrow> visit pow e;
     b \<leftarrow> DO_UNARY_OPER Some (c_bool c) (c_bool (const_value e));
     Some (boolean_literal_c (c\<lparr>c_bool := b\<rparr>) e) }"
| "visit pow (boolean_true_c c) = Some (boolean_true_c (c\<lparr>c_bool := set_cv (c_bool c) True\<rparr>))"
| "visit pow (boolean_false_c c) = Some (boolean_false_c (c\<lparr>c_bool := set_cv (c_bool c) False\<rparr>))"
| "visit pow (expression_c c b l r) = do {
     l \<leftarrow> visit pow l; r \<leftarrow> visit pow r;
     c \<leftarrow> handle_binary pow b c (const_value l) (const_value r); Some (expression_c c b l r) }"
| "visit pow (neg_expression_c c e) = do {
     e \<leftarrow> visit pow e; c \<leftarrow> handle_neg c (Some (const_value e)); Some (neg_expression_c c e) }"
| "visit pow (not_expression_c c e) = do {
     e \<leftarrow> visit pow e; c \<leftarrow> handle_not c (Some (const_value e)); Some (not_expression_c c e) }"
| "visit pow (other_c c v) = Some (other_c c v)"

section \<open>The checks for overflow\<close>

definition cvalue :: "'a const_value__ \<Rightarrow> 'a option" where
  "cvalue c = (if is_valid c then Some (cv_value c) else None)"

definition int64_fit :: "int \<Rightarrow> int option" where
  "int64_fit n = (if INT64_MIN \<le> n \<and> n \<le> INT64_MAX then Some n else None)"

definition uint64_fit :: "int \<Rightarrow> int option" where
  "uint64_fit n = (if 0 \<le> n \<and> n \<le> UINT64_MAX then Some n else None)"

lemma cvalue_simps [simp]:
  "cvalue (set_cv c x) = Some x" "cvalue (set_overflow c) = None" "cvalue (set_nonconst c) = None"
  "is_valid (set_cv c x)" "cv_value (set_cv c x) = x" "\<not> is_valid (set_overflow c)" "\<not> is_valid (set_nonconst c)"
  by (simp_all add: cvalue_def is_valid_def set_cv_def set_overflow_def set_nonconst_def)

lemma cvalue_Some: "cvalue c = Some x \<longleftrightarrow> is_valid c \<and> cv_value c = x"
  by (simp add: cvalue_def)

lemma cvalue_None: "cvalue c = None \<longleftrightarrow> \<not> is_valid c"
  by (simp add: cvalue_def)

lemma cvalue_no_value [simp]:
  "cvalue (c_int64 no_value) = None" "cvalue (c_uint64 no_value) = None" "cvalue (c_real64 no_value) = None" "cvalue (c_bool no_value) = None"
  by (simp_all add: cvalue_def is_valid_def no_value_def)

lemma i64_fit: "i64 n = int64_fit n"
  by (auto simp: i64_def int64_fit_def arith_def in_type_def)

lemma u64_mod: "u64 n = Some (n mod 18446744073709551616)"
  by (simp add: u64_def arith_def)

lemma DO_BINARY_OPER_valid [simp]:
  "cvalue a = Some x \<Longrightarrow> cvalue b = Some y \<Longrightarrow> DO_BINARY_OPER f s a b = map_option (set_cv s) (f x y)"
  by (simp add: DO_BINARY_OPER_def cvalue_Some)

lemma DO_BINARY_OPER_invalid:
  assumes "cvalue a = None \<or> cvalue b = None" "cvalue s = None"
  shows "\<exists>c. DO_BINARY_OPER f s a b = Some c \<and> cvalue c = None"
  using assms by (auto simp: DO_BINARY_OPER_def cvalue_None)

lemma DO_UNARY_OPER_valid [simp]:
  "cvalue a = Some x \<Longrightarrow> DO_UNARY_OPER f s a = map_option (set_cv s) (f x)"
  by (simp add: DO_UNARY_OPER_def cvalue_Some)

lemma DO_UNARY_OPER_invalid:
  assumes "cvalue a = None" "cvalue s = None"
  shows "\<exists>c. DO_UNARY_OPER f s a = Some c \<and> cvalue c = None"
  using assms by (auto simp: DO_UNARY_OPER_def cvalue_None)

text \<open>The tests before a multiplication, on the quotients that C truncates.\<close>

lemma div_less_mult_iff:
  fixes x k b :: int
  assumes "0 < k"
  shows "x div k < b \<longleftrightarrow> x < b * k"
proof -
  have x: "x = x div k * k + x mod k" "0 \<le> x mod k" "x mod k < k" using assms by simp_all
  show ?thesis
  proof
    assume "x div k < b"
    then have "x div k + 1 \<le> b" by simp
    then have "(x div k + 1) * k \<le> b * k" using assms by (intro mult_right_mono) simp_all
    moreover have "(x div k + 1) * k = x div k * k + k" by (simp add: distrib_right)
    ultimately show "x < b * k" using x by linarith
  next
    assume "x < b * k"
    then have "x div k * k < b * k" using x by linarith
    then show "x div k < b" using assms by simp
  qed
qed

lemma sdiv_less_iff:
  fixes m k b :: int
  assumes "0 < k"
  shows "0 \<le> m \<Longrightarrow> m sdiv k < b \<longleftrightarrow> m < b * k" "m \<le> 0 \<Longrightarrow> b < m sdiv k \<longleftrightarrow> b * k < m"
proof -
  note a = div_less_mult_iff [OF assms]
  show "m sdiv k < b \<longleftrightarrow> m < b * k" if "0 \<le> m"
    using a [of m b] that assms by (cases "m = 0") (simp_all add: signed_divide_int_def sgn_if zero_less_mult_iff)
  show "b < m sdiv k \<longleftrightarrow> b * k < m" if "m \<le> 0"
  proof -
    have "m sdiv k = - (- m div k)" using that assms by (cases "m = 0") (simp_all add: signed_divide_int_def sgn_if)
    moreover have "- m div k < - b \<longleftrightarrow> - m < - b * k" by (rule a)
    ultimately show ?thesis by linarith
  qed
qed

lemma int64_product_check:
  fixes a b :: int
  shows "(a > 0 \<and> b > 0 \<and> a > INT64_MAX sdiv b \<or> a > 0 \<and> \<not> b > 0 \<and> b < INT64_MIN sdiv a \<or>
      \<not> a > 0 \<and> b > 0 \<and> a < INT64_MIN sdiv b \<or> \<not> a > 0 \<and> \<not> b > 0 \<and> a \<noteq> 0 \<and> b < INT64_MAX sdiv a) \<longleftrightarrow>
    \<not> (INT64_MIN \<le> a * b \<and> a * b \<le> INT64_MAX)"
proof -
  consider "a > 0" "b > 0" | "a > 0" "b \<le> 0" | "a \<le> 0" "b > 0" | "a = 0" | "a < 0" "b \<le> 0" by linarith
  then show ?thesis
  proof cases
    case 1
    then have "0 < a * b" by simp
    then have "INT64_MIN \<le> a * b" by linarith
    then show ?thesis using 1 sdiv_less_iff(1) [of b INT64_MAX a] by auto
  next
    case 2
    then have "a * b \<le> 0" by (simp add: mult_le_0_iff)
    then show ?thesis using 2 sdiv_less_iff(2) [of a INT64_MIN b] by (auto simp: mult.commute)
  next
    case 3
    then have "a * b \<le> 0" by (simp add: mult_le_0_iff)
    then show ?thesis using 3 sdiv_less_iff(2) [of b INT64_MIN a] by auto
  next
    case 5
    then have "0 \<le> a * b" by (simp add: zero_le_mult_iff)
    moreover have "INT64_MAX sdiv a = - (INT64_MAX sdiv (- a))" using 5 by (simp add: signed_divide_int_def sgn_if)
    moreover have "INT64_MAX sdiv (- a) < - b \<longleftrightarrow> INT64_MAX < - b * - a" using 5 by (intro sdiv_less_iff(1)) simp_all
    ultimately show ?thesis using 5 by (auto simp: mult.commute)
  next
    case 4
    then show ?thesis using sdiv_less_iff(1) [of b "9223372036854775808" 0] by auto
  qed
qed

lemma uint64_product_check:
  fixes a b :: int
  assumes "0 < a"
  shows "UINT64_MAX div a < b \<longleftrightarrow> UINT64_MAX < a * b"
  using div_less_mult_iff [OF assms] by (simp add: mult.commute)

text \<open>Each operation with its check gives the exact result, when the type has it.\<close>

definition fit2 :: "(int \<Rightarrow> int \<Rightarrow> int option) \<Rightarrow> int const_value__ \<Rightarrow> int const_value__ \<Rightarrow> int option" where
  "fit2 f a b = do { x \<leftarrow> cvalue a; y \<leftarrow> cvalue b; f x y }"

definition u_ok :: "int const_value__ \<Rightarrow> bool" where
  "u_ok c \<longleftrightarrow> is_valid c \<longrightarrow> 0 \<le> cv_value c \<and> cv_value c \<le> UINT64_MAX"

definition i_ok :: "int const_value__ \<Rightarrow> bool" where
  "i_ok c \<longleftrightarrow> is_valid c \<longrightarrow> INT64_MIN \<le> cv_value c \<and> cv_value c \<le> INT64_MAX"

lemma checked_binary:
  assumes "cvalue s = None" "\<And>u. cvalue u = None \<Longrightarrow> check u = u"
    and "\<And>x y. cvalue a = Some x \<Longrightarrow> cvalue b = Some y \<Longrightarrow> \<exists>z. f x y = Some z \<and> cvalue (check (set_cv s z)) = g x y"
  shows "\<exists>u. DO_BINARY_OPER f s a b = Some u \<and> cvalue (check u) = fit2 g a b"
proof (cases "cvalue a = None \<or> cvalue b = None")
  case True
  then show ?thesis using DO_BINARY_OPER_invalid [OF True assms(1)] assms(2) by (fastforce simp: fit2_def)
next
  case False
  then obtain x y where "cvalue a = Some x" "cvalue b = Some y" by auto
  then show ?thesis using assms(3) [of x y] by (auto simp: fit2_def)
qed

lemma checked_unary:
  assumes "cvalue s = None" "\<And>u. cvalue a = None \<Longrightarrow> cvalue u = None \<Longrightarrow> check u = u"
    and "\<And>x. cvalue a = Some x \<Longrightarrow> \<exists>z. f x = Some z \<and> cvalue (check (set_cv s z)) = g x"
  shows "\<exists>u. DO_UNARY_OPER f s a = Some u \<and> cvalue (check u) = Option.bind (cvalue a) g"
proof (cases "cvalue a")
  case None
  then show ?thesis using DO_UNARY_OPER_invalid [OF None assms(1)] assms(2) by fastforce
next
  case (Some x)
  then show ?thesis using assms(3) [of x] by auto
qed

text \<open>The signed operations have no result exactly when the check would find an overflow.\<close>

definition traps :: "(int \<Rightarrow> int \<Rightarrow> int option) \<Rightarrow> int const_value__ \<Rightarrow> int const_value__ \<Rightarrow> bool" where
  "traps f a b \<longleftrightarrow> cvalue a \<noteq> None \<and> cvalue b \<noteq> None \<and> fit2 f a b = None"

definition exact_fold :: "(int \<Rightarrow> int \<Rightarrow> int option) \<Rightarrow> (int const_value__ \<Rightarrow> int const_value__) \<Rightarrow>
    int const_value__ \<Rightarrow> int const_value__ \<Rightarrow> int const_value__ \<Rightarrow> bool" where
  "exact_fold f check s a b \<longleftrightarrow> (DO_BINARY_OPER f s a b = None \<longleftrightarrow> traps f a b) \<and>
     (\<forall>i. DO_BINARY_OPER f s a b = Some i \<longrightarrow> cvalue (check i) = fit2 f a b)"

lemma exact_foldI:
  assumes "cvalue s = None" "\<And>u. cvalue u = None \<Longrightarrow> check u = u"
    and "\<And>x y z. cvalue a = Some x \<Longrightarrow> cvalue b = Some y \<Longrightarrow> f x y = Some z \<Longrightarrow> cvalue (check (set_cv s z)) = Some z"
  shows "exact_fold f check s a b"
proof (cases "cvalue a = None \<or> cvalue b = None")
  case True
  then obtain c where "DO_BINARY_OPER f s a b = Some c" "cvalue c = None" using DO_BINARY_OPER_invalid assms(1) by blast
  then show ?thesis using assms(2) True by (auto simp: exact_fold_def traps_def fit2_def split: Option.bind_splits)
next
  case False
  then obtain x y where "cvalue a = Some x" "cvalue b = Some y" by auto
  then show ?thesis using assms(3) [of x y] by (auto simp: exact_fold_def traps_def fit2_def)
qed

lemma uint64_checks:
  assumes "u_ok a" "u_ok b" "cvalue s = None"
  shows "\<exists>u. DO_BINARY_OPER (\<lambda>x y. u64 (x + y)) s a b = Some u \<and>
      cvalue (CHECK_OVERFLOW_uint64_SUM u a b) = fit2 (\<lambda>x y. uint64_fit (x + y)) a b"
    "\<exists>u. DO_BINARY_OPER (\<lambda>x y. u64 (x - y)) s a b = Some u \<and>
      cvalue (CHECK_OVERFLOW_uint64_SUB u a b) = fit2 (\<lambda>x y. uint64_fit (x - y)) a b"
    "\<exists>u. DO_BINARY_OPER (\<lambda>x y. u64 (x * y)) s a b = Some u \<and>
      cvalue (CHECK_OVERFLOW_uint64_MUL u a b) = fit2 (\<lambda>x y. uint64_fit (x * y)) a b"
    "\<not> ISZERO_CVALUE b \<Longrightarrow> \<exists>u. DO_BINARY_OPER (\<lambda>x y. u64 (x div y)) s a b = Some u \<and>
      cvalue (CHECK_OVERFLOW_uint64_DIV u a b) = fit2 (\<lambda>x y. uint64_fit (x div y)) a b"
    "\<not> ISZERO_CVALUE b \<Longrightarrow> \<exists>u. DO_BINARY_OPER (\<lambda>x y. u64 (x mod y)) s a b = Some u \<and>
      cvalue (CHECK_OVERFLOW_uint64_MOD u a b) = fit2 (\<lambda>x y. uint64_fit (x mod y)) a b"
proof -
  note d = cvalue_Some u64_mod cvalue_None u_ok_def uint64_fit_def
  show "\<exists>u. DO_BINARY_OPER (\<lambda>x y. u64 (x + y)) s a b = Some u \<and>
      cvalue (CHECK_OVERFLOW_uint64_SUM u a b) = fit2 (\<lambda>x y. uint64_fit (x + y)) a b"
    using assms by (intro checked_binary) (auto simp: CHECK_OVERFLOW_uint64_SUM_def d)
  show "\<exists>u. DO_BINARY_OPER (\<lambda>x y. u64 (x - y)) s a b = Some u \<and>
      cvalue (CHECK_OVERFLOW_uint64_SUB u a b) = fit2 (\<lambda>x y. uint64_fit (x - y)) a b"
    using assms by (intro checked_binary) (auto simp: CHECK_OVERFLOW_uint64_SUB_def d)
  show "\<exists>u. DO_BINARY_OPER (\<lambda>x y. u64 (x * y)) s a b = Some u \<and>
      cvalue (CHECK_OVERFLOW_uint64_MUL u a b) = fit2 (\<lambda>x y. uint64_fit (x * y)) a b"
  proof (intro checked_binary)
    fix x y
    assume "cvalue a = Some x" "cvalue b = Some y"
    then have "0 \<le> x" "x \<le> UINT64_MAX" "0 \<le> y" "cv_value a = x" "cv_value b = y" using assms by (auto simp: d)
    moreover from this have "0 \<le> x * y" by simp
    ultimately show "\<exists>z. u64 (x * y) = Some z \<and> cvalue (CHECK_OVERFLOW_uint64_MUL (set_cv s z) a b) = uint64_fit (x * y)"
      using uint64_product_check [of x y] by (cases "x = 0") (auto simp: CHECK_OVERFLOW_uint64_MUL_def d)
  qed (use assms in \<open>auto simp: CHECK_OVERFLOW_uint64_MUL_def d\<close>)
  assume nz: "\<not> ISZERO_CVALUE b"
  have q: "0 \<le> x div y \<and> x div y \<le> x \<and> 0 \<le> x mod y \<and> x mod y \<le> x" if "0 \<le> x" "0 < y" for x y :: int
    using that zdiv_mono2 [of x 1 y] by (simp add: zmod_le_nonneg_dividend pos_imp_zdiv_nonneg_iff)
  show "\<exists>u. DO_BINARY_OPER (\<lambda>x y. u64 (x div y)) s a b = Some u \<and>
      cvalue (CHECK_OVERFLOW_uint64_DIV u a b) = fit2 (\<lambda>x y. uint64_fit (x div y)) a b"
  proof (intro checked_binary)
    fix x y
    assume v: "cvalue a = Some x" "cvalue b = Some y"
    then have "0 \<le> x" "x \<le> UINT64_MAX" "0 < y" "cv_value b = y" using assms nz by (auto simp: d ISZERO_CVALUE_def)
    then show "\<exists>z. u64 (x div y) = Some z \<and> cvalue (CHECK_OVERFLOW_uint64_DIV (set_cv s z) a b) = uint64_fit (x div y)"
      using q [of x y] by (auto simp: CHECK_OVERFLOW_uint64_DIV_def d)
  qed (use assms in \<open>auto simp: CHECK_OVERFLOW_uint64_DIV_def d\<close>)
  show "\<exists>u. DO_BINARY_OPER (\<lambda>x y. u64 (x mod y)) s a b = Some u \<and>
      cvalue (CHECK_OVERFLOW_uint64_MOD u a b) = fit2 (\<lambda>x y. uint64_fit (x mod y)) a b"
  proof (intro checked_binary)
    fix x y
    assume v: "cvalue a = Some x" "cvalue b = Some y"
    then have "0 \<le> x" "x \<le> UINT64_MAX" "0 < y" using assms nz by (auto simp: d ISZERO_CVALUE_def)
    then show "\<exists>z. u64 (x mod y) = Some z \<and> cvalue (CHECK_OVERFLOW_uint64_MOD (set_cv s z) a b) = uint64_fit (x mod y)"
      using q [of x y] by (auto simp: CHECK_OVERFLOW_uint64_MOD_def d)
  qed (use assms in \<open>auto simp: CHECK_OVERFLOW_uint64_MOD_def d\<close>)
qed

lemma int64_checks:
  assumes "cvalue s = None"
  shows "exact_fold (\<lambda>x y. i64 (x + y)) (\<lambda>i. CHECK_OVERFLOW_int64_SUM i a b) s a b"
    "exact_fold (\<lambda>x y. i64 (x - y)) (\<lambda>i. CHECK_OVERFLOW_int64_SUB i a b) s a b"
    "exact_fold (\<lambda>x y. i64 (x * y)) (\<lambda>i. CHECK_OVERFLOW_int64_MUL i a b) s a b"
    "\<not> ISZERO_CVALUE b \<Longrightarrow> exact_fold (\<lambda>x y. i64 (x sdiv y)) (\<lambda>i. CHECK_OVERFLOW_int64_DIV i a b) s a b"
    "\<not> ISZERO_CVALUE b \<Longrightarrow> exact_fold (\<lambda>x y. do { q \<leftarrow> i64 (x sdiv y); i64 (x - q * y) }) (\<lambda>i. CHECK_OVERFLOW_int64_MOD i a b) s a b"
proof -
  note d = cvalue_Some i64_fit cvalue_None int64_fit_def Let_def
  show "exact_fold (\<lambda>x y. i64 (x + y)) (\<lambda>i. CHECK_OVERFLOW_int64_SUM i a b) s a b"
    using assms by (intro exact_foldI) (auto simp: CHECK_OVERFLOW_int64_SUM_def d split: if_splits)
  show "exact_fold (\<lambda>x y. i64 (x - y)) (\<lambda>i. CHECK_OVERFLOW_int64_SUB i a b) s a b"
    using assms by (intro exact_foldI) (auto simp: CHECK_OVERFLOW_int64_SUB_def d split: if_splits)
  show "exact_fold (\<lambda>x y. i64 (x * y)) (\<lambda>i. CHECK_OVERFLOW_int64_MUL i a b) s a b"
  proof (intro exact_foldI)
    fix x y z
    assume "cvalue a = Some x" "cvalue b = Some y" "i64 (x * y) = Some z"
    then show "cvalue (CHECK_OVERFLOW_int64_MUL (set_cv s z) a b) = Some z"
      using int64_product_check [of x y] unfolding CHECK_OVERFLOW_int64_MUL_def Let_def by (simp add: d split: if_splits)
  qed (use assms in \<open>auto simp: CHECK_OVERFLOW_int64_MUL_def d\<close>)
  have m: "INT64_MIN sdiv - 1 = INT64_MAX + 1" by (simp add: signed_divide_int_def)
  assume "\<not> ISZERO_CVALUE b"
  then have z: "y \<noteq> 0" if "cvalue b = Some y" for y using that by (auto simp: ISZERO_CVALUE_def d)
  show "exact_fold (\<lambda>x y. i64 (x sdiv y)) (\<lambda>i. CHECK_OVERFLOW_int64_DIV i a b) s a b"
    using assms z m by (intro exact_foldI) (auto simp: CHECK_OVERFLOW_int64_DIV_def d split: if_splits)
  show "exact_fold (\<lambda>x y. do { q \<leftarrow> i64 (x sdiv y); i64 (x - q * y) }) (\<lambda>i. CHECK_OVERFLOW_int64_MOD i a b) s a b"
    using assms z m by (intro exact_foldI) (auto simp: CHECK_OVERFLOW_int64_MOD_def d split: if_splits Option.bind_splits)
qed

section \<open>The exact value of an expression\<close>

text \<open>The value of an expression as a \<open>LINT\<close> and as a \<open>ULINT\<close>, if every operation of it has one.\<close>

fun int64_op :: "binary \<Rightarrow> int \<Rightarrow> int \<Rightarrow> int option" where
  "int64_op add_b x y = int64_fit (x + y)"
| "int64_op sub_b x y = int64_fit (x - y)"
| "int64_op mul_b x y = int64_fit (x * y)"
| "int64_op div_b x y = (if y = 0 then None else int64_fit (x sdiv y))"
| "int64_op mod_b x y = (if int64_fit (x sdiv y) = None then None else int64_fit (x smod y))"
| "int64_op _ x y = None"

fun uint64_op :: "binary \<Rightarrow> int \<Rightarrow> int \<Rightarrow> int option" where
  "uint64_op add_b x y = uint64_fit (x + y)"
| "uint64_op sub_b x y = uint64_fit (x - y)"
| "uint64_op mul_b x y = uint64_fit (x * y)"
| "uint64_op div_b x y = (if y = 0 then None else uint64_fit (x div y))"
| "uint64_op mod_b x y = uint64_fit (x mod y)"
| "uint64_op or_b x y = Some (x OR y)"
| "uint64_op xor_b x y = Some (x XOR y)"
| "uint64_op and_b x y = Some (x AND y)"
| "uint64_op _ x y = None"

text \<open>\<open>x MOD 0\<close> is 0, whatever \<open>x\<close> is.\<close>

definition exact_op :: "(binary \<Rightarrow> int \<Rightarrow> int \<Rightarrow> int option) \<Rightarrow> binary \<Rightarrow> int option \<Rightarrow> int option \<Rightarrow> int option" where
  "exact_op oper b x y = (if b = mod_b \<and> y = Some 0 then Some 0 else do { x \<leftarrow> x; y \<leftarrow> y; oper b x y })"

fun overflows :: "binary \<Rightarrow> int \<Rightarrow> int \<Rightarrow> bool" where
  "overflows add_b x y = (int64_fit (x + y) = None)"
| "overflows sub_b x y = (int64_fit (x - y) = None)"
| "overflows mul_b x y = (int64_fit (x * y) = None)"
| "overflows div_b x y = (y \<noteq> 0 \<and> int64_fit (x sdiv y) = None)"
| "overflows mod_b x y = (y \<noteq> 0 \<and> int64_fit (x sdiv y) = None)"
| "overflows _ x y = False"

definition op_overflows :: "binary \<Rightarrow> int option \<Rightarrow> int option \<Rightarrow> bool" where
  "op_overflows b x y = (case (x, y) of (Some x, Some y) \<Rightarrow> overflows b x y | _ \<Rightarrow> False)"

definition number_value :: "number \<Rightarrow> string \<Rightarrow> nat option" where
  "number_value k v = read_digits (number_base k) (no_underscores (drop (number_skip k) v)) 0"

fun exact_int64 :: "symbol_c \<Rightarrow> int option" where
  "exact_int64 (number_c c k v) = Option.bind (number_value k v) (\<lambda>n. int64_fit (int n))"
| "exact_int64 (neg_integer_c c (number_c c' k v)) = Option.bind (number_value k v) (\<lambda>n. int64_fit (- int n))"
| "exact_int64 (integer_literal_c c e) = exact_int64 e"
| "exact_int64 (expression_c c b l r) = exact_op int64_op b (exact_int64 l) (exact_int64 r)"
| "exact_int64 (neg_expression_c c e) = Option.bind (exact_int64 e) (\<lambda>x. int64_fit (- x))"
| "exact_int64 _ = None"

fun exact_uint64 :: "symbol_c \<Rightarrow> int option" where
  "exact_uint64 (number_c c k v) = Option.bind (number_value k v) (\<lambda>n. uint64_fit (int n))"
| "exact_uint64 (neg_integer_c c (number_c c' k v)) = Option.bind (number_value k v) (\<lambda>n. uint64_fit (- int n))"
| "exact_uint64 (integer_literal_c c e) = exact_uint64 e"
| "exact_uint64 (expression_c c b l r) = exact_op uint64_op b (exact_uint64 l) (exact_uint64 r)"
| "exact_uint64 (neg_expression_c c e) = Option.bind (exact_uint64 e) (\<lambda>x. uint64_fit (- x))"
| "exact_uint64 (not_expression_c c e) = map_option (\<lambda>x. UINT64_MAX - x) (exact_uint64 e)"
| "exact_uint64 _ = None"

text \<open>Some signed operation on the way has two values, but no result.\<close>

fun int64_overflows :: "symbol_c \<Rightarrow> bool" where
  "int64_overflows (neg_integer_c c e) = int64_overflows e"
| "int64_overflows (neg_real_c c e) = int64_overflows e"
| "int64_overflows (integer_literal_c c e) = int64_overflows e"
| "int64_overflows (real_literal_c c e) = int64_overflows e"
| "int64_overflows (boolean_literal_c c e) = int64_overflows e"
| "int64_overflows (expression_c c b l r) =
     (int64_overflows l \<or> int64_overflows r \<or> op_overflows b (exact_int64 l) (exact_int64 r))"
| "int64_overflows (neg_expression_c c e) = (int64_overflows e \<or> exact_int64 e = Some INT64_MIN)"
| "int64_overflows (not_expression_c c e) = int64_overflows e"
| "int64_overflows _ = False"

text \<open>A tree as the parser builds it: no symbol has a value, and the lexer has checked the literals.\<close>

fun parsed :: "symbol_c \<Rightarrow> bool" where
  "parsed (number_c c k v) \<longleftrightarrow> c = no_value \<and> number_value k v \<noteq> None"
| "parsed (real_c c v) \<longleftrightarrow> c = no_value \<and> read_decimal (no_underscores v) \<noteq> None"
| "parsed (neg_integer_c c e) \<longleftrightarrow> c = no_value \<and> (\<exists>v. e = number_c no_value integer_n v \<and> number_value integer_n v \<noteq> None)"
| "parsed (neg_real_c c e) \<longleftrightarrow> c = no_value \<and> (\<exists>v. e = real_c no_value v \<and> read_decimal (no_underscores v) \<noteq> None)"
| "parsed (integer_literal_c c e) \<longleftrightarrow> c = no_value \<and> parsed e"
| "parsed (real_literal_c c e) \<longleftrightarrow> c = no_value \<and> parsed e"
| "parsed (bit_string_literal_c c e) \<longleftrightarrow> c = no_value \<and> parsed e"
| "parsed (boolean_literal_c c e) \<longleftrightarrow> c = no_value \<and> parsed e"
| "parsed (boolean_true_c c) \<longleftrightarrow> c = no_value"
| "parsed (boolean_false_c c) \<longleftrightarrow> c = no_value"
| "parsed (expression_c c b l r) \<longleftrightarrow> c = no_value \<and> parsed l \<and> parsed r"
| "parsed (neg_expression_c c e) \<longleftrightarrow> c = no_value \<and> parsed e"
| "parsed (not_expression_c c e) \<longleftrightarrow> c = no_value \<and> parsed e"
| "parsed (other_c c v) \<longleftrightarrow> c = no_value"

section \<open>Folding is exact\<close>

lemma uint_and_or_xor:
  fixes x y :: int
  assumes "0 \<le> x" "x \<le> UINT64_MAX" "0 \<le> y" "y \<le> UINT64_MAX"
  shows "(x AND y) mod 18446744073709551616 = x AND y" "(x OR y) mod 18446744073709551616 = x OR y"
    "(x XOR y) mod 18446744073709551616 = x XOR y"
proof -
  have "x OR y < 18446744073709551616" "x XOR y < 18446744073709551616"
    using assms OR_upper [of x 64 y] XOR_upper [of x 64 y] by simp_all
  moreover have "x AND y \<le> x" using assms AND_upper1 by blast
  ultimately show "(x AND y) mod 18446744073709551616 = x AND y" "(x OR y) mod 18446744073709551616 = x OR y"
    "(x XOR y) mod 18446744073709551616 = x XOR y"
    using assms by simp_all
qed

lemma handle_bits_exact:
  assumes "u_ok (c_uint64 l)" "u_ok (c_uint64 r)"
    and "\<And>x y. 0 \<le> x \<Longrightarrow> x \<le> UINT64_MAX \<Longrightarrow> 0 \<le> y \<Longrightarrow> y \<le> UINT64_MAX \<Longrightarrow> g x y mod 18446744073709551616 = g x y"
  shows "\<exists>c. handle_bits f g no_value (Some l) (Some r) = Some c \<and> cvalue (c_int64 c) = None \<and>
    cvalue (c_uint64 c) = fit2 (\<lambda>x y. Some (g x y)) (c_uint64 l) (c_uint64 r)"
proof -
  have "\<exists>u. DO_BINARY_OPER (\<lambda>x y. u64 (g x y)) (c_uint64 no_value) (c_uint64 l) (c_uint64 r) = Some u \<and>
      cvalue u = fit2 (\<lambda>x y. Some (g x y)) (c_uint64 l) (c_uint64 r)"
    using assms by (intro checked_binary [where check = "\<lambda>u. u"]) (auto simp: u64_mod cvalue_Some u_ok_def)
  moreover have "\<exists>u. DO_BINARY_OPER (\<lambda>x y. Some (f x y)) (c_bool no_value) (c_bool l) (c_bool r) = Some u"
    by (simp add: DO_BINARY_OPER_def)
  ultimately show ?thesis by (auto simp: handle_bits_def)
qed

lemma DO_BINARY_total: "\<exists>c. DO_BINARY_OPER (\<lambda>x y. Some (f x y)) s a b = Some c"
  by (simp add: DO_BINARY_OPER_def)

lemma DO_UNARY_total: "\<exists>c. DO_UNARY_OPER (\<lambda>x. Some (f x)) s a = Some c"
  by (simp add: DO_UNARY_OPER_def)

lemma exact_op_fit2:
  "b \<noteq> mod_b \<or> cvalue y \<noteq> Some 0 \<Longrightarrow> exact_op oper b (cvalue x) (cvalue y) = fit2 (oper b) x y"
  by (auto simp: exact_op_def fit2_def)

text \<open>What an operation has to do with its operands.\<close>

definition exact_result :: "binary \<Rightarrow> const_value_c \<Rightarrow> const_value_c \<Rightarrow> const_value_c option \<Rightarrow> bool" where
  "exact_result b l r c \<longleftrightarrow> (c = None \<longleftrightarrow> op_overflows b (cvalue (c_int64 l)) (cvalue (c_int64 r))) \<and>
     (\<forall>c'. c = Some c' \<longrightarrow> cvalue (c_int64 c') = exact_op int64_op b (cvalue (c_int64 l)) (cvalue (c_int64 r)) \<and>
       cvalue (c_uint64 c') = exact_op uint64_op b (cvalue (c_uint64 l)) (cvalue (c_uint64 r)))"

lemma traps_iff:
  "traps f a b \<longleftrightarrow> (case (cvalue a, cvalue b) of (Some x, Some y) \<Rightarrow> f x y = None | _ \<Rightarrow> False)"
  by (cases "cvalue a"; cases "cvalue b") (auto simp: traps_def fit2_def)

lemma fit2_cong:
  assumes "\<And>x y. cvalue a = Some x \<Longrightarrow> cvalue b = Some y \<Longrightarrow> f x y = g x y"
  shows "fit2 f a b = fit2 g a b" "traps f a b \<longleftrightarrow> traps g a b"
  using assms by (cases "cvalue a"; cases "cvalue b"; simp add: fit2_def traps_iff)+

lemma exact_result_map:
  assumes "exact_fold f check s (c_int64 l) (c_int64 r)"
    and "\<And>x y. cvalue (c_int64 l) = Some x \<Longrightarrow> cvalue (c_int64 r) = Some y \<Longrightarrow> f x y = int64_op b x y \<and> (overflows b x y \<longleftrightarrow> int64_op b x y = None)"
    and "b \<noteq> mod_b \<or> cvalue (c_int64 r) \<noteq> Some 0"
    and "\<And>i. cvalue (c_int64 (g i)) = cvalue (check i)"
    and "\<And>i. cvalue (c_uint64 (g i)) = exact_op uint64_op b (cvalue (c_uint64 l)) (cvalue (c_uint64 r))"
  shows "exact_result b l r (DO_BINARY_OPER f s (c_int64 l) (c_int64 r) \<bind> (\<lambda>i. Some (g i)))"
proof -
  have "op_overflows b (cvalue (c_int64 l)) (cvalue (c_int64 r)) \<longleftrightarrow> traps f (c_int64 l) (c_int64 r)"
    using assms(2) by (cases "cvalue (c_int64 l)"; cases "cvalue (c_int64 r)") (simp_all add: op_overflows_def traps_iff)
  moreover have "fit2 f (c_int64 l) (c_int64 r) = exact_op int64_op b (cvalue (c_int64 l)) (cvalue (c_int64 r))"
    using assms(2) unfolding exact_op_fit2 [OF assms(3)] by (intro fit2_cong) simp
  ultimately show ?thesis using assms(1,4,5)
    by (cases "DO_BINARY_OPER f s (c_int64 l) (c_int64 r)") (simp_all add: exact_result_def exact_fold_def)
qed

text \<open>The values of the other two types are always there, and the signed one decides.\<close>

lemma handle_sums_exact:
  assumes "u_ok (c_uint64 l)" "u_ok (c_uint64 r)"
  shows "exact_result add_b l r (handle_add no_value (Some l) (Some r))"
    "exact_result sub_b l r (handle_sub no_value (Some l) (Some r))"
    "exact_result mul_b l r (handle_mul no_value (Some l) (Some r))"
proof -
  note c = uint64_checks [OF assms, of "c_uint64 no_value", simplified]
    and i = int64_checks [of "c_int64 no_value", simplified]
  note rules = prod.case option.case bind.bind_lunit
  obtain q where q: "DO_BINARY_OPER (\<lambda>x y. Some (fp_add DOUBLE x y)) (c_real64 no_value) (c_real64 l) (c_real64 r) = Some q"
    using DO_BINARY_total by blast
  from c(1) show "exact_result add_b l r (handle_add no_value (Some l) (Some r))"
    unfolding handle_add_def rules q
    by clarify (simp only: rules, rule exact_result_map [OF i(1)], auto simp: exact_op_fit2 fit2_def i64_fit)
  obtain q where q: "DO_BINARY_OPER (\<lambda>x y. Some (fp_sub DOUBLE x y)) (c_real64 no_value) (c_real64 l) (c_real64 r) = Some q"
    using DO_BINARY_total by blast
  from c(2) show "exact_result sub_b l r (handle_sub no_value (Some l) (Some r))"
    unfolding handle_sub_def rules q
    by clarify (simp only: rules, rule exact_result_map [OF i(2)], auto simp: exact_op_fit2 fit2_def i64_fit)
  obtain q where q: "DO_BINARY_OPER (\<lambda>x y. Some (fp_mul DOUBLE x y)) (c_real64 no_value) (c_real64 l) (c_real64 r) = Some q"
    using DO_BINARY_total by blast
  from c(3) show "exact_result mul_b l r (handle_mul no_value (Some l) (Some r))"
    unfolding handle_mul_def rules q
    by clarify (simp only: rules, rule exact_result_map [OF i(3)], auto simp: exact_op_fit2 fit2_def i64_fit)
qed

lemma handle_quotients_exact:
  assumes "u_ok (c_uint64 l)" "u_ok (c_uint64 r)" "i_ok (c_int64 l)"
  shows "exact_result div_b l r (handle_div no_value (Some l) (Some r))"
    "exact_result mod_b l r (handle_mod no_value (Some l) (Some r))"
proof -
  note c = uint64_checks [OF assms(1,2), of "c_uint64 no_value", simplified]
    and i = int64_checks [of "c_int64 no_value", simplified]
  note rules = prod.case option.case bind.bind_lunit
  have zero: "ISZERO_CVALUE x \<longleftrightarrow> cvalue x = Some 0" for x by (auto simp: ISZERO_CVALUE_def cvalue_def)
  have "\<exists>u. (if ISZERO_CVALUE (c_uint64 r) then Some (set_overflow (c_uint64 no_value)) else do {
      u \<leftarrow> DO_BINARY_OPER (\<lambda>x y. u64 (x div y)) (c_uint64 no_value) (c_uint64 l) (c_uint64 r);
      Some (CHECK_OVERFLOW_uint64_DIV u (c_uint64 l) (c_uint64 r)) }) = Some u \<and>
    cvalue u = exact_op uint64_op div_b (cvalue (c_uint64 l)) (cvalue (c_uint64 r))"
    using c(4) by (fastforce simp: zero exact_op_def fit2_def split: Option.bind_splits)
  moreover have "\<exists>q. (if is_valid (c_real64 r) \<and> fp_is_zero (cv_value (c_real64 r)) then Some (set_overflow (c_real64 no_value)) else do {
      q \<leftarrow> DO_BINARY_OPER (\<lambda>x y. Some (fp_div DOUBLE x y)) (c_real64 no_value) (c_real64 l) (c_real64 r);
      Some (CHECK_OVERFLOW_real64 q) }) = Some q"
    using DO_BINARY_total [of "fp_div DOUBLE" "c_real64 no_value" "c_real64 l" "c_real64 r"] by auto
  ultimately show "exact_result div_b l r (handle_div no_value (Some l) (Some r))"
  proof (elim exE conjE)
    fix u q
    assume u: "(if ISZERO_CVALUE (c_uint64 r) then Some (set_overflow (c_uint64 no_value)) else do {
        u \<leftarrow> DO_BINARY_OPER (\<lambda>x y. u64 (x div y)) (c_uint64 no_value) (c_uint64 l) (c_uint64 r);
        Some (CHECK_OVERFLOW_uint64_DIV u (c_uint64 l) (c_uint64 r)) }) = Some u"
      and v: "cvalue u = exact_op uint64_op div_b (cvalue (c_uint64 l)) (cvalue (c_uint64 r))"
      and q: "(if is_valid (c_real64 r) \<and> fp_is_zero (cv_value (c_real64 r)) then Some (set_overflow (c_real64 no_value)) else do {
        q \<leftarrow> DO_BINARY_OPER (\<lambda>x y. Some (fp_div DOUBLE x y)) (c_real64 no_value) (c_real64 l) (c_real64 r);
        Some (CHECK_OVERFLOW_real64 q) }) = Some q"
    show ?thesis
    proof (cases "ISZERO_CVALUE (c_int64 r)")
      case True
      then show ?thesis unfolding handle_div_def rules u q using v
        by (auto simp: exact_result_def op_overflows_def exact_op_def zero split: option.splits Option.bind_splits)
    next
      case False
      then have nz: "cvalue (c_int64 r) \<noteq> Some 0" by (simp add: zero)
      show ?thesis unfolding handle_div_def rules u q using False nz v
        by (simp add: bind_assoc, intro exact_result_map [OF i(4) [OF False]]) (auto simp: i64_fit)
    qed
  qed
  have "\<exists>u. (if ISZERO_CVALUE (c_uint64 r) then Some (set_cv (c_uint64 no_value) 0) else do {
      u \<leftarrow> DO_BINARY_OPER (\<lambda>x y. u64 (x mod y)) (c_uint64 no_value) (c_uint64 l) (c_uint64 r);
      Some (CHECK_OVERFLOW_uint64_MOD u (c_uint64 l) (c_uint64 r)) }) = Some u \<and>
    cvalue u = exact_op uint64_op mod_b (cvalue (c_uint64 l)) (cvalue (c_uint64 r))"
    using c(5) by (fastforce simp: zero exact_op_def fit2_def split: Option.bind_splits)
  then show "exact_result mod_b l r (handle_mod no_value (Some l) (Some r))"
  proof (elim exE conjE)
    fix u
    assume u: "(if ISZERO_CVALUE (c_uint64 r) then Some (set_cv (c_uint64 no_value) 0) else do {
        u \<leftarrow> DO_BINARY_OPER (\<lambda>x y. u64 (x mod y)) (c_uint64 no_value) (c_uint64 l) (c_uint64 r);
        Some (CHECK_OVERFLOW_uint64_MOD u (c_uint64 l) (c_uint64 r)) }) = Some u"
      and v: "cvalue u = exact_op uint64_op mod_b (cvalue (c_uint64 l)) (cvalue (c_uint64 r))"
    show ?thesis
    proof (cases "ISZERO_CVALUE (c_int64 r)")
      case True
      then show ?thesis unfolding handle_mod_def rules u using v
        by (auto simp: exact_result_def op_overflows_def exact_op_def zero split: option.splits)
    next
      case False
      then have nz: "cvalue (c_int64 r) \<noteq> Some 0" by (simp add: zero)
      have m: "x - x sdiv y * y = x smod y" for x y :: int using mult_sdiv_smod_eq [of y x] by (simp add: mult.commute)
      have "i64 (x sdiv y) \<bind> (\<lambda>q. i64 (x - q * y)) = int64_op mod_b x y \<and>
          (overflows mod_b x y \<longleftrightarrow> int64_op mod_b x y = None)"
        if "cvalue (c_int64 l) = Some x" "cvalue (c_int64 r) = Some y" for x y
        using that nz assms(3) smod_between [of x y] m [of x y]
        by (auto simp: i64_fit int64_fit_def i_ok_def cvalue_Some)
      then show ?thesis unfolding handle_mod_def rules u using False nz v
        by (simp add: bind_assoc, intro exact_result_map [OF i(5) [OF False]]) auto
    qed
  qed
qed

text \<open>All the operations together.\<close>

lemma handle_cmp_total: "\<exists>x. handle_cmp oper c (Some a) (Some b) = Some (c\<lparr>c_bool := x\<rparr>)"
proof -
  note t = DO_BINARY_total
  obtain x1 where "DO_BINARY_OPER (\<lambda>x y. Some (compares oper (<) (=) x y)) (c_bool c) (c_bool a) (c_bool b) = Some x1" using t by blast
  moreover obtain x2 where "DO_BINARY_OPER (\<lambda>x y. Some (compares oper (<) (=) x y)) x1 (c_uint64 a) (c_uint64 b) = Some x2" using t by blast
  moreover obtain x3 where "DO_BINARY_OPER (\<lambda>x y. Some (compares oper (<) (=) x y)) x2 (c_int64 a) (c_int64 b) = Some x3" using t by blast
  moreover obtain x4 where "DO_BINARY_OPER (\<lambda>x y. Some (compares oper fp_less fp_eq x y)) x3 (c_real64 a) (c_real64 b) = Some x4" using t by blast
  ultimately show ?thesis by (simp add: handle_cmp_def) blast
qed

lemma exact_op_none: "(\<And>x y. oper b x y = None) \<Longrightarrow> b \<noteq> mod_b \<Longrightarrow> exact_op oper b X Y = None"
  by (cases X; cases Y) (simp_all add: exact_op_def)

lemma op_overflows_none: "(\<And>x y. \<not> overflows b x y) \<Longrightarrow> \<not> op_overflows b X Y"
  by (cases X; cases Y) (simp_all add: op_overflows_def)

lemma exact_op_bits: "b \<noteq> mod_b \<Longrightarrow> exact_op oper b (cvalue x) (cvalue y) = fit2 (\<lambda>x y. oper b x y) x y"
  by (simp add: exact_op_def fit2_def)

lemma handle_binary_exact:
  assumes "u_ok (c_uint64 l)" "u_ok (c_uint64 r)" "i_ok (c_int64 l)"
  shows "exact_result b l r (handle_binary pow b no_value l r)"
proof (cases b)
  case (cmp_b x)
  then show ?thesis using handle_cmp_total [of x no_value l r]
    by (auto simp: exact_result_def op_overflows_none exact_op_none)
next
  case power_b
  then show ?thesis by (simp add: handle_pow_def Let_def exact_result_def op_overflows_none exact_op_none)
next
  case or_b
  then show ?thesis using handle_bits_exact [where f = "(\<or>)" and g = "(OR)", OF assms(1,2) uint_and_or_xor(2)]
    by (auto simp: handle_or_def exact_result_def op_overflows_none exact_op_none exact_op_bits)
next
  case xor_b
  then show ?thesis using handle_bits_exact [where f = "(\<noteq>)" and g = "(XOR)", OF assms(1,2) uint_and_or_xor(3)]
    by (auto simp: handle_xor_def exact_result_def op_overflows_none exact_op_none exact_op_bits)
next
  case and_b
  then show ?thesis using handle_bits_exact [where f = "(\<and>)" and g = "(AND)", OF assms(1,2) uint_and_or_xor(1)]
    by (auto simp: handle_and_def exact_result_def op_overflows_none exact_op_none exact_op_bits)
qed (use handle_sums_exact [OF assms(1,2)] handle_quotients_exact [OF assms] in simp_all)

lemma handle_neg_exact:
  assumes "u_ok (c_uint64 a)" "i_ok (c_int64 a)"
  shows "handle_neg no_value (Some a) = None \<longleftrightarrow> cvalue (c_int64 a) = Some INT64_MIN"
    "handle_neg no_value (Some a) = Some c \<Longrightarrow> cvalue (c_int64 c) = Option.bind (cvalue (c_int64 a)) (\<lambda>x. int64_fit (- x)) \<and>
      cvalue (c_uint64 c) = Option.bind (cvalue (c_uint64 a)) (\<lambda>x. uint64_fit (- x))"
proof -
  have "\<exists>u. DO_UNARY_OPER (\<lambda>x. u64 (- x)) (c_uint64 no_value) (c_uint64 a) = Some u \<and>
      cvalue (CHECK_OVERFLOW_uint64_NEG u (c_uint64 a)) = Option.bind (cvalue (c_uint64 a)) (\<lambda>x. uint64_fit (- x))"
    using assms(1) by (intro checked_unary)
      (auto simp: u64_mod CHECK_OVERFLOW_uint64_NEG_def uint64_fit_def u_ok_def cvalue_Some cvalue_None)
  then obtain u where u: "DO_UNARY_OPER (\<lambda>x. u64 (- x)) (c_uint64 no_value) (c_uint64 a) = Some u"
    "cvalue (CHECK_OVERFLOW_uint64_NEG u (c_uint64 a)) = Option.bind (cvalue (c_uint64 a)) (\<lambda>x. uint64_fit (- x))" by blast
  obtain q where q: "DO_UNARY_OPER (\<lambda>x. Some (fp_minus x)) (c_real64 no_value) (c_real64 a) = Some q" using DO_UNARY_total by blast
  have "(handle_neg no_value (Some a) = None \<longleftrightarrow> cvalue (c_int64 a) = Some INT64_MIN) \<and>
    (\<forall>c. handle_neg no_value (Some a) = Some c \<longrightarrow> cvalue (c_int64 c) = Option.bind (cvalue (c_int64 a)) (\<lambda>x. int64_fit (- x)) \<and>
      cvalue (c_uint64 c) = Option.bind (cvalue (c_uint64 a)) (\<lambda>x. uint64_fit (- x)))"
  proof (cases "cvalue (c_int64 a)")
    case None
    obtain i where "DO_UNARY_OPER (\<lambda>x. i64 (- x)) (c_int64 no_value) (c_int64 a) = Some i" "cvalue i = None"
      using DO_UNARY_OPER_invalid [OF None, of "c_int64 no_value"] by auto
    moreover from this have "CHECK_OVERFLOW_int64_NEG i x = i" for x by (simp add: CHECK_OVERFLOW_int64_NEG_def cvalue_None)
    ultimately show ?thesis using u q None by (simp add: handle_neg_def)
  next
    case (Some x)
    then have x: "INT64_MIN \<le> x" "x \<le> INT64_MAX" "cv_value (c_int64 a) = x" using assms(2) by (auto simp: i_ok_def cvalue_Some)
    show ?thesis
    proof (cases "x = INT64_MIN")
      case True
      then show ?thesis using u q Some by (simp add: handle_neg_def i64_fit int64_fit_def)
    next
      case False
      then show ?thesis using u q Some x
        by (simp add: handle_neg_def i64_fit int64_fit_def CHECK_OVERFLOW_int64_NEG_def)
    qed
  qed
  then show "handle_neg no_value (Some a) = None \<longleftrightarrow> cvalue (c_int64 a) = Some INT64_MIN"
    "handle_neg no_value (Some a) = Some c \<Longrightarrow> cvalue (c_int64 c) = Option.bind (cvalue (c_int64 a)) (\<lambda>x. int64_fit (- x)) \<and>
      cvalue (c_uint64 c) = Option.bind (cvalue (c_uint64 a)) (\<lambda>x. uint64_fit (- x))" by blast+
qed

lemma handle_not_exact:
  assumes "u_ok (c_uint64 a)"
  shows "\<exists>c. handle_not no_value (Some a) = Some c \<and> cvalue (c_int64 c) = None \<and>
    cvalue (c_uint64 c) = map_option (\<lambda>x. UINT64_MAX - x) (cvalue (c_uint64 a))"
proof -
  have n: "(NOT x) mod 18446744073709551616 = UINT64_MAX - x" if "0 \<le> x" "x \<le> UINT64_MAX" for x :: int
  proof -
    have "NOT x = UINT64_MAX - x - 18446744073709551616" by (simp add: not_int_def)
    then show ?thesis using minus_mod_self2 [of "UINT64_MAX - x" 18446744073709551616] that by simp
  qed
  have "\<exists>u. DO_UNARY_OPER (\<lambda>x. u64 (NOT x)) (c_uint64 no_value) (c_uint64 a) = Some u \<and>
      cvalue u = Option.bind (cvalue (c_uint64 a)) (\<lambda>x. Some (UINT64_MAX - x))"
    using assms by (intro checked_unary [where check = "\<lambda>u. u"]) (auto simp: u64_mod n u_ok_def cvalue_Some)
  moreover obtain b where "DO_UNARY_OPER (\<lambda>x. Some (\<not> x)) (c_bool no_value) (c_bool a) = Some b" using DO_UNARY_total by blast
  ultimately show ?thesis by (auto simp: handle_not_def map_conv_bind_option comp_def)
qed

lemma read_signed_digits:
  assumes "read_digits base s 0 = Some n" "base \<le> 36"
  shows "read_signed base s = Some (False, n)"
proof (cases s)
  case (Cons c cs)
  then have "digit_val base c \<noteq> None" using assms(1) by (auto split: option.splits)
  then have "c \<noteq> CHR ''-''" "c \<noteq> CHR ''+''" using assms(2) by (auto simp: digit_val_def Let_def split: if_splits)
  then show ?thesis using assms(1) Cons by (simp add: read_signed_def)
qed (use assms in \<open>simp add: read_signed_def\<close>)

lemma number_base_le [simp]: "number_base k \<le> 36"
  by (cases k) simp_all

text \<open>The two values of a number, each with its overflow.\<close>

lemma number_values:
  assumes "number_value k v = Some n"
  shows "\<exists>i u. literal_value (c_int64 no_value) (extract_int64_value k v) = Some i \<and> cvalue i = int64_fit (int n) \<and>
    literal_value (c_uint64 no_value) (extract_uint64_value k v) = Some u \<and> cvalue u = uint64_fit (int n) \<and>
    (is_overflow i \<longleftrightarrow> INT64_MAX < int n) \<and> (is_overflow u \<longleftrightarrow> UINT64_MAX < int n)"
proof -
  have r: "read_signed (number_base k) (no_underscores (drop (number_skip k) v)) = Some (False, n)"
    using assms by (intro read_signed_digits) (simp_all add: number_value_def)
  show ?thesis
    by (simp add: literal_value_def extract_int64_value_def extract_uint64_value_def matiec_strtoint64_def matiec_strtouint64_def r
        int64_fit_def uint64_fit_def Let_def is_overflow_def set_overflow_def set_cv_def cvalue_def is_valid_def)
qed

lemma handle_neg_integer_exact:
  assumes "number_value integer_n v = Some n" and "visit pow (number_c no_value integer_n v) = Some e"
  shows "\<exists>c. handle_neg_integer no_value (const_value e) = Some c \<and> cvalue (c_int64 c) = int64_fit (- int n) \<and>
    cvalue (c_uint64 c) = uint64_fit (- int n)"
proof -
  obtain i u where iu: "const_value e = no_value\<lparr>c_int64 := i, c_uint64 := u\<rparr>" "cvalue i = int64_fit (int n)" "cvalue u = uint64_fit (int n)"
      "is_overflow i \<longleftrightarrow> INT64_MAX < int n" "is_overflow u \<longleftrightarrow> UINT64_MAX < int n"
    using number_values [OF assms(1)] assms(2) by auto
  show ?thesis
  proof (cases "int n \<le> INT64_MAX")
    case True
    then have v: "cvalue i = Some (int n)" "cvalue u = Some (int n)" "\<not> is_overflow i" "\<not> is_overflow u"
      using iu by (simp_all add: int64_fit_def uint64_fit_def)
    then show ?thesis using True
      by (auto simp: handle_neg_integer_def iu(1) i64_fit u64_mod int64_fit_def uint64_fit_def cvalue_Some
          CHECK_OVERFLOW_uint64_NEG_def CHECK_OVERFLOW_int64_NEG_def)
  next
    case False
    then have i: "cvalue i = None" "is_overflow i" using iu by (simp_all add: int64_fit_def)
    then have i': "\<not> is_valid i" by (simp add: cvalue_None)
    show ?thesis
    proof (cases "int n \<le> UINT64_MAX")
      case True
      then have "cvalue u = Some (int n)" "\<not> is_overflow u" using iu by (simp_all add: uint64_fit_def)
      then show ?thesis using False i i'
        by (auto simp: handle_neg_integer_def iu(1) u64_mod int64_fit_def uint64_fit_def cvalue_Some DO_UNARY_OPER_def
            CHECK_OVERFLOW_uint64_NEG_def)
    next
      case big: False
      then have "\<not> is_valid u" "is_overflow u" using iu by (simp_all add: uint64_fit_def cvalue_None)
      then show ?thesis using False big i i'
        by (auto simp: handle_neg_integer_def iu(1) int64_fit_def uint64_fit_def DO_UNARY_OPER_def)
    qed
  qed
qed

lemma exact_range:
  "exact_int64 e = Some x \<Longrightarrow> INT64_MIN \<le> x \<and> x \<le> INT64_MAX"
  "exact_uint64 e = Some x \<Longrightarrow> 0 \<le> x \<and> x \<le> UINT64_MAX"
proof (induction e arbitrary: x)
  case (expression_c c b l r)
  {
    case 1
    then show ?case by (cases b) (auto simp: exact_op_def int64_fit_def split: if_splits Option.bind_splits)
  next
    case 2
    then obtain y z where "x = 0 \<or> exact_uint64 l = Some y \<and> exact_uint64 r = Some z \<and> uint64_op b y z = Some x"
      by (auto simp: exact_op_def split: if_splits Option.bind_splits)
    then show ?case
      using expression_c.IH(2) [of y] expression_c.IH(4) [of z] uint_and_or_xor [of y z]
        pos_mod_bound [of 18446744073709551616 "y AND z"] pos_mod_bound [of 18446744073709551616 "y OR z"]
        pos_mod_bound [of 18446744073709551616 "y XOR z"]
      by (cases b) (auto simp: uint64_fit_def split: if_splits)
  }
next
  case (neg_integer_c c e)
  {
    case 1
    then show ?case by (cases e) (auto simp: int64_fit_def split: if_splits Option.bind_splits)
  next
    case 2
    then show ?case by (cases e) (auto simp: uint64_fit_def split: if_splits Option.bind_splits)
  }
qed (auto simp: int64_fit_def uint64_fit_def split: if_splits Option.bind_splits)

definition folds_exactly :: "symbol_c \<Rightarrow> symbol_c option \<Rightarrow> bool" where
  "folds_exactly e r \<longleftrightarrow> (r = None \<longleftrightarrow> int64_overflows e) \<and>
     (\<forall>e'. r = Some e' \<longrightarrow> cvalue (c_int64 (const_value e')) = exact_int64 e \<and> cvalue (c_uint64 (const_value e')) = exact_uint64 e)"

lemma folds_exactly_range:
  assumes "folds_exactly e r" "r = Some e'"
  shows "i_ok (c_int64 (const_value e'))" "u_ok (c_uint64 (const_value e'))"
  using assms exact_range [of e] by (auto simp: folds_exactly_def i_ok_def u_ok_def cvalue_def split: if_splits)

lemma visit_real_total:
  assumes "read_decimal (no_underscores v) \<noteq> None"
  shows "\<exists>r. visit pow (real_c no_value v) = Some (real_c (no_value\<lparr>c_real64 := r\<rparr>) v)"
  using assms by (auto simp: literal_value_def extract_real_value_def strtof_def)

lemma visit_folds_exactly: "parsed e \<Longrightarrow> folds_exactly e (visit pow e)"
proof (induction e)
  case (number_c c k v)
  then obtain n where "number_value k v = Some n" by auto
  then show ?case using number_values [of k v n] number_c by (auto simp: folds_exactly_def)
next
  case (real_c c v)
  then show ?case using visit_real_total [of v pow] by (auto simp: folds_exactly_def)
next
  case (neg_integer_c c e)
  then obtain v n where e: "e = number_c no_value integer_n v" "number_value integer_n v = Some n" by auto
  obtain e' where "visit pow e = Some e'" using number_values [OF e(2)] e(1) by auto
  then show ?case using neg_integer_c handle_neg_integer_exact [OF e(2), of pow e'] e by (auto simp: folds_exactly_def)
next
  case (neg_real_c c e)
  then obtain v where v: "e = real_c no_value v" "read_decimal (no_underscores v) \<noteq> None" by auto
  then obtain e' where "visit pow e = Some e'" using visit_real_total [of v pow] by auto
  moreover have "\<exists>c. handle_neg_real no_value (const_value e') = Some c \<and> cvalue (c_int64 c) = None \<and> cvalue (c_uint64 c) = None"
    using DO_UNARY_total [of fp_minus "c_real64 no_value" "c_real64 (const_value e')"] by (auto simp: handle_neg_real_def Let_def)
  ultimately show ?case using neg_real_c v by (auto simp: folds_exactly_def)
next
  case (integer_literal_c c e)
  have c: "\<exists>y. DO_UNARY_OPER Some s x = Some y \<and> cvalue y = cvalue x" if "cvalue s = None" for s x :: "int const_value__"
    using that DO_UNARY_OPER_invalid [of x s Some] by (cases "cvalue x") auto
  show ?case
  proof (cases "visit pow e")
    case (Some e')
    then show ?thesis using integer_literal_c c [of "c_int64 no_value" "c_int64 (const_value e')"]
        c [of "c_uint64 no_value" "c_uint64 (const_value e')"] by (auto simp: folds_exactly_def)
  qed (use integer_literal_c in \<open>simp add: folds_exactly_def\<close>)
next
  case (real_literal_c c e)
  then show ?case using DO_UNARY_total [of "\<lambda>x. x" "c_real64 no_value"]
    by (cases "visit pow e") (auto simp: folds_exactly_def split: Option.bind_splits)
next
  case (boolean_literal_c c e)
  then show ?case using DO_UNARY_total [of "\<lambda>x. x" "c_bool no_value"]
    by (cases "visit pow e") (auto simp: folds_exactly_def split: Option.bind_splits)
next
  case (expression_c c b l r)
  then have p: "c = no_value" "folds_exactly l (visit pow l)" "folds_exactly r (visit pow r)" by simp_all
  show ?case
  proof (cases "visit pow l = None \<or> visit pow r = None")
    case True
    then show ?thesis using p by (auto simp: folds_exactly_def split: Option.bind_splits)
  next
    case False
    then obtain l' r' where v: "visit pow l = Some l'" "visit pow r = Some r'" by auto
    have "exact_result b (const_value l') (const_value r') (handle_binary pow b no_value (const_value l') (const_value r'))"
      using folds_exactly_range [OF p(2) v(1)] folds_exactly_range [OF p(3) v(2)] by (intro handle_binary_exact)
    then show ?thesis using p v by (auto simp: folds_exactly_def exact_result_def split: Option.bind_splits)
  qed
next
  case (neg_expression_c c e)
  show ?case
  proof (cases "visit pow e")
    case (Some e')
    have c: "c = no_value" "folds_exactly e (visit pow e)" using neg_expression_c by simp_all
    note n = handle_neg_exact [OF folds_exactly_range(2,1) [OF c(2) Some]]
    show ?thesis using c Some n
      by (cases "handle_neg no_value (Some (const_value e'))") (simp_all add: folds_exactly_def)
  qed (use neg_expression_c in \<open>simp add: folds_exactly_def\<close>)
next
  case (not_expression_c c e)
  show ?case
  proof (cases "visit pow e")
    case (Some e')
    then show ?thesis using not_expression_c folds_exactly_range [of e "visit pow e" e']
        handle_not_exact [of "const_value e'"] by (auto simp: folds_exactly_def)
  qed (use not_expression_c in \<open>simp add: folds_exactly_def\<close>)
qed (auto simp: folds_exactly_def)

text \<open>C32: Folding an expression is exact: a symbol gets a constant of type \<open>int64\<close> or \<open>uint64\<close> exactly when
  the expression has a value of that type, and then it is this value. The folding itself overflows, in a
  signed operation whose check for overflow comes too late, exactly when two constants have no result.
  Only the constants of these two types are exact: for \<open>BOOL\<close> and \<open>REAL\<close> see \<open>comparison_overwritten\<close>
  and \<open>real_literal_is_float\<close>.\<close>

theorem constant_folding_exact:
  assumes "parsed e"
  shows "case visit pow e of
      None \<Rightarrow> int64_overflows e
    | Some e' \<Rightarrow> \<not> int64_overflows e \<and> cvalue (c_int64 (const_value e')) = exact_int64 e \<and>
        cvalue (c_uint64 (const_value e')) = exact_uint64 e"
  using visit_folds_exactly [OF assms, of pow] by (cases "visit pow e") (auto simp: folds_exactly_def)

definition num :: "string \<Rightarrow> symbol_c" where
  "num v = number_c no_value integer_n v"

theorem constant_folding_exact_witness:
  "\<forall>pow. (\<exists>e'. visit pow (expression_c no_value sub_b (expression_c no_value mul_b (num ''2'') (num ''1_000'')) (num ''2001'')) = Some e' \<and>
     cvalue (c_int64 (const_value e')) = Some (- 1) \<and> cvalue (c_uint64 (const_value e')) = None) \<and>
   visit pow (expression_c no_value add_b (num ''9223372036854775807'') (num ''1'')) = None"
proof
  fix pow
  let ?e = "expression_c no_value sub_b (expression_c no_value mul_b (num ''2'') (num ''1_000'')) (num ''2001'')"
  let ?f = "expression_c no_value add_b (num ''9223372036854775807'') (num ''1'')"
  have v: "number_value integer_n ''2'' = Some 2" "number_value integer_n ''1_000'' = Some 1000" "number_value integer_n ''2001'' = Some 2001"
    "number_value integer_n ''9223372036854775807'' = Some 9223372036854775807" "number_value integer_n ''1'' = Some 1"
    by (simp_all add: number_value_def no_underscores_def digit_val_def)
  then have p: "parsed ?e" "parsed ?f" by (simp_all add: num_def)
  have "\<not> int64_overflows ?e" "exact_int64 ?e = Some (- 1)" "exact_uint64 ?e = None" "int64_overflows ?f"
    by (simp_all add: num_def v int64_fit_def uint64_fit_def exact_op_def op_overflows_def)
  then show "(\<exists>e'. visit pow ?e = Some e' \<and> cvalue (c_int64 (const_value e')) = Some (- 1) \<and>
      cvalue (c_uint64 (const_value e')) = None) \<and> visit pow ?f = None"
    using constant_folding_exact [OF p(1), of pow] constant_folding_exact [OF p(2), of pow]
    by (cases "visit pow ?e"; cases "visit pow ?f") auto
qed

text \<open>
  Two results on the way to no type. The comparison of \<open>2^63\<close> with 1 is an overflow, although both are
  constants of type \<open>ULINT\<close>: the comparison as \<open>LINT\<close> comes later. And a real literal is read as
  \<open>float\<close>: 1E39 is out of range and 0.1 is not the nearest \<open>double\<close>.
\<close>

lemma comparison_overwritten:
  assumes "visit pow (expression_c no_value (cmp_b cmp_gt) (num ''9223372036854775808'') (num ''1'')) = Some e"
  shows "is_overflow (c_bool (const_value e))"
proof -
  have "number_value integer_n ''9223372036854775808'' = Some 9223372036854775808" "number_value integer_n ''1'' = Some 1"
    by (simp_all add: number_value_def no_underscores_def digit_val_def)
  from number_values [OF this(1)] number_values [OF this(2)] show ?thesis
    using assms by (auto simp: num_def handle_cmp_def DO_BINARY_OPER_def no_value_def int64_fit_def uint64_fit_def
        cvalue_def is_valid_def is_overflow_def is_nonconst_def set_overflow_def set_cv_def split: if_splits)
qed

lemma real_literal_is_float:
  "extract_real_value ''0.1'' = Some (Fin (13421773 / 134217728), False)"
  "extract_real_value ''1.0E39'' = Some (Inf False, True)"
proof -
  have a: "read_decimal ''0.1'' = Some (1 / 10)" "read_decimal ''1.0E39'' = Some (10 ^ 39)"
    by (simp_all add: read_decimal_def span_digits_def digits_nat_def read_exponent_def read_signed_def digit_val_def power_int_def)
  have "floor_log2 (1 / 10) = - 4" by (rule floor_log2_unique; simp add: power_int_def power_divide)
  moreover have "floor_log2 (10 ^ 39) = 129" by (rule floor_log2_unique; simp add: power_int_def)
  moreover have "\<lfloor>67108864 / 5 :: rat\<rfloor> = 13421772" by (simp add: floor_eq_iff)
  ultimately have "FLOAT False (1 / 10) = Fin (13421773 / 134217728)" "FLOAT False (10 ^ 39) = Inf False"
    by (simp_all add: FLOAT_def fp_of_def rnd_def ulp_exp_def round_half_even_def power_int_def power_divide Let_def)
  then show "extract_real_value ''0.1'' = Some (Fin (13421773 / 134217728), False)"
    "extract_real_value ''1.0E39'' = Some (Inf False, True)"
    using a by (simp_all add: extract_real_value_def no_underscores_def strtof_def Let_def)
qed

end
