(* ===== verification/IlFolding.thy ===== *)
theory IlFolding
  imports ConstantFolding
begin

text \<open>
  Constant folding of Instruction List programs in matiec: the predecessors of every instruction
  (\<open>src/matiec_src/stage3/flow_control_analysis.cc\<close>), the value of the accumulator after it
  (\<open>constant_folding.cc\<close>).
\<close>

section \<open>Instructions\<close>

datatype il_operator =
    LD_operator | LDN_operator | ST_operator | STN_operator | NOT_operator | S_operator | R_operator
  | S1_operator | R1_operator | CLK_operator | CU_operator | CD_operator | PV_operator | IN_operator | PT_operator
  | AND_operator | OR_operator | XOR_operator | ANDN_operator | ORN_operator | XORN_operator
  | ADD_operator | SUB_operator | MUL_operator | DIV_operator | MOD_operator
  | GT_operator | GE_operator | EQ_operator | LT_operator | LE_operator | NE_operator
  | RET_operator | RETC_operator | RETCN_operator | JMP_operator | JMPC_operator | JMPCN_operator

text \<open>
  The symbol of the operator carries the value of its instruction. A call of a function (in either
  form) is not folded; a call of a function block leaves the accumulator unchanged.
\<close>

datatype il_op =
    il_simple_operation_c il_operator const_value_c "symbol_c option"
  | il_expression_c il_operator const_value_c "symbol_c option" "il_op list"
  | il_jump_operation_c il_operator const_value_c string
  | il_return_c il_operator const_value_c
  | il_fb_call_c const_value_c
  | il_function_call_c const_value_c

primrec op_cv :: "il_op \<Rightarrow> const_value_c" where
  "op_cv (il_simple_operation_c oper c e) = c"
| "op_cv (il_expression_c oper c e ls) = c"
| "op_cv (il_jump_operation_c oper c l) = c"
| "op_cv (il_return_c oper c) = c"
| "op_cv (il_fb_call_c c) = c"
| "op_cv (il_function_call_c c) = c"

record il_instruction_c =
  il_label :: "string option"
  il_instruction :: "il_op option"
  il_cv :: const_value_c
  prev_il_instruction :: "nat list"
  next_il_instruction :: "nat list"

section \<open>Flow control\<close>

text \<open>\<open>strcasecmp\<close>, and the first instruction with a label.\<close>

definition compare_identifiers :: "string \<Rightarrow> string \<Rightarrow> bool" where
  "compare_identifiers s t \<longleftrightarrow> map to_upper s = map to_upper t"

fun find_label :: "string \<Rightarrow> il_instruction_c list \<Rightarrow> nat option" where
  "find_label l [] = None"
| "find_label l (x # xs) = (if (case il_label x of None \<Rightarrow> False | Some m \<Rightarrow> compare_identifiers l m) then Some 0
     else map_option Suc (find_label l xs))"

definition link_insert :: "nat \<Rightarrow> nat \<Rightarrow> il_instruction_c list \<Rightarrow> il_instruction_c list" where
  "link_insert p n il =
     (let il = il[n := (il ! n)\<lparr>prev_il_instruction := p # prev_il_instruction (il ! n)\<rparr>]
      in il[p := (il ! p)\<lparr>next_il_instruction := n # next_il_instruction (il ! p)\<rparr>])"

definition link_pushback :: "nat \<Rightarrow> nat \<Rightarrow> il_instruction_c list \<Rightarrow> il_instruction_c list" where
  "link_pushback p n il =
     (let il = il[n := (il ! n)\<lparr>prev_il_instruction := prev_il_instruction (il ! n) @ [p]\<rparr>]
      in il[p := (il ! p)\<lparr>next_il_instruction := next_il_instruction (il ! p) @ [n]\<rparr>])"

text \<open>One instruction; the flag is \<open>prev_il_instruction_is_JMP_or_RET\<close>.\<close>

definition flow_visit :: "nat \<Rightarrow> il_instruction_c list \<times> bool \<Rightarrow> il_instruction_c list \<times> bool" where
  "flow_visit i = (\<lambda>(il, is_JMP_or_RET).
     let il = (if 0 < i \<and> \<not> is_JMP_or_RET then link_insert (i - 1) i il else il)
     in case il_instruction (il ! i) of
          Some (il_jump_operation_c oper c l) \<Rightarrow>
            ((case find_label l il of Some d \<Rightarrow> link_pushback i d il | None \<Rightarrow> il), oper = JMP_operator)
        | Some (il_return_c oper c) \<Rightarrow> (il, oper = RET_operator)
        | _ \<Rightarrow> (il, False))"

definition flow_control_analysis :: "il_instruction_c list \<Rightarrow> il_instruction_c list" where
  "flow_control_analysis il = fst (fold flow_visit [0..<length il] (il, False))"

section \<open>Folding\<close>

fun visit_operator :: "il_operator \<Rightarrow> const_value_c \<Rightarrow> const_value_c option \<Rightarrow> const_value_c option \<Rightarrow> const_value_c option" where
  "visit_operator LD_operator symbol prev operand = handle_move symbol operand"
| "visit_operator LDN_operator symbol prev operand = handle_not symbol operand"
| "visit_operator NOT_operator symbol prev operand = handle_not symbol prev"
| "visit_operator AND_operator symbol prev operand = handle_and symbol prev operand"
| "visit_operator OR_operator symbol prev operand = handle_or symbol prev operand"
| "visit_operator XOR_operator symbol prev operand = handle_xor symbol prev operand"
| "visit_operator ANDN_operator symbol prev operand = do { c \<leftarrow> handle_and symbol prev operand; handle_not c (Some c) }"
| "visit_operator ORN_operator symbol prev operand = do { c \<leftarrow> handle_or symbol prev operand; handle_not c (Some c) }"
| "visit_operator XORN_operator symbol prev operand = do { c \<leftarrow> handle_xor symbol prev operand; handle_not c (Some c) }"
| "visit_operator ADD_operator symbol prev operand = handle_add symbol prev operand"
| "visit_operator SUB_operator symbol prev operand = handle_sub symbol prev operand"
| "visit_operator MUL_operator symbol prev operand = handle_mul symbol prev operand"
| "visit_operator DIV_operator symbol prev operand = handle_div symbol prev operand"
| "visit_operator MOD_operator symbol prev operand = handle_mod symbol prev operand"
| "visit_operator GT_operator symbol prev operand = handle_cmp cmp_gt symbol prev operand"
| "visit_operator GE_operator symbol prev operand = handle_cmp cmp_ge symbol prev operand"
| "visit_operator EQ_operator symbol prev operand = handle_cmp cmp_eq symbol prev operand"
| "visit_operator LT_operator symbol prev operand = handle_cmp cmp_lt symbol prev operand"
| "visit_operator LE_operator symbol prev operand = handle_cmp cmp_le symbol prev operand"
| "visit_operator NE_operator symbol prev operand = handle_cmp cmp_ne symbol prev operand"
| "visit_operator _ symbol prev operand = handle_move symbol prev"

definition visit_operand :: "(fp \<Rightarrow> fp \<Rightarrow> fp) \<Rightarrow> symbol_c option \<Rightarrow> symbol_c option option" where
  "visit_operand pow e = (case e of None \<Rightarrow> Some None | Some e \<Rightarrow> map_option Some (visit pow e))"

text \<open>
  An instruction of an expression in parentheses has the one before it as predecessor, which
  \<open>flow_control_analysis_c\<close> links for the outermost parentheses only. \<open>linked\<close> tells whether the
  expressions inside are linked.
\<close>

function (sequential) visit_op :: "(fp \<Rightarrow> fp \<Rightarrow> fp) \<Rightarrow> bool \<Rightarrow> const_value_c option \<Rightarrow> il_op \<Rightarrow> il_op option"
and visit_simple_instr_list :: "(fp \<Rightarrow> fp \<Rightarrow> fp) \<Rightarrow> bool \<Rightarrow> const_value_c option \<Rightarrow> il_op list \<Rightarrow> il_op list option" where
  "visit_op pow linked prev (il_simple_operation_c oper c e) = do {
     e \<leftarrow> visit_operand pow e;
     c \<leftarrow> visit_operator oper c prev (map_option const_value e);
     Some (il_simple_operation_c oper c e) }"
| "visit_op pow linked prev (il_expression_c oper c e ls) = do {
     ls \<leftarrow> visit_simple_instr_list pow linked None ls;
     c \<leftarrow> visit_operator oper c prev (if ls = [] then None else Some (op_cv (last ls)));
     Some (il_expression_c oper c e ls) }"
| "visit_op pow linked prev (il_jump_operation_c oper c l) = do {
     c \<leftarrow> visit_operator oper c prev None; Some (il_jump_operation_c oper c l) }"
| "visit_op pow linked prev (il_return_c oper c) = do {
     c \<leftarrow> visit_operator oper c prev None; Some (il_return_c oper c) }"
| "visit_op pow linked prev (il_fb_call_c c) = do { c \<leftarrow> handle_move c prev; Some (il_fb_call_c c) }"
| "visit_op pow linked prev (il_function_call_c c) = Some (il_function_call_c c)"
| "visit_simple_instr_list pow linked prev [] = Some []"
| "visit_simple_instr_list pow linked prev (x # xs) = do {
     x \<leftarrow> visit_op pow False prev x;
     xs \<leftarrow> visit_simple_instr_list pow linked (if linked then Some (op_cv x) else None) xs;
     Some (x # xs) }"
  by pat_completeness auto
termination
  by (relation "measure (\<lambda>x. case x of Inl (_, _, _, y) \<Rightarrow> size y | Inr (_, _, _, ys) \<Rightarrow> size_list size ys)") auto

definition intersect_prev_CVALUE :: "('a \<Rightarrow> 'a \<Rightarrow> bool) \<Rightarrow> 'a const_value__ \<Rightarrow> 'a const_value__ list \<Rightarrow> 'a const_value__" where
  "intersect_prev_CVALUE same c cs =
     (if list_all (\<lambda>d. is_valid c \<and> is_valid d \<and> same (cv_value c) (cv_value d)) cs then c else set_nonconst c)"

definition intersect_prev_cvalues :: "il_instruction_c list \<Rightarrow> il_instruction_c \<Rightarrow> const_value_c" where
  "intersect_prev_cvalues il x = (case map (\<lambda>p. il_cv (il ! p)) (prev_il_instruction x) of
     [] \<Rightarrow> il_cv x
   | c # cs \<Rightarrow> (il_cv x)\<lparr>c_real64 := intersect_prev_CVALUE fp_eq (c_real64 c) (map c_real64 cs),
       c_uint64 := intersect_prev_CVALUE (=) (c_uint64 c) (map c_uint64 cs),
       c_int64 := intersect_prev_CVALUE (=) (c_int64 c) (map c_int64 cs),
       c_bool := intersect_prev_CVALUE (=) (c_bool c) (map c_bool cs)\<rparr>)"

definition visit_instruction :: "(fp \<Rightarrow> fp \<Rightarrow> fp) \<Rightarrow> nat \<Rightarrow> il_instruction_c list \<Rightarrow> il_instruction_c list option" where
  "visit_instruction pow i il = (let x = il ! i; c = intersect_prev_cvalues il x in
     case il_instruction x of None \<Rightarrow> Some (il[i := x\<lparr>il_cv := c\<rparr>])
     | Some y \<Rightarrow> do {
         y \<leftarrow> visit_op pow True (if prev_il_instruction x = [] then None else Some c) y;
         Some (il[i := x\<lparr>il_instruction := Some y, il_cv := op_cv y\<rparr>]) })"

fun visit_instructions :: "(fp \<Rightarrow> fp \<Rightarrow> fp) \<Rightarrow> nat list \<Rightarrow> il_instruction_c list \<Rightarrow> il_instruction_c list option" where
  "visit_instructions pow [] il = Some il"
| "visit_instructions pow (i # is) il = do { il \<leftarrow> visit_instruction pow i il; visit_instructions pow is il }"

text \<open>Stage 3 on the instruction list of a program: flow control analysis, then constant folding.\<close>

definition fold_program :: "(fp \<Rightarrow> fp \<Rightarrow> fp) \<Rightarrow> il_instruction_c list \<Rightarrow> il_instruction_c list option" where
  "fold_program pow il = visit_instructions pow [0..<length il] (flow_control_analysis il)"

end
