(* ===== verification/IlSoundness.thy ===== *)
theory IlSoundness
  imports IlFolding
begin

text \<open>
  Executions of Instruction List programs on \<open>LINT\<close> and \<open>BOOL\<close> numbers, as the C code that matiec
  generates for them runs, and the soundness of the constants that \<open>IlFolding\<close> finds: whatever way
  the program takes, the accumulator has the value the compiler has computed for the instruction.
\<close>

section \<open>Executions\<close>

datatype val = VI int | VB bool

text \<open>The value of an operand; a variable may have any value.\<close>

fun operand_val :: "symbol_c \<Rightarrow> val \<Rightarrow> bool" where
  "operand_val (number_c c k v) w \<longleftrightarrow> (\<exists>i. exact_int64 (number_c c k v) = Some i \<and> w = VI i)"
| "operand_val (neg_integer_c c e) w \<longleftrightarrow> (\<exists>i. exact_int64 (neg_integer_c c e) = Some i \<and> w = VI i)"
| "operand_val (integer_literal_c c e) w \<longleftrightarrow> operand_val e w"
| "operand_val (boolean_literal_c c e) w \<longleftrightarrow> operand_val e w"
| "operand_val (boolean_true_c c) w \<longleftrightarrow> w = VB True"
| "operand_val (boolean_false_c c) w \<longleftrightarrow> w = VB False"
| "operand_val (other_c c v) w \<longleftrightarrow> True"
| "operand_val _ w \<longleftrightarrow> False"

text \<open>The accumulator after an operator; a signed overflow and a division by 0 have no result.\<close>

fun lint_op :: "binary \<Rightarrow> val \<Rightarrow> val option \<Rightarrow> val option" where
  "lint_op b (VI x) (Some (VI y)) = map_option VI (exact_op int64_op b (Some x) (Some y))"
| "lint_op b _ _ = None"

fun bool_op :: "(bool \<Rightarrow> bool \<Rightarrow> bool) \<Rightarrow> val \<Rightarrow> val option \<Rightarrow> val option" where
  "bool_op f (VB x) (Some (VB y)) = Some (VB (f x y))"
| "bool_op f _ _ = None"

fun cmp_op :: "cmp \<Rightarrow> val \<Rightarrow> val option \<Rightarrow> val option" where
  "cmp_op c (VI x) (Some (VI y)) = Some (VB (compares c (<) (=) x y))"
| "cmp_op c (VB x) (Some (VB y)) = Some (VB (compares c (<) (=) x y))"
| "cmp_op c _ _ = None"

fun not_op :: "val option \<Rightarrow> val option" where
  "not_op (Some (VB x)) = Some (VB (\<not> x))"
| "not_op _ = None"

fun op_val :: "il_operator \<Rightarrow> val \<Rightarrow> val option \<Rightarrow> val option" where
  "op_val LD_operator a w = w"
| "op_val LDN_operator a w = not_op w"
| "op_val NOT_operator a w = not_op (Some a)"
| "op_val AND_operator a w = bool_op (\<and>) a w"
| "op_val OR_operator a w = bool_op (\<or>) a w"
| "op_val XOR_operator a w = bool_op (\<noteq>) a w"
| "op_val ANDN_operator a w = bool_op (\<and>) a (not_op w)"
| "op_val ORN_operator a w = bool_op (\<or>) a (not_op w)"
| "op_val XORN_operator a w = bool_op (\<noteq>) a (not_op w)"
| "op_val ADD_operator a w = lint_op add_b a w"
| "op_val SUB_operator a w = lint_op sub_b a w"
| "op_val MUL_operator a w = lint_op mul_b a w"
| "op_val DIV_operator a w = lint_op div_b a w"
| "op_val MOD_operator a w = lint_op mod_b a w"
| "op_val GT_operator a w = cmp_op cmp_gt a w"
| "op_val GE_operator a w = cmp_op cmp_ge a w"
| "op_val EQ_operator a w = cmp_op cmp_eq a w"
| "op_val LT_operator a w = cmp_op cmp_lt a w"
| "op_val LE_operator a w = cmp_op cmp_le a w"
| "op_val NE_operator a w = cmp_op cmp_ne a w"
| "op_val _ a w = Some a"

inductive exec_op :: "val \<Rightarrow> il_op \<Rightarrow> val \<Rightarrow> bool"
  and exec_ops :: "val \<Rightarrow> il_op list \<Rightarrow> val \<Rightarrow> bool" where
  exec_simple: "op_val oper a (Some w) = Some b \<Longrightarrow> operand_val e w \<Longrightarrow> exec_op a (il_simple_operation_c oper c (Some e)) b"
| exec_simple0: "op_val oper a None = Some b \<Longrightarrow> exec_op a (il_simple_operation_c oper c None) b"
| exec_expr: "exec_ops a' ls w \<Longrightarrow> ls \<noteq> [] \<Longrightarrow> op_val oper a (Some w) = Some b \<Longrightarrow> exec_op a (il_expression_c oper c e ls) b"
| exec_jump: "exec_op a (il_jump_operation_c oper c l) a"
| exec_return: "exec_op a (il_return_c oper c) a"
| exec_fb: "exec_op a (il_fb_call_c c) a"
| exec_function: "exec_op a (il_function_call_c c) b"
| exec_nil: "exec_ops a [] a"
| exec_cons: "exec_op a x b \<Longrightarrow> exec_ops b xs d \<Longrightarrow> exec_ops a (x # xs) d"

text \<open>A step of the program from the instruction at a position, with the accumulator.\<close>

inductive il_step :: "il_instruction_c list \<Rightarrow> nat \<times> val \<Rightarrow> nat \<times> val \<Rightarrow> bool" for il where
  step_empty: "i < length il \<Longrightarrow> il_instruction (il ! i) = None \<Longrightarrow> il_step il (i, a) (Suc i, a)"
| step_op: "i < length il \<Longrightarrow> il_instruction (il ! i) = Some x \<Longrightarrow> exec_op a x b \<Longrightarrow>
    (\<forall>oper c l. x \<noteq> il_jump_operation_c oper c l) \<Longrightarrow> (\<forall>oper c. x \<noteq> il_return_c oper c) \<Longrightarrow> il_step il (i, a) (Suc i, b)"
| step_jump: "i < length il \<Longrightarrow> il_instruction (il ! i) = Some (il_jump_operation_c oper c l) \<Longrightarrow> find_label l il = Some d \<Longrightarrow>
    oper = JMP_operator \<or> oper = JMPC_operator \<and> a = VB True \<or> oper = JMPCN_operator \<and> a = VB False \<Longrightarrow> il_step il (i, a) (d, a)"
| step_no_jump: "i < length il \<Longrightarrow> il_instruction (il ! i) = Some (il_jump_operation_c oper c l) \<Longrightarrow>
    oper = JMPC_operator \<and> a = VB False \<or> oper = JMPCN_operator \<and> a = VB True \<Longrightarrow> il_step il (i, a) (Suc i, a)"
| step_no_return: "i < length il \<Longrightarrow> il_instruction (il ! i) = Some (il_return_c oper c) \<Longrightarrow>
    oper = RETC_operator \<and> a = VB False \<or> oper = RETCN_operator \<and> a = VB True \<Longrightarrow> il_step il (i, a) (Suc i, a)"

inductive_cases exec_op_cases [elim!]:
  "exec_op a (il_simple_operation_c oper c e) b" "exec_op a (il_expression_c oper c e ls) b" "exec_op a (il_jump_operation_c oper c l) b"
  "exec_op a (il_return_c oper c) b" "exec_op a (il_fb_call_c c) b"
inductive_cases exec_ops_cases [elim!]: "exec_ops a [] b" "exec_ops a (x # xs) b"

section \<open>What a constant says about a value\<close>

text \<open>
  \<open>agrees\<close> is what the compiler relies on; \<open>ok\<close> adds what keeps it true: a number that is a constant
  as \<open>ULINT\<close> has been considered as \<open>LINT\<close> too, and the values of other types are no constants.
\<close>

fun agrees :: "const_value_c \<Rightarrow> val \<Rightarrow> bool" where
  "agrees c (VI x) \<longleftrightarrow> cvalue (c_int64 c) = None \<or> cvalue (c_int64 c) = Some x"
| "agrees c (VB x) \<longleftrightarrow> cvalue (c_bool c) = None \<or> cvalue (c_bool c) = Some x"

definition quiet :: "'a const_value__ \<Rightarrow> bool" where
  "quiet c \<longleftrightarrow> is_undefined c \<or> is_nonconst c"

fun ok :: "const_value_c \<Rightarrow> val \<Rightarrow> bool" where
  "ok c (VI x) \<longleftrightarrow> (is_valid (c_int64 c) \<longrightarrow> cv_value (c_int64 c) = x) \<and>
     (is_valid (c_uint64 c) \<longrightarrow> \<not> is_undefined (c_int64 c) \<and> (is_valid (c_int64 c) \<longrightarrow> cv_value (c_uint64 c) = cv_value (c_int64 c))) \<and>
     u_ok (c_uint64 c) \<and> i_ok (c_int64 c) \<and> quiet (c_real64 c) \<and> quiet (c_bool c)"
| "ok c (VB x) \<longleftrightarrow> (is_valid (c_bool c) \<longrightarrow> cv_value (c_bool c) = x) \<and>
     quiet (c_int64 c) \<and> quiet (c_uint64 c) \<and> quiet (c_real64 c)"

lemma status_simps [simp]:
  "is_undefined (set_cv c x) = False" "is_undefined (set_overflow c) = False" "is_undefined (set_nonconst c) = False"
  "is_overflow (set_cv c x) = False" "is_overflow (set_overflow c) = True" "is_overflow (set_nonconst c) = False"
  "is_nonconst (set_cv c x) = False" "is_nonconst (set_overflow c) = False" "is_nonconst (set_nonconst c) = True"
  by (simp_all add: is_undefined_def is_overflow_def is_nonconst_def set_cv_def set_overflow_def set_nonconst_def)

lemma status_exclusive:
  "is_valid c \<Longrightarrow> \<not> is_undefined c \<and> \<not> is_nonconst c \<and> \<not> is_overflow c"
  "is_overflow c \<Longrightarrow> \<not> is_undefined c \<and> \<not> is_nonconst c"
  "is_nonconst c \<Longrightarrow> \<not> is_undefined c"
  by (simp_all add: is_valid_def is_undefined_def is_nonconst_def is_overflow_def)

lemma status_total: "is_undefined c \<or> is_nonconst c \<or> is_valid c \<or> is_overflow c"
  by (cases "cv_status c") (simp_all add: is_valid_def is_undefined_def is_nonconst_def is_overflow_def)

lemma quiet_simps [simp]:
  "quiet (set_nonconst c)" "\<not> quiet (set_cv c x)" "\<not> quiet (set_overflow c)"
  "quiet c \<Longrightarrow> \<not> is_valid c" "quiet c \<Longrightarrow> \<not> is_overflow c"
  by (auto simp: quiet_def dest: status_exclusive)

lemma no_value_quiet [simp]:
  "quiet (c_int64 no_value)" "quiet (c_uint64 no_value)" "quiet (c_real64 no_value)" "quiet (c_bool no_value)"
  "is_undefined (c_int64 no_value)" "is_undefined (c_uint64 no_value)"
  by (simp_all add: quiet_def no_value_def is_undefined_def)

lemma ok_no_value [simp]: "ok no_value v"
  by (cases v) (simp_all add: u_ok_def i_ok_def)

lemma ok_agrees: "ok c v \<Longrightarrow> agrees c v"
  by (cases v) (auto simp: cvalue_def)

text \<open>An operation on quiet values stays quiet.\<close>

lemma quiet_binary:
  "quiet a \<Longrightarrow> quiet b \<Longrightarrow> quiet s \<Longrightarrow> DO_BINARY_OPER f s a b = Some c \<Longrightarrow> quiet c"
  by (auto simp: DO_BINARY_OPER_def split: if_splits)

lemma quiet_unary: "quiet a \<Longrightarrow> quiet s \<Longrightarrow> DO_UNARY_OPER f s a = Some c \<Longrightarrow> quiet c"
  by (auto simp: DO_UNARY_OPER_def split: if_splits)

lemma quiet_real [simp]: "quiet c \<Longrightarrow> CHECK_OVERFLOW_real64 c = c"
  by (simp add: CHECK_OVERFLOW_real64_def)

section \<open>Operators\<close>

lemma bits_ok:
  assumes "handle_bits f g no_value (Some c) (Some d) = Some e" "ok c (VB x)" "ok d (VB y)"
  shows "ok e (VB (f x y))"
proof -
  obtain p u where p: "DO_BINARY_OPER (\<lambda>x y. Some (f x y)) (c_bool no_value) (c_bool c) (c_bool d) = Some p"
    "DO_BINARY_OPER (\<lambda>x y. u64 (g x y)) (c_uint64 no_value) (c_uint64 c) (c_uint64 d) = Some u"
    "e = no_value\<lparr>c_bool := p, c_uint64 := u\<rparr>"
    using assms(1) by (auto simp: handle_bits_def split: Option.bind_splits)
  have "quiet u" using quiet_binary [OF _ _ _ p(2)] assms(2,3) by simp
  moreover have "is_valid p \<longrightarrow> cv_value p = f x y" using p(1) assms(2,3) by (auto simp: DO_BINARY_OPER_def split: if_splits)
  ultimately show ?thesis by (simp add: p(3))
qed

lemma not_ok:
  assumes "handle_not s (Some c) = Some e" "ok c (VB x)" "quiet (c_int64 s)" "quiet (c_uint64 s)" "quiet (c_real64 s)"
    and "quiet (c_bool s) \<or> s = c"
  shows "ok e (VB (\<not> x))"
proof -
  obtain p u where p: "DO_UNARY_OPER (\<lambda>x. Some (\<not> x)) (c_bool s) (c_bool c) = Some p"
    "DO_UNARY_OPER (\<lambda>x. u64 (NOT x)) (c_uint64 s) (c_uint64 c) = Some u" "e = s\<lparr>c_bool := p, c_uint64 := u\<rparr>"
    using assms(1) by (auto simp: handle_not_def split: Option.bind_splits)
  have "quiet u" using quiet_unary [OF _ _ p(2)] assms by simp
  moreover have "is_valid p \<longrightarrow> cv_value p = (\<not> x)" using p(1) assms(2,6) by (auto simp: DO_UNARY_OPER_def split: if_splits)
  ultimately show ?thesis using assms(3-5) by (simp add: p(3))
qed

lemma cmp_ok_int:
  assumes "handle_cmp oper no_value (Some c) (Some d) = Some e" "ok c (VI x)" "ok d (VI y)"
  shows "ok e (VB (compares oper (<) (=) x y))"
proof -
  obtain p q r t where p: "DO_BINARY_OPER (\<lambda>x y. Some (compares oper (<) (=) x y)) (c_bool no_value) (c_bool c) (c_bool d) = Some p"
    "DO_BINARY_OPER (\<lambda>x y. Some (compares oper (<) (=) x y)) p (c_uint64 c) (c_uint64 d) = Some q"
    "DO_BINARY_OPER (\<lambda>x y. Some (compares oper (<) (=) x y)) q (c_int64 c) (c_int64 d) = Some r"
    "DO_BINARY_OPER (\<lambda>x y. Some (compares oper fp_less fp_eq x y)) r (c_real64 c) (c_real64 d) = Some t"
    "e = no_value\<lparr>c_bool := t\<rparr>"
    using assms(1) by (auto simp: handle_cmp_def split: Option.bind_splits)
  have "quiet p" using quiet_binary [OF _ _ _ p(1)] assms(2,3) by simp
  then have q: "is_valid q \<longrightarrow> is_valid (c_uint64 c) \<and> is_valid (c_uint64 d)"
    using p(2) by (auto simp: DO_BINARY_OPER_def split: if_splits)
  have "is_valid r \<longrightarrow> is_valid (c_int64 c) \<and> is_valid (c_int64 d)"
  proof (rule ccontr)
    assume r: "\<not> (is_valid r \<longrightarrow> is_valid (c_int64 c) \<and> is_valid (c_int64 d))"
    then have "r = q \<and> \<not> is_overflow (c_int64 c) \<and> \<not> is_overflow (c_int64 d) \<and> \<not> is_nonconst (c_int64 c) \<and> \<not> is_nonconst (c_int64 d)"
      using p(3) by (auto simp: DO_BINARY_OPER_def split: if_splits)
    then show False using r q status_total [of "c_int64 c"] status_total [of "c_int64 d"] assms(2,3) by auto
  qed
  then have "is_valid r \<longrightarrow> cv_value r = compares oper (<) (=) x y"
    using p(3) assms(2,3) by (auto simp: DO_BINARY_OPER_def)
  moreover have "is_valid t \<longrightarrow> t = r" using p(4) assms(2,3) by (auto simp: DO_BINARY_OPER_def split: if_splits)
  ultimately show ?thesis by (auto simp: p(5))
qed

lemma cmp_ok_bool:
  assumes "handle_cmp oper no_value (Some c) (Some d) = Some e" "ok c (VB x)" "ok d (VB y)"
  shows "ok e (VB (compares oper (<) (=) x y))"
proof -
  obtain p q r t where p: "DO_BINARY_OPER (\<lambda>x y. Some (compares oper (<) (=) x y)) (c_bool no_value) (c_bool c) (c_bool d) = Some p"
    "DO_BINARY_OPER (\<lambda>x y. Some (compares oper (<) (=) x y)) p (c_uint64 c) (c_uint64 d) = Some q"
    "DO_BINARY_OPER (\<lambda>x y. Some (compares oper (<) (=) x y)) q (c_int64 c) (c_int64 d) = Some r"
    "DO_BINARY_OPER (\<lambda>x y. Some (compares oper fp_less fp_eq x y)) r (c_real64 c) (c_real64 d) = Some t"
    "e = no_value\<lparr>c_bool := t\<rparr>"
    using assms(1) by (auto simp: handle_cmp_def split: Option.bind_splits)
  have "is_valid p \<longrightarrow> cv_value p = compares oper (<) (=) x y" using p(1) assms(2,3) by (auto simp: DO_BINARY_OPER_def split: if_splits)
  moreover have "is_valid q \<longrightarrow> q = p" using p(2) assms(2,3) by (auto simp: DO_BINARY_OPER_def split: if_splits)
  moreover have "is_valid r \<longrightarrow> r = q" using p(3) assms(2,3) by (auto simp: DO_BINARY_OPER_def split: if_splits)
  moreover have "is_valid t \<longrightarrow> t = r" using p(4) assms(2,3) by (auto simp: DO_BINARY_OPER_def split: if_splits)
  ultimately show ?thesis by (auto simp: p(5))
qed

text \<open>The arithmetic of the two integer types agrees where both have a result.\<close>

lemma int_ops_agree:
  assumes "uint64_op b x y = Some u" "int64_op b x y = Some i" "0 \<le> x" "0 \<le> y" "b = mod_b \<longrightarrow> y \<noteq> 0"
  shows "u = i"
proof -
  have "x sdiv y = x div y" "x smod y = x mod y" if "y \<noteq> 0"
    using that assms(3,4) by (simp_all add: signed_divide_int_def signed_modulo_int_def sgn_if)
  then show ?thesis using assms(1,2,5) by (cases b) (auto simp: uint64_fit_def int64_fit_def split: if_splits)
qed

text \<open>A result as \<open>ULINT\<close> comes with a result as \<open>LINT\<close>, though it may be an overflow.\<close>

lemma DO_BINARY_valid:
  assumes "DO_BINARY_OPER f s a b = Some q" "is_valid q" "\<not> is_valid s"
  shows "is_valid a \<and> is_valid b"
  using assms by (auto simp: DO_BINARY_OPER_def split: if_splits)

lemma DO_BINARY_defined:
  assumes "DO_BINARY_OPER f s a b = Some q" "\<not> is_undefined a" "\<not> is_undefined b"
  shows "\<not> is_undefined q"
  using assms status_total [of a] status_total [of b] by (auto simp: DO_BINARY_OPER_def split: if_splits)

lemma CHECK_int64_undefined [simp]:
  "is_undefined (CHECK_OVERFLOW_int64_SUM i a b) = is_undefined i" "is_undefined (CHECK_OVERFLOW_int64_SUB i a b) = is_undefined i"
  "is_undefined (CHECK_OVERFLOW_int64_MUL i a b) = is_undefined i" "is_undefined (CHECK_OVERFLOW_int64_DIV i a b) = is_undefined i"
  "is_undefined (CHECK_OVERFLOW_int64_MOD i a b) = is_undefined i"
  unfolding CHECK_OVERFLOW_int64_SUM_def CHECK_OVERFLOW_int64_SUB_def CHECK_OVERFLOW_int64_MUL_def CHECK_OVERFLOW_int64_DIV_def
    CHECK_OVERFLOW_int64_MOD_def Let_def by (auto dest: status_exclusive)

lemma CHECK_uint64_valid:
  "is_valid (CHECK_OVERFLOW_uint64_SUM i a b) \<Longrightarrow> is_valid i" "is_valid (CHECK_OVERFLOW_uint64_SUB i a b) \<Longrightarrow> is_valid i"
  "is_valid (CHECK_OVERFLOW_uint64_MUL i a b) \<Longrightarrow> is_valid i" "is_valid (CHECK_OVERFLOW_uint64_DIV i a b) \<Longrightarrow> is_valid i"
  "is_valid (CHECK_OVERFLOW_uint64_MOD i a b) \<Longrightarrow> is_valid i"
  by (simp_all add: CHECK_OVERFLOW_uint64_SUM_def CHECK_OVERFLOW_uint64_SUB_def CHECK_OVERFLOW_uint64_MUL_def
      CHECK_OVERFLOW_uint64_DIV_def CHECK_OVERFLOW_uint64_MOD_def split: if_splits)

text \<open>What an arithmetic operation keeps besides its result.\<close>

definition tidy :: "const_value_c \<Rightarrow> bool" where
  "tidy e \<longleftrightarrow> quiet (c_real64 e) \<and> quiet (c_bool e) \<and> (is_valid (c_uint64 e) \<longrightarrow> \<not> is_undefined (c_int64 e))"

lemma ok_int_tidy: "ok c (VI x) \<Longrightarrow> tidy c"
  by (simp add: tidy_def)

lemma real_quiet:
  assumes "DO_BINARY_OPER f (c_real64 no_value) (c_real64 c) (c_real64 d) = Some r" "tidy c" "tidy d"
  shows "quiet r"
  using quiet_binary [OF _ _ _ assms(1)] assms(2,3) by (simp add: tidy_def)

lemma both_defined:
  assumes "DO_BINARY_OPER f (c_uint64 no_value) (c_uint64 c) (c_uint64 d) = Some u" "is_valid u"
    and "DO_BINARY_OPER g (c_int64 no_value) (c_int64 c) (c_int64 d) = Some i" "tidy c" "tidy d"
  shows "\<not> is_undefined i"
  using DO_BINARY_valid [OF assms(1,2)] DO_BINARY_defined [OF assms(3)] assms(4,5) cvalue_no_value(2)
  by (simp add: tidy_def cvalue_None)

lemma sums_tidy:
  assumes "handle_binary pow b no_value c d = Some e" "tidy c" "tidy d" "b = add_b \<or> b = sub_b \<or> b = mul_b"
  shows "tidy e"
  using assms(4,1)
  by (elim disjE) (auto simp: handle_add_def handle_sub_def handle_mul_def tidy_def dest!: CHECK_uint64_valid
      dest: both_defined [OF _ _ _ assms(2,3)] real_quiet [OF _ assms(2,3)] split: Option.bind_splits)

text \<open>A quotient: the divisor 0 is no operand of the operation itself.\<close>

lemma quotient_defined:
  assumes "tidy c" "tidy d" "ISZERO_CVALUE (c_uint64 d) \<Longrightarrow> ISZERO_CVALUE (c_int64 d) \<or> \<not> is_valid (c_int64 d)"
    and "ISZERO_CVALUE (c_uint64 d) \<or> (\<exists>f v. DO_BINARY_OPER f (c_uint64 no_value) (c_uint64 c) (c_uint64 d) = Some v \<and> is_valid v)"
    and "\<not> ISZERO_CVALUE (c_int64 d)" "DO_BINARY_OPER g (c_int64 no_value) (c_int64 c) (c_int64 d) = Some i"
  shows "\<not> is_undefined i"
proof (cases "ISZERO_CVALUE (c_uint64 d)")
  case True
  then have "is_valid (c_uint64 d)" "\<not> is_valid (c_int64 d)" using assms(3,5) by (auto simp: ISZERO_CVALUE_def)
  then have "\<not> is_undefined (c_int64 d)" "\<not> is_valid (c_int64 d)" using assms(2) by (auto simp: tidy_def)
  then show ?thesis using assms(6) status_total [of "c_int64 d"] by (auto simp: DO_BINARY_OPER_def split: if_splits)
next
  case False
  then obtain f v where "DO_BINARY_OPER f (c_uint64 no_value) (c_uint64 c) (c_uint64 d) = Some v" "is_valid v" using assms(4) by blast
  then show ?thesis using both_defined assms(1,2,6) by blast
qed

lemma div_tidy:
  assumes "handle_div no_value (Some c) (Some d) = Some e" "tidy c" "tidy d"
    and "ISZERO_CVALUE (c_uint64 d) \<Longrightarrow> ISZERO_CVALUE (c_int64 d) \<or> \<not> is_valid (c_int64 d)"
  shows "tidy e"
proof -
  obtain u i r where q: "e = no_value\<lparr>c_uint64 := u, c_int64 := i, c_real64 := r\<rparr>"
    "(if ISZERO_CVALUE (c_uint64 d) then Some (set_overflow (c_uint64 no_value)) else do {
       u \<leftarrow> DO_BINARY_OPER (\<lambda>x y. u64 (x div y)) (c_uint64 no_value) (c_uint64 c) (c_uint64 d);
       Some (CHECK_OVERFLOW_uint64_DIV u (c_uint64 c) (c_uint64 d)) }) = Some u"
    "(if ISZERO_CVALUE (c_int64 d) then Some (set_overflow (c_int64 no_value)) else do {
       i \<leftarrow> DO_BINARY_OPER (\<lambda>x y. i64 (x sdiv y)) (c_int64 no_value) (c_int64 c) (c_int64 d);
       Some (CHECK_OVERFLOW_int64_DIV i (c_int64 c) (c_int64 d)) }) = Some i"
    "(if is_valid (c_real64 d) \<and> fp_is_zero (cv_value (c_real64 d)) then Some (set_overflow (c_real64 no_value)) else do {
       r \<leftarrow> DO_BINARY_OPER (\<lambda>x y. Some (fp_div DOUBLE x y)) (c_real64 no_value) (c_real64 c) (c_real64 d);
       Some (CHECK_OVERFLOW_real64 r) }) = Some r"
    using assms(1) unfolding handle_div_def option.case prod.case bind_eq_Some_conv by blast
  have "\<not> is_valid (c_real64 d)" using assms(3) by (simp add: tidy_def)
  then have "quiet r" using q(4) real_quiet [OF _ assms(2,3)] by (auto simp: bind_eq_Some_conv)
  moreover have "\<not> is_undefined i" if "is_valid u"
  proof -
    have "ISZERO_CVALUE (c_uint64 d) \<or> (\<exists>f v. DO_BINARY_OPER f (c_uint64 no_value) (c_uint64 c) (c_uint64 d) = Some v \<and> is_valid v)"
      using q(2) that by (auto simp: bind_eq_Some_conv dest!: CHECK_uint64_valid split: if_splits)
    from quotient_defined [OF assms(2,3,4) this] show ?thesis using q(3) by (auto simp: bind_eq_Some_conv split: if_splits)
  qed
  ultimately show ?thesis by (simp add: q(1) tidy_def)
qed

lemma mod_tidy:
  assumes "handle_mod no_value (Some c) (Some d) = Some e" "tidy c" "tidy d"
    and "ISZERO_CVALUE (c_uint64 d) \<Longrightarrow> ISZERO_CVALUE (c_int64 d) \<or> \<not> is_valid (c_int64 d)"
  shows "tidy e"
proof -
  obtain u i where q: "e = no_value\<lparr>c_uint64 := u, c_int64 := i\<rparr>"
    "(if ISZERO_CVALUE (c_uint64 d) then Some (set_cv (c_uint64 no_value) 0) else do {
       u \<leftarrow> DO_BINARY_OPER (\<lambda>x y. u64 (x mod y)) (c_uint64 no_value) (c_uint64 c) (c_uint64 d);
       Some (CHECK_OVERFLOW_uint64_MOD u (c_uint64 c) (c_uint64 d)) }) = Some u"
    "(if ISZERO_CVALUE (c_int64 d) then Some (set_cv (c_int64 no_value) 0) else do {
       i \<leftarrow> DO_BINARY_OPER (\<lambda>x y. do { q \<leftarrow> i64 (x sdiv y); i64 (x - q * y) }) (c_int64 no_value) (c_int64 c) (c_int64 d);
       Some (CHECK_OVERFLOW_int64_MOD i (c_int64 c) (c_int64 d)) }) = Some i"
    using assms(1) unfolding handle_mod_def option.case prod.case bind_eq_Some_conv by blast
  have "\<not> is_undefined i" if "is_valid u"
  proof -
    have "ISZERO_CVALUE (c_uint64 d) \<or> (\<exists>f v. DO_BINARY_OPER f (c_uint64 no_value) (c_uint64 c) (c_uint64 d) = Some v \<and> is_valid v)"
      using q(2) that by (auto simp: bind_eq_Some_conv dest!: CHECK_uint64_valid split: if_splits)
    from quotient_defined [OF assms(2,3,4) this] show ?thesis using q(3) by (auto simp: bind_eq_Some_conv split: if_splits)
  qed
  then show ?thesis by (simp add: q(1) tidy_def)
qed

text \<open>Arithmetic.\<close>

lemma ok_int_iff:
  "ok c (VI x) \<longleftrightarrow> (cvalue (c_int64 c) = None \<or> cvalue (c_int64 c) = Some x) \<and>
     (\<forall>u. cvalue (c_uint64 c) = Some u \<longrightarrow> cvalue (c_int64 c) = None \<or> cvalue (c_int64 c) = Some u) \<and>
     (\<forall>u. cvalue (c_uint64 c) = Some u \<longrightarrow> 0 \<le> u \<and> u \<le> UINT64_MAX) \<and>
     (\<forall>i. cvalue (c_int64 c) = Some i \<longrightarrow> INT64_MIN \<le> i \<and> i \<le> INT64_MAX) \<and> tidy c"
  by (auto simp: tidy_def cvalue_def u_ok_def i_ok_def)

lemma arith_range:
  assumes "b = add_b \<or> b = sub_b \<or> b = mul_b \<or> b = div_b \<or> b = mod_b"
  shows "exact_op int64_op b X Y = Some z \<Longrightarrow> INT64_MIN \<le> z \<and> z \<le> INT64_MAX"
    "exact_op uint64_op b X Y = Some z \<Longrightarrow> 0 \<le> z \<and> z \<le> UINT64_MAX"
  using assms by (auto simp: exact_op_def int64_fit_def uint64_fit_def split: if_splits Option.bind_splits)

lemma arith_ok:
  assumes "handle_binary pow b no_value c d = Some e" "ok c (VI x)" "ok d (VI y)" "exact_op int64_op b (Some x) (Some y) = Some z"
    and "b = add_b \<or> b = sub_b \<or> b = mul_b \<or> b = div_b \<or> b = mod_b"
  shows "ok e (VI z)"
proof -
  note c = assms(2) [unfolded ok_int_iff] and d = assms(3) [unfolded ok_int_iff]
  have u: "u_ok (c_uint64 c)" "u_ok (c_uint64 d)" "i_ok (c_int64 c)" using assms(2,3) by simp_all
  then have q: "cvalue (c_int64 e) = exact_op int64_op b (cvalue (c_int64 c)) (cvalue (c_int64 d))"
    "cvalue (c_uint64 e) = exact_op uint64_op b (cvalue (c_uint64 c)) (cvalue (c_uint64 d))"
    using handle_binary_exact [OF u, of b pow] assms(1) by (auto simp: exact_result_def)
  have i: "cvalue (c_int64 e) = None \<or> cvalue (c_int64 e) = Some z"
    using q(1) c d assms(4) by (auto simp: exact_op_def split: if_splits)
  have j: "v = w" if "cvalue (c_uint64 e) = Some w" "cvalue (c_int64 e) = Some v" for w v
  proof (cases "b = mod_b \<and> (cvalue (c_uint64 d) = Some 0 \<or> cvalue (c_int64 d) = Some 0)")
    case True
    then show ?thesis using that q d by (auto simp: exact_op_def split: if_splits Option.bind_splits)
  next
    case False
    have "exact_op uint64_op b (cvalue (c_uint64 c)) (cvalue (c_uint64 d)) = Some w"
      "exact_op int64_op b (cvalue (c_int64 c)) (cvalue (c_int64 d)) = Some v" using that q by simp_all
    with False obtain s t s' t' where v: "cvalue (c_uint64 c) = Some s" "cvalue (c_uint64 d) = Some t" "uint64_op b s t = Some w"
      "cvalue (c_int64 c) = Some s'" "cvalue (c_int64 d) = Some t'" "int64_op b s' t' = Some v"
      by (auto simp: exact_op_def bind_eq_Some_conv split: if_splits)
    then have "s' = s" "t' = t" "0 \<le> s" "0 \<le> t" "b = mod_b \<longrightarrow> t \<noteq> 0" using c d False by auto
    then show ?thesis using int_ops_agree [OF v(3)] v(6) by metis
  qed
  have "ISZERO_CVALUE (c_uint64 d) \<Longrightarrow> ISZERO_CVALUE (c_int64 d) \<or> \<not> is_valid (c_int64 d)"
    using d by (auto simp: ISZERO_CVALUE_def cvalue_Some cvalue_None)
  then have "tidy e" using assms(1,5) c d sums_tidy [OF assms(1)] div_tidy [of c d e] mod_tidy [of c d e] by auto
  moreover have "cvalue (c_int64 e) = None \<or> cvalue (c_int64 e) = Some u" if "cvalue (c_uint64 e) = Some u" for u
    using j [OF that] by (cases "cvalue (c_int64 e)") simp_all
  ultimately show ?thesis using i arith_range [OF assms(5)] unfolding q ok_int_iff by (intro conjI allI impI) simp_all
qed

declare ok.simps [simp del]

text \<open>An operator on constants that are right gives one that is right.\<close>

definition sound_operator :: "il_operator \<Rightarrow> bool" where
  "sound_operator oper \<longleftrightarrow> oper \<noteq> ANDN_operator \<and> oper \<noteq> ORN_operator"

lemma operator_none:
  assumes "visit_operator oper no_value None operand = Some c" "oper \<noteq> LD_operator" "oper \<noteq> LDN_operator"
  shows "c = no_value"
proof -
  have "handle_not no_value (Some no_value) = Some no_value"
    by (simp add: handle_not_def DO_UNARY_OPER_def no_value_def is_valid_def is_overflow_def is_nonconst_def)
  then show ?thesis using assms
    by (cases oper) (simp_all add: handle_move_def handle_not_def handle_and_def handle_or_def handle_xor_def handle_bits_def
        handle_add_def handle_sub_def handle_mul_def handle_div_def handle_mod_def handle_cmp_def)
qed

lemma handle_not_ok:
  assumes "handle_not no_value (Some c) = Some e" "not_op (Some a) = Some b" "ok c a"
  shows "ok e b"
proof (cases a)
  case (VB x)
  then show ?thesis using assms not_ok [OF assms(1), of x] by auto
qed (use assms(2) in simp)

lemma bits_val_ok:
  assumes "handle_bits f g no_value (Some c) (Some d) = Some e" "bool_op f a (Some w) = Some b" "ok c a" "ok d w"
  shows "ok e b"
proof -
  obtain x y where "a = VB x" "w = VB y" "b = VB (f x y)" using assms(2) by (cases a; cases w) auto
  then show ?thesis using assms(3,4) bits_ok [OF assms(1)] by simp
qed

lemma cmp_val_ok:
  assumes "handle_cmp oper no_value (Some c) (Some d) = Some e" "cmp_op oper a (Some w) = Some b" "ok c a" "ok d w"
  shows "ok e b"
proof -
  consider x y where "a = VI x" "w = VI y" "b = VB (compares oper (<) (=) x y)"
    | x y where "a = VB x" "w = VB y" "b = VB (compares oper (<) (=) x y)"
    using assms(2) by (cases a; cases w) auto
  then show ?thesis using assms(3,4) cmp_ok_int [OF assms(1)] cmp_ok_bool [OF assms(1)] by cases simp_all
qed

lemma arith_val_ok:
  assumes "lint_op b a (Some w) = Some v" "ok c a" "ok d w" "handle_binary pow b no_value c d = Some e"
    and "b = add_b \<or> b = sub_b \<or> b = mul_b \<or> b = div_b \<or> b = mod_b"
  shows "ok e v"
proof -
  obtain x y z where "a = VI x" "w = VI y" "v = VI z" "exact_op int64_op b (Some x) (Some y) = Some z"
    using assms(1) by (cases a; cases w) auto
  then show ?thesis using assms(2,3,5) arith_ok [OF assms(4)] by simp
qed

lemma xorn_ok:
  assumes "handle_bits (\<noteq>) (XOR) no_value (Some c) (Some d) = Some e" "handle_not e (Some e) = Some e'"
    and "bool_op (\<noteq>) a (not_op (Some w)) = Some b" "ok c a" "ok d w"
  shows "ok e' b"
proof -
  obtain x y where v: "a = VB x" "w = VB y" "b = VB (\<not> (x \<noteq> y))" using assms(3) by (cases a; cases w) auto
  have "ok e (VB (x \<noteq> y))" using bits_ok [of "(\<noteq>)" "(XOR)" c d e x y] assms(1,4,5) v by simp
  then show ?thesis using not_ok [OF assms(2), of "x \<noteq> y"] v by (simp add: ok.simps)
qed

lemma operator_ok:
  assumes "visit_operator oper no_value prev operand = Some c" "sound_operator oper" "op_val oper a w = Some b"
    and "\<And>d. prev = Some d \<Longrightarrow> ok d a" "\<And>v. w = Some v \<Longrightarrow> \<exists>d. operand = Some d \<and> ok d v"
  shows "ok c b"
proof (cases "oper = LD_operator \<or> oper = LDN_operator")
  case True
  then show ?thesis using assms by (cases w) (auto simp: handle_move_def intro: handle_not_ok)
next
  case False
  show ?thesis
  proof (cases prev)
    case None
    then have "c = no_value" using operator_none assms(1) False by blast
    then show ?thesis by simp
  next
    case (Some p)
    then have p: "ok p a" using assms(4) by simp
    note h = handle_not_ok bits_val_ok cmp_val_ok xorn_ok arith_val_ok
    show ?thesis
    proof (cases w)
      case None
      then show ?thesis using assms(1-3) False Some p
        by (cases oper; cases a) (auto simp: handle_move_def sound_operator_def intro: not_ok)
    next
      case (Some v)
      then obtain d where "operand = Some d" "ok d v" using assms(5) by blast
      then show ?thesis using assms(1-3) False Some \<open>prev = Some p\<close> p
        bits_val_ok [of "(\<noteq>)" "(XOR)" p d c a v b] arith_val_ok [of add_b a v b p d pow c] arith_val_ok [of sub_b a v b p d pow c] arith_val_ok [of mul_b a v b p d pow c]
        arith_val_ok [of div_b a v b p d pow c] arith_val_ok [of mod_b a v b p d pow c]
        by (cases oper) (auto simp: handle_move_def sound_operator_def handle_and_def handle_or_def handle_xor_def bind_eq_Some_conv
            intro: handle_not_ok bits_val_ok cmp_val_ok xorn_ok)
    qed
  qed
qed

section \<open>Instructions\<close>

lemma DO_UNARY_copy:
  assumes "DO_UNARY_OPER Some s c = Some e" "is_undefined s" "\<not> is_valid s"
  shows "cvalue e = cvalue c" "is_undefined e = is_undefined c" "quiet c \<Longrightarrow> quiet e" "is_valid e = is_valid c"
  using assms status_total [of c] by (auto simp: DO_UNARY_OPER_def cvalue_def quiet_def dest: status_exclusive split: if_splits)

lemma no_value_invalid [simp]:
  "\<not> is_valid (c_int64 no_value)" "\<not> is_valid (c_uint64 no_value)" "\<not> is_valid (c_real64 no_value)" "\<not> is_valid (c_bool no_value)"
  "is_undefined (c_bool no_value)"
  using cvalue_no_value by (simp_all add: cvalue_None) (simp add: no_value_def is_undefined_def)

lemma ok_bool_iff:
  "ok c (VB x) \<longleftrightarrow> (cvalue (c_bool c) = None \<or> cvalue (c_bool c) = Some x) \<and> quiet (c_int64 c) \<and> quiet (c_uint64 c) \<and> quiet (c_real64 c)"
  by (auto simp: ok.simps cvalue_def)

lemma number_ok:
  assumes "visit pow (number_c no_value k v) = Some e" "number_value k v = Some n" "int64_fit (int n) = Some i"
  shows "ok (const_value e) (VI i)"
proof -
  obtain j u where q: "const_value e = no_value\<lparr>c_int64 := j, c_uint64 := u\<rparr>" "cvalue j = int64_fit (int n)" "cvalue u = uint64_fit (int n)"
    using number_values [OF assms(2)] assms(1) by auto
  then have "is_valid j" using assms(3) by (simp add: cvalue_Some)
  then show ?thesis using q assms(3)
    by (auto simp: ok_int_iff tidy_def int64_fit_def uint64_fit_def dest: status_exclusive split: if_splits)
qed

lemma neg_number_ok:
  assumes "visit pow (neg_integer_c no_value (number_c no_value integer_n v)) = Some e" "number_value integer_n v = Some n"
    and "int64_fit (- int n) = Some i"
  shows "ok (const_value e) (VI i)"
proof -
  obtain e' c where e: "visit pow (number_c no_value integer_n v) = Some e'" "handle_neg_integer no_value (const_value e') = Some c"
    "const_value e = c" using assms(1) by (auto simp: bind_eq_Some_conv simp del: visit.simps(1))
  have q: "cvalue (c_int64 c) = int64_fit (- int n)" "cvalue (c_uint64 c) = uint64_fit (- int n)"
    using handle_neg_integer_exact [OF assms(2) e(1)] e(2) by auto
  then have "is_valid (c_int64 c)" using assms(3) by (simp add: cvalue_Some)
  moreover have "c_real64 c = c_real64 no_value" "c_bool c = c_bool no_value"
    using e(2) unfolding handle_neg_integer_def Let_def bind_eq_Some_conv by auto
  ultimately show ?thesis using q e(3) assms(3)
    by (auto simp: ok_int_iff tidy_def int64_fit_def uint64_fit_def dest: status_exclusive split: if_splits)
qed

lemma operand_ok:
  assumes "operand_val e w" "parsed e" "visit pow e = Some e'"
  shows "ok (const_value e') w"
  using assms
proof (induction e w arbitrary: e' rule: operand_val.induct)
  case (1 c k v w)
  then show ?case using number_ok [of pow k v e'] by (auto simp: bind_eq_Some_conv simp del: visit.simps)
next
  case (2 c e w)
  then show ?case using neg_number_ok [of pow _ e'] by (auto simp: bind_eq_Some_conv simp del: visit.simps)
next
  case (3 c e w)
  then obtain d i u where d: "visit pow e = Some d" "DO_UNARY_OPER Some (c_int64 no_value) (c_int64 (const_value d)) = Some i"
    "DO_UNARY_OPER Some (c_uint64 no_value) (c_uint64 (const_value d)) = Some u" "const_value e' = no_value\<lparr>c_int64 := i, c_uint64 := u\<rparr>"
    by (auto simp: bind_eq_Some_conv)
  have "ok (const_value d) w" using 3 d(1) by simp
  then show ?case using DO_UNARY_copy [OF d(2)] DO_UNARY_copy [OF d(3)]
    by (cases w) (auto simp: d(4) ok_int_iff ok_bool_iff tidy_def cvalue_None)
next
  case (4 c e w)
  then obtain d b where d: "visit pow e = Some d" "DO_UNARY_OPER Some (c_bool no_value) (c_bool (const_value d)) = Some b"
    "const_value e' = no_value\<lparr>c_bool := b\<rparr>" by (auto simp: bind_eq_Some_conv)
  have "ok (const_value d) w" using 4 d(1) by simp
  then show ?case using DO_UNARY_copy [OF d(2)] by (cases w) (auto simp: d(3) ok_int_iff ok_bool_iff tidy_def)
qed (auto simp: ok_bool_iff)

text \<open>An instruction as the parser builds it.\<close>

fun fresh_op :: "il_op \<Rightarrow> bool" where
  "fresh_op (il_simple_operation_c oper c e) \<longleftrightarrow> c = no_value \<and> sound_operator oper \<and> (case e of None \<Rightarrow> True | Some e \<Rightarrow> parsed e)"
| "fresh_op (il_expression_c oper c e ls) \<longleftrightarrow> c = no_value \<and> sound_operator oper \<and> list_all fresh_op ls"
| "fresh_op (il_jump_operation_c oper c l) \<longleftrightarrow> c = no_value \<and> oper \<in> {JMP_operator, JMPC_operator, JMPCN_operator}"
| "fresh_op (il_return_c oper c) \<longleftrightarrow> c = no_value \<and> oper \<in> {RET_operator, RETC_operator, RETCN_operator}"
| "fresh_op (il_fb_call_c c) \<longleftrightarrow> c = no_value"
| "fresh_op (il_function_call_c c) \<longleftrightarrow> c = no_value"

lemma visit_op_ok:
  "exec_op a x b \<Longrightarrow> fresh_op x \<Longrightarrow> visit_op pow linked prev x = Some y \<Longrightarrow> (\<And>d. prev = Some d \<Longrightarrow> ok d a) \<Longrightarrow> ok (op_cv y) b"
  "exec_ops a ls b \<Longrightarrow> list_all fresh_op ls \<Longrightarrow> visit_simple_instr_list pow linked prev ls = Some ls' \<Longrightarrow>
     (\<And>d. prev = Some d \<Longrightarrow> ok d a) \<Longrightarrow> ls \<noteq> [] \<Longrightarrow> ls' \<noteq> [] \<and> ok (op_cv (last ls')) b"
proof (induction arbitrary: linked prev y and linked prev ls' rule: exec_op_exec_ops.inducts)
  case (exec_simple oper a w b e c)
  then obtain e' d where "visit pow e = Some e'" "visit_operator oper no_value prev (Some (const_value e')) = Some d" "op_cv y = d"
    by (auto simp: visit_operand_def bind_eq_Some_conv)
  then show ?case using operator_ok [of oper prev "Some (const_value e')" d a "Some w" b] operand_ok exec_simple by auto
next
  case (exec_simple0 oper a b c)
  then show ?case using operator_ok [of oper prev None _ a None b] by (auto simp: visit_operand_def bind_eq_Some_conv)
next
  case (exec_expr a' ls w oper a b c e)
  then obtain ls' d where "visit_simple_instr_list pow linked None ls = Some ls'" "op_cv y = d"
    "visit_operator oper no_value prev (if ls' = [] then None else Some (op_cv (last ls'))) = Some d" by (auto simp: bind_eq_Some_conv)
  moreover from this have "ls' \<noteq> [] \<and> ok (op_cv (last ls')) w" using exec_expr by auto
  ultimately show ?case using operator_ok [of oper prev "Some (op_cv (last ls'))" d a "Some w" b] exec_expr by auto
next
  case (exec_jump a oper c l)
  then show ?case using operator_ok [of oper prev None _ a None a] by (auto simp: bind_eq_Some_conv sound_operator_def)
next
  case (exec_return a oper c)
  then show ?case using operator_ok [of oper prev None _ a None a] by (auto simp: bind_eq_Some_conv sound_operator_def)
next
  case (exec_fb a c)
  then show ?case by (cases prev) (auto simp: handle_move_def bind_eq_Some_conv)
next
  case (exec_cons a x b xs d)
  then obtain x' xs' where x: "visit_op pow False prev x = Some x'" "ls' = x' # xs'"
    "visit_simple_instr_list pow linked (if linked then Some (op_cv x') else None) xs = Some xs'" by (auto simp: bind_eq_Some_conv)
  have b: "ok (op_cv x') b" using exec_cons x(1) by auto
  show ?case
  proof (cases "xs = []")
    case True
    then show ?thesis using x b exec_cons(3) exec_cons.hyps by auto
  next
    case False
    have "ok d' b" if "(if linked then Some (op_cv x') else None) = Some d'" for d' using that b by (simp split: if_splits)
    from exec_cons.IH(2) [OF _ x(3) this False] show ?thesis using exec_cons.prems(1) x(2) by simp
  qed
qed auto

section \<open>Where control flow meets\<close>

lemma intersect_prev_cases:
  assumes "c \<in> set (h # t)" "\<And>x y. same x y \<longleftrightarrow> x = y"
  shows "cvalue (intersect_prev_CVALUE same (f h) (map f t)) = None \<or> cvalue (intersect_prev_CVALUE same (f h) (map f t)) = cvalue (f c)"
  using assms by (auto simp: intersect_prev_CVALUE_def list_all_iff cvalue_def)

lemma intersect_prev_quiet:
  assumes "c \<in> set (h # t)" "quiet (f c)"
  shows "quiet (intersect_prev_CVALUE same (f h) (map f t))"
  using assms by (auto simp: intersect_prev_CVALUE_def list_all_iff)

lemma intersect_prev_alone:
  "intersect_prev_CVALUE same c [] = c" "t \<noteq> [] \<Longrightarrow> is_undefined (intersect_prev_CVALUE same c t) \<Longrightarrow> False"
  by (auto simp: intersect_prev_CVALUE_def list_all_iff neq_Nil_conv dest: status_exclusive split: if_splits)

lemma intersect_ok:
  assumes "ok (il_cv (il ! p)) v" "p \<in> set (prev_il_instruction x)"
  shows "ok (intersect_prev_cvalues il x) v"
proof -
  obtain h t where ht: "map (\<lambda>p. il_cv (il ! p)) (prev_il_instruction x) = h # t"
    using assms(2) by (cases "prev_il_instruction x") simp_all
  let ?c = "il_cv (il ! p)" and ?e = "intersect_prev_cvalues il x"
  have "?c \<in> set (map (\<lambda>p. il_cv (il ! p)) (prev_il_instruction x))" using assms(2) by simp
  then have c: "?c \<in> set (h # t)" by (simp only: ht)
  have e: "c_int64 ?e = intersect_prev_CVALUE (=) (c_int64 h) (map c_int64 t)" "c_uint64 ?e = intersect_prev_CVALUE (=) (c_uint64 h) (map c_uint64 t)"
    "c_real64 ?e = intersect_prev_CVALUE fp_eq (c_real64 h) (map c_real64 t)" "c_bool ?e = intersect_prev_CVALUE (=) (c_bool h) (map c_bool t)"
    by (simp_all add: intersect_prev_cvalues_def ht)
  note i = intersect_prev_cases [where same = "(=)" and f = c_int64, OF c refl, folded e]
    and u = intersect_prev_cases [where same = "(=)" and f = c_uint64, OF c refl, folded e]
    and b = intersect_prev_cases [where same = "(=)" and f = c_bool, OF c refl, folded e]
  note q = intersect_prev_quiet [OF c]
  have r: "quiet (c_real64 ?e)" using q [of c_real64 fp_eq, folded e] assms(1) by (cases v) (simp_all add: ok.simps)
  note rb = q [of c_bool "(=)", folded e] and ri = q [of c_int64 "(=)", folded e] and ru = q [of c_uint64 "(=)", folded e]
  have d: "c_int64 ?e = c_int64 ?c \<and> c_uint64 ?e = c_uint64 ?c" if "is_undefined (c_int64 ?e)"
  proof -
    have "t = []" using that intersect_prev_alone(2) [of "map c_int64 t"] unfolding e by blast
    then show ?thesis using c unfolding e by (simp add: intersect_prev_alone)
  qed
  show ?thesis
  proof (cases v)
    case (VI y)
    then have o: "cvalue (c_int64 ?c) = None \<or> cvalue (c_int64 ?c) = Some y"
      "\<And>u. cvalue (c_uint64 ?c) = Some u \<Longrightarrow> (cvalue (c_int64 ?c) = None \<or> cvalue (c_int64 ?c) = Some u) \<and> 0 \<le> u \<and> u \<le> UINT64_MAX"
      "\<And>i. cvalue (c_int64 ?c) = Some i \<Longrightarrow> INT64_MIN \<le> i \<and> i \<le> INT64_MAX"
      "quiet (c_bool ?c)" "is_valid (c_uint64 ?c) \<Longrightarrow> \<not> is_undefined (c_int64 ?c)" using assms(1) by (auto simp: ok_int_iff tidy_def)
    have "\<not> is_undefined (c_int64 ?e)" if w: "is_valid (c_uint64 ?e)"
    proof
      assume z: "is_undefined (c_int64 ?e)"
      then show False using o(5) d [OF z] w by simp
    qed
    then have "tidy ?e" using r rb [OF o(4)] unfolding tidy_def by blast
    moreover have "cvalue (c_int64 ?e) = None \<or> cvalue (c_int64 ?e) = Some y" using i o(1) by presburger
    moreover have "cvalue (c_int64 ?e) = None \<or> cvalue (c_int64 ?e) = Some w" if "cvalue (c_uint64 ?e) = Some w" for w
    proof -
      have "cvalue (c_uint64 ?c) = Some w" using u that by simp
      then have "cvalue (c_int64 ?c) = None \<or> cvalue (c_int64 ?c) = Some w" using o(2) by blast
      then show ?thesis using i by presburger
    qed
    moreover have "0 \<le> w \<and> w \<le> UINT64_MAX" if "cvalue (c_uint64 ?e) = Some w" for w using u o(2) [of w] that by simp
    moreover have "INT64_MIN \<le> w \<and> w \<le> INT64_MAX" if "cvalue (c_int64 ?e) = Some w" for w using i o(3) [of w] that by simp
    ultimately show ?thesis unfolding VI ok_int_iff by blast
  next
    case (VB y)
    then have o: "cvalue (c_bool ?c) = None \<or> cvalue (c_bool ?c) = Some y" "quiet (c_int64 ?c)" "quiet (c_uint64 ?c)"
      using assms(1) by (auto simp: ok_bool_iff)
    have "cvalue (c_bool ?e) = None \<or> cvalue (c_bool ?e) = Some y" using b o(1) by presburger
    then show ?thesis using r ri [OF o(2)] ru [OF o(3)] unfolding VB ok_bool_iff by blast
  qed
qed

section \<open>The links between instructions\<close>

lemma map_update_same: "n < length xs \<Longrightarrow> (map f xs)[n := f (xs ! n)] = map f xs"
  by (metis list_update_id nth_map)

lemma link_simps [simp]:
  assumes "p < length il" "n < length il"
  shows "length (link_insert p n il) = length il" "length (link_pushback p n il) = length il"
    "map il_instruction (link_insert p n il) = map il_instruction il" "map il_instruction (link_pushback p n il) = map il_instruction il"
    "map il_label (link_insert p n il) = map il_label il" "map il_label (link_pushback p n il) = map il_label il"
    "map il_cv (link_insert p n il) = map il_cv il" "map il_cv (link_pushback p n il) = map il_cv il"
  using assms by (simp_all add: link_insert_def link_pushback_def map_update map_update_same nth_list_update)

lemma link_prev:
  assumes "p < length il" "n < length il" "j < length il"
  shows "set (prev_il_instruction (link_insert p n il ! j)) = set (prev_il_instruction (il ! j)) \<union> (if j = n then {p} else {})"
    "set (prev_il_instruction (link_pushback p n il ! j)) = set (prev_il_instruction (il ! j)) \<union> (if j = n then {p} else {})"
  using assms by (auto simp: link_insert_def link_pushback_def nth_list_update)

text \<open>\<open>same_code\<close>: the instructions are those of \<open>il\<close>, whatever links they have by now.\<close>

definition same_code :: "il_instruction_c list \<Rightarrow> il_instruction_c list \<Rightarrow> bool" where
  "same_code il il' \<longleftrightarrow> length il' = length il \<and> map il_instruction il' = map il_instruction il \<and>
     map il_label il' = map il_label il \<and> map il_cv il' = map il_cv il"

lemma same_codeD:
  assumes "same_code il il'" "j < length il"
  shows "il_instruction (il' ! j) = il_instruction (il ! j)" "il_cv (il' ! j) = il_cv (il ! j)"
  using assms nth_map [of j il' il_instruction] nth_map [of j il' il_cv] by (simp_all add: same_code_def)

lemma same_code_link:
  assumes "same_code il il'" "p < length il" "n < length il"
  shows "same_code il (link_insert p n il')" "same_code il (link_pushback p n il')"
  using link_simps [of p il' n] assms unfolding same_code_def by metis+

lemma find_label_labels: "map il_label xs = map il_label ys \<Longrightarrow> find_label l xs = find_label l ys"
proof (induction xs arbitrary: ys)
  case (Cons x xs)
  then show ?case by (cases ys) auto
qed simp

lemma find_label_less: "find_label l xs = Some d \<Longrightarrow> d < length xs"
  by (induction xs arbitrary: d) (auto split: if_splits)

definition jumps_to :: "il_instruction_c list \<Rightarrow> nat \<Rightarrow> nat \<Rightarrow> bool" where
  "jumps_to il i d \<longleftrightarrow> (case il_instruction (il ! i) of Some (il_jump_operation_c oper c l) \<Rightarrow> find_label l il = Some d | _ \<Rightarrow> False)"

definition unconditional :: "il_instruction_c list \<Rightarrow> nat \<Rightarrow> bool" where
  "unconditional il i \<longleftrightarrow> (case il_instruction (il ! i) of Some (il_jump_operation_c oper c l) \<Rightarrow> oper = JMP_operator
     | Some (il_return_c oper c) \<Rightarrow> oper = RET_operator | _ \<Rightarrow> False)"

lemma same_code_flow:
  assumes "same_code il il'" "i < length il"
  shows "jumps_to il' i d = jumps_to il i d" "unconditional il' i = unconditional il i"
proof -
  have "find_label l il' = find_label l il" for l using assms(1) by (intro find_label_labels) (simp add: same_code_def)
  then show "jumps_to il' i d = jumps_to il i d" "unconditional il' i = unconditional il i"
    using same_codeD(1) [OF assms] by (simp_all add: jumps_to_def unconditional_def split: option.splits il_op.splits)
qed

definition prev_set :: "il_instruction_c list \<Rightarrow> nat \<Rightarrow> nat set" where
  "prev_set il j = set (prev_il_instruction (il ! j))"

text \<open>The links after the instructions before \<open>k\<close> have been visited.\<close>

definition linked_until :: "il_instruction_c list \<Rightarrow> nat \<Rightarrow> il_instruction_c list \<times> bool \<Rightarrow> bool" where
  "linked_until il k s \<longleftrightarrow> same_code il (fst s) \<and> snd s = (0 < k \<and> unconditional il (k - 1)) \<and>
     (\<forall>i<k. \<forall>d. jumps_to il i d \<longrightarrow> i \<in> prev_set (fst s) d) \<and>
     (\<forall>i<k. 0 < i \<longrightarrow> \<not> unconditional il (i - 1) \<longrightarrow> i - 1 \<in> prev_set (fst s) i) \<and>
     (\<forall>j<length il. prev_set (fst s) j \<subseteq> prev_set il j \<union> {..<length il})"

lemma flow_visit_spec:
  assumes "same_code il x" "k < length il"
  shows "same_code il (fst (flow_visit k (x, f)))" "snd (flow_visit k (x, f)) = unconditional il k"
    "\<And>j. j < length il \<Longrightarrow> prev_set (fst (flow_visit k (x, f))) j =
      prev_set x j \<union> (if j = k \<and> 0 < k \<and> \<not> f then {k - 1} else {}) \<union> (if jumps_to il k j then {k} else {})"
proof -
  define y where "y = (if 0 < k \<and> \<not> f then link_insert (k - 1) k x else x)"
  have y: "same_code il y" using same_code_link [OF assms(1), of "k - 1" k] assms by (simp add: y_def)
  then have n: "length y = length il" by (simp add: same_code_def)
  have p: "prev_set y j = prev_set x j \<union> (if j = k \<and> 0 < k \<and> \<not> f then {k - 1} else {})" if "j < length il" for j
    using that assms link_prev(1) [of "k - 1" x k j] by (auto simp: y_def prev_set_def same_code_def)
  define z where "z = (case il_instruction (y ! k) of
      Some (il_jump_operation_c oper c l) \<Rightarrow> (case find_label l y of Some d \<Rightarrow> link_pushback k d y | None \<Rightarrow> y) | _ \<Rightarrow> y)"
  have z: "flow_visit k (x, f) = (z, unconditional y k)"
    by (auto simp: flow_visit_def y_def z_def Let_def unconditional_def split: option.splits il_op.splits)
  have "(\<exists>d. jumps_to y k d \<and> d < length y \<and> z = link_pushback k d y) \<or> (\<forall>d. \<not> jumps_to y k d) \<and> z = y"
    using find_label_less by (auto simp: z_def jumps_to_def split: option.splits il_op.splits)
  moreover have "d = d'" if "jumps_to y k d" "jumps_to y k d'" for d d' using that by (auto simp: jumps_to_def split: option.splits il_op.splits)
  ultimately consider d where "jumps_to y k d" "d < length y" "z = link_pushback k d y" "\<And>e. jumps_to y k e = (e = d)"
    | "\<And>d. \<not> jumps_to y k d" "z = y" by metis
  then have "same_code il z \<and> (\<forall>j<length il. prev_set z j = prev_set y j \<union> (if jumps_to y k j then {k} else {}))"
  proof cases
    case 1
    then show ?thesis using same_code_link(2) [OF y assms(2), of d] link_prev(2) [of k y d] n assms(2) by (auto simp: prev_set_def)
  qed (use y in simp)
  then show "same_code il (fst (flow_visit k (x, f)))" "snd (flow_visit k (x, f)) = unconditional il k"
    "\<And>j. j < length il \<Longrightarrow> prev_set (fst (flow_visit k (x, f))) j =
      prev_set x j \<union> (if j = k \<and> 0 < k \<and> \<not> f then {k - 1} else {}) \<union> (if jumps_to il k j then {k} else {})"
    using p same_code_flow [OF y assms(2)] by (simp_all add: z)
qed

lemma linked_until_step:
  assumes "linked_until il k s" "k < length il"
  shows "linked_until il (Suc k) (flow_visit k s)"
proof -
  obtain x f where s: "s = (x, f)" by (cases s)
  note v = flow_visit_spec [where il = il and x = x and k = k and f = f, OF _ assms(2)]
  have x: "same_code il x" using assms(1) by (simp add: linked_until_def s)
  have d: "d < length il" if "jumps_to il i d" for i d
    using that find_label_less by (auto simp: jumps_to_def split: option.splits il_op.splits)
  have f: "f = (0 < k \<and> unconditional il (k - 1))" using assms(1) by (simp add: linked_until_def s)
  show ?thesis unfolding linked_until_def
  proof (intro conjI allI impI)
    show "i \<in> prev_set (fst (flow_visit k s)) e" if "i < Suc k" "jumps_to il i e" for i e
      using that v(3) [OF x d [OF that(2)]] assms(1) unfolding s linked_until_def by (cases "i = k") auto
    show "i - 1 \<in> prev_set (fst (flow_visit k s)) i" if "i < Suc k" "0 < i" "\<not> unconditional il (i - 1)" for i
      using that v(3) [OF x, of i] assms f unfolding s linked_until_def by (cases "i = k") auto
    show "prev_set (fst (flow_visit k s)) j \<subseteq> prev_set il j \<union> {..<length il}" if "j < length il" for j
      using that v(3) [OF x that] assms unfolding s linked_until_def by auto
  qed (use v(1,2) [OF x] s in simp_all)
qed

lemma flow_control_links: "linked_until il (length il) (fold flow_visit [0..<length il] (il, False))"
proof -
  have "linked_until il k (fold flow_visit [0..<k] (il, False))" if "k \<le> length il" for k
    using that
  proof (induction k)
    case 0
    then show ?case by (auto simp: linked_until_def same_code_def)
  next
    case (Suc k)
    then show ?case using linked_until_step [of il k] by simp
  qed
  then show ?thesis by simp
qed

section \<open>Forward analyses\<close>

text \<open>
  What such an analysis of a program of \<open>n\<close> instructions relies on: the links, the transfer from before
  an instruction to after it, the union of what comes from the predecessors, and the entry.
\<close>

locale forward_analysis =
  fixes n :: nat
    and step :: "nat \<times> 'v \<Rightarrow> nat \<times> 'v \<Rightarrow> bool"
    and preds :: "nat \<Rightarrow> nat set"
    and before :: "nat \<Rightarrow> 'v \<Rightarrow> bool"
    and after :: "nat \<Rightarrow> 'v \<Rightarrow> bool"
  assumes linked: "step (i, a) (j, b) \<Longrightarrow> i < n \<and> (j < n \<longrightarrow> i \<in> preds j)"
    and transfer: "step (i, a) (j, b) \<Longrightarrow> before i a \<Longrightarrow> after i b"
    and join: "j < n \<Longrightarrow> i < n \<Longrightarrow> i \<in> preds j \<Longrightarrow> after i b \<Longrightarrow> before j b"
    and entry: "0 < n \<Longrightarrow> before 0 a"
begin

lemma before_reached:
  assumes "step\<^sup>*\<^sup>* (0, a0) (i, a)" "i < n"
  shows "before i a"
  using assms
proof (induction "(i, a)" arbitrary: i a rule: rtranclp_induct)
  case base
  then show ?case using entry by simp
next
  case (step y)
  obtain j b where y: "y = (j, b)" by (cases y)
  then have "j < n" "j \<in> preds i" using linked step by auto
  then show ?case using step y transfer join by blast
qed

theorem after_reached: "step\<^sup>*\<^sup>* (0, a0) (i, a) \<Longrightarrow> step (i, a) (j, b) \<Longrightarrow> after i b"
  using before_reached linked transfer by blast

end

section \<open>The folding is sound\<close>

text \<open>The list before the instruction \<open>k\<close> is visited.\<close>

definition folded_until :: "(fp \<Rightarrow> fp \<Rightarrow> fp) \<Rightarrow> il_instruction_c list \<Rightarrow> nat \<Rightarrow> il_instruction_c list option" where
  "folded_until pow il k = visit_instructions pow [0..<k] (flow_control_analysis il)"

lemma visit_instructions_append:
  "visit_instructions pow (is @ js) il = Option.bind (visit_instructions pow is il) (visit_instructions pow js)"
proof (induction "is" arbitrary: il)
  case (Cons i "is")
  then show ?case by (cases "visit_instruction pow i il") simp_all
qed simp

lemma folded_until_simps [simp]:
  "folded_until pow il 0 = Some (flow_control_analysis il)"
  "folded_until pow il (Suc k) = Option.bind (folded_until pow il k) (visit_instruction pow k)"
proof -
  have "visit_instructions pow [k] = visit_instruction pow k" by (rule ext) (simp split: Option.bind_split)
  then show "folded_until pow il (Suc k) = Option.bind (folded_until pow il k) (visit_instruction pow k)"
    by (simp add: folded_until_def visit_instructions_append)
qed (simp add: folded_until_def)

lemma visit_instruction_nth:
  assumes "visit_instruction pow i z = Some z'"
  shows "length z' = length z" "j \<noteq> i \<Longrightarrow> z' ! j = z ! j" "i < length z \<Longrightarrow> prev_il_instruction (z' ! i) = prev_il_instruction (z ! i)"
  using assms by (auto simp: visit_instruction_def Let_def bind_eq_Some_conv split: option.splits)

lemma folded_until_later:
  assumes "folded_until pow il k = Some z"
  shows "length z = length (flow_control_analysis il)" "k \<le> j \<Longrightarrow> z ! j = flow_control_analysis il ! j"
  using assms
  by (induction k arbitrary: z j) (auto simp: bind_eq_Some_conv visit_instruction_nth)

lemma folded_until_earlier:
  assumes "folded_until pow il k = Some z" "i < k"
  shows "\<exists>x y. folded_until pow il i = Some x \<and> visit_instruction pow i x = Some y \<and> z ! i = y ! i"
  using assms
proof (induction k arbitrary: z)
  case (Suc k)
  then obtain x where x: "folded_until pow il k = Some x" "visit_instruction pow k x = Some z" by (auto simp: bind_eq_Some_conv)
  show ?case
  proof (cases "i = k")
    case False
    then have "i < k" using Suc.prems(2) by simp
    from Suc.IH [OF x(1) this] show ?thesis using visit_instruction_nth(2) [OF x(2) False] by auto
  qed (use x in blast)
qed simp

lemma fold_program_until: "fold_program pow il = folded_until pow il (length il)"
  by (simp add: fold_program_def folded_until_def)

text \<open>A program as the parser builds it, without \<open>ANDN\<close> and \<open>ORN\<close>.\<close>

definition fresh_instruction :: "il_instruction_c \<Rightarrow> bool" where
  "fresh_instruction x \<longleftrightarrow> il_cv x = no_value \<and> prev_il_instruction x = [] \<and> next_il_instruction x = [] \<and>
     (case il_instruction x of None \<Rightarrow> True | Some y \<Rightarrow> fresh_op y)"

definition fresh_program :: "il_instruction_c list \<Rightarrow> bool" where
  "fresh_program il \<longleftrightarrow> list_all fresh_instruction il"

definition il_before :: "(fp \<Rightarrow> fp \<Rightarrow> fp) \<Rightarrow> il_instruction_c list \<Rightarrow> nat \<Rightarrow> val \<Rightarrow> bool" where
  "il_before pow il i a \<longleftrightarrow> (fresh_program il \<longrightarrow> fold_program pow il \<noteq> None \<longrightarrow>
     (\<forall>z. folded_until pow il i = Some z \<longrightarrow> prev_il_instruction (z ! i) \<noteq> [] \<longrightarrow> ok (intersect_prev_cvalues z (z ! i)) a))"

definition il_after :: "(fp \<Rightarrow> fp \<Rightarrow> fp) \<Rightarrow> il_instruction_c list \<Rightarrow> nat \<Rightarrow> val \<Rightarrow> bool" where
  "il_after pow il i b \<longleftrightarrow> (fresh_program il \<longrightarrow>
     (\<forall>il'. fold_program pow il = Some il' \<longrightarrow> ok (il_cv (il' ! i)) b))"

lemma flow_control_code: "same_code il (flow_control_analysis il)"
  using flow_control_links [of il] by (simp add: linked_until_def flow_control_analysis_def)

lemma flow_control_prev:
  "i < length il \<Longrightarrow> jumps_to il i d \<Longrightarrow> i \<in> prev_set (flow_control_analysis il) d"
  "0 < i \<Longrightarrow> i < length il \<Longrightarrow> \<not> unconditional il (i - 1) \<Longrightarrow> i - 1 \<in> prev_set (flow_control_analysis il) i"
  "j < length il \<Longrightarrow> prev_set (flow_control_analysis il) j \<subseteq> prev_set il j \<union> {..<length il}"
  using flow_control_links [of il] by (simp_all add: linked_until_def flow_control_analysis_def)

lemma il_step_linked:
  assumes "il_step il (i, a) (j, b)"
  shows "i < length il \<and> (j < length il \<longrightarrow> i \<in> prev_set (flow_control_analysis il) j)"
  using assms
proof cases
  case (step_jump oper c l)
  then show ?thesis using flow_control_prev(1) [of i il j] by (simp add: jumps_to_def)
next
  case (step_op x)
  then show ?thesis using flow_control_prev(2) [of "Suc i" il] by (auto simp: unconditional_def split: il_op.splits)
qed (use flow_control_prev(2) [of "Suc i" il] in \<open>auto simp: unconditional_def\<close>)

lemma il_step_exec:
  assumes "il_step il (i, a) (j, b)"
  shows "i < length il \<and> (il_instruction (il ! i) = None \<and> b = a \<or> (\<exists>x. il_instruction (il ! i) = Some x \<and> exec_op a x b))"
  using assms by cases (auto intro: exec_jump exec_return)

lemma fresh_nth: "fresh_program il \<Longrightarrow> i < length il \<Longrightarrow> fresh_instruction (il ! i)"
  by (simp add: fresh_program_def list_all_length)

lemma il_transfer:
  assumes "il_step il (i, a) (j, b)" "il_before pow il i a"
  shows "il_after pow il i b"
  unfolding il_after_def
proof (intro impI allI)
  fix il'
  assume f: "fresh_program il" and y: "fold_program pow il = Some il'"
  have i: "i < length il" using il_step_exec [OF assms(1)] by simp
  obtain z z' where z: "folded_until pow il i = Some z" "visit_instruction pow i z = Some z'" "il' ! i = z' ! i"
    using folded_until_earlier [of pow il "length il" il' i] y i by (auto simp: fold_program_until)
  have l: "length z = length il" using folded_until_later(1) [OF z(1)] flow_control_code [of il] by (simp add: same_code_def)
  have zi: "il_instruction (z ! i) = il_instruction (il ! i)" "il_cv (z ! i) = no_value"
    using folded_until_later(2) [OF z(1), of i] same_codeD [OF flow_control_code i] fresh_nth [OF f i] by (simp_all add: fresh_instruction_def)
  have c: "ok (intersect_prev_cvalues z (z ! i)) a" if "prev_il_instruction (z ! i) \<noteq> []"
    using assms(2) f y z(1) that by (simp add: il_before_def)
  show "ok (il_cv (il' ! i)) b"
  proof (cases "il_instruction (il ! i)")
    case None
    then have "il_cv (il' ! i) = intersect_prev_cvalues z (z ! i)" "b = a"
      using z i l zi il_step_exec [OF assms(1)] by (auto simp: visit_instruction_def Let_def)
    then show ?thesis using c zi(2) by (cases "prev_il_instruction (z ! i)") (auto simp: intersect_prev_cvalues_def)
  next
    case (Some x)
    then obtain y where y: "visit_op pow True (if prev_il_instruction (z ! i) = [] then None else Some (intersect_prev_cvalues z (z ! i))) x = Some y"
      "il_cv (il' ! i) = op_cv y" using z i l zi by (auto simp: visit_instruction_def Let_def bind_eq_Some_conv)
    have "exec_op a x b" "fresh_op x" using il_step_exec [OF assms(1)] fresh_nth [OF f i] Some by (simp_all add: fresh_instruction_def)
    moreover have "ok d a" if "(if prev_il_instruction (z ! i) = [] then None else Some (intersect_prev_cvalues z (z ! i))) = Some d" for d
      using that c by (simp split: if_splits)
    ultimately show ?thesis using visit_op_ok(1) [OF _ _ y(1)] y(2) by simp
  qed
qed

lemma il_join:
  assumes "j < length il" "i < length il" "i \<in> prev_set (flow_control_analysis il) j" "il_after pow il i b"
  shows "il_before pow il j b"
  unfolding il_before_def
proof (intro impI allI)
  fix z
  assume f: "fresh_program il" "fold_program pow il \<noteq> None" and z: "folded_until pow il j = Some z"
  then obtain il' where y: "fold_program pow il = Some il'" by blast
  have "ok (il_cv (z ! i)) b"
  proof (cases "i < j")
    case True
    obtain x x' where x: "folded_until pow il i = Some x" "visit_instruction pow i x = Some x'" "z ! i = x' ! i"
      using folded_until_earlier [OF z True] by blast
    moreover obtain w w' where "folded_until pow il i = Some w" "visit_instruction pow i w = Some w'" "il' ! i = w' ! i"
      using folded_until_earlier [of pow il "length il" il' i] y assms(2) by (auto simp: fold_program_until)
    ultimately show ?thesis using assms(4) f(1) y by (simp add: il_after_def)
  next
    case False
    then have "il_cv (z ! i) = no_value"
      using folded_until_later(2) [OF z, of i] same_codeD [OF flow_control_code assms(2)] fresh_nth [OF f(1) assms(2)]
      by (simp add: fresh_instruction_def)
    then show ?thesis by simp
  qed
  moreover have "i \<in> set (prev_il_instruction (z ! j))" using assms(3) folded_until_later(2) [OF z, of j] by (simp add: prev_set_def)
  ultimately show "ok (intersect_prev_cvalues z (z ! j)) b" by (rule intersect_ok)
qed

lemma il_entry:
  assumes "0 < length il"
  shows "il_before pow il 0 a"
  unfolding il_before_def
proof (intro impI allI)
  fix z
  assume f: "fresh_program il" and z: "folded_until pow il 0 = Some z" and p: "prev_il_instruction (z ! 0) \<noteq> []"
  then obtain p where p: "p \<in> set (prev_il_instruction (z ! 0))" by (metis list.set_intros(1) neq_Nil_conv)
  have "p < length il" using p z flow_control_prev(3) [OF assms] fresh_nth [OF f assms] by (auto simp: prev_set_def fresh_instruction_def)
  then have "il_cv (z ! p) = no_value"
    using z same_codeD(2) [OF flow_control_code, of p il] fresh_nth [OF f, of p] by (simp add: fresh_instruction_def)
  then have "ok (il_cv (z ! p)) a" by simp
  then show "ok (intersect_prev_cvalues z (z ! 0)) a" using p by (rule intersect_ok)
qed

interpretation folding: forward_analysis "length il" "il_step il" "prev_set (flow_control_analysis il)" "il_before pow il" "il_after pow il"
  for pow il
  by unfold_locales (use il_step_linked il_transfer il_join il_entry in blast)+

text \<open>C33: The constants of an Instruction List program are sound, if the program has no \<open>ANDN\<close> and no \<open>ORN\<close>,
  has just been parsed (nothing is folded or linked yet), and its values are signed 64-bit integers and
  Booleans: whatever way an execution takes, and whatever the variables hold, when the folding succeeds,
  the accumulator after an instruction is the \<open>int64\<close> or \<open>BOOL\<close> constant that the compiler has folded for it,
  if it has folded one. For \<open>ANDN\<close> and \<open>ORN\<close> this is false (\<open>ANDN_folded_wrongly\<close>).\<close>

theorem il_folding_sound:
  assumes "fold_program pow il = Some il'" "fresh_program il"
    and "(il_step il)\<^sup>*\<^sup>* (0, a0) (i, a)" "il_step il (i, a) (j, b)"
  shows "agrees (il_cv (il' ! i)) b"
  using folding.after_reached [OF assms(3,4), of pow] assms(1,2) by (simp add: il_after_def ok_agrees)

definition instruction :: "string option \<Rightarrow> il_op option \<Rightarrow> il_instruction_c" where
  "instruction l x = \<lparr>il_label = l, il_instruction = x, il_cv = no_value, prev_il_instruction = [], next_il_instruction = []\<rparr>"

definition simple :: "il_operator \<Rightarrow> symbol_c option \<Rightarrow> il_instruction_c" where
  "simple oper e = instruction None (Some (il_simple_operation_c oper no_value e))"

definition demo :: "il_instruction_c list" where
  "demo = [simple LD_operator (Some (boolean_true_c no_value)),
     instruction None (Some (il_jump_operation_c JMPC_operator no_value ''end'')),
     simple LDN_operator (Some (boolean_false_c no_value)),
     instruction (Some ''END'') (Some (il_simple_operation_c NOT_operator no_value None))]"

lemma simple_step:
  assumes "i < length il" "il ! i = simple oper e" "exec_op a (il_simple_operation_c oper no_value e) b"
  shows "il_step il (i, a) (Suc i, b)"
  using assms by (intro step_op [where x = "il_simple_operation_c oper no_value e"]) (simp_all add: simple_def instruction_def)

theorem il_folding_sound_witness:
  "\<forall>pow. \<exists>il'. fold_program pow demo = Some il' \<and> cvalue (c_bool (il_cv (il' ! 3))) = Some False \<and> agrees (il_cv (il' ! 3)) (VB False)" (is "\<forall>pow. ?P pow")
proof
  fix pow
  have "map_option (\<lambda>il'. cvalue (c_bool (il_cv (il' ! 3)))) (fold_program pow demo) = Some (Some False)" by code_simp
  then obtain il' where f: "fold_program pow demo = Some il'" "cvalue (c_bool (il_cv (il' ! 3))) = Some False" by auto
  have p: "fresh_program demo" by (simp add: demo_def fresh_program_def fresh_instruction_def simple_def instruction_def sound_operator_def)
  have "exec_op (VB True) (il_simple_operation_c LD_operator no_value (Some (boolean_true_c no_value))) (VB True)"
    by (rule exec_simple [where w = "VB True"]) simp_all
  then have "il_step demo (0, VB True) (1, VB True)" using simple_step [of 0 demo] by (simp add: demo_def)
  moreover have e: "compare_identifiers ''end'' ''END''" by code_simp
  have "il_step demo (1, VB True) (3, VB True)"
    by (rule step_jump [where oper = JMPC_operator and l = "''end''" and c = no_value])
      (simp_all add: demo_def instruction_def simple_def e)
  ultimately have r: "(il_step demo)\<^sup>*\<^sup>* (0, VB True) (3, VB True)" by (meson r_into_rtranclp rtranclp_trans)
  have "exec_op (VB True) (il_simple_operation_c NOT_operator no_value None) (VB False)" by (rule exec_simple0) simp
  then have "il_step demo (3, VB True) (4, VB False)"
    using step_op [of 3 demo _ "VB True" "VB False"] by (simp add: demo_def instruction_def)
  from il_folding_sound [OF f(1) p r this] f show "?P pow" by blast
qed

text \<open>
  The compiler folds \<open>ANDN\<close> as the negation of \<open>AND\<close>: \<open>FALSE ANDN FALSE\<close> becomes \<open>TRUE\<close>, where the
  program computes \<open>FALSE\<close>.
\<close>

definition andn_demo :: "il_instruction_c list" where
  "andn_demo = [simple LD_operator (Some (boolean_false_c no_value)), simple ANDN_operator (Some (boolean_false_c no_value))]"

lemma ANDN_folded_wrongly:
  "map_option (\<lambda>il'. cvalue (c_bool (il_cv (il' ! 1)))) (fold_program pow andn_demo) = Some (Some True)"
  "il_step andn_demo (0, a) (1, VB False)" "il_step andn_demo (1, VB False) (2, VB False)"
proof -
  show "map_option (\<lambda>il'. cvalue (c_bool (il_cv (il' ! 1)))) (fold_program pow andn_demo) = Some (Some True)" by code_simp
  have "exec_op a (il_simple_operation_c LD_operator no_value (Some (boolean_false_c no_value))) (VB False)"
    "exec_op (VB False) (il_simple_operation_c ANDN_operator no_value (Some (boolean_false_c no_value))) (VB False)"
    by (rule exec_simple [where w = "VB False"]; simp)+
  then show "il_step andn_demo (0, a) (1, VB False)" "il_step andn_demo (1, VB False) (2, VB False)"
    using simple_step [of 0 andn_demo LD_operator] simple_step [of 1 andn_demo ANDN_operator]
    by (simp_all add: andn_demo_def numeral_2_eq_2)
qed

end
