(* ===== verification/RangeChecks.thy ===== *)
theory RangeChecks
  imports IlFolding
begin

text \<open>
  The checks of matiec that use the folded constants: subscripts against the bounds of an array and the
  number of elements of a subrange (\<open>src/matiec_src/stage3/array_range_check.cc\<close>), and the elements of
  a \<open>CASE\<close> statement against each other (\<open>case_elements_check.cc\<close>).
\<close>

section \<open>Dimensions of an array\<close>

record subrange_c =
  lower_limit :: symbol_c
  upper_limit :: symbol_c

text \<open>
  \<open>array_dimension_iterator_c\<close>: \<open>next\<close> walks over all subranges until it comes to the one after the
  current one; a subrange is its position in the list. The result is the new current subrange; behind
  the last one there is none, and the iteration starts over.
\<close>

fun iterate_subranges :: "nat \<Rightarrow> nat \<Rightarrow> nat option \<Rightarrow> nat option" where
  "iterate_subranges 0 i current = None"
| "iterate_subranges (Suc n) i current =
     (if current = Some i then iterate_subranges n (Suc i) None
      else if current = None then Some i
      else iterate_subranges n (Suc i) current)"

definition next_dimension :: "subrange_c list \<Rightarrow> nat option \<Rightarrow> nat option" where
  "next_dimension dims current = iterate_subranges (length dims) 0 current"

text \<open>The loop of \<open>check_dimension_count\<close>, and whether it reports an error.\<close>

partial_function (option) count_dimensions :: "subrange_c list \<Rightarrow> nat option \<Rightarrow> nat \<Rightarrow> nat option" where
  "count_dimensions dims current n = (case next_dimension dims current of
     None \<Rightarrow> Some n | Some i \<Rightarrow> count_dimensions dims (Some i) (Suc n))"

definition check_dimension_count :: "subrange_c list \<Rightarrow> symbol_c list \<Rightarrow> bool option" where
  "check_dimension_count dims subscripts =
     map_option (\<lambda>n. n \<noteq> length subscripts) (count_dimensions dims None 0)"

section \<open>Bounds\<close>

text \<open>The difference is computed as \<open>int64_t\<close> and returned as \<open>int\<close>.\<close>

definition cmp_unsigned_signed :: "int \<Rightarrow> int \<Rightarrow> int option" where
  "cmp_unsigned_signed u s = (if u \<le> INT64_MAX then map_option (conv IEC_DINT) (i64 (u - s)) else Some (- 1))"

definition when_valid :: "'a const_value__ \<Rightarrow> 'b const_value__ \<Rightarrow> ('a \<Rightarrow> 'b \<Rightarrow> bool option) \<Rightarrow> bool option" where
  "when_valid a b test = (if is_valid a \<and> is_valid b then test (cv_value a) (cv_value b) else Some False)"

text \<open>One subscript: the tests in their order, until one of them reports an error.\<close>

fun first_error :: "(unit \<Rightarrow> bool option) list \<Rightarrow> bool option" where
  "first_error [] = Some False"
| "first_error (t # ts) = do { e \<leftarrow> t (); if e then Some True else first_error ts }"

definition check_subscript :: "const_value_c \<Rightarrow> subrange_c \<Rightarrow> bool option" where
  "check_subscript x subr =
     (let l = const_value (lower_limit subr); u = const_value (upper_limit subr)
      in first_error
        [\<lambda>_. when_valid (c_int64 x) (c_int64 l) (\<lambda>x l. Some (x < l)),
         \<lambda>_. when_valid (c_int64 x) (c_uint64 l) (\<lambda>x l. map_option (\<lambda>d. d > 0) (cmp_unsigned_signed l x)),
         \<lambda>_. when_valid (c_uint64 x) (c_uint64 l) (\<lambda>x l. Some (x < l)),
         \<lambda>_. when_valid (c_uint64 x) (c_int64 l) (\<lambda>x l. map_option (\<lambda>d. d < 0) (cmp_unsigned_signed x l)),
         \<lambda>_. when_valid (c_int64 x) (c_int64 u) (\<lambda>x u. Some (x > u)),
         \<lambda>_. when_valid (c_int64 x) (c_uint64 u) (\<lambda>x u. map_option (\<lambda>d. d < 0) (cmp_unsigned_signed u x)),
         \<lambda>_. when_valid (c_uint64 x) (c_uint64 u) (\<lambda>x u. Some (x > u)),
         \<lambda>_. when_valid (c_uint64 x) (c_int64 u) (\<lambda>x u. map_option (\<lambda>d. d > 0) (cmp_unsigned_signed x u))])"

text \<open>\<open>check_bounds\<close>: the number of errors.\<close>

fun check_bounds :: "subrange_c list \<Rightarrow> nat option \<Rightarrow> symbol_c list \<Rightarrow> nat option" where
  "check_bounds dims current [] = Some 0"
| "check_bounds dims current (x # xs) = (case next_dimension dims current of
     None \<Rightarrow> Some 0
   | Some i \<Rightarrow> do {
       e \<leftarrow> check_subscript (const_value x) (dims ! i);
       n \<leftarrow> check_bounds dims (Some i) xs;
       Some (if e then Suc n else n) })"

text \<open>\<open>visit(subrange_c *)\<close>: the errors and the dimension, an \<open>unsigned long long\<close>.\<close>

definition visit_subrange :: "subrange_c \<Rightarrow> (nat \<times> int) option" where
  "visit_subrange symbol =
     (let l = const_value (lower_limit symbol); u = const_value (upper_limit symbol); ull = (\<lambda>n. n mod 18446744073709551616)
      in do {
        (errors, dimension) \<leftarrow>
          (if is_valid (c_int64 u) \<and> is_valid (c_int64 l) then
             if cv_value (c_int64 l) > cv_value (c_int64 u) then Some (1, UINT64_MAX - 1)
             else if cv_value (c_int64 l) \<ge> 0 then map_option (Pair 0 \<circ> ull) (i64 (cv_value (c_int64 u) - cv_value (c_int64 l)))
             else do { d \<leftarrow> i64 (- cv_value (c_int64 l)); Some (0, ull (d + cv_value (c_int64 u))) }
           else if is_valid (c_uint64 u) \<and> is_valid (c_uint64 l) then
             if cv_value (c_uint64 l) > cv_value (c_uint64 u) then Some (1, UINT64_MAX - 1)
             else Some (0, ull (cv_value (c_uint64 u) - cv_value (c_uint64 l)))
           else if is_valid (c_uint64 u) \<and> is_valid (c_int64 l) then
             if cv_value (c_int64 l) \<ge> 0 then Some (0, ull (cv_value (c_uint64 u) - cv_value (c_int64 l)))
             else do {
               lower_ull \<leftarrow> i64 (- cv_value (c_int64 l));
               let d = ull (cv_value (c_uint64 u) + lower_ull);
               Some (if d < lower_ull then 1 else 0, d) }
           else if \<not> is_valid (c_uint64 u) \<and> \<not> is_valid (c_int64 u) then Some (1, UINT64_MAX - 1)
           else if \<not> is_valid (c_uint64 l) \<and> \<not> is_valid (c_int64 l) then Some (1, UINT64_MAX - 1)
           else None);
        Some (if dimension = UINT64_MAX then Suc errors else errors, ull (dimension + 1)) })"

section \<open>Elements of CASE statements\<close>

datatype case_list_element = case_subrange subrange_c | case_symbol symbol_c

definition less_than :: "const_value_c \<Rightarrow> const_value_c \<Rightarrow> bool" where
  "less_than s1 s2 \<longleftrightarrow>
     is_valid (c_int64 s1) \<and> is_valid (c_int64 s2) \<and> cv_value (c_int64 s1) < cv_value (c_int64 s2) \<or>
     is_valid (c_uint64 s1) \<and> is_valid (c_uint64 s2) \<and> cv_value (c_uint64 s1) < cv_value (c_uint64 s2) \<or>
     is_valid (c_int64 s1) \<and> is_valid (c_uint64 s2) \<and> cv_value (c_int64 s1) < 0"

definition is_int_const :: "const_value_c \<Rightarrow> bool" where
  "is_int_const c \<longleftrightarrow> is_valid (c_int64 c) \<or> is_valid (c_uint64 c)"

fun check_subr_subr :: "case_list_element \<Rightarrow> case_list_element \<Rightarrow> bool" where
  "check_subr_subr (case_subrange sub1) (case_subrange sub2) =
     (let l1 = const_value (lower_limit sub1); u1 = const_value (upper_limit sub1);
          l2 = const_value (lower_limit sub2); u2 = const_value (upper_limit sub2)
      in \<not> less_than u1 l2 \<and> \<not> less_than u2 l1 \<and>
         is_int_const l1 \<and> is_int_const l2 \<and> is_int_const u1 \<and> is_int_const u2)"
| "check_subr_subr _ _ = False"

definition symbol_in_subrange :: "const_value_c \<Rightarrow> subrange_c \<Rightarrow> bool" where
  "symbol_in_subrange symb subr =
     (let lowl = const_value (lower_limit subr); uppl = const_value (upper_limit subr)
      in is_valid (c_int64 symb) \<and> is_valid (c_int64 lowl) \<and> is_valid (c_int64 uppl) \<and>
           cv_value (c_int64 symb) \<ge> cv_value (c_int64 lowl) \<and> cv_value (c_int64 symb) \<le> cv_value (c_int64 uppl) \<or>
         is_valid (c_uint64 symb) \<and> is_valid (c_int64 lowl) \<and> is_valid (c_uint64 uppl) \<and>
           cv_value (c_int64 lowl) < 0 \<and> cv_value (c_uint64 symb) \<le> cv_value (c_uint64 uppl) \<or>
         is_valid (c_uint64 symb) \<and> is_valid (c_uint64 lowl) \<and> is_valid (c_uint64 uppl) \<and>
           cv_value (c_uint64 symb) \<ge> cv_value (c_uint64 lowl) \<and> cv_value (c_uint64 symb) \<le> cv_value (c_uint64 uppl))"

text \<open>
  The second of the two casts overwrites \<open>subr\<close> whatever the first has found: a subrange in front of a
  symbol is forgotten again, and of two subranges the first, which has no value, is \<open>symb\<close>.
\<close>

fun check_subr_symb :: "case_list_element \<Rightarrow> case_list_element \<Rightarrow> bool" where
  "check_subr_symb (case_subrange subr) (case_symbol symb) = False"
| "check_subr_symb (case_symbol symb) (case_subrange subr) = symbol_in_subrange (const_value symb) subr"
| "check_subr_symb (case_subrange subr1) (case_subrange subr2) = symbol_in_subrange no_value subr2"
| "check_subr_symb _ _ = False"

text \<open>The text of a symbol of the class \<open>token_c\<close>.\<close>

fun token_value :: "symbol_c \<Rightarrow> string option" where
  "token_value (number_c c k v) = Some v"
| "token_value (real_c c v) = Some v"
| "token_value _ = None"

definition same_token :: "symbol_c \<Rightarrow> symbol_c \<Rightarrow> bool" where
  "same_token s t = (case (token_value s, token_value t) of (Some v, Some w) \<Rightarrow> compare_identifiers v w | _ \<Rightarrow> False)"

fun check_symb_symb :: "case_list_element \<Rightarrow> case_list_element \<Rightarrow> bool" where
  "check_symb_symb (case_symbol s1) (case_symbol s2) =
     (is_const (const_value s1) \<and> is_const (const_value s2) \<and> const_value_eq (const_value s1) (const_value s2) \<or> same_token s1 s2)"
| "check_symb_symb _ _ = False"

datatype case_warning = overlapping_ranges | falls_within_range | duplicate_element

definition check_pair :: "case_list_element \<Rightarrow> case_list_element \<Rightarrow> case_warning list" where
  "check_pair s1 s2 = (if check_subr_subr s1 s2 then [overlapping_ranges] else []) @
     (if check_subr_symb s1 s2 then [falls_within_range] else []) @
     (if check_symb_symb s2 s1 then [duplicate_element] else [])"

text \<open>The two loops of \<open>visit(case_statement_c *)\<close>, with the positions of the two elements.\<close>

definition check_case_elements :: "case_list_element list \<Rightarrow> (nat \<times> nat \<times> case_warning) list" where
  "check_case_elements els = concat (map (\<lambda>i. concat (map (\<lambda>j.
     map (\<lambda>w. (i, j, w)) (check_pair (els ! i) (els ! j))) [Suc i..<length els])) [0..<length els])"

text \<open>
  Statements; \<open>other_statement\<close> is one that the iterator visits to its parts. The visitor keeps the
  elements in one list, which a \<open>CASE\<close> inside another one saves and restores. The \<open>ELSE\<close> part of a
  \<open>CASE\<close> is not visited.
\<close>

datatype statement = case_statement_c "case_element_c list" "statement list" | other_statement "statement list"
  and case_element_c = case_element_c "case_list_element list" "statement list"

type_synonym case_state = "case_list_element list \<times> (nat \<times> nat \<times> case_warning) list"

fun visit_statement :: "statement \<Rightarrow> case_state \<Rightarrow> case_state"
  and visit_statement_list :: "statement list \<Rightarrow> case_state \<Rightarrow> case_state"
  and visit_case_element_list :: "case_element_c list \<Rightarrow> case_state \<Rightarrow> case_state" where
  "visit_statement (case_statement_c els otherwise) (list, ws) =
     (let case_elements_list_local = list; (list, ws) = visit_case_element_list els ([], ws)
      in (case_elements_list_local, ws @ check_case_elements list))"
| "visit_statement (other_statement ss) s = visit_statement_list ss s"
| "visit_statement_list [] s = s"
| "visit_statement_list (x # xs) s = visit_statement_list xs (visit_statement x s)"
| "visit_case_element_list [] s = s"
| "visit_case_element_list (case_element_c cl ss # els) (list, ws) =
     visit_case_element_list els (visit_statement_list ss (list @ cl, ws))"

section \<open>Folded literals\<close>

text \<open>A literal as the parser builds it, and its value.\<close>

fun number_prefix :: "number \<Rightarrow> string" where
  "number_prefix integer_n = []" | "number_prefix hex_integer_n = ''16#''" | "number_prefix octal_integer_n = ''8#''"
| "number_prefix binary_integer_n = ''2#''"

fun literal :: "symbol_c \<Rightarrow> int \<Rightarrow> bool" where
  "literal (number_c c k v) x \<longleftrightarrow> c = no_value \<and> (\<exists>w. v = number_prefix k @ w) \<and> map_option int (number_value k v) = Some x"
| "literal (neg_integer_c c (number_c c' k v)) x \<longleftrightarrow> c = no_value \<and> c' = no_value \<and> k = integer_n \<and>
     map_option (\<lambda>n. - int n) (number_value k v) = Some x"
| "literal _ x \<longleftrightarrow> False"

definition folded :: "(fp \<Rightarrow> fp \<Rightarrow> fp) \<Rightarrow> symbol_c \<Rightarrow> int \<Rightarrow> bool" where
  "folded pow s x \<longleftrightarrow> INT64_MIN \<le> x \<and> x \<le> UINT64_MAX \<and> (\<exists>e. literal e x \<and> visit pow e = Some s)"

definition exact_cv :: "const_value_c \<Rightarrow> int \<Rightarrow> bool" where
  "exact_cv c x \<longleftrightarrow> cvalue (c_int64 c) = int64_fit x \<and> cvalue (c_uint64 c) = uint64_fit x \<and>
     (\<not> is_valid (c_int64 c) \<longrightarrow> is_overflow (c_int64 c)) \<and> (\<not> is_valid (c_uint64 c) \<longrightarrow> is_overflow (c_uint64 c)) \<and>
     c_real64 c = c_real64 no_value \<and> c_bool c = c_bool no_value"

lemma handle_neg_integer_overflow:
  assumes "handle_neg_integer no_value a = Some c" "is_valid (c_int64 a) \<or> is_overflow (c_int64 a)" "is_valid (c_uint64 a) \<or> is_overflow (c_uint64 a)"
  shows "is_valid (c_int64 c) \<or> is_overflow (c_int64 c)" "is_valid (c_uint64 c) \<or> is_overflow (c_uint64 c)"
    "c_real64 c = c_real64 no_value" "c_bool c = c_bool no_value"
proof -
  have [simp]: "is_overflow (set_overflow y)" for y :: "int const_value__" by (simp add: is_overflow_def set_overflow_def)
  have u: "is_valid (CHECK_OVERFLOW_uint64_NEG y z) \<or> is_overflow (CHECK_OVERFLOW_uint64_NEG y z)" if "is_valid y" for y z
    using that by (simp add: CHECK_OVERFLOW_uint64_NEG_def)
  have i: "is_valid (CHECK_OVERFLOW_int64_NEG y z) \<or> is_overflow (CHECK_OVERFLOW_int64_NEG y z)" if "is_valid y" for y z
    using that by (simp add: CHECK_OVERFLOW_int64_NEG_def)
  have v: "is_valid y" if "DO_UNARY_OPER f s x = Some y" "is_valid x" for f s and x y :: "int const_value__"
    using that by (auto simp: DO_UNARY_OPER_def)
  obtain p q where q: "DO_UNARY_OPER (\<lambda>x. u64 (- x)) (c_uint64 no_value) (c_uint64 a) = Some p"
    "DO_UNARY_OPER (\<lambda>x. i64 (- x)) (c_int64 no_value) (c_int64 a) = Some q"
    "c = no_value\<lparr>c_uint64 := if is_overflow (c_uint64 a) then set_overflow (CHECK_OVERFLOW_uint64_NEG p (c_uint64 a)) else CHECK_OVERFLOW_uint64_NEG p (c_uint64 a),
      c_int64 := if is_valid (c_uint64 a) \<and> cv_value (c_uint64 a) = INT64_MAX + 1
        then set_cv (if is_overflow (c_int64 a) then set_overflow (CHECK_OVERFLOW_int64_NEG q (c_int64 a)) else CHECK_OVERFLOW_int64_NEG q (c_int64 a)) INT64_MIN
        else if is_overflow (c_int64 a) then set_overflow (CHECK_OVERFLOW_int64_NEG q (c_int64 a)) else CHECK_OVERFLOW_int64_NEG q (c_int64 a)\<rparr>"
    using assms(1) unfolding handle_neg_integer_def Let_def bind_eq_Some_conv by blast
  show "is_valid (c_int64 c) \<or> is_overflow (c_int64 c)" using assms(2) i [OF v [OF q(2)]] unfolding q(3) by simp blast
  show "is_valid (c_uint64 c) \<or> is_overflow (c_uint64 c)" using assms(3) u [OF v [OF q(1)]] unfolding q(3) by simp blast
qed (use assms(1) in \<open>auto simp: handle_neg_integer_def Let_def bind_eq_Some_conv\<close>)

lemma literal_exact:
  assumes "literal e x" "visit pow e = Some s"
  shows "exact_cv (const_value s) x"
proof (cases e)
  case (number_c c k v)
  then obtain n where n: "c = no_value" "number_value k v = Some n" "x = int n" using assms(1) by auto
  obtain i u where q: "literal_value (c_int64 no_value) (extract_int64_value k v) = Some i" "cvalue i = int64_fit (int n)"
    "literal_value (c_uint64 no_value) (extract_uint64_value k v) = Some u" "cvalue u = uint64_fit (int n)"
    "is_overflow i \<longleftrightarrow> INT64_MAX < int n" "is_overflow u \<longleftrightarrow> UINT64_MAX < int n" using number_values [OF n(2)] by blast
  then have "const_value s = no_value\<lparr>c_int64 := i, c_uint64 := u\<rparr>" using assms(2) number_c n by auto
  then show ?thesis using q n(3) by (auto simp: exact_cv_def cvalue_def int64_fit_def uint64_fit_def split: if_splits)
next
  case (neg_integer_c c e')
  then obtain v where v: "c = no_value" "e' = number_c no_value integer_n v" using assms(1) by (cases e') auto
  then obtain n where n: "number_value integer_n v = Some n" "x = - int n" using assms(1) neg_integer_c by auto
  obtain e'' where e: "visit pow (number_c no_value integer_n v) = Some e''" "handle_neg_integer no_value (const_value e'') = Some (const_value s)"
    using assms(2) neg_integer_c v by (auto simp: bind_eq_Some_conv simp del: visit.simps(1))
  have q: "cvalue (c_int64 (const_value s)) = int64_fit x" "cvalue (c_uint64 (const_value s)) = uint64_fit x"
    using handle_neg_integer_exact [OF n(1) e(1)] e(2) n(2) by auto
  obtain i u where "const_value e'' = no_value\<lparr>c_int64 := i, c_uint64 := u\<rparr>" "cvalue i = int64_fit (int n)" "cvalue u = uint64_fit (int n)"
    "is_overflow i \<longleftrightarrow> INT64_MAX < int n" "is_overflow u \<longleftrightarrow> UINT64_MAX < int n"
    using number_values [OF n(1)] e(1) by auto
  then have "is_valid (c_int64 (const_value e'')) \<or> is_overflow (c_int64 (const_value e''))"
    "is_valid (c_uint64 (const_value e'')) \<or> is_overflow (c_uint64 (const_value e''))"
    by (auto simp: int64_fit_def uint64_fit_def cvalue_def split: if_splits)
  from handle_neg_integer_overflow [OF e(2) this] show ?thesis using q by (auto simp: exact_cv_def)
qed (use assms(1) in simp_all)

lemma folded_exact: "folded pow s x \<Longrightarrow> exact_cv (const_value s) x"
  using literal_exact by (auto simp: folded_def)

lemma exact_cvD:
  assumes "exact_cv c x"
  shows "is_valid (c_int64 c) \<longleftrightarrow> INT64_MIN \<le> x \<and> x \<le> INT64_MAX" "is_valid (c_int64 c) \<Longrightarrow> cv_value (c_int64 c) = x"
    "is_valid (c_uint64 c) \<longleftrightarrow> 0 \<le> x \<and> x \<le> UINT64_MAX" "is_valid (c_uint64 c) \<Longrightarrow> cv_value (c_uint64 c) = x"
  using assms by (auto simp: exact_cv_def cvalue_def int64_fit_def uint64_fit_def split: if_splits)

section \<open>Subscripts\<close>

lemma iterate_subranges_spec:
  "iterate_subranges n i None = (if 0 < n then Some i else None)"
  "iterate_subranges n i (Some c) = (if i \<le> c \<and> Suc c < i + n then Some (Suc c) else None)"
proof -
  show a: "iterate_subranges n i None = (if 0 < n then Some i else None)" for n i by (cases n) simp_all
  show "iterate_subranges n i (Some c) = (if i \<le> c \<and> Suc c < i + n then Some (Suc c) else None)"
  proof (induction n arbitrary: i)
    case (Suc n)
    then show ?case by (cases "i = c") (auto simp: a)
  qed simp
qed

lemma next_dimension_spec [simp]:
  "next_dimension dims None = (if dims = [] then None else Some 0)"
  "next_dimension dims (Some c) = (if Suc c < length dims then Some (Suc c) else None)"
  by (auto simp: next_dimension_def iterate_subranges_spec)

lemma count_dimensions_length:
  "Suc c \<le> length dims \<Longrightarrow> count_dimensions dims (Some c) n = Some (n + (length dims - Suc c))"
proof (induction "length dims - Suc c" arbitrary: c n)
  case 0
  then show ?case by (subst count_dimensions.simps) simp
next
  case (Suc k)
  then have "Suc c < length dims" "k = length dims - Suc (Suc c)" by simp_all
  then show ?case using Suc.hyps(1) [of "Suc c" "Suc n"] by (subst count_dimensions.simps) simp
qed

lemma check_dimension_count_spec: "check_dimension_count dims xs = Some (length dims \<noteq> length xs)"
proof -
  have "count_dimensions dims None 0 = Some (length dims)"
    using count_dimensions_length [of 0 dims 1] by (subst count_dimensions.simps) (cases dims; simp)
  then show ?thesis by (simp add: check_dimension_count_def)
qed

definition previous :: "nat \<Rightarrow> nat option" where
  "previous k = (if k = 0 then None else Some (k - 1))"

lemma check_bounds_count:
  assumes "\<forall>i<min (length xs) (length dims - k). check_subscript (const_value (xs ! i)) (dims ! (k + i)) = Some (b i)"
  shows "check_bounds dims (previous k) xs = Some (length (filter b [0..<min (length xs) (length dims - k)]))"
  using assms
proof (induction xs arbitrary: k b)
  case (Cons x xs)
  have n: "next_dimension dims (previous k) = (if k < length dims then Some k else None)" by (cases k) (simp_all add: previous_def)
  show ?case
  proof (cases "k < length dims")
    case True
    let ?m = "min (length xs) (length dims - Suc k)"
    have "min (length (x # xs)) (length dims - k) = Suc ?m" using True by auto
    then have f: "length (filter b [0..<min (length (x # xs)) (length dims - k)]) = (if b 0 then Suc (length (filter (\<lambda>i. b (Suc i)) [0..<?m])) else length (filter (\<lambda>i. b (Suc i)) [0..<?m]))"
      by (simp add: upt_conv_Cons filter_map comp_def del: upt_Suc flip: map_Suc_upt)
    have "\<forall>i<?m. check_subscript (const_value (xs ! i)) (dims ! (Suc k + i)) = Some (b (Suc i))"
    proof (intro allI impI)
      fix i assume i: "i < ?m"
      then have "Suc i < length dims - k" by linarith
      with i show "check_subscript (const_value (xs ! i)) (dims ! (Suc k + i)) = Some (b (Suc i))"
        using Cons.prems [rule_format, of "Suc i"] True by simp
    qed
    then have "check_bounds dims (previous (Suc k)) xs = Some (length (filter (\<lambda>i. b (Suc i)) [0..<?m]))" by (rule Cons.IH)
    moreover have "check_subscript (const_value x) (dims ! k) = Some (b 0)" using Cons.prems [rule_format, of 0] True by simp
    ultimately show ?thesis using n True f by (simp add: previous_def)
  qed (use n in simp)
qed simp

text \<open>A range of a subrange, and a subscript that is not too far from it.\<close>

definition bounds :: "(fp \<Rightarrow> fp \<Rightarrow> fp) \<Rightarrow> subrange_c \<Rightarrow> int \<Rightarrow> int \<Rightarrow> bool" where
  "bounds pow r l u \<longleftrightarrow> folded pow (lower_limit r) l \<and> folded pow (upper_limit r) u"

definition near :: "int \<Rightarrow> int \<Rightarrow> bool" where
  "near x y \<longleftrightarrow> x \<le> INT64_MAX \<and> \<bar>x - y\<bar> < 2147483648"

lemma cmp_near:
  assumes "near u s" "0 \<le> u"
  shows "cmp_unsigned_signed u s = Some (u - s)"
proof -
  have d: "- 2147483648 < u - s" "u - s < 2147483648" "u \<le> INT64_MAX" using assms by (auto simp: near_def)
  then have "(u - s + 2147483648) mod 4294967296 = u - s + 2147483648" by (intro mod_pos_pos_trivial) linarith+
  then show ?thesis using d by (simp add: cmp_unsigned_signed_def i64_fit int64_fit_def conv_def)
qed

lemma check_subscript_exact:
  assumes "exact_cv c x" "exact_cv (const_value (lower_limit r)) l" "exact_cv (const_value (upper_limit r)) u"
    and "near x l" "near x u" "near l x" "near u x" "INT64_MIN \<le> x" "INT64_MIN \<le> l" "INT64_MIN \<le> u"
  shows "check_subscript c r = Some (\<not> (l \<le> x \<and> x \<le> u))"
proof -
  have m: "x \<le> INT64_MAX" "l \<le> INT64_MAX" "u \<le> INT64_MAX" using assms by (simp_all add: near_def)
  have i: "is_valid (c_int64 d) \<and> cv_value (c_int64 d) = n" if "exact_cv d n" "INT64_MIN \<le> n" "n \<le> INT64_MAX" for d n
    using exact_cvD(1,2) [OF that(1)] that(2,3) by simp
  have w: "is_valid (c_uint64 d) \<longleftrightarrow> 0 \<le> n" "is_valid (c_uint64 d) \<Longrightarrow> cv_value (c_uint64 d) = n" if "exact_cv d n" "n \<le> INT64_MAX" for d n
    using exact_cvD(3,4) [OF that(1)] that(2) by auto
  note v = i [OF assms(1,8) m(1)] i [OF assms(2,9) m(2)] i [OF assms(3,10) m(3)] w [OF assms(1) m(1)] w [OF assms(2) m(2)] w [OF assms(3) m(3)]
  show ?thesis unfolding check_subscript_def Let_def first_error.simps when_valid_def
    by (simp add: v cmp_near assms(4-7)) linarith?
qed

text \<open>C35: Array access with constant subscripts: the check reports exactly the subscripts out of the bounds, one
  error each, when subscripts and bounds are at most \<open>2^63-1\<close> and the bounds are less than \<open>2^31\<close> away
  from the subscripts. Beyond these limits the comparison is wrong, although its comment promises a result
  for all numbers (\<open>cmp_truncated\<close>, \<open>large_subscript_refused\<close>).\<close>

theorem check_bounds_exact:
  assumes "list_all2 (\<lambda>s x. folded pow s x) subscripts xs" "list_all2 (\<lambda>r (l, u). bounds pow r l u) dims lus"
    and "length xs = length lus"
    and "\<forall>i<length xs. near (xs ! i) (fst (lus ! i)) \<and> near (fst (lus ! i)) (xs ! i) \<and> near (xs ! i) (snd (lus ! i)) \<and> near (snd (lus ! i)) (xs ! i)"
  shows "check_dimension_count dims subscripts = Some False \<and>
    check_bounds dims None subscripts = Some (length (filter (\<lambda>i. \<not> (fst (lus ! i) \<le> xs ! i \<and> xs ! i \<le> snd (lus ! i))) [0..<length xs]))"
proof -
  have l: "length subscripts = length xs" "length dims = length xs" using assms(1-3) by (simp_all add: list_all2_lengthD)
  have "check_subscript (const_value (subscripts ! i)) (dims ! i) = Some (\<not> (fst (lus ! i) \<le> xs ! i \<and> xs ! i \<le> snd (lus ! i)))"
    if i: "i < length xs" for i
  proof -
    have s: "folded pow (subscripts ! i) (xs ! i)" using assms(1) i l by (simp add: list_all2_conv_all_nth)
    have "case lus ! i of (l, u) \<Rightarrow> bounds pow (dims ! i) l u" using assms(2,3) i by (simp add: list_all2_conv_all_nth)
    then have b: "folded pow (lower_limit (dims ! i)) (fst (lus ! i))" "folded pow (upper_limit (dims ! i)) (snd (lus ! i))"
      by (simp_all add: bounds_def split: prod.splits)
    then show ?thesis using assms(4) i s folded_exact [OF s] folded_exact [OF b(1)] folded_exact [OF b(2)]
      by (intro check_subscript_exact) (auto simp: folded_def)
  qed
  then show ?thesis using check_bounds_count [of subscripts dims 0] l by (simp add: previous_def check_dimension_count_spec)
qed

text \<open>
  Further away they go wrong: the difference is truncated to an \<open>int\<close>, and a number that is no
  \<open>int64_t\<close> counts as smaller than every other.
\<close>

lemma cmp_truncated: "cmp_unsigned_signed 0 2147483649 = Some 2147483647" "cmp_unsigned_signed 9223372036854775808 0 = Some (- 1)"
  "cmp_unsigned_signed 0 INT64_MIN = None"
  by (simp_all add: cmp_unsigned_signed_def i64_fit int64_fit_def conv_def)

text \<open>The subscript \<open>9223372036854775809\<close> lies in \<open>[0..9223372036854775900]\<close>, and in
  \<open>[9223372036854775800..9223372036854775900]\<close>: in both the lower limit is an \<open>int64_t\<close>, the difference
  counts as negative, and an error is reported.\<close>

lemma large_subscript_refused:
  assumes "exact_cv c x" "exact_cv (const_value (lower_limit r)) l" "INT64_MAX < x" "x \<le> UINT64_MAX" "0 \<le> l" "l \<le> INT64_MAX"
  shows "check_subscript c r = Some True"
proof -
  have c: "\<not> is_valid (c_int64 c)" "is_valid (c_uint64 c)" "cv_value (c_uint64 c) = x"
    and r: "is_valid (c_int64 (const_value (lower_limit r)))" "cv_value (c_int64 (const_value (lower_limit r))) = l"
      "is_valid (c_uint64 (const_value (lower_limit r)))" "cv_value (c_uint64 (const_value (lower_limit r))) = l"
    using exact_cvD [OF assms(1)] exact_cvD [OF assms(2)] assms(3-6) by auto
  show ?thesis unfolding check_subscript_def Let_def first_error.simps when_valid_def
    using assms(3-6) by (simp add: c r cmp_unsigned_signed_def)
qed

section \<open>The number of elements of a subrange\<close>

text \<open>C36: The dimension of a subrange of literals is its number of elements, and an error is reported exactly when
  the limits are the wrong way round or the number exceeds 64 bits. The compiler itself aborts or overflows
  only for the lower limits \<open>-2^63\<close> and those above \<open>2^63-1\<close> with a negative upper limit.\<close>

theorem subrange_dimension:
  assumes "bounds pow r l u"
  shows "visit_subrange r =
    (if l = INT64_MIN \<or> INT64_MAX < l \<and> u < 0 then None
     else Some (if u < l \<or> UINT64_MAX \<le> u - l then 1 else 0, if u < l then UINT64_MAX else (u - l + 1) mod 18446744073709551616))"
proof -
  have r: "INT64_MIN \<le> l" "l \<le> UINT64_MAX" "INT64_MIN \<le> u" "u \<le> UINT64_MAX"
    and e: "exact_cv (const_value (lower_limit r)) l" "exact_cv (const_value (upper_limit r)) u"
    using assms folded_exact by (auto simp: bounds_def folded_def)
  note v = exact_cvD [OF e(1)] exact_cvD [OF e(2)]
  have m: "n mod 18446744073709551616 = n" if "0 \<le> n" "n \<le> UINT64_MAX" for n using that by simp
  have w: "n mod 18446744073709551616 = n - 18446744073709551616" if "UINT64_MAX < n" "n \<le> 2 * UINT64_MAX" for n
    using minus_mod_self2 [of n 18446744073709551616] m [of "n - 18446744073709551616"] that by simp
  note d = visit_subrange_def Let_def
  consider "l \<le> INT64_MAX" "u \<le> INT64_MAX" "u < l" | "l \<le> INT64_MAX" "u \<le> INT64_MAX" "l \<le> u" "0 \<le> l"
    | "l \<le> INT64_MAX" "u \<le> INT64_MAX" "l \<le> u" "l < 0" | "0 \<le> l" "INT64_MAX < u" | "l < 0" "INT64_MAX < u"
    | "INT64_MAX < l" "0 \<le> u" "u \<le> INT64_MAX" | "INT64_MAX < l" "u < 0" by linarith
  then show ?thesis
  proof cases
    case 1
    then show ?thesis using r v by (simp add: d)
  next
    case 2
    then show ?thesis using r v m [of "u - l"] by (simp add: d i64_fit int64_fit_def)
  next
    case 3
    then have "(u - l) mod 18446744073709551616 = u - l" using r by (intro m) linarith+
    then show ?thesis using r v 3 by (auto simp: d i64_fit int64_fit_def)
  next
    case 4
    then show ?thesis using r v m [of "u - l"] by (auto simp: d)
  next
    case 5
    show ?thesis
    proof (cases "u - l \<le> UINT64_MAX")
      case True
      then show ?thesis using 5 r v m [of "u - l"] by (auto simp: d i64_fit int64_fit_def)
    next
      case False
      then show ?thesis using 5 r v w [of "u - l"] w [of "u - l + 1"] m [of "u - l + 1 - 18446744073709551616"] by (auto simp: d i64_fit int64_fit_def)
    qed
  next
    case 6
    then show ?thesis using r v by (simp add: d)
  next
    case 7
    then show ?thesis using r v by (simp add: d)
  qed
qed

section \<open>Overlapping elements\<close>


lemma symbol_in_subrange_exact:
  assumes "exact_cv c x" "exact_cv (const_value (lower_limit r)) l" "exact_cv (const_value (upper_limit r)) u"
    and "INT64_MIN \<le> x" "x \<le> UINT64_MAX" "INT64_MIN \<le> l" "l \<le> UINT64_MAX" "INT64_MIN \<le> u" "u \<le> UINT64_MAX"
  shows "symbol_in_subrange c r \<longleftrightarrow> l \<le> x \<and> x \<le> u \<and> \<not> (x < 0 \<and> INT64_MAX < u)"
proof -
  note v = exact_cvD [OF assms(1)] exact_cvD [OF assms(2)] exact_cvD [OF assms(3)]
  show ?thesis using assms(4-9) v(2,4,6,8,10,12) unfolding symbol_in_subrange_def Let_def v(1,3,5,7,9,11)
    by (cases "x \<le> INT64_MAX"; cases "l \<le> INT64_MAX"; cases "u \<le> INT64_MAX") auto
qed







section \<open>The elements of a CASE statement\<close>






text \<open>The two exceptions: \<open>-1\<close> lies in \<open>-5..9223372036854775808\<close>, and two equal enumerated values.\<close>

lemma overlap_missed:
  assumes "exact_cv c (- 1)" "exact_cv (const_value (lower_limit r)) (- 5)" "exact_cv (const_value (upper_limit r)) 9223372036854775808"
  shows "\<not> symbol_in_subrange c r"
  using symbol_in_subrange_exact [OF assms] by simp

lemma enumerated_duplicate_missed: "check_pair (case_symbol (other_c no_value v)) (case_symbol (other_c no_value v)) = []"
  by (simp add: check_pair_def same_token_def is_const_def no_value_def is_valid_def)

section \<open>Nested CASE statements\<close>

text \<open>What the visitor computes with its one list: every \<open>CASE\<close> by itself, the inner ones first.\<close>

fun statement_warnings :: "statement \<Rightarrow> (nat \<times> nat \<times> case_warning) list"
  and statements_warnings :: "statement list \<Rightarrow> (nat \<times> nat \<times> case_warning) list"
  and elements_warnings :: "case_element_c list \<Rightarrow> (nat \<times> nat \<times> case_warning) list" where
  "statement_warnings (case_statement_c els otherwise) =
     elements_warnings els @ check_case_elements (concat (map (\<lambda>e. case e of case_element_c cl ss \<Rightarrow> cl) els))"
| "statement_warnings (other_statement ss) = statements_warnings ss"
| "statements_warnings [] = []"
| "statements_warnings (x # xs) = statement_warnings x @ statements_warnings xs"
| "elements_warnings [] = []"
| "elements_warnings (case_element_c cl ss # els) = statements_warnings ss @ elements_warnings els"

lemma visit_statement_warnings:
  "visit_statement x (list, ws) = (list, ws @ statement_warnings x)"
  "visit_statement_list xs (list, ws) = (list, ws @ statements_warnings xs)"
  "visit_case_element_list els (list, ws) =
     (list @ concat (map (\<lambda>e. case e of case_element_c cl ss \<Rightarrow> cl) els), ws @ elements_warnings els)"
proof (induction x and xs and els arbitrary: list ws and list ws and list ws
    rule: statement_warnings_statements_warnings_elements_warnings.induct)
qed simp_all

section \<open>Witnesses\<close>

lemma folded_num:
  assumes "number_value integer_n v = Some n" "int n \<le> UINT64_MAX"
  shows "\<exists>s. visit pow (num v) = Some s \<and> folded pow s (int n)"
proof -
  obtain s where s: "visit pow (num v) = Some s" using number_values [OF assms(1)] by (auto simp: num_def)
  have "literal (num v) (int n)" using assms(1) by (simp add: num_def)
  then show ?thesis using s assms(2) by (auto simp: folded_def)
qed

lemma folded_digits: "\<exists>s. visit pow (num ''1'') = Some s \<and> folded pow s 1" "\<exists>s. visit pow (num ''5'') = Some s \<and> folded pow s 5"
  "\<exists>s. visit pow (num ''9'') = Some s \<and> folded pow s 9"
  using folded_num [of "''1''" 1 pow] folded_num [of "''5''" 5 pow] folded_num [of "''9''" 9 pow]
  by (simp_all add: number_value_def no_underscores_def digit_val_def)

theorem check_bounds_exact_witness:
  "\<forall>pow. \<exists>s l u. visit pow (num ''9'') = Some s \<and> visit pow (num ''1'') = Some l \<and> visit pow (num ''5'') = Some u \<and>
     check_bounds [\<lparr>lower_limit = l, upper_limit = u\<rparr>] None [s] = Some 1" (is "\<forall>pow. ?P pow")
proof
  fix pow
  obtain s l u where s: "visit pow (num ''9'') = Some s" "folded pow s 9" "visit pow (num ''1'') = Some l" "folded pow l 1"
    "visit pow (num ''5'') = Some u" "folded pow u 5" using folded_digits [of pow] by blast
  have "check_bounds [\<lparr>lower_limit = l, upper_limit = u\<rparr>] None [s] = Some 1"
    using check_bounds_exact [of pow "[s]" "[9]" "[\<lparr>lower_limit = l, upper_limit = u\<rparr>]" "[(1, 5)]"] s
    by (simp add: bounds_def near_def)
  then show "?P pow" using s by blast
qed

theorem subrange_dimension_witness:
  "\<forall>pow. \<exists>l u. visit pow (num ''1'') = Some l \<and> visit pow (num ''5'') = Some u \<and> visit_subrange \<lparr>lower_limit = l, upper_limit = u\<rparr> = Some (0, 5)" (is "\<forall>pow. ?P pow")
proof
  fix pow
  obtain l u where s: "visit pow (num ''1'') = Some l" "folded pow l 1" "visit pow (num ''5'') = Some u" "folded pow u 5"
    using folded_digits [of pow] by blast
  have "visit_subrange \<lparr>lower_limit = l, upper_limit = u\<rparr> = Some (0, 5)"
    using subrange_dimension [of pow "\<lparr>lower_limit = l, upper_limit = u\<rparr>" 1 5] s by (simp add: bounds_def)
  then show "?P pow" using s by blast
qed


end
