(* ===== verification/SymbolTable.thy ===== *)
theory SymbolTable
  imports IecStrings "HOL-Library.List_Lexorder" "HOL-Library.Char_ord"
begin

text \<open>
  The symbol tables of matiec (\<open>src/matiec_src/util/symtable.hh\<close>, \<open>symtable.cc\<close>, \<open>dsymtable.hh\<close>):
  nested scopes of names that are compared without regard to case, and the table that allows
  duplicates. A \<open>std::map\<close> is the list of its entries in the order of the keys. \<open>ERROR\<close> is \<open>None\<close>.
\<close>

section \<open>Names\<close>

fun nocase_c :: "string \<Rightarrow> string \<Rightarrow> bool" where
  "nocase_c [] ys = (ys \<noteq> [])"
| "nocase_c (x # xs) [] = False"
| "nocase_c (x # xs) (y # ys) = (if to_upper x = to_upper y then nocase_c xs ys else to_upper x < to_upper y)"

abbreviation up :: "string \<Rightarrow> string" where
  "up \<equiv> map to_upper"

text \<open>The comparison is the order of the upper-case names, hence as \<open>std::map\<close> demands.\<close>

lemma nocase_upper: "nocase_c x y \<longleftrightarrow> up x < up y"
proof (induction x y rule: nocase_c.induct)
  case (1 ys)
  then show ?case by (cases ys) simp_all
qed auto

section \<open>One scope\<close>

type_synonym 'v base_t = "(string \<times> 'v) list"

fun base_find :: "'v base_t \<Rightarrow> string \<Rightarrow> 'v option" where
  "base_find [] k = None"
| "base_find ((l, w) # b) k = (if nocase_c l k then base_find b k else if nocase_c k l then None else Some w)"

fun base_insert :: "string \<Rightarrow> 'v \<Rightarrow> 'v base_t \<Rightarrow> 'v base_t" where
  "base_insert k v [] = [(k, v)]"
| "base_insert k v ((l, w) # b) =
     (if nocase_c l k then (l, w) # base_insert k v b else if nocase_c k l then (k, v) # (l, w) # b else (l, w) # b)"

fun base_assign :: "string \<Rightarrow> 'v \<Rightarrow> 'v base_t \<Rightarrow> 'v base_t" where
  "base_assign k v [] = [(k, v)]"
| "base_assign k v ((l, w) # b) =
     (if nocase_c l k then (l, w) # base_assign k v b else if nocase_c k l then (k, v) # (l, w) # b else (l, v) # b)"

text \<open>What the entries of a scope say, and that they are in order.\<close>

definition base_map :: "'v base_t \<Rightarrow> string \<Rightarrow> 'v option" where
  "base_map b = map_of (map (\<lambda>(k, v). (up k, v)) b)"

definition base_ok :: "'v base_t \<Rightarrow> bool" where
  "base_ok b \<longleftrightarrow> sorted_wrt (\<lambda>x y. up (fst x) < up (fst y)) b"

lemma base_map_simps [simp]:
  "base_map [] = Map.empty" "base_map ((k, v) # b) = (base_map b)(up k \<mapsto> v)"
  by (auto simp: base_map_def)

lemma base_ok_simps [simp]:
  "base_ok []" "base_ok ((k, v) # b) \<longleftrightarrow> (\<forall>x\<in>set b. up k < up (fst x)) \<and> base_ok b"
  by (simp_all add: base_ok_def)

lemma base_map_None: "\<forall>x\<in>set b. u < up (fst x) \<Longrightarrow> base_map b u = None"
  by (induction b) auto

lemma base_find_map: "base_ok b \<Longrightarrow> base_find b k = base_map b (up k)"
proof (induction b)
  case (Cons x b)
  obtain l w where x: "x = (l, w)" by (cases x)
  have "base_map b (up k) = None" if "up k < up l"
    using Cons.prems that by (intro base_map_None) (auto simp: x)
  then show ?case using Cons by (auto simp: x nocase_upper not_less_iff_gr_or_eq)
qed simp

lemma base_insert_keys: "x \<in> set (base_insert k v b) \<Longrightarrow> x \<in> set b \<or> x = (k, v)"
  by (induction b) (auto split: if_splits)

lemma base_insert_ok: "base_ok b \<Longrightarrow> base_ok (base_insert k v b)"
proof (induction b)
  case (Cons x b)
  then show ?case by (cases x) (auto simp: nocase_upper dest!: base_insert_keys)
qed simp

lemma base_assign_keys: "x \<in> set (base_assign k v b) \<Longrightarrow> up (fst x) \<in> up ` fst ` set b \<or> x = (k, v)"
  by (induction b) (auto split: if_splits)

lemma base_assign_ok: "base_ok b \<Longrightarrow> base_ok (base_assign k v b)"
proof (induction b)
  case (Cons x b)
  then show ?case by (cases x) (fastforce simp: nocase_upper dest!: base_assign_keys)
qed simp

lemma base_insert_map:
  "base_ok b \<Longrightarrow> base_map b (up k) = None \<Longrightarrow> base_map (base_insert k v b) = (base_map b)(up k \<mapsto> v)"
proof (induction b)
  case (Cons x b)
  then show ?case by (cases x) (auto simp: nocase_upper not_less_iff_gr_or_eq fun_upd_twist split: if_splits)
qed simp

lemma base_assign_map: "base_ok b \<Longrightarrow> base_map (base_assign k v b) = (base_map b)(up k \<mapsto> v)"
proof (induction b)
  case (Cons x b)
  then show ?case by (cases x) (auto simp: nocase_upper not_less_iff_gr_or_eq fun_eq_iff)
qed simp

section \<open>Nested scopes\<close>

datatype 'v symtable_c = symtable_c (scope_base: "'v base_t") (inner_scope: "'v symtable_c option")

definition symtable_new :: "'v symtable_c" where
  "symtable_new = symtable_c [] None"

fun symtable_clear :: "'v symtable_c \<Rightarrow> 'v symtable_c" where
  "symtable_clear (symtable_c b inner) = symtable_c [] inner"

fun symtable_push :: "'v symtable_c \<Rightarrow> 'v symtable_c" where
  "symtable_push (symtable_c b (Some inner)) = symtable_c b (Some (symtable_push inner))"
| "symtable_push (symtable_c b None) = symtable_c b (Some symtable_new)"

fun symtable_pop :: "'v symtable_c \<Rightarrow> 'v symtable_c \<times> int" where
  "symtable_pop (symtable_c b (Some inner)) =
     (let (inner', r) = symtable_pop inner in (symtable_c b (if r = 1 then None else Some inner'), 0))"
| "symtable_pop (symtable_c b None) = (symtable_c [] None, 1)"

fun symtable_set :: "string \<Rightarrow> 'v \<Rightarrow> 'v symtable_c \<Rightarrow> 'v symtable_c option" where
  "symtable_set k v (symtable_c b (Some inner)) = map_option (\<lambda>i. symtable_c b (Some i)) (symtable_set k v inner)"
| "symtable_set k v (symtable_c b None) =
     (if base_find b k = None then None else Some (symtable_c (base_assign k v b) None))"

fun symtable_insert :: "string \<Rightarrow> 'v \<Rightarrow> 'v symtable_c \<Rightarrow> 'v symtable_c option" where
  "symtable_insert k v (symtable_c b (Some inner)) = map_option (\<lambda>i. symtable_c b (Some i)) (symtable_insert k v inner)"
| "symtable_insert k v (symtable_c b None) = (case base_find b k of
     Some w \<Rightarrow> if w \<noteq> v then None else Some (symtable_c b None)
   | None \<Rightarrow> Some (symtable_c (base_insert k v b) None))"

fun symtable_count :: "string \<Rightarrow> 'v symtable_c \<Rightarrow> nat" where
  "symtable_count k (symtable_c b (Some inner)) = (if base_find b k = None then 0 else 1) + symtable_count k inner"
| "symtable_count k (symtable_c b None) = (if base_find b k = None then 0 else 1)"

fun symtable_find :: "string \<Rightarrow> 'v symtable_c \<Rightarrow> 'v option" where
  "symtable_find k (symtable_c b (Some inner)) = (case symtable_find k inner of Some v \<Rightarrow> Some v | None \<Rightarrow> base_find b k)"
| "symtable_find k (symtable_c b None) = base_find b k"

text \<open>\<open>operator[]\<close>: the value and the table, where a name that is not found is a new entry of the
  outermost scope, with the default value of the type.\<close>

definition symtable_subscript :: "'v \<Rightarrow> string \<Rightarrow> 'v symtable_c \<Rightarrow> 'v \<times> 'v symtable_c" where
  "symtable_subscript dflt k t = (case symtable_find k t of Some v \<Rightarrow> (v, t)
     | None \<Rightarrow> (dflt, symtable_c (base_insert k dflt (scope_base t)) (inner_scope t)))"

section \<open>The scopes as a stack of maps\<close>

text \<open>The innermost scope first.\<close>

fun scopes :: "'v symtable_c \<Rightarrow> (string \<Rightarrow> 'v option) list" where
  "scopes (symtable_c b None) = [base_map b]"
| "scopes (symtable_c b (Some inner)) = scopes inner @ [base_map b]"

fun symtable_ok :: "'v symtable_c \<Rightarrow> bool" where
  "symtable_ok (symtable_c b None) \<longleftrightarrow> base_ok b"
| "symtable_ok (symtable_c b (Some inner)) \<longleftrightarrow> base_ok b \<and> symtable_ok inner"

fun look_up :: "('k \<Rightarrow> 'v option) list \<Rightarrow> 'k \<Rightarrow> 'v option" where
  "look_up [] k = None"
| "look_up (m # ms) k = (case m k of Some v \<Rightarrow> Some v | None \<Rightarrow> look_up ms k)"

lemma look_up_append: "look_up (xs @ ys) k = (case look_up xs k of Some v \<Rightarrow> Some v | None \<Rightarrow> look_up ys k)"
  by (induction xs) (auto split: option.splits)

lemma scopes_ne [simp]: "scopes t \<noteq> []"
  by (cases t rule: scopes.cases) simp_all

lemma new_scopes: "scopes symtable_new = [Map.empty]" "symtable_ok symtable_new"
  by (simp_all add: symtable_new_def)

lemma push_scopes:
  "scopes (symtable_push t) = Map.empty # scopes t" "symtable_ok (symtable_push t) = symtable_ok t"
  by (induction t rule: symtable_push.induct) (simp_all add: new_scopes)

lemma pop_scopes:
  "scopes (fst (symtable_pop t)) = (if length (scopes t) = 1 then [Map.empty] else tl (scopes t))"
  "snd (symtable_pop t) = (if length (scopes t) = 1 then 1 else 0)"
  "symtable_ok t \<Longrightarrow> symtable_ok (fst (symtable_pop t))"
proof (induction t rule: symtable_pop.induct)
  case (1 b inner)
  {
    case 1
    then show ?case using "1.IH"(1,2) by (auto simp: split_beta Suc_length_conv neq_Nil_conv tl_append split: list.splits)
  next
    case 2
    then show ?case by (simp add: split_beta)
  next
    case 3
    then show ?case using "1.IH"(3) by (auto simp: split_beta)
  }
qed simp_all

lemma find_look_up: "symtable_ok t \<Longrightarrow> symtable_find k t = look_up (scopes t) (up k)"
  by (induction t rule: symtable_ok.induct) (auto simp: base_find_map look_up_append split: option.splits)

lemma count_scopes: "symtable_ok t \<Longrightarrow> symtable_count k t = length (filter (\<lambda>m. m (up k) \<noteq> None) (scopes t))"
  by (induction t rule: symtable_ok.induct) (auto simp: base_find_map)

text \<open>Entries go to the innermost scope.\<close>

lemma insert_scopes:
  assumes "symtable_ok t"
  shows "case symtable_insert k v t of
      None \<Rightarrow> hd (scopes t) (up k) \<noteq> None \<and> hd (scopes t) (up k) \<noteq> Some v
    | Some t' \<Rightarrow> (hd (scopes t) (up k) = None \<or> hd (scopes t) (up k) = Some v) \<and> symtable_ok t' \<and>
        scopes t' = (hd (scopes t))(up k \<mapsto> v) # tl (scopes t)"
  using assms
  by (induction t rule: symtable_ok.induct)
    (auto simp: base_find_map base_insert_ok base_insert_map fun_upd_idem hd_append tl_append split: option.splits list.splits)

lemma set_scopes:
  assumes "symtable_ok t"
  shows "case symtable_set k v t of
      None \<Rightarrow> hd (scopes t) (up k) = None
    | Some t' \<Rightarrow> hd (scopes t) (up k) \<noteq> None \<and> symtable_ok t' \<and> scopes t' = (hd (scopes t))(up k \<mapsto> v) # tl (scopes t)"
  using assms
  by (induction t rule: symtable_ok.induct)
    (auto simp: base_find_map base_assign_ok base_assign_map hd_append tl_append split: option.splits list.splits)

section \<open>Blocks\<close>

text \<open>
  What the parser does to a table between the beginning and the end of a declaration: it enters and
  leaves scopes and declares names. \<open>depth\<close> counts the scopes entered; below 0 there is none.
\<close>

datatype 'v scope_op = op_push | op_pop | op_insert string 'v | op_set string 'v

fun depth :: "nat \<Rightarrow> 'v scope_op list \<Rightarrow> nat option" where
  "depth d [] = Some d"
| "depth d (op_push # ops) = depth (Suc d) ops"
| "depth d (op_pop # ops) = (case d of 0 \<Rightarrow> None | Suc e \<Rightarrow> depth e ops)"
| "depth d (_ # ops) = depth d ops"

fun run_ops :: "('t \<Rightarrow> 't) \<Rightarrow> ('t \<Rightarrow> 't) \<Rightarrow> (string \<Rightarrow> 'v \<Rightarrow> 't \<Rightarrow> 't option) \<Rightarrow> (string \<Rightarrow> 'v \<Rightarrow> 't \<Rightarrow> 't option) \<Rightarrow>
    'v scope_op list \<Rightarrow> 't \<Rightarrow> 't option" where
  "run_ops enter leave ins change [] t = Some t"
| "run_ops enter leave ins change (op_push # ops) t = run_ops enter leave ins change ops (enter t)"
| "run_ops enter leave ins change (op_pop # ops) t = run_ops enter leave ins change ops (leave t)"
| "run_ops enter leave ins change (op_insert k v # ops) t = Option.bind (ins k v t) (run_ops enter leave ins change ops)"
| "run_ops enter leave ins change (op_set k v # ops) t = Option.bind (change k v t) (run_ops enter leave ins change ops)"

text \<open>The contract of a table with scopes.\<close>

locale scoped_table =
  fixes view :: "'t \<Rightarrow> ('k \<Rightarrow> 'v option) list"
    and good :: "'t \<Rightarrow> bool"
    and key :: "string \<Rightarrow> 'k"
    and enter :: "'t \<Rightarrow> 't"
    and leave :: "'t \<Rightarrow> 't"
    and declare_name :: "string \<Rightarrow> 'v \<Rightarrow> 't \<Rightarrow> 't option"
    and change :: "string \<Rightarrow> 'v \<Rightarrow> 't \<Rightarrow> 't option"
  assumes enter: "good t \<Longrightarrow> good (enter t) \<and> view (enter t) = Map.empty # view t"
    and leave: "good t \<Longrightarrow> good (leave t) \<and> (1 < length (view t) \<longrightarrow> view (leave t) = tl (view t))"
    and declare_name: "good t \<Longrightarrow> declare_name k v t = Some t' \<Longrightarrow> good t' \<and> view t' = (hd (view t))(key k \<mapsto> v) # tl (view t)"
    and change: "good t \<Longrightarrow> change k v t = Some t' \<Longrightarrow> good t' \<and> view t' = (hd (view t))(key k \<mapsto> v) # tl (view t)"
begin

lemma run_outer:
  assumes "run_ops enter leave declare_name change ops t = Some t'" "depth d ops = Some d'" "good t" "d < length (view t)"
  shows "good t' \<and> d' < length (view t') \<and> drop (Suc d') (view t') = drop (Suc d) (view t)"
  using assms
proof (induction ops arbitrary: t d)
  case (Cons x ops)
  note IH = Cons.IH and prems = Cons.prems
  show ?case
  proof (cases x)
    case op_push
    then show ?thesis using IH [of "enter t" "Suc d"] prems enter [of t] by simp
  next
    case op_pop
    then obtain e where e: "d = Suc e" using prems(2) by (auto split: nat.splits)
    then have "length (view t) > 1" using prems(4) by simp
    then show ?thesis using IH [of "leave t" e] op_pop e prems leave [of t] by (simp add: drop_Suc)
  next
    case (op_insert k v)
    then obtain u where u: "declare_name k v t = Some u" "run_ops enter leave declare_name change ops u = Some t'"
      using prems(1) by (auto simp: bind_eq_Some_conv)
    then have "good u \<and> view u = (hd (view t))(key k \<mapsto> v) # tl (view t)" using declare_name prems(3) by blast
    then show ?thesis using IH [of u d] u op_insert prems by (simp add: drop_Suc)
  next
    case (op_set k v)
    then obtain u where u: "change k v t = Some u" "run_ops enter leave declare_name change ops u = Some t'"
      using prems(1) by (auto simp: bind_eq_Some_conv)
    then have "good u \<and> view u = (hd (view t))(key k \<mapsto> v) # tl (view t)" using change prems(3) by blast
    then show ?thesis using IH [of u d] u op_set prems by (simp add: drop_Suc)
  qed
qed simp

theorem block_restores:
  assumes "good t" "view t \<noteq> []" "depth 0 ops = Some 0" "run_ops enter leave declare_name change ops (enter t) = Some t'"
  shows "good (leave t') \<and> view (leave t') = view t"
proof -
  have "good t' \<and> 0 < length (view t') \<and> drop 1 (view t') = view t"
    using run_outer [OF assms(4,3)] enter [OF assms(1)] by simp
  then show ?thesis using leave [of t'] assms(2) by (cases "view t'") auto
qed

end

lemma symtable_laws:
  "symtable_ok t \<Longrightarrow> symtable_ok (symtable_push t) \<and> scopes (symtable_push t) = Map.empty # scopes t"
  "symtable_ok t \<Longrightarrow> symtable_ok (fst (symtable_pop t)) \<and> (1 < length (scopes t) \<longrightarrow> scopes (fst (symtable_pop t)) = tl (scopes t))"
  "symtable_ok t \<Longrightarrow> symtable_insert k v t = Some t' \<Longrightarrow> symtable_ok t' \<and> scopes t' = (hd (scopes t))(up k \<mapsto> v) # tl (scopes t)"
  "symtable_ok t \<Longrightarrow> symtable_set k v t = Some t' \<Longrightarrow> symtable_ok t' \<and> scopes t' = (hd (scopes t))(up k \<mapsto> v) # tl (scopes t)"
  using push_scopes [of t] pop_scopes [of t] insert_scopes [of t k v] set_scopes [of t k v] by auto

interpretation symtable: scoped_table scopes symtable_ok up symtable_push "\<lambda>t. fst (symtable_pop t)" symtable_insert symtable_set
  by unfold_locales (fact symtable_laws)+

text \<open>C37: A table of nested scopes is a stack of maps from upper-case names: a name is looked up from the innermost
  scope outwards, and declared in the innermost scope unless it is there with another value, which aborts
  the compiler; entering a scope pushes an empty map, and leaving one pops the innermost map, or clears
  the outermost.\<close>

theorem symtable_refines_scopes:
  assumes "symtable_ok t"
  shows "symtable_find k t = look_up (scopes t) (up k) \<and>
    scopes (symtable_push t) = Map.empty # scopes t \<and>
    scopes (fst (symtable_pop t)) = (if length (scopes t) = 1 then [Map.empty] else tl (scopes t)) \<and>
    (case symtable_insert k v t of
       None \<Rightarrow> hd (scopes t) (up k) \<notin> {None, Some v}
     | Some t' \<Rightarrow> hd (scopes t) (up k) \<in> {None, Some v} \<and> scopes t' = (hd (scopes t))(up k \<mapsto> v) # tl (scopes t))"
  using find_look_up [OF assms, of k] push_scopes(1) [of t] pop_scopes(1) [of t] insert_scopes [OF assms, of k v]
  by (auto split: option.splits)

text \<open>C38: Whatever is declared and changed between the beginning and the end of a block, at the end of the block every
  name means what it meant before.\<close>

theorem symtable_block_restores:
  assumes "symtable_ok t" "depth 0 ops = Some 0"
    and "run_ops symtable_push (\<lambda>t. fst (symtable_pop t)) symtable_insert symtable_set ops (symtable_push t) = Some t'"
  shows "symtable_find k (fst (symtable_pop t')) = symtable_find k t"
  using symtable.block_restores [OF assms(1) scopes_ne assms(2,3)] find_look_up [OF assms(1)] by (metis find_look_up)

text \<open>A name that \<open>operator[]\<close> does not find becomes global, whatever scope is open.\<close>

lemma subscript_global:
  assumes "symtable_find k (symtable_push t) = None" "symtable_ok t" "inner_scope t = None"
  shows "symtable_find k (fst (symtable_pop (snd (symtable_subscript v k (symtable_push t))))) = Some v"
proof -
  obtain b where t: "t = symtable_c b None" using assms(3) by (cases t) auto
  then have b: "base_ok b" "base_map b (up k) = None" using assms by (auto simp: symtable_new_def base_find_map)
  then have "base_find (base_insert k v b) k = Some v" by (simp add: base_find_map base_insert_ok base_insert_map)
  then show ?thesis using assms(1) t by (simp add: symtable_subscript_def symtable_new_def)
qed

section \<open>Duplicates\<close>

text \<open>\<open>dsymtable_c\<close>: a \<open>std::multimap\<close>, whose new entries go behind the ones with the same key.\<close>

fun dsymtable_insert :: "string \<Rightarrow> 'v \<Rightarrow> 'v base_t \<Rightarrow> 'v base_t" where
  "dsymtable_insert k v [] = [(k, v)]"
| "dsymtable_insert k v ((l, w) # b) = (if nocase_c k l then (k, v) # (l, w) # b else (l, w) # dsymtable_insert k v b)"

definition same_name :: "string \<Rightarrow> string \<Rightarrow> bool" where
  "same_name k l \<longleftrightarrow> \<not> nocase_c k l \<and> \<not> nocase_c l k"

text \<open>The entries from \<open>lower_bound\<close> to \<open>upper_bound\<close>, their number, and the first of them.\<close>

definition dsymtable_range :: "string \<Rightarrow> 'v base_t \<Rightarrow> 'v list" where
  "dsymtable_range k b = map snd (takeWhile (\<lambda>(l, v). \<not> nocase_c k l) (dropWhile (\<lambda>(l, v). nocase_c l k) b))"

definition dsymtable_count :: "string \<Rightarrow> 'v base_t \<Rightarrow> nat" where
  "dsymtable_count k b = length (dsymtable_range k b)"

definition dsymtable_find :: "string \<Rightarrow> 'v base_t \<Rightarrow> 'v option" where
  "dsymtable_find k b = (case dsymtable_range k b of [] \<Rightarrow> None | v # vs \<Rightarrow> Some v)"

definition dbase_ok :: "'v base_t \<Rightarrow> bool" where
  "dbase_ok b \<longleftrightarrow> sorted (map (\<lambda>x. up (fst x)) b)"

lemma dsymtable_insert_keys: "set (dsymtable_insert k v b) = insert (k, v) (set b)"
proof (induction b)
  case (Cons x b)
  then show ?case by (cases x) (auto split: if_splits)
qed simp

lemma dsymtable_insert_ok: "dbase_ok b \<Longrightarrow> dbase_ok (dsymtable_insert k v b)"
proof (induction b)
  case (Cons x b)
  then show ?case by (cases x) (auto simp: dbase_ok_def nocase_upper dsymtable_insert_keys)
qed (simp add: dbase_ok_def)

lemma sorted_equal_prefix:
  "dbase_ok b \<Longrightarrow> \<forall>x\<in>set b. up k \<le> up (fst x) \<Longrightarrow>
    takeWhile (\<lambda>(l, v). \<not> nocase_c k l) b = filter (\<lambda>(l, v). up l = up k) b"
proof (induction b)
  case (Cons x b)
  obtain l w where x: "x = (l, w)" by (cases x)
  have "filter (\<lambda>(l, v). up l = up k) b = []" if "up k < up l"
    using that Cons.prems(1) by (auto simp: dbase_ok_def x filter_empty_conv)
  then show ?case using Cons by (auto simp: dbase_ok_def x nocase_upper)
qed simp

lemma dsymtable_range_filter: "dbase_ok b \<Longrightarrow> dsymtable_range k b = map snd (filter (\<lambda>(l, v). up l = up k) b)"
proof (induction b)
  case (Cons x b)
  obtain l w where x: "x = (l, w)" by (cases x)
  show ?case
  proof (cases "up l < up k")
    case True
    then show ?thesis using Cons by (auto simp: dsymtable_range_def dbase_ok_def x nocase_upper)
  next
    case False
    then have "\<forall>y\<in>set (x # b). up k \<le> up (fst y)" using Cons.prems by (fastforce simp: dbase_ok_def x not_less)
    from sorted_equal_prefix [OF Cons.prems this] False show ?thesis
      by (simp add: dsymtable_range_def x nocase_upper)
  qed
qed (simp add: dsymtable_range_def)

text \<open>The values of a name are those inserted for it, in their order; other names keep theirs.\<close>

lemma dsymtable_insert_range:
  assumes "dbase_ok b"
  shows "dsymtable_range l (dsymtable_insert k v b) = dsymtable_range l b @ (if up l = up k then [v] else [])"
proof -
  have "map snd (filter (\<lambda>(m, v). up m = up l) (dsymtable_insert k v b)) =
      map snd (filter (\<lambda>(m, v). up m = up l) b) @ (if up l = up k then [v] else [])"
    using assms
  proof (induction b)
    case (Cons x b)
    obtain m w where x: "x = (m, w)" by (cases x)
    have "filter (\<lambda>(m, v). up m = up l) b = []" if "up k < up m" "up l = up k"
      using that Cons.prems by (auto simp: dbase_ok_def x filter_empty_conv)
    then show ?case using Cons by (auto simp: x nocase_upper dbase_ok_def)
  qed simp
  then show ?thesis using assms by (simp add: dsymtable_range_filter dsymtable_insert_ok)
qed

section \<open>Witnesses\<close>

definition table :: "nat symtable_c" where
  "table = symtable_c [(''x'', 1), (''y'', 2)] None"

lemma table_ok: "symtable_ok table"
proof -
  have "up ''x'' < up ''y''" by code_simp
  then show ?thesis by (simp add: table_def)
qed

theorem symtable_refines_scopes_witness:
  "symtable_find ''X'' table = look_up (scopes table) (up ''X'') \<and> symtable_insert ''Z'' 3 table \<noteq> None"
proof -
  have "hd (scopes table) (up ''Z'') = None" by code_simp
  then show ?thesis using symtable_refines_scopes [OF table_ok, of "''X''" 3] symtable_refines_scopes [OF table_ok, of "''Z''" 3]
    by (auto split: option.splits)
qed

theorem symtable_block_restores_witness:
  "\<exists>t'. run_ops symtable_push (\<lambda>t. fst (symtable_pop t)) symtable_insert symtable_set
      [op_insert ''X'' 5, op_push, op_insert ''y'' 6, op_pop, op_set ''x'' 7] (symtable_push table) = Some t' \<and>
     symtable_find ''x'' t' = Some 7 \<and> symtable_find ''x'' (fst (symtable_pop t')) = symtable_find ''x'' table"
proof -
  let ?run = "run_ops symtable_push (\<lambda>t. fst (symtable_pop t)) symtable_insert symtable_set
      [op_insert ''X'' 5, op_push, op_insert ''y'' 6, op_pop, op_set ''x'' 7] (symtable_push table)"
  have "Option.bind ?run (symtable_find ''x'') = Some 7" by code_simp
  then obtain t' where t: "?run = Some t'" "symtable_find ''x'' t' = Some 7" by (auto simp: bind_eq_Some_conv)
  have "depth 0 [op_insert ''X'' (5 :: nat), op_push, op_insert ''y'' 6, op_pop, op_set ''x'' 7] = Some 0" by simp
  from symtable_block_restores [OF table_ok this t(1)] t show ?thesis by blast
qed

end
