(* ===== verification/ForwardDependencies.thy ===== *)
theory ForwardDependencies
  imports SymbolTable
begin

text \<open>
  The reordering of a library so that every POU comes after the POUs it refers to
  (\<open>src/matiec_src/stage3/remove_forward_dependencies.cc\<close>, option \<open>-p\<close> of the compiler). A symbol of the
  library is its index; of a POU the model keeps its name and, of each of its three parts that are
  searched, the names of POUs in the order in which the search visits them. \<open>ERROR\<close> is \<open>None\<close>.
\<close>

section \<open>Libraries\<close>

datatype pou_kind = function_declaration | function_block_declaration | program_declaration | configuration_declaration

datatype library_element =
    data_type_declaration
  | pou pou_kind string "string list" "string list" "string list"
  | disable_code_generation_pragma
  | enable_code_generation_pragma
  | pragma

datatype tree_node = Default_pragma | Element nat

record forward_state =
  new_tree :: "tree_node list"
  cycle_count :: nat
  declared_identifiers :: "unit symtable_c"
  inserted_symbols :: "nat list"
  current_pragma :: tree_node

section \<open>The algorithm\<close>

fun find_forward_dependencies :: "unit symtable_c \<Rightarrow> string list \<Rightarrow> string option" where
  "find_forward_dependencies t [] = None"
| "find_forward_dependencies t (r # rs) = (if symtable_find r t \<noteq> None then find_forward_dependencies t rs else Some r)"

fun is_pou :: "library_element \<Rightarrow> bool" where
  "is_pou (pou k n s1 s2 s3) = True"
| "is_pou _ = False"

definition pou_count :: "library_element list \<Rightarrow> nat" where
  "pou_count es = length (filter is_pou es)"

definition handle_library_symbol ::
  "nat \<Rightarrow> string \<Rightarrow> string list \<Rightarrow> string list \<Rightarrow> string list \<Rightarrow> forward_state \<Rightarrow> forward_state option" where
  "handle_library_symbol i name s1 s2 s3 st =
     (if i \<in> set (inserted_symbols st) then Some st
      else if find_forward_dependencies (declared_identifiers st) s1 \<noteq> None then Some st
      else if find_forward_dependencies (declared_identifiers st) s2 \<noteq> None then Some st
      else if find_forward_dependencies (declared_identifiers st) s3 \<noteq> None then Some st
      else map_option (\<lambda>t. st\<lparr>declared_identifiers := t, inserted_symbols := inserted_symbols st @ [i],
             new_tree := new_tree st @ [current_pragma st, Element i]\<rparr>)
        (if symtable_find name (declared_identifiers st) = None then symtable_insert name () (declared_identifiers st)
         else Some (declared_identifiers st)))"

fun visit_element :: "nat \<Rightarrow> library_element \<Rightarrow> forward_state \<Rightarrow> forward_state option" where
  "visit_element i (pou k n s1 s2 s3) st = handle_library_symbol i n s1 s2 s3 st"
| "visit_element i disable_code_generation_pragma st = Some (st\<lparr>current_pragma := Element i\<rparr>)"
| "visit_element i enable_code_generation_pragma st = Some (st\<lparr>current_pragma := Element i\<rparr>)"
| "visit_element i pragma st = Some (if cycle_count st \<noteq> 1 then st else st\<lparr>new_tree := new_tree st @ [Element i]\<rparr>)"
| "visit_element i data_type_declaration st = Some st"

fun visit_elements :: "nat \<Rightarrow> library_element list \<Rightarrow> forward_state \<Rightarrow> forward_state option" where
  "visit_elements i [] st = Some st"
| "visit_elements i (e # es) st = Option.bind (visit_element i e st) (visit_elements (Suc i) es)"

section \<open>The cycles end\<close>

text \<open>What a pass changes: it adds symbols that were not there, and after the first pass nothing else
  makes the tree longer.\<close>

definition extends :: "nat set \<Rightarrow> forward_state \<Rightarrow> forward_state \<Rightarrow> bool" where
  "extends I st st' \<longleftrightarrow> (\<exists>xs ys. inserted_symbols st' = inserted_symbols st @ xs \<and> new_tree st' = new_tree st @ ys \<and>
     set xs \<subseteq> I - set (inserted_symbols st) \<and> cycle_count st' = cycle_count st \<and>
     (cycle_count st \<noteq> 1 \<and> xs = [] \<longrightarrow> ys = []) \<and> (ys = [] \<longrightarrow> xs = [] \<and> declared_identifiers st' = declared_identifiers st))"

lemma extends_refl [simp]: "extends I st st" "extends I st (st\<lparr>current_pragma := c\<rparr>)"
  by (auto simp: extends_def)

lemma extends_trans:
  assumes "extends I st st'" "extends J st' st''"
  shows "extends (I \<union> J) st st''"
proof -
  obtain xs ys where 1: "inserted_symbols st' = inserted_symbols st @ xs" "new_tree st' = new_tree st @ ys"
    "set xs \<subseteq> I - set (inserted_symbols st)" "cycle_count st' = cycle_count st" "cycle_count st \<noteq> 1 \<and> xs = [] \<longrightarrow> ys = []"
    "ys = [] \<longrightarrow> xs = [] \<and> declared_identifiers st' = declared_identifiers st"
    using assms(1) unfolding extends_def by blast
  obtain us vs where 2: "inserted_symbols st'' = inserted_symbols st' @ us" "new_tree st'' = new_tree st' @ vs"
    "set us \<subseteq> J - set (inserted_symbols st')" "cycle_count st'' = cycle_count st'" "cycle_count st' \<noteq> 1 \<and> us = [] \<longrightarrow> vs = []"
    "vs = [] \<longrightarrow> us = [] \<and> declared_identifiers st'' = declared_identifiers st'"
    using assms(2) unfolding extends_def by blast
  show ?thesis unfolding extends_def
    by (rule exI [of _ "xs @ us"], rule exI [of _ "ys @ vs"]) (use 1 2 in auto)
qed

lemma visit_element_extends: "visit_element i e st = Some st' \<Longrightarrow> extends {i} st st'"
  by (cases "(i, e, st)" rule: visit_element.cases)
    (auto simp: extends_def handle_library_symbol_def split: if_splits)

lemma visit_elements_extends: "visit_elements i es st = Some st' \<Longrightarrow> extends {i..<i + length es} st st'"
proof (induction es arbitrary: i st)
  case (Cons e es)
  obtain u where u: "visit_element i e st = Some u" "visit_elements (Suc i) es u = Some st'"
    using Cons.prems by (auto simp: bind_eq_Some_conv)
  have "{i} \<union> {Suc i..<Suc i + length es} = {i..<i + length (e # es)}" by auto
  then show ?case using extends_trans [OF visit_element_extends [OF u(1)] Cons.IH [OF u(2)]] by simp
qed simp

definition start_cycle :: "forward_state \<Rightarrow> forward_state" where
  "start_cycle st = st\<lparr>cycle_count := Suc (cycle_count st), current_pragma := Default_pragma\<rparr>"

lemma start_cycle_simps [simp]:
  "new_tree (start_cycle st) = new_tree st" "cycle_count (start_cycle st) = Suc (cycle_count st)"
  "inserted_symbols (start_cycle st) = inserted_symbols st" "declared_identifiers (start_cycle st) = declared_identifiers st"
  "current_pragma (start_cycle st) = Default_pragma"
  by (simp_all add: start_cycle_def)

text \<open>The symbols still to be inserted, and the first cycle, which also adds the unknown pragmas.\<close>

definition cycles_left :: "library_element list \<Rightarrow> forward_state \<Rightarrow> nat" where
  "cycles_left lib st = card ({..<length lib} - set (inserted_symbols st)) + (if cycle_count st = 0 then 1 else 0)"

lemma cycle_decreases:
  assumes "visit_elements 0 lib (start_cycle st) = Some st'" "length (new_tree st') \<noteq> length (new_tree st)"
  shows "cycles_left lib st' < cycles_left lib st"
proof -
  obtain xs ys where e: "inserted_symbols st' = inserted_symbols st @ xs" "new_tree st' = new_tree st @ ys"
    "set xs \<subseteq> {..<length lib} - set (inserted_symbols st)" "cycle_count st' = Suc (cycle_count st)"
    "cycle_count st \<noteq> 0 \<and> xs = [] \<longrightarrow> ys = []"
    using visit_elements_extends [OF assms(1)] unfolding extends_def by (auto simp: atLeast0LessThan)
  have sub: "{..<length lib} - set (inserted_symbols st') \<subseteq> {..<length lib} - set (inserted_symbols st)"
    using e(1) by auto
  show ?thesis
  proof (cases "cycle_count st = 0")
    case True
    then show ?thesis using card_mono [OF _ sub] e(4) by (simp add: cycles_left_def)
  next
    case False
    then obtain x where "x \<in> set xs" using e(5,2) assms(2) by (cases xs) auto
    then have "{..<length lib} - set (inserted_symbols st') \<subset> {..<length lib} - set (inserted_symbols st)"
      using e(1,3) by auto
    from psubset_card_mono [OF _ this] False e(4) show ?thesis by (simp add: cycles_left_def)
  qed
qed

function forward_cycles :: "library_element list \<Rightarrow> forward_state \<Rightarrow> forward_state option" where
  "forward_cycles lib st = (case visit_elements 0 lib (start_cycle st) of
     None \<Rightarrow> None
   | Some st' \<Rightarrow> if length (new_tree st) \<noteq> length (new_tree st') then forward_cycles lib st' else Some st')"
  by pat_completeness auto
termination
  by (relation "measure (\<lambda>(lib, st). cycles_left lib st)") (auto simp: cycle_decreases)

declare forward_cycles.simps [simp del]

section \<open>The whole pass\<close>

fun node_element :: "library_element list \<Rightarrow> tree_node \<Rightarrow> library_element" where
  "node_element lib Default_pragma = enable_code_generation_pragma"
| "node_element lib (Element i) = lib ! i"

fun may_be_circular :: "library_element \<Rightarrow> bool" where
  "may_be_circular (pou k n s1 s2 s3) = (k = function_block_declaration \<or> k = function_declaration)"
| "may_be_circular _ = False"

definition print_circ_error :: "library_element list \<Rightarrow> forward_state \<Rightarrow> nat option" where
  "print_circ_error lib st =
     (let errors = length (filter (\<lambda>i. i \<notin> set (inserted_symbols st) \<and> may_be_circular (lib ! i)) [0..<length lib])
      in if errors = 0 then None else Some errors)"

definition data_types :: "library_element list \<Rightarrow> nat list" where
  "data_types lib = filter (\<lambda>i. lib ! i = data_type_declaration) [0..<length lib]"

definition initial :: "library_element list \<Rightarrow> forward_state" where
  "initial lib = \<lparr>new_tree = map Element (data_types lib), cycle_count = 0, declared_identifiers = symtable_new,
     inserted_symbols = [], current_pragma = Default_pragma\<rparr>"

text \<open>The new tree and the number of errors.\<close>

definition create_new_tree :: "library_element list \<Rightarrow> (tree_node list \<times> nat) option" where
  "create_new_tree lib = (case forward_cycles lib (initial lib) of
     None \<Rightarrow> None
   | Some st \<Rightarrow>
       if pou_count lib \<noteq> pou_count (map (node_element lib) (new_tree st))
       then map_option (\<lambda>errors. (new_tree st, errors)) (print_circ_error lib st)
       else Some (new_tree st, 0))"

section \<open>What the new tree is\<close>

fun element_name :: "library_element \<Rightarrow> string" where
  "element_name (pou k n s1 s2 s3) = n"
| "element_name _ = []"

fun references :: "library_element \<Rightarrow> string list" where
  "references (pou k n s1 s2 s3) = s1 @ s2 @ s3"
| "references _ = []"

definition named :: "library_element list \<Rightarrow> nat list \<Rightarrow> string set" where
  "named lib js = (\<lambda>j. up (element_name (lib ! j))) ` set js"

text \<open>Every reference is to a name that is declared further to the front.\<close>

definition references_first :: "library_element list \<Rightarrow> nat list \<Rightarrow> bool" where
  "references_first lib order \<longleftrightarrow>
     (\<forall>k < length order. \<forall>r \<in> set (references (lib ! (order ! k))). up r \<in> named lib (take k order))"

text \<open>The pragma for the generation of code in force at a place of the library.\<close>

fun pragma_at :: "library_element list \<Rightarrow> nat \<Rightarrow> tree_node" where
  "pragma_at lib 0 = Default_pragma"
| "pragma_at lib (Suc i) =
     (if lib ! i = enable_code_generation_pragma \<or> lib ! i = disable_code_generation_pragma then Element i else pragma_at lib i)"

definition chunk :: "library_element list \<Rightarrow> nat \<Rightarrow> tree_node list" where
  "chunk lib i = (if is_pou (lib ! i) then [pragma_at lib i, Element i] else [Element i])"

definition pous :: "library_element list \<Rightarrow> nat list \<Rightarrow> nat list" where
  "pous lib = filter (\<lambda>i. is_pou (lib ! i))"

definition others :: "library_element list \<Rightarrow> nat list \<Rightarrow> nat list" where
  "others lib = filter (\<lambda>i. \<not> is_pou (lib ! i))"

definition unknown_pragmas :: "library_element list \<Rightarrow> nat \<Rightarrow> nat list" where
  "unknown_pragmas lib n = filter (\<lambda>i. lib ! i = pragma) [0..<n]"

definition tree_of :: "library_element list \<Rightarrow> nat list \<Rightarrow> tree_node list" where
  "tree_of lib order = map Element (data_types lib) @ concat (map (chunk lib) order)"

lemma pous_simps [simp]:
  "pous lib [] = []" "pous lib (xs @ ys) = pous lib xs @ pous lib ys" "pous lib [i] = (if is_pou (lib ! i) then [i] else [])"
  "others lib [] = []" "others lib (xs @ ys) = others lib xs @ others lib ys" "others lib [i] = (if is_pou (lib ! i) then [] else [i])"
  "set (pous lib xs) = {i \<in> set xs. is_pou (lib ! i)}"
  by (auto simp: pous_def others_def)

lemma tree_of_append [simp]: "tree_of lib (order @ [i]) = tree_of lib order @ chunk lib i"
  by (simp add: tree_of_def)

lemma references_first_append:
  "references_first lib (order @ [i]) \<longleftrightarrow>
     references_first lib order \<and> (\<forall>r \<in> set (references (lib ! i)). up r \<in> named lib order)"
  by (auto simp: references_first_def nth_append less_Suc_eq)

text \<open>The state of the algorithm before it visits element \<open>i\<close>.\<close>

definition reordering :: "library_element list \<Rightarrow> nat \<Rightarrow> nat list \<Rightarrow> forward_state \<Rightarrow> bool" where
  "reordering lib i order st \<longleftrightarrow>
     new_tree st = tree_of lib order \<and> inserted_symbols st = pous lib order \<and>
     others lib order = unknown_pragmas lib (if cycle_count st = 1 then i else length lib) \<and>
     distinct (pous lib order) \<and> set (pous lib order) \<subseteq> {..<length lib} \<and> references_first lib (pous lib order) \<and>
     symtable_ok (declared_identifiers st) \<and>
     (\<exists>m. scopes (declared_identifiers st) = [m] \<and> dom m = named lib (pous lib order)) \<and>
     current_pragma st = pragma_at lib i"

lemma reordering_find:
  assumes "reordering lib i order st"
  shows "symtable_find r (declared_identifiers st) = None \<longleftrightarrow> up r \<notin> named lib (pous lib order)"
proof -
  obtain m where m: "scopes (declared_identifiers st) = [m]" "dom m = named lib (pous lib order)"
    using assms unfolding reordering_def by blast
  have "symtable_find r (declared_identifiers st) = m (up r)"
    using find_look_up [of "declared_identifiers st" r] assms m(1) by (simp add: reordering_def split: option.splits)
  then show ?thesis using m(2) by (metis domIff)
qed

lemma find_forward_None:
  assumes "reordering lib i order st"
  shows "find_forward_dependencies (declared_identifiers st) rs = None \<longleftrightarrow> (\<forall>r \<in> set rs. up r \<in> named lib (pous lib order))"
  by (induction rs) (auto simp: reordering_find [OF assms] split: if_splits)

text \<open>A POU that has to wait: it is already in the tree, or a name it refers to is not declared yet.\<close>

definition waits :: "library_element list \<Rightarrow> nat list \<Rightarrow> nat \<Rightarrow> bool" where
  "waits lib order i \<longleftrightarrow> (is_pou (lib ! i) \<longrightarrow> i \<in> set order \<or> (\<exists>r \<in> set (references (lib ! i)). up r \<notin> named lib (pous lib order)))"

text \<open>One element is either appended, with its pragma, or passed over.\<close>

lemma visit_element_step:
  assumes r: "reordering lib i order st" and i: "i < length lib"
  shows "\<exists>st'. visit_element i (lib ! i) st = Some st' \<and>
    (reordering lib (Suc i) order st' \<and> waits lib order i \<or> reordering lib (Suc i) (order @ [i]) st')"
proof (cases "lib ! i")
  case (pou k n s1 s2 s3)
  have p: "pragma_at lib (Suc i) = current_pragma st" "unknown_pragmas lib (Suc i) = unknown_pragmas lib i"
    using r pou by (auto simp: reordering_def unknown_pragmas_def)
  then have same: "reordering lib (Suc i) order st" using r by (auto simp: reordering_def)
  show ?thesis
  proof (cases "waits lib order i")
    case True
    then have "visit_element i (lib ! i) st = Some st"
      using r pou find_forward_None [OF r] by (auto simp: handle_library_symbol_def waits_def reordering_def)
    then show ?thesis using same True by blast
  next
    case False
    then have free: "i \<notin> set (inserted_symbols st)" "\<forall>r \<in> set (references (lib ! i)). up r \<in> named lib (pous lib order)"
      using r pou by (auto simp: waits_def reordering_def)
    obtain m where m: "scopes (declared_identifiers st) = [m]" "dom m = named lib (pous lib order)"
      using r unfolding reordering_def by blast
    define t where "t = (if symtable_find n (declared_identifiers st) = None then symtable_insert n () (declared_identifiers st)
      else Some (declared_identifiers st))"
    have "\<exists>t'. t = Some t' \<and> symtable_ok t' \<and> (\<exists>m'. scopes t' = [m'] \<and> dom m' = insert (up n) (named lib (pous lib order)))"
    proof (cases "symtable_find n (declared_identifiers st) = None")
      case True
      then have "m (up n) = None" using reordering_find [OF r] m(2) by (metis domIff)
      then show ?thesis using insert_scopes [of "declared_identifiers st" n "()"] r m True
        by (auto simp: t_def reordering_def split: option.splits)
    next
      case False
      then show ?thesis using reordering_find [OF r, of n] m r by (auto simp: t_def reordering_def insert_absorb)
    qed
    then obtain t' where t': "t = Some t'" "symtable_ok t'" "\<exists>m'. scopes t' = [m'] \<and> dom m' = insert (up n) (named lib (pous lib order))"
      by blast
    let ?st = "st\<lparr>declared_identifiers := t', inserted_symbols := inserted_symbols st @ [i],
      new_tree := new_tree st @ [current_pragma st, Element i]\<rparr>"
    have "visit_element i (lib ! i) st = Some ?st"
      using free pou find_forward_None [OF r] t'(1) by (simp add: handle_library_symbol_def t_def)
    moreover have "insert (up n) (named lib (pous lib order)) = named lib (pous lib order @ [i])"
      using pou by (simp add: named_def)
    ultimately have "visit_element i (lib ! i) st = Some ?st \<and> reordering lib (Suc i) (order @ [i]) ?st"
      using r i free pou p t'(2,3) by (auto simp: reordering_def chunk_def references_first_append)
    then show ?thesis by blast
  qed
qed (use assms in \<open>auto simp: reordering_def unknown_pragmas_def waits_def chunk_def\<close>)

lemma visit_elements_steps:
  assumes "reordering lib i order st" "drop i lib = es" "i \<le> length lib"
  shows "\<exists>st' zs. visit_elements i es st = Some st' \<and> reordering lib (length lib) (order @ zs) st' \<and>
    (zs = [] \<longrightarrow> (\<forall>j \<in> {i..<length lib}. waits lib order j))"
  using assms
proof (induction es arbitrary: i order st)
  case Nil
  then have "i = length lib" by simp
  then show ?case using Nil by (intro exI [of _ st] exI [of _ "[]"]) simp
next
  case (Cons e es)
  have i: "i < length lib" "lib ! i = e" "drop (Suc i) lib = es"
    using Cons.prems(2) by (metis drop_all linorder_not_le list.distinct(1), metis nth_via_drop, metis drop_Suc tl_drop list.sel(3))
  obtain u where u: "visit_element i e st = Some u"
      "reordering lib (Suc i) order u \<and> waits lib order i \<or> reordering lib (Suc i) (order @ [i]) u"
    using visit_element_step [OF Cons.prems(1) i(1)] i(2) by blast
  have range: "{i..<length lib} = insert i {Suc i..<length lib}" using i(1) by auto
  from u(2) show ?case
  proof
    assume w: "reordering lib (Suc i) order u \<and> waits lib order i"
    then show ?thesis using Cons.IH [of "Suc i" order u] u(1) i(1,3) by (auto simp: range)
  next
    assume "reordering lib (Suc i) (order @ [i]) u"
    then obtain st' zs where "visit_elements (Suc i) es u = Some st'" "reordering lib (length lib) ((order @ [i]) @ zs) st'"
      using Cons.IH [OF _ i(3), of "order @ [i]" u] Suc_leI [OF i(1)] by blast
    then show ?thesis using u(1) by (intro exI [of _ st'] exI [of _ "i # zs"]) simp
  qed
qed

lemma chunk_ne [simp]: "chunk lib i \<noteq> []"
  by (simp add: chunk_def)

lemma tree_longer: "length (tree_of lib (order @ zs)) = length (tree_of lib order) \<longleftrightarrow> zs = []"
  by (cases zs) (auto simp: tree_of_def)

text \<open>The cycles end with an order in which every POU left out has to wait.\<close>

lemma forward_cycles_order:
  assumes "reordering lib 0 order (start_cycle st)"
  shows "\<exists>st' order'. forward_cycles lib st = Some st' \<and> reordering lib (length lib) order' st' \<and>
    others lib order' = unknown_pragmas lib (length lib) \<and> (\<forall>j < length lib. waits lib order' j)"
  using assms
proof (induction lib st arbitrary: order rule: forward_cycles.induct)
  case (1 lib st)
  obtain u zs where u: "visit_elements 0 lib (start_cycle st) = Some u" "reordering lib (length lib) (order @ zs) u"
      "zs = [] \<longrightarrow> (\<forall>j \<in> {0..<length lib}. waits lib order j)"
    using visit_elements_steps [OF "1.prems"] by auto
  have o: "others lib (order @ zs) = unknown_pragmas lib (length lib)"
    using u(2) unfolding reordering_def by (auto split: if_splits)
  have l: "length (new_tree st) = length (new_tree u) \<longleftrightarrow> zs = []"
    using "1.prems" u(2) tree_longer [of lib order zs] by (auto simp: reordering_def)
  show ?case
  proof (cases "zs = []")
    case True
    then show ?thesis using u o l by (auto simp: forward_cycles.simps [of lib st])
  next
    case False
    have "cycle_count u = Suc (cycle_count st)"
      using visit_elements_extends [OF u(1)] by (auto simp: extends_def)
    then have "reordering lib 0 (order @ zs) (start_cycle u)"
      using u(2) o unfolding reordering_def by simp
    from "1.IH" [OF u(1) _ this] False l show ?thesis using u(1) by (simp add: forward_cycles.simps [of lib st])
  qed
qed

lemma initial_order: "reordering lib 0 [] (start_cycle (initial lib))"
  using new_scopes by (auto simp: reordering_def initial_def tree_of_def unknown_pragmas_def references_first_def named_def)

lemma pou_count_tree:
  "pou_count (map (node_element lib) (tree_of lib order)) = length (pous lib order)"
proof -
  have "\<not> is_pou (node_element lib (pragma_at lib i))" for i
    by (induction i) auto
  then have "length (filter is_pou (map (node_element lib) (concat (map (chunk lib) order)))) = length (pous lib order)"
    by (induction order) (auto simp: chunk_def pous_def)
  moreover have "filter is_pou (map (node_element lib \<circ> Element) (data_types lib)) = []"
    by (auto simp: data_types_def filter_empty_conv)
  ultimately show ?thesis by (simp add: pou_count_def tree_of_def)
qed

lemma pou_count_lib: "pou_count lib = card {i. i < length lib \<and> is_pou (lib ! i)}"
  by (simp add: pou_count_def length_filter_conv_card)

lemma all_inserted:
  assumes "distinct (pous lib order)" "set (pous lib order) \<subseteq> {..<length lib}"
  shows "pou_count lib = length (pous lib order) \<longleftrightarrow> (\<forall>i < length lib. is_pou (lib ! i) \<longrightarrow> i \<in> set order)"
proof -
  let ?A = "{i. i < length lib \<and> is_pou (lib ! i)}"
  have sub: "set (pous lib order) \<subseteq> ?A" using assms(2) by auto
  have "length (pous lib order) = card (set (pous lib order))" using distinct_card [OF assms(1)] by simp
  then have "pou_count lib = length (pous lib order) \<longleftrightarrow> card (set (pous lib order)) = card ?A"
    unfolding pou_count_lib by metis
  also have "\<dots> \<longleftrightarrow> set (pous lib order) = ?A"
    using card_subset_eq [OF _ sub] by fastforce
  also have "\<dots> \<longleftrightarrow> (\<forall>i < length lib. is_pou (lib ! i) \<longrightarrow> i \<in> set order)" using sub by auto
  finally show ?thesis .
qed

text \<open>The result of the algorithm in terms of the order of the symbols it copies.\<close>

definition circular :: "library_element list \<Rightarrow> nat list \<Rightarrow> nat list" where
  "circular lib order = filter (\<lambda>i. i \<notin> set order \<and> may_be_circular (lib ! i)) [0..<length lib]"

lemma may_be_circular_pou: "may_be_circular e \<Longrightarrow> is_pou e"
  by (cases e) simp_all

lemma create_new_tree_order:
  "\<exists>order. create_new_tree lib =
      (if \<forall>i < length lib. is_pou (lib ! i) \<longrightarrow> i \<in> set order then Some (tree_of lib order, 0)
       else if circular lib order = [] then None else Some (tree_of lib order, length (circular lib order))) \<and>
    others lib order = unknown_pragmas lib (length lib) \<and> distinct (pous lib order) \<and>
    set (pous lib order) \<subseteq> {..<length lib} \<and> references_first lib (pous lib order) \<and> (\<forall>j < length lib. waits lib order j)"
proof -
  obtain st order where f: "forward_cycles lib (initial lib) = Some st" and r: "reordering lib (length lib) order st"
    and o: "others lib order = unknown_pragmas lib (length lib)" and w: "\<forall>j < length lib. waits lib order j"
    using forward_cycles_order [OF initial_order] by blast
  have s: "new_tree st = tree_of lib order" "inserted_symbols st = pous lib order" "distinct (pous lib order)"
    "set (pous lib order) \<subseteq> {..<length lib}" "references_first lib (pous lib order)"
    using r by (simp_all only: reordering_def)
  have "filter (\<lambda>i. i \<notin> set (inserted_symbols st) \<and> may_be_circular (lib ! i)) [0..<length lib] = circular lib order"
    unfolding circular_def s(2) by (rule filter_cong) (auto dest: may_be_circular_pou)
  then have "print_circ_error lib st = (if circular lib order = [] then None else Some (length (circular lib order)))"
    by (simp add: print_circ_error_def Let_def)
  then have "create_new_tree lib =
      (if \<forall>i < length lib. is_pou (lib ! i) \<longrightarrow> i \<in> set order then Some (tree_of lib order, 0)
       else if circular lib order = [] then None else Some (tree_of lib order, length (circular lib order)))"
    by (simp add: create_new_tree_def f s(1) pou_count_tree all_inserted [OF s(3,4)])
  then show ?thesis using o s(3-5) w by blast
qed

text \<open>C39: The new tree has the data types of the library, then every other element it keeps once, each POU behind the
  pragma for the generation of code that is in force at its old place, and every name a POU refers to
  is that of a POU further to the front. The elements it keeps are the unknown pragmas, in their order,
  and POUs; without an error they are all the POUs, else the errors are the functions and function
  blocks left out.\<close>

theorem forward_references_removed:
  assumes "create_new_tree lib = Some (tree, errors)"
  shows "\<exists>order. tree = map Element (data_types lib) @ concat (map (chunk lib) order) \<and>
    references_first lib (pous lib order) \<and> others lib order = unknown_pragmas lib (length lib) \<and>
    distinct (pous lib order) \<and> errors = length (circular lib order) \<and>
    (errors = 0 \<longleftrightarrow> set (pous lib order) = {i. i < length lib \<and> is_pou (lib ! i)})"
proof -
  obtain order where o: "create_new_tree lib =
      (if \<forall>i < length lib. is_pou (lib ! i) \<longrightarrow> i \<in> set order then Some (tree_of lib order, 0)
       else if circular lib order = [] then None else Some (tree_of lib order, length (circular lib order)))"
    "others lib order = unknown_pragmas lib (length lib)" "distinct (pous lib order)"
    "set (pous lib order) \<subseteq> {..<length lib}" "references_first lib (pous lib order)"
    using create_new_tree_order by blast
  have none: "circular lib order = []" if "\<forall>i < length lib. is_pou (lib ! i) \<longrightarrow> i \<in> set order"
    using that by (auto simp: circular_def filter_empty_conv dest: may_be_circular_pou)
  have all: "set (pous lib order) = {i. i < length lib \<and> is_pou (lib ! i)} \<longleftrightarrow>
      (\<forall>i < length lib. is_pou (lib ! i) \<longrightarrow> i \<in> set order)"
    using o(4) by auto
  have "tree = tree_of lib order \<and> errors = length (circular lib order) \<and>
      (errors = 0 \<longleftrightarrow> (\<forall>i < length lib. is_pou (lib ! i) \<longrightarrow> i \<in> set order))"
  proof (cases "\<forall>i < length lib. is_pou (lib ! i) \<longrightarrow> i \<in> set order")
    case True
    have "create_new_tree lib = Some (tree_of lib order, 0)" using o(1) unfolding if_P [OF True] .
    then show ?thesis using assms none [OF True] True by simp
  next
    case False
    have "(if circular lib order = [] then None else Some (tree_of lib order, length (circular lib order))) = Some (tree, errors)"
      using o(1) unfolding assms if_not_P [OF False] by (rule sym)
    then show ?thesis using False by (cases "circular lib order = []") auto
  qed
  then have "tree = tree_of lib order" "errors = length (circular lib order)"
    "errors = 0 \<longleftrightarrow> set (pous lib order) = {i. i < length lib \<and> is_pou (lib ! i)}"
    unfolding all by blast+
  with o(2,3,5) show ?thesis unfolding tree_of_def by (intro exI [of _ order] conjI)
qed

text \<open>C40: All POUs are in the new tree, without an error, exactly when they can be put in an order at all in which every
  name that is referred to is declared before.\<close>

theorem forward_order_found:
  "(\<exists>tree. create_new_tree lib = Some (tree, 0)) \<longleftrightarrow>
   (\<exists>order. set order = {i. i < length lib \<and> is_pou (lib ! i)} \<and> references_first lib order)"
proof -
  obtain order where o: "create_new_tree lib =
      (if \<forall>i < length lib. is_pou (lib ! i) \<longrightarrow> i \<in> set order then Some (tree_of lib order, 0)
       else if circular lib order = [] then None else Some (tree_of lib order, length (circular lib order)))"
    "set (pous lib order) \<subseteq> {..<length lib}" "references_first lib (pous lib order)" "\<forall>j < length lib. waits lib order j"
    using create_new_tree_order by blast
  let ?all = "\<forall>i < length lib. is_pou (lib ! i) \<longrightarrow> i \<in> set order"
  have "(\<exists>tree. create_new_tree lib = Some (tree, 0)) \<longleftrightarrow> ?all"
    using o(1) by auto
  moreover have "?all" if good: "set good = {i. i < length lib \<and> is_pou (lib ! i)}" "references_first lib good" for good
  proof -
    have "good ! k \<in> set order" if "k < length good" for k
      using that
    proof (induction k rule: less_induct)
      case (less k)
      have p: "good ! k < length lib" "is_pou (lib ! (good ! k))" using less.prems good(1) nth_mem by blast+
      have "up r \<in> named lib (pous lib order)" if "r \<in> set (references (lib ! (good ! k)))" for r
      proof -
        have "up r \<in> named lib (take k good)" using good(2) less.prems that by (auto simp: references_first_def)
        then obtain j where j: "j \<in> set (take k good)" "up r = up (element_name (lib ! j))" by (auto simp: named_def)
        then have "j \<in> set order \<and> is_pou (lib ! j)"
          using less.IH less.prems good(1) in_set_takeD [OF j(1)] by (auto simp: in_set_conv_nth [of _ "take k good"])
        then show ?thesis using j(2) by (auto simp: named_def)
      qed
      then show ?case using o(4) p by (auto simp: waits_def)
    qed
    then show ?all using good(1) by (metis (no_types, lifting) in_set_conv_nth mem_Collect_eq)
  qed
  moreover have "set (pous lib order) = {i. i < length lib \<and> is_pou (lib ! i)}" if ?all
    using that o(2) by auto
  ultimately show ?thesis using o(3) by blast
qed

section \<open>Overloaded names and data types\<close>

text \<open>A POU that uses one version of an overloaded function may come before that version, since the first
  version declares the name.\<close>

lemma overloaded_too_early:
  "create_new_tree
     [pou function_declaration ''F'' [] [] [],
      pou function_declaration ''G'' [] [] [''f''],
      pou function_declaration ''F'' [] [] []] =
   Some ([Default_pragma, Element 0, Default_pragma, Element 1, Default_pragma, Element 2], 0)"
  by code_simp

text \<open>A POU outside every circle is reported with the circle it waits for.\<close>

lemma innocent_reported:
  "map_option snd (create_new_tree
     [pou function_declaration ''F'' [] [] [''F''], pou function_declaration ''G'' [] [] [''F'']]) = Some 2"
  by code_simp

text \<open>A data type for which no code is to be generated comes in front of the pragma that says so.\<close>

lemma data_type_unguarded:
  "create_new_tree [disable_code_generation_pragma, data_type_declaration, pou function_declaration ''F'' [] [] []] =
   Some ([Element 1, Element 0, Element 2], 0)"
  by code_simp

section \<open>Witnesses\<close>

definition sample_library :: "library_element list" where
  "sample_library = [pou program_declaration ''MAIN'' [] [''Counter''] [''ADD''], pragma, data_type_declaration,
     disable_code_generation_pragma, pou function_block_declaration ''COUNTER'' [] [] [''add''],
     pou function_declaration ''ADD'' [] [] []]"

theorem forward_references_removed_witness:
  "\<exists>tree. create_new_tree sample_library = Some (tree, 0) \<and>
     (\<exists>order. tree = map Element (data_types sample_library) @ concat (map (chunk sample_library) order) \<and>
       references_first sample_library (pous sample_library order))"
proof -
  have "map_option snd (create_new_tree sample_library) = Some 0" by code_simp
  then obtain tree where t: "create_new_tree sample_library = Some (tree, 0)" by auto
  from forward_references_removed [OF this] t show ?thesis by blast
qed

end
