(* ===== verification/Spec2Isabelle.thy ===== *)
theory Spec2Isabelle
  imports ModbusProps ModbusMap NetServer PersistentStorage MainLoop PinLayers NetLayers GlueGenerator StOptimizer
    ModbusConfig Dnp3Server IecStringFunctions Pixtend Pixtend2s Arduino IlSoundness RangeChecks ForwardDependencies
begin

text \<open>
  A verification of the OpenPLC runtime, version 2: the C++ program that runs a compiled PLC
  program in a loop and offers its variables to hardware, to Modbus clients and to a DNP3 master.

  The program. A PLC program in Structured Text passes the filter \<open>st_optimizer_src\<close>, is compiled to
  C by matiec, and the glue generator (\<open>glue_generator_src\<close>) writes a function that points the
  entries of the tables of \<open>core/ladder.h\<close> (\<open>bool_input\<close>, \<open>int_output\<close>, \<open>dint_memory\<close> and so on)
  at the located variables. \<open>core/main.cpp\<close> runs the scan cycle: glue, inputs from the hardware
  layer, one execution of the program, outputs to the hardware layer, the time of the function
  blocks, sleep until the next period. In threads of their own run the Modbus/TCP slave
  (\<open>server.cpp\<close> and \<open>modbus.cpp\<close>), the DNP3 outstation (\<open>dnp3.cpp\<close>), the persistent storage and,
  in some layers, the exchange with the devices. They share the tables, which \<open>bufferLock\<close> guards.

  How the code is modelled.

  \<^item> An access outside an array, through NULL, or a signed overflow is \<open>None\<close>, and so is waiting for
    a mutex that nobody will release. That an operation returns \<open>Some\<close> is a theorem wherever it is
    used; that it is \<open>None\<close> for some input is a defect of the code, and stated as such.
  \<^item> A pointer is an element of the type \<open>cell\<close>, the objects live in heaps by C++ type, and a NULL
    entry of a table is \<open>None\<close> (\<open>IOBuffers\<close>). Integers are words of their width; positions and
    lengths whose range the code bounds are natural numbers.
  \<^item> A counting loop is \<open>for_range\<close> (\<open>Prelude\<close>), with rules for totality and invariants; other loops
    are recursive functions on lists. No model uses fuel: the loops that wait for a device run over
    the list of its answers, and the three loops of the calendar are terminating functions.
  \<^item> A thread is its step: one request, one pass, one iteration. The interleaving of any number of
    Modbus clients is the inductive relation \<open>srv_step\<close> (\<open>NetServer\<close>), in which every access to the
    global \<open>MessageLength\<close> is a step of its own.
  \<^item> What the code calls and this repository does not contain as its own source (sockets, files,
    wiringPi, libmodbus, opendnp3, the C program matiec produces) is a parameter: a function, or the
    list of its answers. Hypotheses on them are named (\<open>glue_ok\<close>, \<open>run_ok\<close>, \<open>answers_ok\<close>,
    \<open>spi_keeps_length\<close>) and met by a concrete instance in the witnesses.

  The theories, and what their lemmas show.

  \<^item> \<open>Prelude\<close>: arrays, loops, bytes and bits. \<open>CString\<close>: C strings, \<open>atoi\<close>, \<open>strncpy\<close>.
  \<^item> \<open>IOBuffers\<close> (\<open>ladder.h\<close>): the process image. \<open>RegisterFile\<close>: the holding registers as one
    array of 16-bit words, a locale with the laws of fetch and store, interpreted by the tables.
  \<^item> \<open>Modbus\<close> (\<open>modbus.cpp\<close>, every function); \<open>ModbusRead\<close>, \<open>ModbusWrite\<close>, \<open>ModbusServer\<close> compute each
    function code on every branch; \<open>ModbusProps\<close> has the properties: memory safety outside an explicit
    set of addresses, the replies of the read functions, write functions as stores to the register
    file, write followed by read, exception replies. \<open>ModbusMap\<close>: \<open>mapUnusedIO\<close>.
  \<^item> \<open>NetServer\<close> (\<open>server.cpp\<close>): a connection by itself answers every request; with several
    clients the mutex is never leaked and no reply leaves its array, but since \<open>MessageLength\<close> is shared
    a reply may be empty or have the length of another client's.
  \<^item> \<open>PersistentStorage\<close> (\<open>persistent_storage.cpp\<close>): what is saved and when; saved values are restored.
  \<^item> \<open>Hardware\<close>: the loops all layers share and the locale \<open>hw_layer\<close>, the contract of a layer with the
    main loop. \<open>MainLoop\<close> (\<open>main.cpp\<close>): the scan cycle over any \<open>hw_layer\<close>, the period of the loop.
    Every layer below is an interpretation of it.
  \<^item> \<open>PinLayers\<close> (\<open>blank.cpp\<close>, \<open>raspberrypi.cpp\<close>, \<open>unipi.cpp\<close>, \<open>fischertechnik.cpp\<close>): a whole cycle on
    the Raspberry Pi. \<open>NetLayers\<close> (\<open>simulink.cpp\<close>, \<open>esp8266.cpp\<close>): the reply to the ESP8266,
    whose server leaks a descriptor for every connection.
  \<^item> \<open>SpiFrames\<close>, \<open>Pixtend\<close>, \<open>Pixtend2s\<close> (\<open>pixtend.cpp\<close>, \<open>pixtend2s.cpp\<close>): the CRC-16 is linear and can
    be undone, hence no change confined to two neighbouring bytes of a frame goes unnoticed; the
    V2-S layer then keeps the last good inputs, the first layer delivers the corrupted ones.
  \<^item> \<open>Arduino\<close> (\<open>arduino.cpp\<close>): the packets with escapes are parsed in place as if they were read from
    another buffer; round trip of a packet, mixture of two packets.
  \<^item> \<open>ModbusMaster\<close>, \<open>ModbusConfig\<close> (\<open>modbus_master.cpp\<close>): one pass over the slave devices in closed form,
    what an unreachable device does to the others, printed configurations are parsed back.
  \<^item> \<open>Dnp3Server\<close> (\<open>dnp3.cpp\<close>): the command handler, the updates, the configuration file.
  \<^item> \<open>GlueGenerator\<close> (\<open>glue_generator.cpp\<close>): every located variable is pointed at by its entry.
    \<open>StOptimizer\<close> (\<open>st_optimizer.cpp\<close>): what the filter keeps, joins and duplicates.
  \<^item> \<open>IecTime\<close> (\<open>core/lib/iec_std_lib.h\<close>): arithmetic of times, the calendar, BCD. \<open>IecBlocks\<close>
    (\<open>core/lib/iec_std_FB.h\<close>, \<open>accessor.h\<close>): edge detectors, bistables, counters of five types, timers,
    clock and semaphore; \<open>TON\<close> refines an on-delay over real time, \<open>CTU\<close> counts rising edges.
    \<open>Floats\<close>: \<open>float\<close> and \<open>double\<close> with the rounding of IEEE 754, on which \<open>IecReals\<close> has the blocks on
    REAL numbers: a hysteresis remembers its last crossing, a ramp ends, an integral stalls.
    \<open>IecStrings\<close> (\<open>iec_std_lib.h\<close>): literals, conversions between numbers, times and strings, with
    round trips of bit strings and of decimal numbers.
  \<^item> \<open>IecFunctions\<close>, \<open>IecStringFunctions\<close> (\<open>iec_std_functions.h\<close>): the functions a PLC program calls, one
    definition for all the types a macro is expanded for. \<open>ity\<close> has the integer types; \<open>promote\<close>, \<open>arith\<close>
    and \<open>conv\<close> are the arithmetic of C on them. The lemmas give each group its meaning: sums of any
    number of operands, rotations of words, remainders, extrema and selections, sorted sequences for
    the comparisons, BCD numbers, and for strings the text of the result, with the arguments for
    which the code leaves its arrays.
  \<^item> Of the compiler matiec (\<open>src/matiec_src\<close>) the parts of its semantic analysis that compute:
    \<open>ConstantFolding\<close> and \<open>IlFolding\<close> (\<open>stage3/constant_folding.cc\<close>, \<open>flow_control_analysis.cc\<close>): the values of
    literals, expressions and Instruction List programs; folding agrees with exact arithmetic, and
    \<open>IlSoundness\<close> shows that the constant folded for an instruction is the accumulator in every run, by
    a locale of forward analyses. \<open>RangeChecks\<close> (\<open>array_range_check.cc\<close>, \<open>case_elements_check.cc\<close>): which
    subscripts and which overlapping cases are reported, and which are not. \<open>SymbolTable\<close>
    (\<open>util/symtable.cc\<close>, \<open>dsymtable.cc\<close>): nested scopes are a stack of maps, and a block leaves no trace;
    the locale \<open>scoped_table\<close> is the contract. \<open>ForwardDependencies\<close>
    (\<open>remove_forward_dependencies.cc\<close>): the reordering of a library ends, is right, and finds an order
    whenever there is one.

  Bounds. The arrays have the sizes of the source: 1024 entries of a table, 8 bits of an entry,
  buffers of 1024 bytes (Modbus), 400 values (master), 34 and 67 bytes (PiXtend), 100 bytes
  (Arduino). The hardware layers and \<open>dnp3.cpp\<close> have floating-point values as rational numbers, in the
  former with the rounding to \<open>double\<close> and \<open>float\<close> as a parameter; the IEC library and matiec have those of
  \<open>Floats\<close>.

  Not modelled: the vendored libraries opendnp3 and libmodbus; of matiec the scanner and parser,
  the analysis of data types, the propagation of declared constants and the generation of code; \<open>glueVars.cpp\<close>, an output of the generator;
  delays, log messages, and memory ordering between threads other than by the mutexes;
  the web server and the build scripts, which are not C++.

  The blocks TP, TOF, RTC, CTD and CTUD of \<open>IecBlocks\<close> are modelled without a theorem of their own.
\<close>

end
